(* ===== verification/Prelude.thy ===== *)
theory Prelude
  imports Main "HOL-Library.AList" "HOL-Library.Char_ord" "HOL-Library.List_Lexorder"
    "HOL-Library.Sublist" "HOL-Library.Multiset"
begin

text \<open>
  Shared ground of the development: Python exceptions as values, Python strings as character
  lists (\<open>str.strip\<close>, \<open>str.lower\<close>, \<open>int()\<close> on decimal text), Python dicts as association
  lists with insertion order, and the theorem collections that the component theories extend.
  A \<^typ>\<open>char\<close> stands for one code point below 256.
\<close>

named_theorems dict_simps \<open>lookup, update and removal on dicts\<close>
named_theorems str_simps \<open>evaluation of the string primitives\<close>
named_theorems step_simps \<open>unfolding of state-changing operations\<close>

section \<open>Exceptions as values\<close>

datatype py_exc =
    OSError
  | ValueError
  | UnicodeDecodeError
  | TypeError
  | AttributeError
  | OverflowError
  | KeyError
  | IndexError
  | ZeroDivisionError
  | Invalid
  | HomeAssistantError

text \<open>\<open>UnicodeDecodeError\<close> is a subclass of \<open>ValueError\<close>; the others are unrelated. \<open>Invalid\<close> is
  voluptuous' exception and \<open>HomeAssistantError\<close> Home Assistant's own.\<close>

definition is_value_error :: "py_exc \<Rightarrow> bool" where
  "is_value_error e \<longleftrightarrow> e = ValueError \<or> e = UnicodeDecodeError"

type_synonym 'a res = "py_exc + 'a"

abbreviation (input) Raise :: "py_exc \<Rightarrow> 'a res" where "Raise \<equiv> Inl"
abbreviation (input) Ok :: "'a \<Rightarrow> 'a res" where "Ok \<equiv> Inr"

definition bind_res :: "'a res \<Rightarrow> ('a \<Rightarrow> 'b res) \<Rightarrow> 'b res" where
  "bind_res r f = (case r of Inl e \<Rightarrow> Inl e | Inr x \<Rightarrow> f x)"

lemma bind_res_simps [simp]: "bind_res (Inl e) f = Inl e" "bind_res (Inr x) f = f x"
  by (simp_all add: bind_res_def)

lemma bind_res_Inr: "bind_res r f = Inr y \<longleftrightarrow> (\<exists>x. r = Inr x \<and> f x = Inr y)"
  by (cases r) auto

section \<open>Dicts\<close>

text \<open>
  A dict is an association list in insertion order: assigning to a present key keeps its
  place, a new key goes to the end, which is what \<^const>\<open>AList.update\<close> does.
\<close>

abbreviation dget :: "('k \<times> 'v) list \<Rightarrow> 'k \<Rightarrow> 'v option" where
  "dget d k \<equiv> map_of d k"

abbreviation dset :: "('k \<times> 'v) list \<Rightarrow> 'k \<Rightarrow> 'v \<Rightarrow> ('k \<times> 'v) list" where
  "dset d k v \<equiv> AList.update k v d"

definition ddel :: "('k \<times> 'v) list \<Rightarrow> 'k \<Rightarrow> ('k \<times> 'v) list" where
  "ddel d k = filter (\<lambda>p. fst p \<noteq> k) d"

abbreviation distinct_keys :: "('k \<times> 'v) list \<Rightarrow> bool" where
  "distinct_keys d \<equiv> distinct (map fst d)"

lemma dget_dset [dict_simps]: "dget (dset d k v) k' = (if k' = k then Some v else dget d k')"
  by (simp add: update_conv')

lemma dget_ddel [dict_simps]: "dget (ddel d k) k' = (if k' = k then None else dget d k')"
  by (induction d) (auto simp: ddel_def)

lemma distinct_keys_dset [simp]: "distinct_keys d \<Longrightarrow> distinct_keys (dset d k v)"
  by (rule distinct_update)

lemma distinct_keys_ddel [simp]: "distinct_keys d \<Longrightarrow> distinct_keys (ddel d k)"
  by (induction d) (auto simp: ddel_def)

lemma keys_dset [simp]: "fst ` set (dset d k v) = insert k (fst ` set d)"
  by (induction d) auto

lemma keys_ddel [simp]: "fst ` set (ddel d k) = fst ` set d - {k}"
  by (auto simp: ddel_def)

lemma set_ddel_subset: "set (ddel d k) \<subseteq> set d"
  by (auto simp: ddel_def)

lemma set_dset_subset: "set (dset d k v) \<subseteq> insert (k, v) (set d)"
  by (induction d) auto

lemma dset_new: "k \<notin> fst ` set d \<Longrightarrow> dset d k v = d @ [(k, v)]"
  by (induction d) auto

lemma ddel_absent: "k \<notin> fst ` set d \<Longrightarrow> ddel d k = d"
  by (induction d) (auto simp: ddel_def)

lemma ddel_dset_new: "k \<notin> fst ` set d \<Longrightarrow> ddel (dset d k v) k = d"
  using ddel_absent [of k d] by (simp add: dset_new ddel_def)

section \<open>Strings\<close>

abbreviation newline :: char where "newline \<equiv> CHR 10"

definition is_digit :: "char \<Rightarrow> bool" where
  "is_digit c \<longleftrightarrow> CHR ''0'' \<le> c \<and> c \<le> CHR ''9''"

definition is_lower :: "char \<Rightarrow> bool" where
  "is_lower c \<longleftrightarrow> CHR ''a'' \<le> c \<and> c \<le> CHR ''z''"

definition is_upper :: "char \<Rightarrow> bool" where
  "is_upper c \<longleftrightarrow> CHR ''A'' \<le> c \<and> c \<le> CHR ''Z''"

definition char_lower :: "char \<Rightarrow> char" where
  "char_lower c = (if is_upper c then char_of (of_char c + 32 :: nat) else c)"

definition lower :: "string \<Rightarrow> string" where
  "lower s = map char_lower s"

text \<open>The whitespace that \<open>bytes.strip\<close> and \<open>str.strip\<close> remove, below code point 256.\<close>

definition is_bspace :: "char \<Rightarrow> bool" where
  "is_bspace c \<longleftrightarrow> c \<in> {CHR 32, CHR 9, CHR 10, CHR 11, CHR 12, CHR 13}"

definition is_space :: "char \<Rightarrow> bool" where
  "is_space c \<longleftrightarrow> is_bspace c \<or> c \<in> {CHR 28, CHR 29, CHR 30, CHR 31, CHR 0x85, CHR 0xA0}"

definition strip_by :: "(char \<Rightarrow> bool) \<Rightarrow> string \<Rightarrow> string" where
  "strip_by P s = rev (dropWhile P (rev (dropWhile P s)))"

abbreviation strip :: "string \<Rightarrow> string" where "strip \<equiv> strip_by is_space"

abbreviation bstrip :: "string \<Rightarrow> string" where "bstrip \<equiv> strip_by is_bspace"

fun split_on :: "char \<Rightarrow> string \<Rightarrow> string list" where
  "split_on c [] = [[]]"
| "split_on c (x # xs) =
     (if x = c then [] # split_on c xs
      else (case split_on c xs of y # ys \<Rightarrow> (x # y) # ys | [] \<Rightarrow> [[x]]))"

fun join :: "string \<Rightarrow> string list \<Rightarrow> string" where
  "join sep [] = []"
| "join sep [x] = x"
| "join sep (x # xs) = x @ sep @ join sep xs"

lemma split_on_nonempty [simp]: "split_on c s \<noteq> []"
  by (induction s) (auto split: list.splits)

lemma split_on_no_sep: "c \<notin> set s \<Longrightarrow> split_on c s = [s]"
  by (induction s) auto

lemma split_on_append: "c \<notin> set s \<Longrightarrow> split_on c (s @ c # t) = s # split_on c t"
  by (induction s) auto

lemma split_on_parts: "p \<in> set (split_on c s) \<Longrightarrow> c \<notin> set p"
proof (induction s arbitrary: p)
  case Nil
  then show ?case by simp
next
  case (Cons x xs)
  then show ?case
    by (cases "split_on c xs") (auto split: if_splits)
qed

lemma strip_by_id:
  assumes "s \<noteq> []" "\<not> P (hd s)" "\<not> P (last s)"
  shows "strip_by P s = s"
proof -
  from assms have "dropWhile P s = s"
    by (cases s) auto
  moreover from assms have "dropWhile P (rev s) = rev s"
    by (cases s rule: rev_cases) auto
  ultimately show ?thesis by (simp add: strip_by_def)
qed

lemma strip_by_eq_Nil: "strip_by P s = [] \<longleftrightarrow> (\<forall>c \<in> set s. P c)"
proof -
  have "strip_by P s = [] \<longleftrightarrow> (\<forall>c \<in> set (dropWhile P s). P c)"
    by (simp add: strip_by_def)
  also have "\<dots> \<longleftrightarrow> (\<forall>c \<in> set s. P c)"
    by (induction s) auto
  finally show ?thesis .
qed

lemma strip_by_Nil [simp]: "strip_by P [] = []"
  by (simp add: strip_by_def)

section \<open>Decimal text\<close>

definition digit_char :: "nat \<Rightarrow> char" where
  "digit_char d = char_of (48 + d)"

definition digit_val :: "char \<Rightarrow> nat" where
  "digit_val c = of_char c - 48"

fun nat_text :: "nat \<Rightarrow> string" where
  "nat_text n = (if n < 10 then [digit_char n] else nat_text (n div 10) @ [digit_char (n mod 10)])"

declare nat_text.simps [simp del]

definition int_text :: "int \<Rightarrow> string" where
  "int_text i = (if i < 0 then CHR ''-'' # nat_text (nat (- i)) else nat_text (nat i))"

definition digits_val :: "string \<Rightarrow> nat" where
  "digits_val s = foldl (\<lambda>n c. 10 * n + digit_val c) 0 s"

lemma is_digit_iff: "is_digit c \<longleftrightarrow> 48 \<le> (of_char c :: nat) \<and> (of_char c :: nat) \<le> 57"
  by (simp add: is_digit_def less_eq_char_def)

lemma of_char_digit_char: "d < 10 \<Longrightarrow> (of_char (digit_char d) :: nat) = 48 + d"
  by (simp add: digit_char_def)

lemma is_digit_digit_char [simp]: "d < 10 \<Longrightarrow> is_digit (digit_char d)"
  by (simp add: is_digit_iff of_char_digit_char)

lemma digit_val_digit_char [simp]: "d < 10 \<Longrightarrow> digit_val (digit_char d) = d"
  by (simp add: digit_val_def of_char_digit_char)

lemma nat_text_digits: "c \<in> set (nat_text n) \<Longrightarrow> is_digit c"
proof (induction n rule: nat_text.induct)
  case (1 n)
  then show ?case
    by (subst (asm) (2) nat_text.simps) (auto split: if_splits)
qed

lemma nat_text_nonempty [simp]: "nat_text n \<noteq> []"
  by (subst nat_text.simps) simp

lemma digits_val_snoc: "digits_val (s @ [c]) = 10 * digits_val s + digit_val c"
  by (simp add: digits_val_def)

lemma digits_val_nat_text [simp]: "digits_val (nat_text n) = n"
proof (induction n rule: nat_text.induct)
  case (1 n)
  show ?case
  proof (cases "n < 10")
    case True
    then show ?thesis by (subst nat_text.simps) (simp add: digits_val_def)
  next
    case False
    with 1 have "digits_val (nat_text (n div 10)) = n div 10" by simp
    with False show ?thesis
      by (subst nat_text.simps) (simp add: digits_val_snoc)
  qed
qed

lemma nat_text_hd_zero: "hd (nat_text n) = CHR ''0'' \<longleftrightarrow> n = 0"
proof (induction n rule: nat_text.induct)
  case (1 n)
  show ?case
  proof (cases "n < 10")
    case True
    have "digit_char n = CHR ''0'' \<longleftrightarrow> n = 0"
    proof
      assume "digit_char n = CHR ''0''"
      then have "(of_char (digit_char n) :: nat) = of_char (CHR ''0'')" by simp
      with True show "n = 0" by (simp add: of_char_digit_char)
    qed (simp add: digit_char_def char_of_def bit_0)
    with True show ?thesis by (subst nat_text.simps) simp
  next
    case False
    with 1 have "hd (nat_text (n div 10)) = CHR ''0'' \<longleftrightarrow> n div 10 = 0" by simp
    with False show ?thesis by (subst nat_text.simps) (auto simp: hd_append)
  qed
qed

lemma nat_text_zero [simp]: "nat_text 0 = ''0''"
  by (subst nat_text.simps) (simp add: digit_char_def char_of_def bit_0)

end
