(* ===== verification/Json.thy ===== *)
theory Json
  imports Prelude
begin

text \<open>
  The part of Python's \<open>json\<close> module the program uses: \<open>json.dumps\<close> with either separator
  pair and with or without \<open>sort_keys\<close> (always \<open>ensure_ascii\<close>), and \<open>json.loads\<close>. A dict is an
  association list; a float is carried as the text \<open>float.__repr__\<close> gives. The parser is a
  recursive descent with fuel; two units per character are enough, because every second nested
  call has consumed a character (\<open>parse_value_fuel\<close>). The main lemmas: what \<open>dumps\<close> writes parses back to the value with
  its keys sorted, and parsing an object does not depend on what follows its closing brace.
\<close>

section \<open>Values\<close>

datatype json =
    JNull
  | JBool bool
  | JInt int
  | JFloat string
  | JStr string
  | JArr "json list"
  | JObj "(string \<times> json) list"

type_synonym dict = "(string \<times> json) list"

text \<open>\<open>isinstance(x, int)\<close> holds for bools too, which are 0 and 1.\<close>

fun as_pyint :: "json \<Rightarrow> int option" where
  "as_pyint (JInt i) = Some i"
| "as_pyint (JBool b) = Some (if b then 1 else 0)"
| "as_pyint _ = None"

fun is_bool :: "json \<Rightarrow> bool" where
  "is_bool (JBool _) = True"
| "is_bool _ = False"

fun as_str :: "json \<Rightarrow> string option" where
  "as_str (JStr s) = Some s"
| "as_str _ = None"

fun as_obj :: "json \<Rightarrow> dict option" where
  "as_obj (JObj d) = Some d"
| "as_obj _ = None"

text \<open>Truth value of a JSON value in a Python condition.\<close>

fun truthy :: "json \<Rightarrow> bool" where
  "truthy JNull = False"
| "truthy (JBool b) = b"
| "truthy (JInt i) = (i \<noteq> 0)"
| "truthy (JFloat t) = (\<exists>c \<in> set (takeWhile (\<lambda>c. c \<noteq> CHR ''e'' \<and> c \<noteq> CHR ''E'') t). is_digit c \<and> c \<noteq> CHR ''0'' \<or> c \<in> {CHR ''N'', CHR ''I''})"
| "truthy (JStr s) = (s \<noteq> [])"
| "truthy (JArr xs) = (xs \<noteq> [])"
| "truthy (JObj d) = (d \<noteq> [])"

section \<open>Printing\<close>

definition hex_digit :: "nat \<Rightarrow> char" where
  "hex_digit n = ''0123456789abcdef'' ! n"

definition escape_char :: "char \<Rightarrow> string" where
  "escape_char c =
     (if c = CHR 34 then [CHR 92, CHR 34]
      else if c = CHR 92 then [CHR 92, CHR 92]
      else if c = CHR 10 then [CHR 92, CHR ''n'']
      else if c = CHR 13 then [CHR 92, CHR ''r'']
      else if c = CHR 9 then [CHR 92, CHR ''t'']
      else if c = CHR 12 then [CHR 92, CHR ''f'']
      else if c = CHR 8 then [CHR 92, CHR ''b'']
      else if CHR 32 \<le> c \<and> c \<le> CHR 126 then [c]
      else [CHR 92, CHR ''u'', CHR ''0'', CHR ''0'',
            hex_digit (of_char c div 16), hex_digit (of_char c mod 16)])"

definition quote_str :: "string \<Rightarrow> string" where
  "quote_str s = CHR 34 # concat (map escape_char s) @ [CHR 34]"

text \<open>Items in insertion order, or sorted by key under \<open>sort_keys\<close>.\<close>

definition order_keys :: "bool \<Rightarrow> (string \<times> 'a) list \<Rightarrow> (string \<times> 'a) list" where
  "order_keys srt d = (if srt then sort_key fst d else d)"

fun dumps_with :: "bool \<Rightarrow> string \<Rightarrow> string \<Rightarrow> json \<Rightarrow> string" where
  "dumps_with srt isep ksep JNull = ''null''"
| "dumps_with srt isep ksep (JBool b) = (if b then ''true'' else ''false'')"
| "dumps_with srt isep ksep (JInt i) = int_text i"
| "dumps_with srt isep ksep (JFloat t) = t"
| "dumps_with srt isep ksep (JStr s) = quote_str s"
| "dumps_with srt isep ksep (JArr xs) =
     ''['' @ join isep (map (dumps_with srt isep ksep) xs) @ '']''"
| "dumps_with srt isep ksep (JObj d) =
     ''{'' @ join isep
        (map (\<lambda>p. quote_str (fst p) @ ksep @ snd p)
          (order_keys srt (map (\<lambda>p. (fst p, dumps_with srt isep ksep (snd p))) d))) @ ''}''"

text \<open>\<open>json.dumps(x, sort_keys=True)\<close>, \<open>json.dumps(x)\<close>, and the compact sorted form.\<close>

abbreviation dumps_sorted :: "json \<Rightarrow> string" where
  "dumps_sorted \<equiv> dumps_with True '', '' '': ''"

abbreviation dumps_plain :: "json \<Rightarrow> string" where
  "dumps_plain \<equiv> dumps_with False '', '' '': ''"

abbreviation dumps_compact :: "json \<Rightarrow> string" where
  "dumps_compact \<equiv> dumps_with True '','' '':''"

section \<open>Parsing\<close>

definition is_json_ws :: "char \<Rightarrow> bool" where
  "is_json_ws c \<longleftrightarrow> c \<in> {CHR 32, CHR 9, CHR 10, CHR 13}"

abbreviation skip_ws :: "string \<Rightarrow> string" where
  "skip_ws s \<equiv> dropWhile is_json_ws s"

definition hex_val :: "char \<Rightarrow> nat option" where
  "hex_val c =
     (let n = of_char c :: nat in
      if 48 \<le> n \<and> n \<le> 57 then Some (n - 48)
      else if 97 \<le> n \<and> n \<le> 102 then Some (n - 87)
      else if 65 \<le> n \<and> n \<le> 70 then Some (n - 55)
      else None)"

text \<open>The one replacement character that stands for every code point above 255.\<close>

definition wide_char :: char where "wide_char = CHR 0xFF"

definition hex4 :: "char \<Rightarrow> char \<Rightarrow> char \<Rightarrow> char \<Rightarrow> char option" where
  "hex4 a b c d =
     (case (hex_val a, hex_val b, hex_val c, hex_val d) of
        (Some w, Some x, Some y, Some z) \<Rightarrow>
          Some (if w = 0 \<and> x = 0 then char_of (16 * y + z) else wide_char)
      | _ \<Rightarrow> None)"

definition simple_escape :: "char \<Rightarrow> char option" where
  "simple_escape c =
     (if c = CHR 34 \<or> c = CHR 92 \<or> c = CHR ''/'' then Some c
      else if c = CHR ''b'' then Some (CHR 8)
      else if c = CHR ''f'' then Some (CHR 12)
      else if c = CHR ''n'' then Some (CHR 10)
      else if c = CHR ''r'' then Some (CHR 13)
      else if c = CHR ''t'' then Some (CHR 9)
      else None)"

text \<open>The escape after a backslash: the character it denotes and what follows.\<close>

definition scan_escape :: "string \<Rightarrow> (char \<times> string) option" where
  "scan_escape s =
     (case s of
        [] \<Rightarrow> None
      | e # t \<Rightarrow>
          if e = CHR ''u'' then
            (case t of
               a # b # x # y # r \<Rightarrow> map_option (\<lambda>v. (v, r)) (hex4 a b x y)
             | _ \<Rightarrow> None)
          else map_option (\<lambda>v. (v, t)) (simple_escape e))"

lemma scan_escape_length: "scan_escape s = Some (v, r) \<Longrightarrow> length r < length s"
  by (auto simp: scan_escape_def split: list.splits if_splits)

text \<open>The rest of a string literal, after its opening quote; raw control characters are errors.\<close>

function (sequential) scan_string :: "string \<Rightarrow> (string \<times> string) option" where
  "scan_string [] = None"
| "scan_string (c # s) =
     (if c = CHR 34 then Some ([], s)
      else if c = CHR 92 then
        (case scan_escape s of
           None \<Rightarrow> None
         | Some (v, s') \<Rightarrow> map_option (\<lambda>(t, r). (v # t, r)) (scan_string s'))
      else if c < CHR 32 then None
      else map_option (\<lambda>(t, r). (c # t, r)) (scan_string s))"
  by pat_completeness auto
termination
  by (relation "measure length") (auto dest: scan_escape_length)

text \<open>
  The number grammar \<open>-?(0|[1-9][0-9]*)(\.[0-9]+)?([eE][-+]?[0-9]+)?\<close>: the integer part, then
  whatever of the optional parts is present.
\<close>

definition scan_frac :: "string \<Rightarrow> string \<times> string" where
  "scan_frac s =
     (case s of
        c # t \<Rightarrow> if c = CHR ''.'' \<and> takeWhile is_digit t \<noteq> []
                 then (c # takeWhile is_digit t, dropWhile is_digit t) else ([], s)
      | [] \<Rightarrow> ([], s))"

definition scan_exp :: "string \<Rightarrow> string \<times> string" where
  "scan_exp s =
     (case s of
        c # t \<Rightarrow>
          if c = CHR ''e'' \<or> c = CHR ''E'' then
            (let (sg, u) = (case t of d # u \<Rightarrow> if d = CHR ''-'' \<or> d = CHR ''+'' then ([d], u) else ([], t)
                            | [] \<Rightarrow> ([], t))
             in if takeWhile is_digit u \<noteq> []
                then (c # sg @ takeWhile is_digit u, dropWhile is_digit u) else ([], s))
          else ([], s)
      | [] \<Rightarrow> ([], s))"

definition scan_intpart :: "string \<Rightarrow> (string \<times> string) option" where
  "scan_intpart s =
     (case s of
        [] \<Rightarrow> None
      | c # t \<Rightarrow>
          if c = CHR ''0'' then Some ([c], t)
          else if is_digit c then Some (takeWhile is_digit s, dropWhile is_digit s)
          else None)"

definition scan_number :: "string \<Rightarrow> (json \<times> string) option" where
  "scan_number s =
     (let (neg, u) = (case s of c # t \<Rightarrow> if c = CHR ''-'' then (True, t) else (False, s) | [] \<Rightarrow> (False, s))
      in case scan_intpart u of
           None \<Rightarrow> None
         | Some (ip, r) \<Rightarrow>
             (let (fp, r1) = scan_frac r; (ep, r2) = scan_exp r1
              in Some (if fp = [] \<and> ep = []
                       then JInt (if neg then - int (digits_val ip) else int (digits_val ip))
                       else JFloat ((if neg then ''-'' else []) @ ip @ fp @ ep), r2)))"

definition scan_literal :: "string \<Rightarrow> (json \<times> string) option" where
  "scan_literal s =
     (if prefix ''null'' s then Some (JNull, drop 4 s)
      else if prefix ''true'' s then Some (JBool True, drop 4 s)
      else if prefix ''false'' s then Some (JBool False, drop 5 s)
      else if prefix ''NaN'' s then Some (JFloat ''NaN'', drop 3 s)
      else if prefix ''Infinity'' s then Some (JFloat ''Infinity'', drop 8 s)
      else if prefix ''-Infinity'' s then Some (JFloat ''-Infinity'', drop 9 s)
      else scan_number s)"

fun parse_value :: "nat \<Rightarrow> string \<Rightarrow> (json \<times> string) option"
  and parse_members :: "nat \<Rightarrow> dict \<Rightarrow> string \<Rightarrow> (json \<times> string) option"
  and parse_elems :: "nat \<Rightarrow> json list \<Rightarrow> string \<Rightarrow> (json \<times> string) option"
where
  "parse_value 0 s = None"
| "parse_value (Suc n) s =
     (case s of
        [] \<Rightarrow> None
      | c # t \<Rightarrow>
          if c = CHR 34 then map_option (\<lambda>(v, r). (JStr v, r)) (scan_string t)
          else if c = CHR ''{'' then
            (case skip_ws t of
               d # r \<Rightarrow> if d = CHR ''}'' then Some (JObj [], r) else parse_members n [] (d # r)
             | [] \<Rightarrow> None)
          else if c = CHR ''['' then
            (case skip_ws t of
               d # r \<Rightarrow> if d = CHR '']'' then Some (JArr [], r) else parse_elems n [] (d # r)
             | [] \<Rightarrow> None)
          else scan_literal s)"
| "parse_members 0 d s = None"
| "parse_members (Suc n) d s =
     (case s of
        [] \<Rightarrow> None
      | q # t \<Rightarrow>
          if q \<noteq> CHR 34 then None
          else case scan_string t of
            None \<Rightarrow> None
          | Some (k, r) \<Rightarrow>
              (case skip_ws r of
                 [] \<Rightarrow> None
               | col # r1 \<Rightarrow>
                   if col \<noteq> CHR '':'' then None
                   else case parse_value n (skip_ws r1) of
                     None \<Rightarrow> None
                   | Some (v, r2) \<Rightarrow>
                       (case skip_ws r2 of
                          [] \<Rightarrow> None
                        | e # r3 \<Rightarrow>
                            if e = CHR ''}'' then Some (JObj (dset d k v), r3)
                            else if e = CHR '','' then parse_members n (dset d k v) (skip_ws r3)
                            else None)))"
| "parse_elems 0 xs s = None"
| "parse_elems (Suc n) xs s =
     (case parse_value n s of
        None \<Rightarrow> None
      | Some (v, r) \<Rightarrow>
          (case skip_ws r of
             [] \<Rightarrow> None
           | e # r1 \<Rightarrow>
               if e = CHR '']'' then Some (JArr (xs @ [v]), r1)
               else if e = CHR '','' then parse_elems n (xs @ [v]) (skip_ws r1)
               else None))"

definition loads :: "string \<Rightarrow> json option" where
  "loads s =
     (case parse_value (Suc (2 * length s)) (skip_ws s) of
        None \<Rightarrow> None
      | Some (v, r) \<Rightarrow> if skip_ws r = [] then Some v else None)"

section \<open>Strings and numbers survive the round trip\<close>

lemma hex_val_hex_digit: "n < 16 \<Longrightarrow> hex_val (hex_digit n) = Some n"
proof -
  assume "n < 16"
  then have "n \<in> set [0..<16]" by simp
  moreover have "\<forall>n \<in> set [0..<16]. hex_val (hex_digit n) = Some n"
    by code_simp
  ultimately show ?thesis by blast
qed

lemma hex4_escape:
  "hex4 (CHR ''0'') (CHR ''0'') (hex_digit (of_char c div 16)) (hex_digit (of_char c mod 16)) = Some c"
proof -
  have "(of_char c :: nat) < 256" by simp
  then have "(of_char c :: nat) div 16 < 16" by (intro less_mult_imp_div_less) simp
  moreover have "hex_val (CHR ''0'') = Some 0" by code_simp
  moreover have "16 * ((of_char c :: nat) div 16) + of_char c mod 16 = of_char c" by simp
  ultimately show ?thesis
    by (simp add: hex4_def hex_val_hex_digit del: mult_div_mod_eq)
qed

lemma scan_string_escape_char:
  "scan_string (escape_char c @ s) = map_option (\<lambda>(t, r). (c # t, r)) (scan_string s)"
proof -
  have *: "\<not> CHR 34 < CHR 32" "\<not> CHR 92 < CHR 32" by code_simp+
  show ?thesis
    by (auto simp: escape_char_def scan_escape_def hex4_escape simple_escape_def dest: leD)
qed

lemma scan_string_quote:
  "scan_string (concat (map escape_char s) @ CHR 34 # rest) = Some (s, rest)"
  by (induction s) (auto simp: scan_string_escape_char)

lemma scan_escape_ext:
  "scan_escape p = Some (v, r) \<Longrightarrow> scan_escape (p @ q) = Some (v, r @ q)"
  by (auto simp: scan_escape_def split: list.splits if_splits)

lemma scan_string_ext:
  "scan_string p = Some (t, r) \<Longrightarrow> scan_string (p @ q) = Some (t, r @ q)"
proof (induction p arbitrary: t r rule: scan_string.induct)
  case 1
  then show ?case by simp
next
  case (2 c s)
  then show ?case
    by (auto split: if_splits option.splits dest: scan_escape_ext [where q = q])
qed

text \<open>What may follow a value: nothing, white space, or a closing or separating character.\<close>

definition ends_value :: "string \<Rightarrow> bool" where
  "ends_value s \<longleftrightarrow> s = [] \<or> is_json_ws (hd s) \<or> hd s \<in> {CHR '','', CHR ''}'', CHR '']''}"

lemma span_ext:
  assumes "dropWhile P t = r" "r @ q = [] \<or> \<not> P (hd (r @ q))"
  shows "takeWhile P (t @ q) = takeWhile P t" "dropWhile P (t @ q) = r @ q"
  using assms by (induction t) (auto simp: takeWhile_eq_Nil_iff dropWhile_eq_self_iff split: if_splits)

lemma scan_intpart_ext:
  assumes "scan_intpart p = Some (ip, r)" "r @ q = [] \<or> \<not> is_digit (hd (r @ q))"
  shows "scan_intpart (p @ q) = Some (ip, r @ q)"
proof (cases p)
  case Nil
  with assms(1) show ?thesis by (simp add: scan_intpart_def)
next
  case (Cons c t)
  with assms span_ext [of is_digit p r q] show ?thesis
    by (auto simp: scan_intpart_def split: if_splits)
qed

lemma scan_frac_ext:
  assumes "scan_frac p = (f, r)" "r @ q = [] \<or> \<not> is_digit (hd (r @ q)) \<and> hd (r @ q) \<noteq> CHR ''.''"
  shows "scan_frac (p @ q) = (f, r @ q)"
proof (cases p)
  case Nil
  with assms show ?thesis by (auto simp: scan_frac_def split: list.splits)
next
  case (Cons c t)
  show ?thesis
  proof (cases "c = CHR ''.'' \<and> takeWhile is_digit t \<noteq> []")
    case True
    with assms Cons span_ext [of is_digit t r q] show ?thesis
      by (auto simp: scan_frac_def)
  next
    case False
    with assms Cons show ?thesis by (auto simp: scan_frac_def)
  qed
qed

lemma scan_exp_ext:
  assumes "scan_exp p = (e, r)"
    "r @ q = [] \<or> \<not> is_digit (hd (r @ q)) \<and> hd (r @ q) \<noteq> CHR ''e'' \<and> hd (r @ q) \<noteq> CHR ''E''"
  shows "scan_exp (p @ q) = (e, r @ q)"
proof (cases p)
  case Nil
  with assms show ?thesis by (auto simp: scan_exp_def split: list.splits)
next
  case (Cons c t)
  show ?thesis
  proof (cases "(c = CHR ''e'' \<or> c = CHR ''E'') \<and> r \<noteq> p")
    case True
    obtain sg u where su: "(case t of d # u \<Rightarrow> if d = CHR ''-'' \<or> d = CHR ''+'' then ([d], u) else ([], t)
                            | [] \<Rightarrow> ([], t)) = (sg, u)" by fastforce
    from True assms(1) Cons su have u: "takeWhile is_digit u \<noteq> []" "r = dropWhile is_digit u"
      "e = c # sg @ takeWhile is_digit u"
      by (auto simp: scan_exp_def split: if_splits)
    from su u have "(case t @ q of d # u \<Rightarrow> if d = CHR ''-'' \<or> d = CHR ''+'' then ([d], u) else ([], t @ q)
                            | [] \<Rightarrow> ([], t @ q)) = (sg, u @ q)"
      by (cases t) (auto split: if_splits)
    with True u span_ext [of is_digit u r q] assms(2) Cons show ?thesis
      by (auto simp: scan_exp_def)
  next
    case False
    with assms Cons show ?thesis
      by (auto simp: scan_exp_def split: if_splits prod.splits)
  qed
qed

lemma ends_value_first:
  "ends_value s \<Longrightarrow> s = [] \<or> \<not> is_digit (hd s) \<and> hd s \<noteq> CHR ''.'' \<and> hd s \<noteq> CHR ''e'' \<and> hd s \<noteq> CHR ''E''"
proof -
  have "\<forall>c \<in> {CHR 32, CHR 9, CHR 10, CHR 13, CHR '','', CHR ''}'', CHR '']''}.
          \<not> is_digit c \<and> c \<noteq> CHR ''.'' \<and> c \<noteq> CHR ''e'' \<and> c \<noteq> CHR ''E''"
    by code_simp
  then show "ends_value s \<Longrightarrow> ?thesis" by (auto simp: ends_value_def is_json_ws_def)
qed

lemma scan_exp_rest:
  "scan_exp p = (e, r) \<Longrightarrow> r = p \<and> e = [] \<or> (\<exists>c t. p = c # t \<and> (c = CHR ''e'' \<or> c = CHR ''E''))"
  by (auto simp: scan_exp_def split: list.splits if_splits prod.splits)

lemma scan_frac_rest:
  "scan_frac p = (f, r) \<Longrightarrow> r = p \<and> f = [] \<or> (\<exists>t. p = CHR ''.'' # t)"
  by (auto simp: scan_frac_def split: list.splits if_splits)

lemma scan_number_ext:
  assumes p: "scan_number p = Some (v, r)" and r: "ends_value (r @ q)"
  shows "scan_number (p @ q) = Some (v, r @ q)"
proof -
  have e: "\<not> is_digit (CHR ''e'') \<and> \<not> is_digit (CHR ''E'') \<and> \<not> is_digit (CHR ''.'')"
    by code_simp
  obtain neg u where u: "(case p of c # t \<Rightarrow> if c = CHR ''-'' then (True, t) else (False, p) | [] \<Rightarrow> (False, p)) = (neg, u)"
    by fastforce
  with p have ip: "scan_intpart u \<noteq> None" by (auto simp: scan_number_def split: option.splits)
  then obtain ip a where ip: "scan_intpart u = Some (ip, a)" by auto
  obtain fp b where fp: "scan_frac a = (fp, b)" by fastforce
  obtain ep b' where ep: "scan_exp b = (ep, b')" by fastforce
  from p u ip fp ep have [simp]: "b' = r" by (simp add: scan_number_def)
  note last = ends_value_first [OF r]
  have b: "b @ q = [] \<or> \<not> is_digit (hd (b @ q)) \<and> hd (b @ q) \<noteq> CHR ''.''"
    using scan_exp_rest [OF ep] last e by auto
  then have a: "a @ q = [] \<or> \<not> is_digit (hd (a @ q))"
    using scan_frac_rest [OF fp] e by auto
  have "p \<noteq> []" using ip u by (auto simp: scan_intpart_def)
  with u have "(case p @ q of c # t \<Rightarrow> if c = CHR ''-'' then (True, t) else (False, p @ q) | [] \<Rightarrow> (False, p @ q)) = (neg, u @ q)"
    by (auto split: list.splits if_splits)
  with p u ip fp ep show ?thesis
    using scan_intpart_ext [OF ip a] scan_frac_ext [OF fp b] scan_exp_ext [of b ep r q] last
    by (auto simp: scan_number_def)
qed

lemma scan_number_int_text: "scan_number (int_text i) = Some (JInt i, [])"
proof -
  have *: "scan_intpart (nat_text n) = Some (nat_text n, [])" for n
  proof (cases "n = 0")
    case True
    then show ?thesis by (simp add: scan_intpart_def)
  next
    case False
    obtain c t where ct: "nat_text n = c # t" by (cases "nat_text n") auto
    with False nat_text_hd_zero [of n] nat_text_digits [of _ n] show ?thesis
      by (auto simp: scan_intpart_def takeWhile_eq_all_conv dropWhile_eq_Nil_conv)
  qed
  have hd: "nat_text n = c # t \<Longrightarrow> c \<noteq> CHR ''-''" for n c t
  proof
    assume "nat_text n = c # t" "c = CHR ''-''"
    then have "is_digit (CHR ''-'')" using nat_text_digits [of c n] by simp
    then show False by (simp add: is_digit_def less_eq_char_def)
  qed
  have "scan_number (nat_text n) = Some (JInt (int n), [])" for n
  proof -
    obtain c t where ct: "nat_text n = c # t" by (cases "nat_text n") auto
    with hd * [of n] digits_val_nat_text [of n] show ?thesis
      by (simp add: scan_number_def scan_frac_def scan_exp_def)
  qed
  then show ?thesis
    by (auto simp: int_text_def scan_number_def * scan_frac_def scan_exp_def)
qed


section \<open>The round trip\<close>

text \<open>A float's text is one that the number grammar reads back as that same float.\<close>

definition float_ok :: "string \<Rightarrow> bool" where
  "float_ok t \<longleftrightarrow> scan_number t = Some (JFloat t, [])"

fun wf_json :: "json \<Rightarrow> bool" where
  "wf_json (JFloat t) = float_ok t"
| "wf_json (JArr xs) = (\<forall>x \<in> set xs. wf_json x)"
| "wf_json (JObj d) = (distinct_keys d \<and> (\<forall>p \<in> set d. wf_json (snd p)))"
| "wf_json _ = True"

text \<open>The value with its keys in the order in which \<^const>\<open>dumps_with\<close> writes them.\<close>

fun canon :: "bool \<Rightarrow> json \<Rightarrow> json" where
  "canon srt (JArr xs) = JArr (map (canon srt) xs)"
| "canon srt (JObj d) =
     JObj (order_keys srt (map (\<lambda>p. (fst p, canon srt (snd p))) d))"
| "canon srt v = v"

abbreviation spaced :: "bool \<Rightarrow> json \<Rightarrow> string" where
  "spaced srt \<equiv> dumps_with srt '', '' '': ''"

lemma scan_intpart_digit: "scan_intpart u = Some x \<Longrightarrow> u \<noteq> [] \<and> is_digit (hd u)"
proof -
  have "is_digit (CHR ''0'')" by code_simp
  then show "scan_intpart u = Some x \<Longrightarrow> ?thesis"
    by (auto simp: scan_intpart_def split: list.splits if_splits)
qed

lemma scan_number_first:
  assumes "scan_number s = Some x"
  obtains c t where "s = c # t" "is_digit c \<or> c = CHR ''-'' \<and> t \<noteq> [] \<and> is_digit (hd t)"
proof (cases s)
  case Nil
  with assms show ?thesis by (simp add: scan_number_def scan_intpart_def)
next
  case (Cons c t)
  show ?thesis
  proof (cases "c = CHR ''-''")
    case True
    with assms Cons have "scan_intpart t \<noteq> None"
      by (auto simp: scan_number_def split: option.splits)
    with Cons True scan_intpart_digit [of t] that show ?thesis by auto
  next
    case False
    with assms Cons have "scan_intpart s \<noteq> None"
      by (auto simp: scan_number_def split: option.splits)
    with Cons scan_intpart_digit [of s] that show ?thesis by auto
  qed
qed

lemma scan_literal_number_start:
  assumes "scan_number s = Some x"
  shows "scan_literal (s @ q) = scan_number (s @ q)"
    and "s \<noteq> []" "hd s \<noteq> CHR 34" "hd s \<noteq> CHR ''{''" "hd s \<noteq> CHR ''[''"
      "hd s \<noteq> CHR '']''" "\<not> is_json_ws (hd s)"
proof -
  obtain c t where s: "s = c # t" and
    c: "is_digit c \<or> c = CHR ''-'' \<and> t \<noteq> [] \<and> is_digit (hd t)"
    using assms by (rule scan_number_first)
  then show "s \<noteq> []" "hd s \<noteq> CHR 34" "hd s \<noteq> CHR ''{''" "hd s \<noteq> CHR ''[''"
    "hd s \<noteq> CHR '']''" "\<not> is_json_ws (hd s)"
    by (auto simp: is_json_ws_def is_digit_iff)
  have "\<not> prefix ''null'' (s @ q)" "\<not> prefix ''true'' (s @ q)" "\<not> prefix ''false'' (s @ q)"
    "\<not> prefix ''NaN'' (s @ q)" "\<not> prefix ''Infinity'' (s @ q)"
    using c by (auto simp: s is_digit_iff)
  moreover have "\<not> prefix ''-Infinity'' (s @ q)"
    using c by (cases t) (auto simp: s is_digit_iff)
  ultimately show "scan_literal (s @ q) = scan_number (s @ q)"
    by (simp add: scan_literal_def)
qed

lemma parse_number:
  assumes s: "scan_number s = Some (v, [])" and q: "ends_value q"
  shows "parse_value (Suc n) (s @ q) = Some (v, q)"
proof -
  note st = scan_literal_number_start [OF s]
  obtain c t where ct: "s = c # t" using st(2) by (cases s) auto
  with st have "parse_value (Suc n) (s @ q) = scan_number (s @ q)"
    using st(1) [of q] by simp
  with scan_number_ext [OF s, of q] q show ?thesis by simp
qed

text \<open>One value parses back in any context that ends it, given enough fuel.\<close>

definition reads_back :: "string \<Rightarrow> json \<Rightarrow> bool" where
  "reads_back t v \<longleftrightarrow>
     (\<forall>n q. 2 * length (t @ q) < n \<longrightarrow> ends_value q \<longrightarrow> parse_value n (t @ q) = Some (v, q)) \<and>
     t \<noteq> [] \<and> \<not> is_json_ws (hd t) \<and> hd t \<noteq> CHR '']''"

lemma reads_backD:
  "reads_back t v \<Longrightarrow> 2 * length (t @ q) < n \<Longrightarrow> ends_value q \<Longrightarrow> parse_value n (t @ q) = Some (v, q)"
  by (simp add: reads_back_def)

lemma skip_ws_text: "reads_back t v \<Longrightarrow> skip_ws (t @ q) = t @ q"
  by (cases t) (auto simp: reads_back_def)

lemma ends_value_closers [simp]:
  "ends_value (CHR '']'' # q)" "ends_value (CHR ''}'' # q)" "ends_value (CHR '','' # q)" "ends_value []"
  "ends_value (CHR 10 # q)"
  by (simp_all add: ends_value_def is_json_ws_def)

lemma ws_chars [simp]:
  "\<not> is_json_ws (CHR '']'')" "\<not> is_json_ws (CHR ''}'')" "\<not> is_json_ws (CHR '','')"
  "\<not> is_json_ws (CHR '':'')" "\<not> is_json_ws (CHR 34)" "is_json_ws (CHR 32)"
  by (simp_all add: is_json_ws_def)

lemma skip_ws_prefix: "\<forall>c \<in> set w. is_json_ws c \<Longrightarrow> skip_ws (w @ s) = skip_ws s"
  by (induction w) auto

lemma parse_elems_text:
  assumes isep: "isep = CHR '','' # w" "\<forall>c \<in> set w. is_json_ws c"
    and "list_all2 reads_back ts vs" "ts \<noteq> []" "2 * length (join isep ts @ '']'' @ q) + 1 < n"
  shows "parse_elems n acc (join isep ts @ '']'' @ q) = Some (JArr (acc @ vs), q)"
  using assms(3-5)
proof (induction ts arbitrary: vs acc n)
  case Nil
  then show ?case by simp
next
  case (Cons t ts)
  from Cons.prems(1) obtain v vs' where vs: "vs = v # vs'" "reads_back t v" "list_all2 reads_back ts vs'"
    by (auto simp: list_all2_Cons1)
  obtain m where n: "n = Suc m" using Cons.prems(3) by (cases n) auto
  show ?case
  proof (cases ts)
    case Nil
    with Cons.prems vs n have "parse_value m (t @ '']'' @ q) = Some (v, '']'' @ q)"
      by (intro reads_backD) auto
    with Nil n vs show ?thesis by simp
  next
    case (Cons t' ts')
    let ?rest = "join isep ts @ '']'' @ q"
    have j: "join isep (t # ts) @ '']'' @ q = t @ isep @ ?rest"
      using Cons by simp
    with Cons.prems(3) n have "parse_value m (t @ isep @ ?rest) = Some (v, isep @ ?rest)"
      by (intro reads_backD [OF vs(2)]) (auto simp: isep(1))
    moreover have "skip_ws (w @ ?rest) = ?rest"
    proof -
      from vs(3) Cons obtain v' where "reads_back t' v'" by (auto simp: list_all2_Cons1)
      from skip_ws_text [OF this] Cons isep(2) show ?thesis by (cases ts') (auto simp: skip_ws_prefix)
    qed
    moreover have "parse_elems m (acc @ [v]) ?rest = Some (JArr ((acc @ [v]) @ vs'), q)"
      using Cons.IH [OF vs(3), of m "acc @ [v]"] Cons.prems(3) n j Cons by (simp add: isep(1))
    ultimately show ?thesis using n j vs(1) isep(1) by simp
  qed
qed

lemma insort_key_map:
  "insort_key f (g x) (map g xs) = map g (insort_key (\<lambda>x. f (g x)) x xs)"
  by (induction xs) auto

lemma sort_key_map: "sort_key f (map g xs) = map g (sort_key (\<lambda>x. f (g x)) xs)"
  by (induction xs) (auto simp: insort_key_map)

lemma order_keys_map:
  "order_keys srt (map (\<lambda>p. (fst p, g (snd p))) d) = map (\<lambda>p. (fst p, g (snd p))) (order_keys srt d)"
  by (simp add: order_keys_def sort_key_map)

lemma mset_order_keys [simp]: "mset (order_keys srt d) = mset d"
  by (simp add: order_keys_def)

lemma set_order_keys [simp]: "set (order_keys srt d) = set d"
  by (simp add: order_keys_def)

lemma distinct_order_keys [simp]: "distinct_keys (order_keys srt d) = distinct_keys d"
  by (metis mset_map mset_order_keys mset_eq_imp_distinct_iff)

lemma dget_order_keys [simp]: "distinct_keys d \<Longrightarrow> dget (order_keys srt d) = dget d"
  by (metis map_of_eqI distinct_order_keys set_order_keys map_of_inject_set)

lemma order_keys_Nil [simp]: "order_keys srt [] = []"
  by (simp add: order_keys_def)

lemma order_keys_eq_Nil [simp]: "order_keys srt d = [] \<longleftrightarrow> d = []"
  by (metis mset_order_keys mset_zero_iff)

lemma parse_members_text:
  assumes isep: "isep = CHR '','' # w" "\<forall>c \<in> set w. is_json_ws c"
    and ksep: "ksep = CHR '':'' # w'" "\<forall>c \<in> set w'. is_json_ws c"
    and "list_all2 (\<lambda>p r. fst p = fst r \<and> reads_back (snd p) (snd r)) kts d" "kts \<noteq> []"
    "distinct (map fst acc @ map fst d)"
    "2 * length (join isep (map (\<lambda>p. quote_str (fst p) @ ksep @ snd p) kts) @ ''}'' @ q) < n"
  shows "parse_members n acc (join isep (map (\<lambda>p. quote_str (fst p) @ ksep @ snd p) kts) @ ''}'' @ q)
           = Some (JObj (acc @ d), q)"
  using assms(5-8)
proof (induction kts arbitrary: d acc n)
  case Nil
  then show ?case by simp
next
  case (Cons kt kts)
  obtain k t where kt: "kt = (k, t)" by fastforce
  from Cons.prems(1) kt obtain v d' where d: "d = (k, v) # d'" "reads_back t v"
    "list_all2 (\<lambda>p r. fst p = fst r \<and> reads_back (snd p) (snd r)) kts d'"
    by (auto simp: list_all2_Cons1)
  obtain m where n: "n = Suc m" using Cons.prems(4) by (cases n) auto
  have new: "dset acc k v = acc @ [(k, v)]" using Cons.prems(3) d(1) by (intro dset_new) auto
  let ?txt = "\<lambda>p. quote_str (fst p) @ ksep @ snd p"
  have sw: "skip_ws (w' @ t @ r) = t @ r" for r
    using skip_ws_text [OF d(2), of r] ksep(2) by (simp add: skip_ws_prefix)
  show ?case
  proof (cases kts)
    case Nil
    with Cons.prems(4) kt n have "parse_value m (t @ ''}'' @ q) = Some (v, ''}'' @ q)"
      by (intro reads_backD [OF d(2)]) (auto simp: quote_str_def)
    with Nil kt n d sw new show ?thesis
      by (simp add: quote_str_def scan_string_quote ksep(1))
  next
    case (Cons kt' kts')
    let ?rest = "join isep (map ?txt kts) @ ''}'' @ q"
    have j: "join isep (map ?txt (kt # kts)) @ ''}'' @ q = quote_str k @ ksep @ t @ isep @ ?rest"
      using Cons kt by simp
    with Cons.prems(4) n have "parse_value m (t @ isep @ ?rest) = Some (v, isep @ ?rest)"
      by (intro reads_backD [OF d(2)]) (auto simp: quote_str_def isep(1))
    moreover have "skip_ws (w @ ?rest) = ?rest"
      using Cons isep(2) by (cases kts') (auto simp: quote_str_def skip_ws_prefix)
    moreover have "parse_members m (acc @ [(k, v)]) ?rest = Some (JObj ((acc @ [(k, v)]) @ d'), q)"
      using Cons.IH [OF d(3), of "acc @ [(k, v)]" m] Cons.prems(3,4) n j Cons d(1)
      by (simp add: quote_str_def)
    ultimately show ?thesis
      using n j d(1) new sw by (simp add: quote_str_def scan_string_quote isep(1) ksep(1))
  qed
qed

lemma reads_back_intro:
  assumes "\<And>m q. 2 * length (t @ q) < Suc m \<Longrightarrow> ends_value q \<Longrightarrow> parse_value (Suc m) (t @ q) = Some (v, q)"
    "t \<noteq> []" "\<not> is_json_ws (hd t)" "hd t \<noteq> CHR '']''"
  shows "reads_back t v"
  unfolding reads_back_def
proof (intro conjI allI impI assms(2-4))
  fix n q assume a: "2 * length (t @ q) < n" "ends_value q"
  then show "parse_value n (t @ q) = Some (v, q)"
    using assms(1) [of q "n - 1"] by (cases n) auto
qed

lemma reads_back_number:
  "scan_number s = Some (v, []) \<Longrightarrow> reads_back s v"
  by (rule reads_back_intro) (auto simp del: parse_value.simps simp: parse_number scan_literal_number_start)

lemma prefix_same [simp]: "prefix xs (xs @ ys)" by (rule prefixI) simp

theorem parse_text:
  assumes isep: "isep = CHR '','' # w" "\<forall>c \<in> set w. is_json_ws c"
    and ksep: "ksep = CHR '':'' # w'" "\<forall>c \<in> set w'. is_json_ws c"
  shows "wf_json v \<Longrightarrow> reads_back (dumps_with srt isep ksep v) (canon srt v)"
proof (induction v)
  case JNull
  show ?case by (rule reads_back_intro) (auto simp: scan_literal_def is_json_ws_def)
next
  case (JBool b)
  show ?case by (rule reads_back_intro) (auto simp: scan_literal_def is_json_ws_def)
next
  case (JInt i)
  show ?case by (simp add: reads_back_number scan_number_int_text)
next
  case (JFloat t)
  then show ?case by (simp add: reads_back_number float_ok_def)
next
  case (JStr s)
  show ?case by (rule reads_back_intro) (auto simp: quote_str_def scan_string_quote)
next
  case (JArr vs)
  show ?case
  proof (cases vs)
    case Nil
    then show ?thesis by (intro reads_back_intro) (auto simp: is_json_ws_def)
  next
    case (Cons v vs')
    let ?ts = "map (dumps_with srt isep ksep) vs"
    have rb: "list_all2 reads_back ?ts (map (canon srt) vs)"
      using JArr by (auto simp: list_all2_conv_all_nth)
    have start: "skip_ws (join isep ?ts @ r) = join isep ?ts @ r" "join isep ?ts \<noteq> []"
      "hd (join isep ?ts) \<noteq> CHR '']''" for r
    proof -
      have v: "reads_back (dumps_with srt isep ksep v) (canon srt v)" using JArr Cons by simp
      show "skip_ws (join isep ?ts @ r) = join isep ?ts @ r"
        using skip_ws_text [OF v] Cons by (cases vs') auto
      show "join isep ?ts \<noteq> []"
      "hd (join isep ?ts) \<noteq> CHR '']''"
        using v Cons by (cases vs', auto simp: reads_back_def)+
    qed
    show ?thesis
    proof (rule reads_back_intro)
      fix m q assume a: "2 * length (dumps_with srt isep ksep (JArr vs) @ q) < Suc m"
      obtain c r where c: "join isep ?ts = c # r" "c \<noteq> CHR '']''"
        using start by (cases "join isep ?ts") auto
      have "parse_elems m [] (join isep ?ts @ '']'' @ q) = Some (JArr ([] @ map (canon srt) vs), q)"
        using a Cons by (intro parse_elems_text [OF isep rb]) auto
      with c start(1) show "parse_value (Suc m) (dumps_with srt isep ksep (JArr vs) @ q) = Some (canon srt (JArr vs), q)"
        by (simp add: scan_literal_def)
    qed (auto simp: is_json_ws_def)
  qed
next
  case (JObj d)
  let ?o = "order_keys srt d"
  let ?kts = "map (\<lambda>p. (fst p, dumps_with srt isep ksep (snd p))) ?o"
  let ?d = "map (\<lambda>p. (fst p, canon srt (snd p))) ?o"
  have text_eq: "dumps_with srt isep ksep (JObj d) = ''{'' @ join isep (map (\<lambda>p. quote_str (fst p) @ ksep @ snd p) ?kts) @ ''}''"
    by (simp add: order_keys_map)
  have val_eq: "canon srt (JObj d) = JObj ?d" by (simp add: order_keys_map)
  show ?case
  proof (cases "d = []")
    case True
    then show ?thesis by (intro reads_back_intro) (auto simp: is_json_ws_def)
  next
    case False
    have rb: "list_all2 (\<lambda>p r. fst p = fst r \<and> reads_back (snd p) (snd r)) ?kts ?d"
    proof -
      have "reads_back (dumps_with srt isep ksep (snd p)) (canon srt (snd p))" if "p \<in> set ?o" for p
        using JObj that by (cases p) (auto simp: snds.simps)
      then show ?thesis by (simp add: list_all2_conv_all_nth del: set_order_keys)
    qed
    have dk: "distinct (map fst [] @ map fst ?d)"
      using JObj.prems distinct_order_keys [of srt d] by (simp add: comp_def)
    show ?thesis unfolding text_eq val_eq
    proof (rule reads_back_intro)
      fix m q
      let ?body = "join isep (map (\<lambda>p. quote_str (fst p) @ ksep @ snd p) ?kts)"
      assume a: "2 * length ((''{'' @ ?body @ ''}'') @ q) < Suc m"
      from False obtain k o' where "?o = k # o'" by (cases ?o) auto
      then obtain r where c: "?body = CHR 34 # r"
        by (cases o') (auto simp: quote_str_def)
      have "parse_members m [] (?body @ ''}'' @ q) = Some (JObj ([] @ ?d), q)"
        using a False by (intro parse_members_text [OF isep ksep rb _ dk]) auto
      with c show "parse_value (Suc m) ((''{'' @ ?body @ ''}'') @ q) = Some (JObj ?d, q)"
        by simp
    qed (auto simp: is_json_ws_def)
  qed
qed

lemma parse_spaced: "wf_json v \<Longrightarrow> reads_back (spaced srt v) (canon srt v)"
  by (rule parse_text) auto

lemma parse_compact: "wf_json v \<Longrightarrow> reads_back (dumps_compact v) (canon True v)"
  by (rule parse_text) auto

lemma skip_ws_all: "(\<forall>c \<in> set w. is_json_ws c) \<Longrightarrow> skip_ws w = []"
  by (induction w) auto

lemma loads_reads_back:
  assumes "reads_back t v"
  shows "loads t = Some v"
proof -
  have "parse_value (Suc (2 * length t)) (t @ []) = Some (v, [])" by (rule reads_backD [OF assms]) auto
  with skip_ws_text [OF assms, of "[]"] show ?thesis by (simp add: loads_def)
qed

theorem loads_spaced: "wf_json v \<Longrightarrow> loads (spaced srt v) = Some (canon srt v)"
  by (rule loads_reads_back [OF parse_spaced])

theorem loads_compact: "wf_json v \<Longrightarrow> loads (dumps_compact v) = Some (canon True v)"
  by (rule loads_reads_back [OF parse_compact])

section \<open>Canonical values\<close>

lemma dget_canon: "distinct_keys d \<Longrightarrow>
    dget (order_keys srt (map (\<lambda>p. (fst p, canon srt (snd p))) d)) k = map_option (canon srt) (dget d k)"
proof -
  assume "distinct_keys d"
  then have "distinct_keys (map (\<lambda>p. (fst p, canon srt (snd p))) d)" by (simp add: comp_def)
  moreover have "dget (map (\<lambda>p. (fst p, canon srt (snd p))) d) k = map_option (canon srt) (dget d k)"
    by (induction d) auto
  ultimately show ?thesis by simp
qed

lemma sort_key_sorted: "sorted (map f xs) \<Longrightarrow> sort_key f xs = xs"
  by (induction xs) (auto intro: insort_is_Cons)

lemma order_keys_idem [simp]: "order_keys srt (order_keys srt d) = order_keys srt d"
  by (simp add: order_keys_def sort_key_sorted)

lemma filter_order_keys: "filter P (order_keys srt d) = order_keys srt (filter P d)"
  by (simp add: order_keys_def filter_sort)

lemma spaced_canon [simp]: "dumps_with srt isep ksep (canon srt v) = dumps_with srt isep ksep v"
proof (induction v)
  case (JObj d)
  have "map (\<lambda>p. (fst p, dumps_with srt isep ksep (snd p))) (map (\<lambda>p. (fst p, canon srt (snd p))) d)
      = map (\<lambda>p. (fst p, dumps_with srt isep ksep (snd p))) d"
    using JObj by (auto simp: snds.simps)
  moreover have "map (\<lambda>p. (fst p, dumps_with srt isep ksep (snd p)))
        (order_keys srt (map (\<lambda>p. (fst p, canon srt (snd p))) d))
      = order_keys srt (map (\<lambda>p. (fst p, dumps_with srt isep ksep (snd p)))
          (map (\<lambda>p. (fst p, canon srt (snd p))) d))"
    by (rule order_keys_map [symmetric])
  moreover have "canon srt (JObj d) = JObj (order_keys srt (map (\<lambda>p. (fst p, canon srt (snd p))) d))"
    by simp
  ultimately show ?case by (simp only: dumps_with.simps order_keys_map order_keys_idem)
next
  case (JArr vs)
  then have "map (\<lambda>v. dumps_with srt isep ksep (canon srt v)) vs = map (dumps_with srt isep ksep) vs"
    by auto
  then show ?case by (simp only: canon.simps dumps_with.simps map_map comp_def)
qed auto

lemma wf_json_canon [simp]: "wf_json (canon srt v) = wf_json v"
proof (induction v)
  case (JObj d)
  have "distinct_keys (map (\<lambda>p. (fst p, canon srt (snd p))) d) = distinct_keys d" by (simp add: comp_def)
  moreover have "(\<forall>p \<in> set d. wf_json (canon srt (snd p))) = (\<forall>p \<in> set d. wf_json (snd p))"
    using JObj by (auto simp: snds.simps)
  ultimately show ?case by simp
qed auto

lemma canon_ddel:
  "canon srt (JObj (ddel d k)) = JObj (ddel (order_keys srt (map (\<lambda>p. (fst p, canon srt (snd p))) d)) k)"
  by (simp add: ddel_def filter_order_keys filter_map comp_def)

section \<open>What is printed is one line of printable ASCII\<close>

definition printable :: "char \<Rightarrow> bool" where
  "printable c \<longleftrightarrow> CHR 32 \<le> c \<and> c \<le> CHR 126"

lemma printable_iff: "printable c \<longleftrightarrow> 32 \<le> (of_char c :: nat) \<and> (of_char c :: nat) \<le> 126"
  by (simp add: printable_def less_eq_char_def)

lemma printable_digit: "is_digit c \<Longrightarrow> printable c"
  by (auto simp: is_digit_iff printable_iff)

lemma printable_not_newline: "printable c \<Longrightarrow> c \<noteq> CHR 10 \<and> c \<noteq> CHR 13"
  by (auto simp: printable_iff)

lemma printable_hex: "n < 16 \<Longrightarrow> printable (hex_digit n)"
proof -
  assume "n < 16"
  then have "n \<in> set [0..<16]" by simp
  moreover have "\<forall>n \<in> set [0..<16]. printable (hex_digit n)" by code_simp
  ultimately show ?thesis by blast
qed

lemma printable_escape: "x \<in> set (escape_char c) \<Longrightarrow> printable x"
proof -
  have "(of_char c :: nat) div 16 < 16" by (intro less_mult_imp_div_less) simp
  then show "x \<in> set (escape_char c) \<Longrightarrow> ?thesis"
    by (auto simp: escape_char_def printable_hex split: if_splits) (auto simp: printable_iff less_eq_char_def)
qed

lemma printable_quote: "x \<in> set (quote_str s) \<Longrightarrow> printable x"
  by (auto simp: quote_str_def dest: printable_escape) (auto simp: printable_iff)

lemma printable_consts [simp]:
  "printable (CHR ''.'')" "printable (CHR ''-'')" "printable (CHR ''+'')" "printable (CHR ''e'')"
  "printable (CHR ''E'')" "printable (CHR ''0'')" "printable (CHR 34)" "printable (CHR 32)"
  "printable (CHR '','')" "printable (CHR '':'')" "printable (CHR ''{'')" "printable (CHR ''}'')"
  "printable (CHR ''['')" "printable (CHR '']'')"
  by (simp_all add: printable_iff)

lemma printable_takeWhile: "c \<in> set (takeWhile is_digit t) \<Longrightarrow> printable c"
  by (auto dest: set_takeWhileD printable_digit)

lemma scan_intpart_parts: "scan_intpart s = Some (ip, r) \<Longrightarrow> s = ip @ r \<and> (\<forall>c \<in> set ip. printable c)"
  by (auto simp: scan_intpart_def printable_digit dest: printable_takeWhile split: list.splits if_splits)

lemma scan_frac_parts: "scan_frac s = (f, r) \<Longrightarrow> s = f @ r \<and> (\<forall>c \<in> set f. printable c)"
  by (auto simp: scan_frac_def dest: printable_takeWhile split: list.splits if_splits)

lemma scan_exp_parts: "scan_exp s = (e, r) \<Longrightarrow> s = e @ r \<and> (\<forall>c \<in> set e. printable c)"
  by (auto simp: scan_exp_def printable_digit dest: printable_takeWhile split: list.splits if_splits)

lemma scan_number_printable:
  assumes "scan_number s = Some (v, [])" "c \<in> set s"
  shows "printable c"
proof -
  obtain neg u where u: "(case s of c # t \<Rightarrow> if c = CHR ''-'' then (True, t) else (False, s) | [] \<Rightarrow> (False, s)) = (neg, u)"
    by fastforce
  with assms obtain ip a where ip: "scan_intpart u = Some (ip, a)"
    by (auto simp: scan_number_def split: option.splits)
  obtain fp b where fp: "scan_frac a = (fp, b)" by fastforce
  obtain ep b' where ep: "scan_exp b = (ep, b')" by fastforce
  from assms(1) u ip fp ep have "b' = []" by (simp add: scan_number_def)
  with scan_intpart_parts [OF ip] scan_frac_parts [OF fp] scan_exp_parts [OF ep]
  have "\<forall>c \<in> set u. printable c" by auto
  then show ?thesis using u assms(2) by (auto split: list.splits if_splits)
qed

lemma set_join: "x \<in> set (join sep ts) \<Longrightarrow> x \<in> set sep \<or> (\<exists>t \<in> set ts. x \<in> set t)"
  by (induction sep ts rule: join.induct) auto

lemma printable_text:
  assumes "\<forall>c \<in> set (isep @ ksep). printable c"
  shows "wf_json v \<Longrightarrow> x \<in> set (dumps_with srt isep ksep v) \<Longrightarrow> printable x"
proof (induction v)
  case (JInt i)
  then show ?case using scan_number_printable [OF scan_number_int_text] by simp
next
  case (JFloat t)
  then show ?case by (auto simp: float_ok_def intro: scan_number_printable)
next
  case (JStr s)
  then show ?case by (simp add: printable_quote)
next
  case (JArr vs)
  then show ?case using assms by (auto dest!: set_join)
next
  case (JObj d)
  then show ?case using assms
    by (auto dest!: set_join printable_quote simp: snds.simps)
qed (auto simp: printable_iff split: if_splits)

lemma printable_spaced: "wf_json v \<Longrightarrow> x \<in> set (spaced srt v) \<Longrightarrow> printable x"
  by (rule printable_text [of "'', ''" "'': ''"]) (auto simp: printable_iff)

lemma printable_compact: "wf_json v \<Longrightarrow> x \<in> set (dumps_compact v) \<Longrightarrow> printable x"
  by (rule printable_text [of "'',''" "'':''"]) (auto simp: printable_iff)

section \<open>Enough fuel, and independence of what follows\<close>

lemma scan_string_length: "scan_string s = Some (t, r) \<Longrightarrow> length r < length s"
  by (induction s arbitrary: t r rule: scan_string.induct)
    (fastforce split: if_splits option.splits dest: scan_escape_length)+

lemma skip_ws_length: "length (skip_ws s) \<le> length s"
  by (rule length_dropWhile_le)

lemma scan_number_length:
  assumes "scan_number s = Some (v, r)"
  shows "length r < length s"
proof -
  obtain neg u where u: "(case s of c # t \<Rightarrow> if c = CHR ''-'' then (True, t) else (False, s) | [] \<Rightarrow> (False, s)) = (neg, u)"
    by fastforce
  with assms obtain ip a where ip: "scan_intpart u = Some (ip, a)"
    by (auto simp: scan_number_def split: option.splits)
  obtain fp b where fp: "scan_frac a = (fp, b)" by fastforce
  obtain ep b' where ep: "scan_exp b = (ep, b')" by fastforce
  from assms u ip fp ep have "b' = r" by (simp add: scan_number_def)
  moreover have "0 < length ip" using ip by (auto simp: scan_intpart_def split: list.splits if_splits)
  moreover have "length u \<le> length s" using u by (auto split: list.splits if_splits)
  ultimately show ?thesis
    using scan_intpart_parts [OF ip] scan_frac_parts [OF fp] scan_exp_parts [OF ep]
    by (cases ip) auto
qed

lemma scan_literal_length: "scan_literal s = Some (v, r) \<Longrightarrow> length r < length s"
  by (auto simp: scan_literal_def scan_number_length elim!: prefixE split: if_splits)

lemma parse_length:
  shows "parse_value n s = Some (v, r) \<Longrightarrow> length r < length s"
    and "parse_members n d s = Some (v, r) \<Longrightarrow> length r < length s"
    and "parse_elems n xs s = Some (v, r) \<Longrightarrow> length r < length s"
proof (induction n s and n d s and n xs s arbitrary: v r and v r and v r
    rule: parse_value_parse_members_parse_elems.induct)
  case (2 n s)
  from "2.prems" obtain c t where s: "s = c # t" by (cases s) auto
  consider "c = CHR 34" | "c = CHR ''{''" | "c = CHR ''[''"
    | "c \<noteq> CHR 34" "c \<noteq> CHR ''{''" "c \<noteq> CHR ''[''" by blast
  then show ?case
  proof cases
    case 1
    with "2.prems" s show ?thesis by (auto dest: scan_string_length)
  next
    case 2
    with "2.prems" s obtain e r' where e: "skip_ws t = e # r'" by (auto split: list.splits)
    with skip_ws_length [of t] have "length (e # r') \<le> length t" by simp
    with "2.prems" "2.IH"(1) [OF s _ _ e] s e 2 show ?thesis by (force split: if_splits)
  next
    case 3
    with "2.prems" s obtain e r' where e: "skip_ws t = e # r'" by (auto split: list.splits)
    with skip_ws_length [of t] have "length (e # r') \<le> length t" by simp
    with "2.prems" "2.IH"(2) [OF s _ _ _ e] s e 3 show ?thesis by (force split: if_splits)
  next
    case 4
    with "2.prems" s show ?thesis by (auto dest: scan_literal_length)
  qed
next
  case (4 n d s)
  from "4.prems" obtain t where s: "s = CHR 34 # t" by (cases s) (auto split: if_splits)
  with "4.prems" obtain k r0 where k: "scan_string t = Some (k, r0)" by (auto split: option.splits)
  with "4.prems" s obtain r1 where r1: "skip_ws r0 = CHR '':'' # r1"
    by (auto split: list.splits if_splits)
  with "4.prems" s k obtain x r2 where x: "parse_value n (skip_ws r1) = Some (x, r2)"
    by (auto split: option.splits)
  with "4.prems" s k r1 obtain e r3 where e: "skip_ws r2 = e # r3" "e = CHR ''}'' \<or> e = CHR '',''"
    by (auto split: list.splits if_splits)
  have l: "length r2 < length (skip_ws r1)" using "4.IH"(1) s k r1 x by auto
  have m: "length r0 < length t" "length (CHR '':'' # r1) \<le> length r0" "length (e # r3) \<le> length r2"
    "length (skip_ws r1) \<le> length r1" "length (skip_ws r3) \<le> length r3"
    using scan_string_length [OF k] skip_ws_length [of r0] skip_ws_length [of r2] skip_ws_length [of r1]
      skip_ws_length [of r3] r1 e by auto
  from e(2) show ?case
  proof
    assume "e = CHR ''}''"
    with "4.prems" s k r1 x e l m show ?thesis by auto
  next
    assume c: "e = CHR '',''"
    with "4.prems" s k r1 x e have "parse_members n (dset d k x) (skip_ws r3) = Some (v, r)" by simp
    with "4.IH"(2) s k r1 x e c have "length r < length (skip_ws r3)" by auto
    with s l m show ?thesis by auto
  qed
next
  case (6 n xs s)
  from "6.prems" obtain x r0 where x: "parse_value n s = Some (x, r0)" by (auto split: option.splits)
  with "6.prems" obtain e r1 where e: "skip_ws r0 = e # r1" "e = CHR '']'' \<or> e = CHR '',''"
    by (auto split: list.splits if_splits)
  have m: "length r0 < length s" "length (e # r1) \<le> length r0" "length (skip_ws r1) \<le> length r1"
    using "6.IH"(1) x skip_ws_length [of r0] skip_ws_length [of r1] e by auto
  from e(2) show ?case
  proof
    assume "e = CHR '']''"
    with "6.prems" x e m show ?thesis by auto
  next
    assume c: "e = CHR '',''"
    with "6.prems" x e have "parse_elems n (xs @ [x]) (skip_ws r1) = Some (v, r)" by simp
    with "6.IH"(2) x e c have "length r < length (skip_ws r1)" by auto
    with m show ?thesis by auto
  qed
qed simp_all

text \<open>More fuel than twice the length never changes a result: \<^const>\<open>loads\<close> never runs dry.\<close>

lemma parse_fuel:
  shows "2 * length s < n \<Longrightarrow> parse_value (Suc n) s = parse_value n s"
    and "2 * length s < Suc n \<Longrightarrow> parse_members (Suc n) d s = parse_members n d s"
    and "2 * length s + 1 < n \<Longrightarrow> parse_elems (Suc n) xs s = parse_elems n xs s"
proof (induction n arbitrary: s d xs)
  case 0
  {
    case 1 then show ?case by simp
  next
    case 2 then show ?case by simp
  next
    case 3 then show ?case by simp
  }
next
  case (Suc n)
  {
    case 1
    show ?case
    proof (cases s)
      case Nil
      then show ?thesis by simp
    next
      case (Cons c t)
      have "length (skip_ws t) \<le> length t" by (rule skip_ws_length)
      with Cons 1 have "2 * length (skip_ws t) < Suc n" "2 * length (skip_ws t) + 1 < n" by auto
      then have "parse_members (Suc n) [] (skip_ws t) = parse_members n [] (skip_ws t)"
        "parse_elems (Suc n) [] (skip_ws t) = parse_elems n [] (skip_ws t)"
        using Suc.IH(2,3) by blast+
      with Cons show ?thesis
        by (cases "skip_ws t") (simp_all del: parse_members.simps parse_elems.simps dropWhile_eq_Nil_conv)
    qed
  next
    case 2
    note mem = parse_members.simps(2) [of "Suc n" d s] parse_members.simps(2) [of n d s]
    show ?case
    proof (cases "\<exists>t k r r1. s = CHR 34 # t \<and> scan_string t = Some (k, r) \<and> skip_ws r = CHR '':'' # r1")
      case False
      then show ?thesis unfolding mem
        by (auto split: list.split option.split
            simp del: dropWhile_eq_Nil_conv parse_value.simps parse_members.simps)
    next
      case True
      then obtain t k r r1 where s: "s = CHR 34 # t" and k: "scan_string t = Some (k, r)"
        and r1: "skip_ws r = CHR '':'' # r1" by blast
      have l: "length (skip_ws r1) \<le> length r1" "length (CHR '':'' # r1) \<le> length r" "length r < length t"
        using scan_string_length [OF k] skip_ws_length [of r] skip_ws_length [of r1] r1 by auto
      with s 2 have v: "parse_value (Suc n) (skip_ws r1) = parse_value n (skip_ws r1)"
        by (intro Suc.IH(1)) auto
      show ?thesis
      proof (cases "\<exists>x r2 r3. parse_value n (skip_ws r1) = Some (x, r2) \<and> skip_ws r2 = CHR '','' # r3")
        case False
        then show ?thesis unfolding mem unfolding s
          by (auto simp: k r1 v simp del: dropWhile_eq_Nil_conv parse_value.simps parse_members.simps
              split: list.split option.split)
      next
        case True
        then obtain x r2 r3 where x: "parse_value n (skip_ws r1) = Some (x, r2)"
          and r3: "skip_ws r2 = CHR '','' # r3" by blast
        have "length r2 < length (skip_ws r1)" "length (CHR '','' # r3) \<le> length r2"
          "length (skip_ws r3) \<le> length r3"
          using parse_length(1) [OF x] skip_ws_length [of r2] skip_ws_length [of r3] r3 by auto
        with l s 2 have "parse_members (Suc n) d' (skip_ws r3) = parse_members n d' (skip_ws r3)" for d'
          by (intro Suc.IH(2)) auto
        then show ?thesis unfolding mem unfolding s
          by (simp add: k r1 v x r3 del: parse_value.simps parse_members.simps)
      qed
    qed
  next
    case 3
    note elems = parse_elems.simps(2) [of "Suc n" xs s] parse_elems.simps(2) [of n xs s]
    have v: "parse_value (Suc n) s = parse_value n s" using 3 by (intro Suc.IH(1)) auto
    show ?case
    proof (cases "\<exists>x r r1. parse_value n s = Some (x, r) \<and> skip_ws r = CHR '','' # r1")
      case False
      then show ?thesis unfolding elems
        by (auto simp: v simp del: dropWhile_eq_Nil_conv parse_value.simps parse_elems.simps
            split: list.split option.split)
    next
      case True
      then obtain x r r1 where x: "parse_value n s = Some (x, r)" and r1: "skip_ws r = CHR '','' # r1"
        by blast
      have "length r < length s" "length (CHR '','' # r1) \<le> length r" "length (skip_ws r1) \<le> length r1"
        using parse_length(1) [OF x] skip_ws_length [of r] skip_ws_length [of r1] r1 by auto
      with 3 have "parse_elems (Suc n) ys (skip_ws r1) = parse_elems n ys (skip_ws r1)" for ys
        by (intro Suc.IH(3)) auto
      then show ?thesis unfolding elems
        by (simp add: v x r1 del: parse_value.simps parse_elems.simps)
    qed
  }
qed

lemma parse_value_fuel:
  "2 * length s < n \<Longrightarrow> parse_value (n + k) s = parse_value n s"
  by (induction k) (simp_all add: parse_fuel(1) del: parse_value.simps)

lemma skip_ws_ext: "skip_ws p = c # r \<Longrightarrow> skip_ws (p @ q) = c # r @ q"
  by (induction p) (auto split: if_splits)

lemma skip_ws_ext_id: "skip_ws p \<noteq> [] \<Longrightarrow> skip_ws (p @ q) = skip_ws p @ q"
  by (induction p) auto

lemma scan_literal_ext:
  assumes "scan_literal p = Some (v, r)" "ends_value (r @ q)"
  shows "scan_literal (p @ q) = Some (v, r @ q)"
proof -
  consider "prefix ''null'' p" | "prefix ''true'' p" | "prefix ''false'' p" | "prefix ''NaN'' p"
    | "prefix ''Infinity'' p" | "prefix ''-Infinity'' p" | "scan_number p = Some (v, r)"
    using assms(1) by (auto simp: scan_literal_def split: if_splits)
  then show ?thesis
  proof cases
    case 7
    with scan_number_ext [OF this assms(2)] scan_literal_number_start(1) [OF this, of q] show ?thesis
      by simp
  qed (use assms(1) in \<open>auto simp: scan_literal_def elim!: prefixE\<close>)
qed

lemma ends_value_after: "skip_ws r = e # s \<Longrightarrow> e \<in> {CHR '','', CHR ''}'', CHR '']''} \<Longrightarrow> ends_value (r @ q)"
  by (cases r) (auto simp: ends_value_def split: if_splits)

lemma parse_Nil: "parse_value n [] = None" "parse_members n d [] = None" "parse_elems n xs [] = None"
proof -
  show v: "parse_value n [] = None" for n by (cases n) auto
  show "parse_members n d [] = None" by (cases n) auto
  show "parse_elems n xs [] = None" by (cases n) (auto simp: v)
qed

lemma parse_ext:
  shows "parse_value n s = Some (v, r) \<Longrightarrow> ends_value (r @ q) \<or> hd s = CHR ''{''
      \<Longrightarrow> parse_value n (s @ q) = Some (v, r @ q)"
    and "parse_members n d s = Some (v, r) \<Longrightarrow> parse_members n d (s @ q) = Some (v, r @ q)"
    and "parse_elems n xs s = Some (v, r) \<Longrightarrow> parse_elems n xs (s @ q) = Some (v, r @ q)"
proof (induction n s and n d s and n xs s arbitrary: v r and v r and v r
    rule: parse_value_parse_members_parse_elems.induct)
  case (2 n s)
  from "2.prems" obtain c t where s: "s = c # t" by (cases s) auto
  consider "c = CHR 34" | "c = CHR ''{''" | "c = CHR ''[''"
    | "c \<noteq> CHR 34" "c \<noteq> CHR ''{''" "c \<noteq> CHR ''[''" by blast
  then show ?case
  proof cases
    case 1
    with "2.prems" s show ?thesis by (auto dest: scan_string_ext [where q = q])
  next
    case 2
    with "2.prems" s obtain e r' where e: "skip_ws t = e # r'" by (auto split: list.splits)
    with "2.prems" "2.IH"(1) [OF s _ _ e] s 2 skip_ws_ext [OF e, of q] show ?thesis
      by (auto split: if_splits)
  next
    case 3
    with "2.prems" s obtain e r' where e: "skip_ws t = e # r'" by (auto split: list.splits)
    with "2.prems" "2.IH"(2) [OF s _ _ _ e] s 3 skip_ws_ext [OF e, of q] show ?thesis
      by (auto split: if_splits)
  next
    case 4
    with "2.prems" s scan_literal_ext [of s v r q] show ?thesis by auto
  qed
next
  case (4 n d s)
  from "4.prems" obtain t where s: "s = CHR 34 # t" by (cases s) (auto split: if_splits)
  with "4.prems" obtain k r0 where k: "scan_string t = Some (k, r0)" by (auto split: option.splits)
  with "4.prems" s obtain r1 where r1: "skip_ws r0 = CHR '':'' # r1"
    by (auto split: list.splits if_splits)
  with "4.prems" s k obtain x r2 where x: "parse_value n (skip_ws r1) = Some (x, r2)"
    by (auto split: option.splits)
  with "4.prems" s k r1 obtain e r3 where e: "skip_ws r2 = e # r3" "e = CHR ''}'' \<or> e = CHR '',''"
    by (auto split: list.splits if_splits)
  have "skip_ws r1 \<noteq> []" using x by (metis parse_Nil(1) option.distinct(1))
  moreover have "parse_value n (skip_ws r1 @ q) = Some (x, r2 @ q)"
    using "4.IH"(1) s k r1 x ends_value_after [OF e(1)] e(2) by auto
  ultimately have "parse_value n (skip_ws (r1 @ q)) = Some (x, r2 @ q)"
    by (simp add: skip_ws_ext_id)
  note step = this scan_string_ext [OF k, of q] skip_ws_ext [OF r1, of q] skip_ws_ext [OF e(1), of q]
  from e(2) show ?case
  proof
    assume "e = CHR ''}''"
    with "4.prems" s k r1 x e step show ?thesis by auto
  next
    assume c: "e = CHR '',''"
    with "4.prems" s k r1 x e have m: "parse_members n (dset d k x) (skip_ws r3) = Some (v, r)" by simp
    with "4.IH"(2) s k r1 x e c have "parse_members n (dset d k x) (skip_ws r3 @ q) = Some (v, r @ q)" by auto
    moreover have "skip_ws r3 \<noteq> []" using m by (metis parse_Nil(2) option.distinct(1))
    ultimately show ?thesis using s step c by (simp add: skip_ws_ext_id)
  qed
next
  case (6 n xs s)
  from "6.prems" obtain x r0 where x: "parse_value n s = Some (x, r0)" by (auto split: option.splits)
  with "6.prems" obtain e r1 where e: "skip_ws r0 = e # r1" "e = CHR '']'' \<or> e = CHR '',''"
    by (auto split: list.splits if_splits)
  have xq: "parse_value n (s @ q) = Some (x, r0 @ q)"
    using "6.IH"(1) x ends_value_after [OF e(1)] e(2) by auto
  note step = this skip_ws_ext [OF e(1), of q]
  from e(2) show ?case
  proof
    assume "e = CHR '']''"
    with "6.prems" x e step show ?thesis by auto
  next
    assume c: "e = CHR '',''"
    with "6.prems" x e have m: "parse_elems n (xs @ [x]) (skip_ws r1) = Some (v, r)" by simp
    with "6.IH"(2) x e c have "parse_elems n (xs @ [x]) (skip_ws r1 @ q) = Some (v, r @ q)" by auto
    moreover have "skip_ws r1 \<noteq> []" using m by (metis parse_Nil(3) option.distinct(1))
    ultimately show ?thesis using step c by (simp add: skip_ws_ext_id)
  qed
qed simp_all

text \<open>A proper prefix of a printed object is never itself parseable.\<close>

theorem loads_torn:
  assumes wf: "wf_json (JObj d)" and pq: "spaced srt (JObj d) = p @ q" and q: "q \<noteq> []"
  shows "loads p = None"
proof (rule ccontr)
  assume "loads p \<noteq> None"
  then have "p \<noteq> []" by (auto simp: loads_def)
  with pq have hd: "hd p = CHR ''{''" by (cases p) (auto split: if_splits)
  with \<open>p \<noteq> []\<close> have sp: "skip_ws p = p" by (cases p) (auto simp: is_json_ws_def)
  obtain v r where v: "parse_value (Suc (2 * length p)) p = Some (v, r)"
    using \<open>loads p \<noteq> None\<close> sp by (auto simp: loads_def split: option.splits)
  let ?n = "Suc (2 * length (p @ q))"
  have "parse_value (Suc (2 * length p) + 2 * length q) p = parse_value (Suc (2 * length p)) p"
    by (rule parse_value_fuel) simp
  with v have "parse_value ?n p = Some (v, r)" by (simp add: algebra_simps del: parse_value.simps)
  then have "parse_value ?n (p @ q) = Some (v, r @ q)"
    using hd by (intro parse_ext(1)) auto
  moreover have "parse_value ?n (p @ q) = Some (canon srt (JObj d), [])"
  proof -
    have "parse_value ?n (spaced srt (JObj d) @ []) = Some (canon srt (JObj d), [])"
    proof (rule reads_backD [OF parse_spaced [OF wf]])
      show "2 * length (spaced srt (JObj d) @ []) < ?n" unfolding pq append_Nil2 by simp
    qed simp
    then show ?thesis by (simp only: pq append_Nil2)
  qed
  ultimately show False using q by simp
qed

text \<open>A printed object is never a prefix of another text for a different object.\<close>

lemma compact_prefix:
  assumes "wf_json (JObj a)" "wf_json (JObj b)" "dumps_compact (JObj a) @ p = dumps_compact (JObj b) @ q"
  shows "canon True (JObj a) = canon True (JObj b) \<and> p = q"
proof -
  have parse: "parse_value n (dumps_compact (JObj d) @ r) = Some (canon True (JObj d), r)"
    if "wf_json (JObj d)" "2 * length (dumps_compact (JObj d)) < n" for d r n
  proof -
    have "parse_value n (dumps_compact (JObj d) @ []) = Some (canon True (JObj d), [])"
      using that by (intro reads_backD [OF parse_compact]) auto
    then have "parse_value n (dumps_compact (JObj d)) = Some (canon True (JObj d), [])" by (simp only: append_Nil2)
    then have "parse_value n (dumps_compact (JObj d) @ r) = Some (canon True (JObj d), [] @ r)"
      by (rule parse_ext(1)) simp
    then show ?thesis by simp
  qed
  let ?n = "Suc (2 * length (dumps_compact (JObj a)) + 2 * length (dumps_compact (JObj b)))"
  have "parse_value ?n (dumps_compact (JObj a) @ p) = Some (canon True (JObj a), p)"
    by (rule parse [OF assms(1)]) simp
  moreover have "parse_value ?n (dumps_compact (JObj b) @ q) = Some (canon True (JObj b), q)"
    by (rule parse [OF assms(2)]) simp
  ultimately show ?thesis unfolding assms(3) by simp
qed

end
