(* ===== verification/AuditRedact.thy ===== *)
theory AuditRedact
  imports Json
begin

text \<open>
  Redaction and coercion of audit payloads (\<open>audit.py\<close>): \<open>_is_secret_key\<close>,
  \<open>_redact_service_data\<close>, \<open>_redact_secrets_deep\<close> and \<open>_json_safe\<close>. A payload is a Python value;
  the types that only occur before coercion (tuples, sets, deques, datetimes, bytes, arbitrary
  objects) are constructors of their own. An opaque object carries what \<open>str()\<close> of it gives
  (\<open>None\<close> when it raises) and its type's name; a datetime carries its \<open>isoformat()\<close>, bytes
  their replacing UTF-8 decoding, a non-string dict key its \<open>str()\<close>.
\<close>

section \<open>Payload values\<close>

datatype pyfloat = Finite string | NaN | PosInf | NegInf

datatype pykey = KStr string | KOther string

datatype pyval =
    PNone
  | PBool bool
  | PInt int
  | PFloat pyfloat
  | PStr string
  | PDict "(pykey \<times> pyval) list"
  | PList "pyval list"
  | PTuple "pyval list"
  | PDeque "pyval list"
  | PSet "pyval list"
  | PDatetime string
  | PBytes string
  | POther "string option" string

section \<open>Which keys hold a credential\<close>

definition REDACTED_PLACEHOLDER :: string where
  "REDACTED_PLACEHOLDER = ''[redacted]''"

definition SECRET_SETTING_KEYS :: "string list" where
  "SECRET_SETTING_KEYS =
     [''nvd_api_key'', ''github_token'', ''unifi_network_api_key'', ''unifi_network_write_api_key'',
      ''unifi_protect_api_key'', ''pihole_api_key'', ''technitium_api_token'', ''snmp_auth_passphrase'',
      ''snmp_priv_passphrase'', ''observe_ingest_key'', ''ssh_private_key'']"

definition REDACTED_SERVICE_DATA_KEYS :: "string list" where
  "REDACTED_SERVICE_DATA_KEYS =
     [''password'', ''token'', ''code'', ''api_key'', ''apikey'', ''secret'', ''pin'', ''passphrase'',
      ''access_token'', ''refresh_token'', ''client_secret'', ''authorization'', ''probe_secret'']"

definition SECRET_ANY_WORD :: "string list" where
  "SECRET_ANY_WORD =
     [''password'', ''passwd'', ''passphrase'', ''passcode'', ''pwd'', ''secret'', ''secrets'',
      ''credential'', ''credentials'', ''psk'', ''authorization'', ''bearer'', ''otp'', ''totp'',
      ''hotp'', ''cookie'', ''cookies'']"

definition SECRET_CONTEXT_WORDS :: "string list" where
  "SECRET_CONTEXT_WORDS = [''token'', ''tokens'', ''auth'']"

definition SECRET_CONTEXT_METADATA :: "string list" where
  "SECRET_CONTEXT_METADATA =
     [''id'', ''ids'', ''type'', ''types'', ''count'', ''name'', ''names'', ''method'', ''methods'',
      ''provider'', ''mode'', ''status'', ''state'', ''result'', ''enabled'', ''required'',
      ''expires'', ''expiry'', ''ttl'', ''length'', ''index'', ''slot'', ''timeout'', ''duration'',
      ''time'', ''ts'', ''age'', ''valid'', ''limit'', ''url'', ''user'', ''client'']"

definition SECRET_LAST_WORD :: "string list" where
  "SECRET_LAST_WORD = [''token'', ''tokens'', ''pass'', ''pin'', ''pincode'', ''key'', ''session'']"

definition SECRET_JOINED_FRAGMENTS :: "string list" where
  "SECRET_JOINED_FRAGMENTS =
     [''apikey'', ''privatekey'', ''secretkey'', ''accesskey'', ''authkey'', ''encryptionkey'',
      ''signingkey'', ''sshkey'', ''sessionkey'', ''masterkey'', ''sharedkey'', ''usercode'']"

definition CODE_NON_SECRET_PREFIXES :: "string list" where
  "CODE_NON_SECRET_PREFIXES =
     [''status'', ''error'', ''exit'', ''return'', ''http'', ''response'', ''country'', ''language'',
      ''color'', ''hex'', ''zip'', ''area'', ''reason'', ''result'']"

text \<open>\<open>_CAMEL_SPLIT_RE.sub("_", key)\<close>: an underscore between \<open>[a-z0-9]\<close> and \<open>[A-Z]\<close>.\<close>

fun camel_split :: "string \<Rightarrow> string" where
  "camel_split (a # b # s) =
     (if (is_lower a \<or> is_digit a) \<and> is_upper b then a # CHR ''_'' # camel_split (b # s)
      else a # camel_split (b # s))"
| "camel_split s = s"

text \<open>\<open>_WORD_SPLIT_RE.split\<close> with the empty pieces dropped: the maximal runs of \<open>[a-z0-9]\<close>.\<close>

fun words_of :: "string \<Rightarrow> string \<Rightarrow> string list" where
  "words_of acc [] = (if acc = [] then [] else [rev acc])"
| "words_of acc (c # s) =
     (if is_lower c \<or> is_digit c then words_of (c # acc) s
      else (if acc = [] then [] else [rev acc]) @ words_of [] s)"

definition key_words :: "string \<Rightarrow> string list" where
  "key_words key = words_of [] (lower (camel_split key))"

fun contains :: "string \<Rightarrow> string \<Rightarrow> bool" where
  "contains frag [] = (frag = [])"
| "contains frag (c # s) = (prefix frag (c # s) \<or> contains frag s)"

definition is_secret_key :: "string \<Rightarrow> bool" where
  "is_secret_key key =
     (if lower key \<in> set REDACTED_SERVICE_DATA_KEYS then True
      else
        (let ws = key_words key in
         if ws = [] then False
         else if list_ex (\<lambda>w. w \<in> set SECRET_ANY_WORD) ws then True
         else if list_ex (\<lambda>f. contains f (concat ws)) SECRET_JOINED_FRAGMENTS then True
         else if last ws \<in> set SECRET_LAST_WORD then True
         else if list_ex (\<lambda>w. w \<in> set SECRET_CONTEXT_WORDS) ws
              then last ws \<notin> set SECRET_CONTEXT_METADATA
         else if suffix ''code'' (last ws)
              then \<not> (1 < length ws \<and> last (butlast ws) \<in> set CODE_NON_SECRET_PREFIXES)
         else False))"

section \<open>Masking\<close>

definition REDACTED_MESSAGE_DOMAINS :: "string list" where
  "REDACTED_MESSAGE_DOMAINS = [''notify'', ''tts'', ''persistent_notification'']"

text \<open>The branch conditions of \<open>_redact_service_data\<close> for one key, in its order.\<close>

definition masks_service_key ::
    "string option \<Rightarrow> string option \<Rightarrow> bool \<Rightarrow> pykey \<Rightarrow> bool" where
  "masks_service_key dmn svc patterns k =
     (case k of
        KOther _ \<Rightarrow> False
      | KStr key \<Rightarrow>
          (if patterns then is_secret_key key else lower key \<in> set REDACTED_SERVICE_DATA_KEYS)
          \<or> (lower key \<in> {''message'', ''title''} \<and> svc \<noteq> None
              \<and> (case dmn of Some d \<Rightarrow> d \<in> set REDACTED_MESSAGE_DOMAINS | None \<Rightarrow> False))
          \<or> (lower key = ''payload'' \<and> dmn = Some ''mqtt'' \<and> svc = Some ''publish''))"

fun redact_service_data ::
    "string option \<Rightarrow> string option \<Rightarrow> bool \<Rightarrow> pyval \<Rightarrow> pyval" where
  "redact_service_data dmn svc patterns (PDict d) =
     PDict (map (\<lambda>p. (fst p, if masks_service_key dmn svc patterns (fst p) then PStr REDACTED_PLACEHOLDER
                             else redact_service_data dmn svc patterns (snd p))) d)"
| "redact_service_data dmn svc patterns (PList xs) = PList (map (redact_service_data dmn svc patterns) xs)"
| "redact_service_data dmn svc patterns (PTuple xs) = PList (map (redact_service_data dmn svc patterns) xs)"
| "redact_service_data dmn svc patterns v = v"

definition is_none_or_empty :: "pyval \<Rightarrow> bool" where
  "is_none_or_empty v \<longleftrightarrow> v = PNone \<or> v = PStr []"

fun redact_secrets_deep :: "pyval \<Rightarrow> pyval" where
  "redact_secrets_deep (PDict d) =
     PDict (map (\<lambda>p. (fst p,
        if (case fst p of KStr k \<Rightarrow> k \<in> set SECRET_SETTING_KEYS | KOther _ \<Rightarrow> False)
           \<and> \<not> is_none_or_empty (snd p)
        then PStr REDACTED_PLACEHOLDER else redact_secrets_deep (snd p))) d)"
| "redact_secrets_deep (PList xs) = PList (map redact_secrets_deep xs)"
| "redact_secrets_deep (PTuple xs) = PList (map redact_secrets_deep xs)"
| "redact_secrets_deep v = v"

section \<open>Coercion to JSON\<close>

text \<open>\<open>repr\<close> of a string, and \<open>str\<close> of a JSON value, which orders the elements of a set.\<close>

definition repr_char :: "char \<Rightarrow> char \<Rightarrow> string" where
  "repr_char q c =
     (let n = of_char c :: nat in
      if c = q \<or> c = CHR 92 then [CHR 92, c]
      else if c = CHR 10 then [CHR 92, CHR ''n'']
      else if c = CHR 13 then [CHR 92, CHR ''r'']
      else if c = CHR 9 then [CHR 92, CHR ''t'']
      else if n < 32 \<or> (127 \<le> n \<and> n \<le> 160) \<or> n = 173
           then [CHR 92, CHR ''x'', hex_digit (n div 16), hex_digit (n mod 16)]
      else [c])"

definition repr_str :: "string \<Rightarrow> string" where
  "repr_str s =
     (let q = (if CHR 39 \<in> set s \<and> CHR 34 \<notin> set s then CHR 34 else CHR 39)
      in q # concat (map (repr_char q) s) @ [q])"

fun py_repr :: "json \<Rightarrow> string" where
  "py_repr JNull = ''None''"
| "py_repr (JBool b) = (if b then ''True'' else ''False'')"
| "py_repr (JInt i) = int_text i"
| "py_repr (JFloat t) = t"
| "py_repr (JStr s) = repr_str s"
| "py_repr (JArr xs) = ''['' @ join '', '' (map py_repr xs) @ '']''"
| "py_repr (JObj d) =
     ''{'' @ join '', '' (map (\<lambda>p. repr_str (fst p) @ '': '' @ snd p)
        (map (\<lambda>p. (fst p, py_repr (snd p))) d)) @ ''}''"

fun py_str :: "json \<Rightarrow> string" where
  "py_str (JStr s) = s"
| "py_str v = py_repr v"

lemma py_str_cases: "py_str v = (case v of JStr s \<Rightarrow> s | _ \<Rightarrow> py_repr v)"
  by (cases v) simp_all

fun key_text :: "pykey \<Rightarrow> string" where
  "key_text (KStr s) = s"
| "key_text (KOther s) = s"

text \<open>A dict comprehension: later items overwrite earlier ones with the same key.\<close>

definition dict_of :: "(string \<times> 'v) list \<Rightarrow> (string \<times> 'v) list" where
  "dict_of ps = foldl (\<lambda>d p. dset d (fst p) (snd p)) [] ps"

fun json_safe :: "pyval \<Rightarrow> json" where
  "json_safe PNone = JNull"
| "json_safe (PBool b) = JBool b"
| "json_safe (PInt i) = JInt i"
| "json_safe (PStr s) = JStr s"
| "json_safe (PFloat f) =
     (case f of Finite t \<Rightarrow> JFloat t | NaN \<Rightarrow> JStr ''nan'' | PosInf \<Rightarrow> JStr ''inf'' | NegInf \<Rightarrow> JStr ''-inf'')"
| "json_safe (PDict d) =
     JObj (dict_of (map (\<lambda>p. (key_text (fst p), snd p)) (map (\<lambda>p. (fst p, json_safe (snd p))) d)))"
| "json_safe (PList xs) = JArr (map json_safe xs)"
| "json_safe (PTuple xs) = JArr (map json_safe xs)"
| "json_safe (PDeque xs) = JArr (map json_safe xs)"
| "json_safe (PSet xs) = JArr (sort_key py_str (map json_safe xs))"
| "json_safe (PDatetime t) = JStr t"
| "json_safe (PBytes t) = JStr t"
| "json_safe (POther s tname) =
     JStr (case s of Some t \<Rightarrow> t | None \<Rightarrow> ''<unprintable '' @ tname @ ''>'')"

section \<open>No credential survives\<close>

text \<open>
  \<open>entries R v\<close>: every dict entry of a JSON value, at any depth, satisfies \<open>R key value\<close>;
  \<open>entries_py\<close> is the same before coercion.
\<close>

fun entries :: "(string \<Rightarrow> json \<Rightarrow> bool) \<Rightarrow> json \<Rightarrow> bool" where
  "entries R (JObj d) = (\<forall>p \<in> set d. R (fst p) (snd p) \<and> entries R (snd p))"
| "entries R (JArr xs) = (\<forall>x \<in> set xs. entries R x)"
| "entries R _ = True"

fun no_dict :: "pyval \<Rightarrow> bool" where
  "no_dict (PDict d) = False"
| "no_dict (PList xs) = (\<forall>x \<in> set xs. no_dict x)"
| "no_dict (PTuple xs) = (\<forall>x \<in> set xs. no_dict x)"
| "no_dict (PDeque xs) = (\<forall>x \<in> set xs. no_dict x)"
| "no_dict (PSet xs) = (\<forall>x \<in> set xs. no_dict x)"
| "no_dict _ = True"

text \<open>
  Payloads whose dicts the redaction reaches: string keys, and no dict below a deque or a set
  (set elements are hashable, so they never hold one).
\<close>

fun plain_payload :: "pyval \<Rightarrow> bool" where
  "plain_payload (PDict d) = (\<forall>p \<in> set d. (\<exists>k. fst p = KStr k) \<and> plain_payload (snd p))"
| "plain_payload (PList xs) = (\<forall>x \<in> set xs. plain_payload x)"
| "plain_payload (PTuple xs) = (\<forall>x \<in> set xs. plain_payload x)"
| "plain_payload (PDeque xs) = (\<forall>x \<in> set xs. no_dict x)"
| "plain_payload (PSet xs) = (\<forall>x \<in> set xs. no_dict x)"
| "plain_payload _ = True"

fun entries_py :: "(string \<Rightarrow> pyval \<Rightarrow> bool) \<Rightarrow> pyval \<Rightarrow> bool" where
  "entries_py R (PDict d) = (\<forall>p \<in> set d. \<exists>k. fst p = KStr k \<and> R k (snd p) \<and> entries_py R (snd p))"
| "entries_py R (PList xs) = (\<forall>x \<in> set xs. entries_py R x)"
| "entries_py R (PTuple xs) = (\<forall>x \<in> set xs. entries_py R x)"
| "entries_py R (PDeque xs) = (\<forall>x \<in> set xs. no_dict x)"
| "entries_py R (PSet xs) = (\<forall>x \<in> set xs. no_dict x)"
| "entries_py R _ = True"

lemma entries_no_dict: "no_dict v \<Longrightarrow> entries R (json_safe v)"
  by (induction v) (auto split: pyfloat.splits)

lemma set_dict_of: "set (dict_of ps) \<subseteq> set ps"
proof -
  have "set (foldl (\<lambda>d p. dset d (fst p) (snd p)) acc ps) \<subseteq> set acc \<union> set ps" for acc
  proof (induction ps arbitrary: acc)
    case (Cons p ps)
    have "set (dset acc (fst p) (snd p)) \<subseteq> insert p (set acc)"
      using set_dset_subset [of "fst p" "snd p" acc] by simp
    with Cons.IH [of "dset acc (fst p) (snd p)"] show ?case by auto
  qed simp
  from this [of "[]"] show ?thesis by (simp add: dict_of_def)
qed

lemma distinct_dict_of [simp]: "distinct_keys (dict_of ps)"
proof -
  have "distinct_keys acc \<Longrightarrow> distinct_keys (foldl (\<lambda>d p. dset d (fst p) (snd p)) acc ps)" for acc
    by (induction ps arbitrary: acc) auto
  from this [of "[]"] show ?thesis by (simp add: dict_of_def)
qed

lemma entries_json_safe:
  "entries_py (\<lambda>k v. R k (json_safe v)) v \<Longrightarrow> entries R (json_safe v)"
proof (induction v)
  case (PDict d)
  let ?d = "map (\<lambda>p. (key_text (fst p), snd p)) (map (\<lambda>p. (fst p, json_safe (snd p))) d)"
  have "\<forall>q \<in> set ?d. R (fst q) (snd q) \<and> entries R (snd q)"
  proof
    fix q assume "q \<in> set ?d"
    then obtain p where p: "p \<in> set d" "q = (key_text (fst p), json_safe (snd p))" by auto
    with PDict.prems obtain k where "fst p = KStr k" "R k (json_safe (snd p))"
      "entries_py (\<lambda>k v. R k (json_safe v)) (snd p)" by auto
    with p PDict.IH show "R (fst q) (snd q) \<and> entries R (snd q)"
      by (cases p) (auto simp: snds.simps)
  qed
  then have "\<forall>q \<in> set (dict_of ?d). R (fst q) (snd q) \<and> entries R (snd q)"
    using set_dict_of [of ?d] by blast
  then show ?case by (simp only: json_safe.simps entries.simps)
qed (auto intro: entries_no_dict split: pyfloat.splits)

lemma redact_service_entries:
  assumes "\<And>k v. masks_service_key dm sv pt (KStr k) \<Longrightarrow> R k (PStr REDACTED_PLACEHOLDER)"
    and "\<And>k v. \<not> masks_service_key dm sv pt (KStr k) \<Longrightarrow> R k (redact_service_data dm sv pt v)"
  shows "plain_payload v \<Longrightarrow> entries_py R (redact_service_data dm sv pt v)"
proof (induction v)
  case (PDict d)
  then show ?case using assms by (fastforce simp: snds.simps)
qed auto

lemma redact_deep_entries:
  assumes "\<And>k v. Q k v \<Longrightarrow> k \<in> set SECRET_SETTING_KEYS \<Longrightarrow> \<not> is_none_or_empty v \<Longrightarrow> R k (PStr REDACTED_PLACEHOLDER)"
    and "\<And>k v. Q k v \<Longrightarrow> k \<notin> set SECRET_SETTING_KEYS \<or> is_none_or_empty v \<Longrightarrow> R k (redact_secrets_deep v)"
  shows "entries_py Q v \<Longrightarrow> entries_py R (redact_secrets_deep v)"
proof (induction v)
  case (PDict d)
  have "\<exists>k. fst q = KStr k \<and> R k (snd q) \<and> entries_py R (snd q)"
    if "q \<in> set (case redact_secrets_deep (PDict d) of PDict d' \<Rightarrow> d' | _ \<Rightarrow> [])" for q
  proof -
    from that obtain p where p: "p \<in> set d" and q: "q = (fst p,
        if (case fst p of KStr k \<Rightarrow> k \<in> set SECRET_SETTING_KEYS | KOther _ \<Rightarrow> False)
           \<and> \<not> is_none_or_empty (snd p)
        then PStr REDACTED_PLACEHOLDER else redact_secrets_deep (snd p))" by auto
    from p PDict.prems obtain k where k: "fst p = KStr k" "Q k (snd p)" "entries_py Q (snd p)" by auto
    with p PDict.IH have "entries_py R (redact_secrets_deep (snd p))" by (cases p) (auto simp: snds.simps)
    with k q assms [OF k(2)] show ?thesis by (auto split: if_splits)
  qed
  then show ?case by simp
qed auto

text \<open>What the log stores under a key after both passes.\<close>

definition masked_entry :: "(string \<Rightarrow> bool) \<Rightarrow> string \<Rightarrow> json \<Rightarrow> bool" where
  "masked_entry P k v \<longleftrightarrow>
     (P k \<longrightarrow> v = JStr REDACTED_PLACEHOLDER) \<and>
     (k \<in> set SECRET_SETTING_KEYS \<longrightarrow> v \<in> {JStr REDACTED_PLACEHOLDER, JNull, JStr []})"

theorem redaction_complete:
  assumes plain: "plain_payload v"
    and P: "\<And>k. P k \<Longrightarrow> masks_service_key dm sv pt (KStr k)"
  shows "entries (masked_entry P) (json_safe (redact_secrets_deep (redact_service_data dm sv pt v)))"
proof (rule entries_json_safe)
  let ?Q = "\<lambda>k v. P k \<longrightarrow> v = PStr REDACTED_PLACEHOLDER"
  have "entries_py ?Q (redact_service_data dm sv pt v)"
    using P by (intro redact_service_entries plain) auto
  then show "entries_py (\<lambda>k v. masked_entry P k (json_safe v)) (redact_secrets_deep (redact_service_data dm sv pt v))"
    by (rule redact_deep_entries [rotated 2])
      (auto simp: masked_entry_def is_none_or_empty_def REDACTED_PLACEHOLDER_def)
qed

text \<open>Coercion always gives a well-formed JSON value, given well-formed float texts.\<close>

fun floats_ok :: "pyval \<Rightarrow> bool" where
  "floats_ok (PFloat (Finite t)) = float_ok t"
| "floats_ok (PDict d) = (\<forall>p \<in> set d. floats_ok (snd p))"
| "floats_ok (PList xs) = (\<forall>x \<in> set xs. floats_ok x)"
| "floats_ok (PTuple xs) = (\<forall>x \<in> set xs. floats_ok x)"
| "floats_ok (PDeque xs) = (\<forall>x \<in> set xs. floats_ok x)"
| "floats_ok (PSet xs) = (\<forall>x \<in> set xs. floats_ok x)"
| "floats_ok _ = True"

lemma wf_json_safe: "floats_ok v \<Longrightarrow> wf_json (json_safe v)"
proof (induction v)
  case (PDict d)
  let ?d = "map (\<lambda>p. (key_text (fst p), snd p)) (map (\<lambda>p. (fst p, json_safe (snd p))) d)"
  have "\<forall>q \<in> set ?d. wf_json (snd q)" using PDict by (auto simp: snds.simps)
  then have "\<forall>q \<in> set (dict_of ?d). wf_json (snd q)" using set_dict_of [of ?d] by blast
  then show ?case by (simp only: json_safe.simps wf_json.simps distinct_dict_of simp_thms)
qed (auto split: pyfloat.splits)

lemma floats_ok_redact [simp]:
  "floats_ok v \<Longrightarrow> floats_ok (redact_service_data dm sv pt v)"
  "floats_ok v \<Longrightarrow> floats_ok (redact_secrets_deep v)"
proof (induction v)
  case (PDict d)
  {
    case 1 with PDict show ?case by (auto simp: snds.simps)
  next
    case 2 with PDict show ?case by (auto simp: snds.simps)
  }
qed auto

end
