(* ===== verification/PyInt.thy ===== *)
theory PyInt
  imports Json
begin

text \<open>
  \<open>int(x)\<close> on the values a JSON document can hold: text with an optional sign and single
  underscores between digits, and floats, which are truncated after rounding the literal to the
  nearest binary64 value; a literal beyond the largest double is infinite and \<open>int\<close> of it
  raises OverflowError, which is no ValueError.
\<close>

section \<open>Floats\<close>

fun bit_len :: "nat \<Rightarrow> nat" where
  "bit_len n = (if n = 0 then 0 else Suc (bit_len (n div 2)))"

declare bit_len.simps [simp del]

definition round_half_even :: "nat \<Rightarrow> nat \<Rightarrow> nat" where
  "round_half_even n d =
     (let q = n div d; r = n mod d
      in if 2 * r < d then q else if d < 2 * r then q + 1 else if even q then q else q + 1)"

text \<open>The integer part of the double nearest to \<open>n / d\<close>.\<close>

definition double_trunc :: "nat \<Rightarrow> nat \<Rightarrow> nat" where
  "double_trunc n d =
     (if n < d then (if d * (2 ^ 54 - 1) \<le> n * 2 ^ 54 then 1 else 0)
      else
        (let e = bit_len (n div d) - 1
         in if 52 \<le> e then round_half_even n (d * 2 ^ (e - 52)) * 2 ^ (e - 52)
            else round_half_even (n * 2 ^ (52 - e)) d div 2 ^ (52 - e)))"

definition float_parts :: "string \<Rightarrow> bool \<times> string \<times> string \<times> int" where
  "float_parts t =
     (let neg = (t \<noteq> [] \<and> hd t = CHR ''-''); u = (if neg then tl t else t);
          ip = takeWhile is_digit u; r = dropWhile is_digit u;
          dot = (r \<noteq> [] \<and> hd r = CHR ''.'');
          fp = (if dot then takeWhile is_digit (tl r) else []);
          r2 = (if dot then dropWhile is_digit (tl r) else r);
          x = (if r2 = [] then [] else tl r2);
          e = (if x = [] then 0
               else if hd x = CHR ''-'' then - int (digits_val (tl x))
               else if hd x = CHR ''+'' then int (digits_val (tl x))
               else int (digits_val x))
      in (neg, ip, fp, e))"

definition float_to_int :: "string \<Rightarrow> int res" where
  "float_to_int t =
     (if t = ''NaN'' then Inl ValueError
      else if t = ''Infinity'' \<or> t = ''-Infinity'' then Inl OverflowError
      else
        (let (neg, ip, fp, e) = float_parts t;
             m = digits_val (ip @ fp); x = e - int (length fp);
             k = double_trunc (if 0 \<le> x then m * 10 ^ nat x else m) (if 0 \<le> x then 1 else 10 ^ nat (- x))
         in if 2 ^ 1024 \<le> k then Inl OverflowError
            else Inr (if neg then - int k else int k)))"

section \<open>Text and JSON values\<close>

definition py_int_str :: "string \<Rightarrow> int res" where
  "py_int_str s =
     (let t = strip s;
          neg = (t \<noteq> [] \<and> hd t = CHR ''-'');
          u = (if t \<noteq> [] \<and> (hd t = CHR ''-'' \<or> hd t = CHR ''+'') then tl t else t);
          ds = filter (\<lambda>c. c \<noteq> CHR ''_'') u
      in if list_all is_digit ds \<and> [] \<notin> set (split_on (CHR ''_'') u) \<and> length ds \<le> 4300
         then Inr (if neg then - int (digits_val ds) else int (digits_val ds))
         else Inl ValueError)"

fun py_int :: "json \<Rightarrow> int res" where
  "py_int (JInt i) = Inr i"
| "py_int (JBool b) = Inr (if b then 1 else 0)"
| "py_int (JFloat t) = float_to_int t"
| "py_int (JStr s) = py_int_str s"
| "py_int _ = Inl TypeError"

text \<open>\<open>int(x)\<close> inside \<open>except (TypeError, ValueError)\<close>: \<^term>\<open>None\<close> stands for the handler.\<close>

definition int_or_none :: "json \<Rightarrow> int option res" where
  "int_or_none v =
     (case py_int v of
        Inr i \<Rightarrow> Inr (Some i)
      | Inl e \<Rightarrow> if e = TypeError \<or> is_value_error e then Inr None else Inl e)"

lemma int_or_none_simps [simp]:
  "int_or_none (JInt i) = Inr (Some i)" "int_or_none (JBool b) = Inr (Some (if b then 1 else 0))"
  "int_or_none JNull = Inr None" "int_or_none (JArr xs) = Inr None" "int_or_none (JObj d) = Inr None"
  by (simp_all add: int_or_none_def)

text \<open>Digits are read as their value; so the text that \<open>str(i)\<close> gives is read back by \<open>int\<close>.\<close>

lemma py_int_str_digits:
  assumes ne: "ds \<noteq> []" and dig: "\<forall>c \<in> set ds. is_digit c" and len: "length ds \<le> 4300"
  shows "py_int_str ds = Inr (int (digits_val ds))"
proof -
  have nd: "\<not> is_digit (CHR ''_'')" "\<not> is_digit (CHR ''-'')" "\<not> is_digit (CHR ''+'')"
    by (simp_all add: is_digit_iff)
  have sp: "is_digit c \<Longrightarrow> \<not> is_space c" for c
    by (auto simp: is_space_def is_bspace_def is_digit_iff)
  obtain c t where ct: "ds = c # t" using ne by (cases ds) auto
  have "strip ds = ds" using dig sp ct by (intro strip_by_id) auto
  moreover have "CHR ''_'' \<notin> set ds" using dig nd by blast
  moreover have "c \<noteq> CHR ''-''" "c \<noteq> CHR ''+''" using dig nd ct by auto
  moreover have "filter (\<lambda>c. c \<noteq> CHR ''_'') ds = ds" using dig nd by (intro filter_True) auto
  ultimately show ?thesis using len dig
    by (auto simp: py_int_str_def ct split_on_no_sep list_all_iff Let_def)
qed

lemma py_int_str_nat: "length (nat_text n) \<le> 4300 \<Longrightarrow> py_int_str (nat_text n) = Inr (int n)"
  using py_int_str_digits [of "nat_text n"] nat_text_digits by simp

end
