(* ===== verification/PyDict.thy ===== *)
theory PyDict
  imports PyInt
begin

text \<open>
  What the stored JSON data offers to Python code: subscription and \<open>get\<close> on dicts, tables of
  a nested document with the exception a value of another shape raises, \<open>setdefault\<close>, \<open>update\<close>,
  lists that keep their newest entries, and datetimes. A datetime counts microseconds since
  the epoch and either carries an offset (then the count is that of the UTC time) or is naive;
  the order of the two kinds is a TypeError.
\<close>

section \<open>Dicts of JSON values\<close>

definition dget_default :: "dict \<Rightarrow> string \<Rightarrow> json \<Rightarrow> json" where
  "dget_default d k v = (case dget d k of Some x \<Rightarrow> x | None \<Rightarrow> v)"

abbreviation dget_null :: "dict \<Rightarrow> string \<Rightarrow> json" where
  "dget_null d k \<equiv> dget_default d k JNull"

definition item :: "dict \<Rightarrow> string \<Rightarrow> json res" where
  "item d k = (case dget d k of Some x \<Rightarrow> Inr x | None \<Rightarrow> Inl KeyError)"

text \<open>A value used as a dict; one of another type raises \<open>e\<close>.\<close>

definition as_table :: "py_exc \<Rightarrow> json \<Rightarrow> dict res" where
  "as_table e v = (case v of JObj d \<Rightarrow> Inr d | _ \<Rightarrow> Inl e)"

definition as_list :: "py_exc \<Rightarrow> json \<Rightarrow> json list res" where
  "as_list e v = (case v of JArr xs \<Rightarrow> Inr xs | _ \<Rightarrow> Inl e)"

definition dsetdefault :: "dict \<Rightarrow> string \<Rightarrow> json \<Rightarrow> dict" where
  "dsetdefault d k v = (if dget d k = None then dset d k v else d)"

definition dupdate :: "dict \<Rightarrow> dict \<Rightarrow> dict" where
  "dupdate d e = foldl (\<lambda>a p. dset a (fst p) (snd p)) d e"

definition opt_json :: "string option \<Rightarrow> json" where
  "opt_json x = (case x of None \<Rightarrow> JNull | Some s \<Rightarrow> JStr s)"

text \<open>\<open>x or y\<close>.\<close>

definition or_else :: "json \<Rightarrow> json \<Rightarrow> json" where
  "or_else x y = (if truthy x then x else y)"

lemma as_table_simps [simp]: "as_table e (JObj d) = Inr d" "as_table e JNull = Inl e"
  "as_table e (JArr xs) = Inl e" "as_table e (JStr s) = Inl e" "as_table e (JInt i) = Inl e"
  "as_table e (JBool b) = Inl e" "as_table e (JFloat t) = Inl e"
  by (simp_all add: as_table_def)

lemma as_table_Inr: "as_table e v = Inr t \<longleftrightarrow> v = JObj t"
  by (cases v) auto

lemma as_list_Inr: "as_list e v = Inr xs \<longleftrightarrow> v = JArr xs"
  by (cases v) (auto simp: as_list_def)

lemma as_list_JArr [simp]: "as_list e (JArr xs) = Inr xs"
  by (simp add: as_list_def)

lemma item_Inr: "item d k = Inr v \<longleftrightarrow> dget d k = Some v"
  by (simp add: item_def split: option.splits)

lemma dget_default_simps [dict_simps]:
  "dget_default (dset d k v) k' w = (if k' = k then v else dget_default d k' w)"
  "dget_default (ddel d k) k' w = (if k' = k then w else dget_default d k' w)"
  by (simp_all add: dget_default_def dict_simps)

lemma dget_default_Some: "dget d k = Some x \<Longrightarrow> dget_default d k v = x"
  by (simp add: dget_default_def)

lemma dget_dsetdefault [dict_simps]:
  "dget (dsetdefault d k v) k' = (if k' = k \<and> dget d k = None then Some v else dget d k')"
  by (simp add: dsetdefault_def dict_simps)

lemma dupdate_simps [simp]:
  "dupdate d [] = d" "dupdate d (p # e) = dupdate (dset d (fst p) (snd p)) e"
  by (simp_all add: dupdate_def)

lemma dget_dupdate:
  "distinct_keys e \<Longrightarrow> dget (dupdate d e) k = (case dget e k of Some v \<Rightarrow> Some v | None \<Rightarrow> dget d k)"
proof (induction e arbitrary: d)
  case (Cons p e)
  obtain a v where p: "p = (a, v)" by (cases p)
  have n: "a = k \<Longrightarrow> dget e k = None"
    using Cons.prems p by (auto simp: map_of_eq_None_iff)
  show ?case
    using Cons.IH [of "dset d a v"] Cons.prems p n by (auto simp: dict_simps split: option.splits)
qed simp

lemma distinct_keys_dupdate [simp]: "distinct_keys d \<Longrightarrow> distinct_keys (dupdate d e)"
  by (induction e arbitrary: d) auto

lemma distinct_keys_dsetdefault [simp]: "distinct_keys d \<Longrightarrow> distinct_keys (dsetdefault d k v)"
  by (simp add: dsetdefault_def)

section \<open>Lists that keep their newest entries\<close>

definition keep_newest :: "nat \<Rightarrow> 'a list \<Rightarrow> 'a list" where
  "keep_newest n xs = drop (length xs - n) xs"

lemma keep_newest_length [simp]: "length (keep_newest n xs) = min n (length xs)"
  by (simp add: keep_newest_def)

lemma keep_newest_id: "length xs \<le> n \<Longrightarrow> keep_newest n xs = xs"
  by (simp add: keep_newest_def)

lemma keep_newest_append:
  "keep_newest n (keep_newest n xs @ ys) = keep_newest n (xs @ ys)"
proof (cases "length xs \<le> n")
  case False
  then have "drop (length (drop (length xs - n) xs @ ys) - n) (drop (length xs - n) xs @ ys)
      = drop (length ys) (drop (length xs - n) xs @ ys)" by simp
  also have "\<dots> = drop (length ys) (drop (length xs - n) (xs @ ys))" by simp
  also have "\<dots> = drop (length ys + (length xs - n)) (xs @ ys)" by (simp only: drop_drop)
  finally show ?thesis using False by (simp add: keep_newest_def add.commute)
qed (simp add: keep_newest_id)

lemma set_keep_newest: "set (keep_newest n xs) \<subseteq> set xs"
  by (simp add: keep_newest_def set_drop_subset)

section \<open>Datetimes\<close>

datatype moment = Aware int | Naive int

definition moment_less :: "moment \<Rightarrow> moment \<Rightarrow> bool res" where
  "moment_less a b =
     (case (a, b) of
        (Aware x, Aware y) \<Rightarrow> Inr (x < y)
      | (Naive x, Naive y) \<Rightarrow> Inr (x < y)
      | _ \<Rightarrow> Inl TypeError)"

definition moment_minus :: "moment \<Rightarrow> moment \<Rightarrow> int res" where
  "moment_minus a b =
     (case (a, b) of
        (Aware x, Aware y) \<Rightarrow> Inr (x - y)
      | (Naive x, Naive y) \<Rightarrow> Inr (x - y)
      | _ \<Rightarrow> Inl TypeError)"

abbreviation (input) us_second :: int where "us_second \<equiv> 1000000"

abbreviation (input) us_day :: int where "us_day \<equiv> 86400 * 1000000"

text \<open>The first instant a datetime can hold (year 1), from which no span can be taken away.\<close>

definition min_moment :: int where "min_moment = - 62135596800 * us_second"

text \<open>\<open>when - timedelta(days=n)\<close> for an aware time.\<close>

definition minus_days :: "int \<Rightarrow> int \<Rightarrow> int res" where
  "minus_days t n =
     (if 999999999 < \<bar>n\<bar> then Inl OverflowError
      else if t - n * us_day < min_moment then Inl OverflowError
      else Inr (t - n * us_day))"

lemma moment_less_Aware [simp]: "moment_less (Aware x) (Aware y) = Inr (x < y)"
  by (simp add: moment_less_def)

lemma moment_minus_Aware [simp]: "moment_minus (Aware x) (Aware y) = Inr (x - y)"
  by (simp add: moment_minus_def)

end
