(* ===== verification/AuditDisk.thy ===== *)
theory AuditDisk
  imports AuditRedact PyDict "HOL-Library.Product_Lexorder"
begin

text \<open>
  The audit directory and the code of \<open>audit.py\<close> that reads and writes it: text decoding and
  line reading, the block-wise reverse reader, day file names and their order, the choice of the
  file an append goes to, the durable append with its failure modes, and the tail reads. A file
  is a byte string (\<^typ>\<open>char\<close> as a byte); the directory is the list of its entries in the
  order \<open>os.listdir\<close> gives them, \<open>chain_head.json\<close> a component of its own.
\<close>

section \<open>Decoding and lines\<close>

definition cont_byte :: "nat \<Rightarrow> nat \<Rightarrow> char \<Rightarrow> bool" where
  "cont_byte lo hi c \<longleftrightarrow> lo \<le> of_char c \<and> of_char c \<le> hi"

text \<open>Strict UTF-8: \<^term>\<open>None\<close> is UnicodeDecodeError. Code points above 255 become \<^const>\<open>wide_char\<close>.\<close>

fun utf8_decode :: "string \<Rightarrow> string option" where
  "utf8_decode [] = Some []"
| "utf8_decode (a # s) =
     (let n = of_char a :: nat in
      if n < 128 then map_option ((#) a) (utf8_decode s)
      else if 194 \<le> n \<and> n \<le> 223 then
        (case s of
           b # s' \<Rightarrow>
             if cont_byte 128 191 b
             then map_option ((#) (let p = (n - 192) * 64 + (of_char b - 128)
                                   in if p < 256 then char_of p else wide_char)) (utf8_decode s')
             else None
         | [] \<Rightarrow> None)
      else if 224 \<le> n \<and> n \<le> 239 then
        (case s of
           b # c # s' \<Rightarrow>
             if cont_byte (if n = 224 then 160 else 128) (if n = 237 then 159 else 191) b
                \<and> cont_byte 128 191 c
             then map_option ((#) wide_char) (utf8_decode s') else None
         | _ \<Rightarrow> None)
      else if 240 \<le> n \<and> n \<le> 244 then
        (case s of
           b # c # d # s' \<Rightarrow>
             if cont_byte (if n = 240 then 144 else 128) (if n = 244 then 143 else 191) b
                \<and> cont_byte 128 191 c \<and> cont_byte 128 191 d
             then map_option ((#) wide_char) (utf8_decode s') else None
         | _ \<Rightarrow> None)
      else None)"

text \<open>Text mode translates \<open>\r\n\<close> and \<open>\r\<close> to \<open>\n\<close>.\<close>

fun universal_newlines :: "string \<Rightarrow> string" where
  "universal_newlines [] = []"
| "universal_newlines (c # s) =
     (if c = CHR 13 then
        newline # (case s of d # t \<Rightarrow> if d = newline then universal_newlines t else universal_newlines s
                   | [] \<Rightarrow> [])
      else c # universal_newlines s)"

definition nonblank_lines :: "(string \<Rightarrow> string) \<Rightarrow> string \<Rightarrow> string list" where
  "nonblank_lines str s = filter (\<lambda>l. l \<noteq> []) (map str (split_on newline s))"

text \<open>
  \<open>_read_jsonl\<close>: the stripped non-empty lines of a text file. Only \<open>OSError\<close> is caught, so
  bytes that are not UTF-8 raise; decoding errors are modelled at the first read of the file.
\<close>

definition read_jsonl :: "string \<Rightarrow> string list res" where
  "read_jsonl bytes =
     (case utf8_decode bytes of
        None \<Rightarrow> Inl UnicodeDecodeError
      | Some t \<Rightarrow> Inr (nonblank_lines strip (universal_newlines t)))"

definition REVERSE_READ_BLOCK :: nat where "REVERSE_READ_BLOCK = 64 * 1024"

text \<open>
  \<open>_read_jsonl_reversed\<close>: read blocks of \<open>blk\<close> bytes from the end; \<open>carry\<close> is the part of a line
  whose beginning lies in the block before.
\<close>

function read_blocks_reversed :: "nat \<Rightarrow> string \<Rightarrow> nat \<Rightarrow> string \<Rightarrow> string list" where
  "read_blocks_reversed blk bytes position carry =
     (if position = 0 \<or> blk = 0 then (if bstrip carry = [] then [] else [bstrip carry])
      else
        (let sz = min blk position;
             position' = position - sz;
             parts = split_on newline (take sz (drop position' bytes) @ carry)
         in filter (\<lambda>l. l \<noteq> []) (map bstrip (rev (tl parts)))
            @ read_blocks_reversed blk bytes position' (hd parts)))"
  by pat_completeness auto
termination
  by (relation "measure (\<lambda>(blk, bytes, position, carry). position)") auto

declare read_blocks_reversed.simps [simp del]

definition read_jsonl_reversed :: "string \<Rightarrow> string list" where
  "read_jsonl_reversed bytes = read_blocks_reversed REVERSE_READ_BLOCK bytes (length bytes) []"

text \<open>\<open>json.loads\<close> of one line given as bytes.\<close>

definition loads_bytes :: "string \<Rightarrow> json option" where
  "loads_bytes b = Option.bind (utf8_decode b) loads"

section \<open>Dates and file names\<close>

type_synonym date = "nat \<times> nat \<times> nat"

definition is_leap :: "nat \<Rightarrow> bool" where
  "is_leap y \<longleftrightarrow> y mod 4 = 0 \<and> (y mod 100 \<noteq> 0 \<or> y mod 400 = 0)"

definition days_in_month :: "nat \<Rightarrow> nat \<Rightarrow> nat" where
  "days_in_month y m =
     (if m = 2 then (if is_leap y then 29 else 28)
      else if m \<in> {4, 6, 9, 11} then 30 else 31)"

definition valid_date :: "date \<Rightarrow> bool" where
  "valid_date t =
     (case t of (y, m, d) \<Rightarrow>
        1 \<le> y \<and> y \<le> 9999 \<and> 1 \<le> m \<and> m \<le> 12 \<and> 1 \<le> d \<and> d \<le> days_in_month y m)"

text \<open>\<open>date.toordinal\<close>, for the cutoff that retention subtracts days from.\<close>

definition to_ordinal :: "date \<Rightarrow> int" where
  "to_ordinal t =
     (case t of (y, m, d) \<Rightarrow>
        (let p = int y - 1 in p * 365 + p div 4 - p div 100 + p div 400
         + int (sum_list (map (days_in_month y) [1..<m])) + int d))"

definition pad2 :: "nat \<Rightarrow> string" where
  "pad2 n = [digit_char (n div 10), digit_char (n mod 10)]"

definition pad4 :: "nat \<Rightarrow> string" where
  "pad4 n = pad2 (n div 100) @ pad2 (n mod 100)"

definition date_iso :: "date \<Rightarrow> string" where
  "date_iso t = (case t of (y, m, d) \<Rightarrow> pad4 y @ ''-'' @ pad2 m @ ''-'' @ pad2 d)"

text \<open>The shape \<open>\d{4}-\d{2}-\d{2}\<close>, and \<open>date.fromisoformat\<close> of such a text.\<close>

definition date_shape :: "string \<Rightarrow> bool" where
  "date_shape s \<longleftrightarrow> length s = 10 \<and> s ! 4 = CHR ''-'' \<and> s ! 7 = CHR ''-''
     \<and> list_all is_digit (take 4 s @ take 2 (drop 5 s) @ drop 8 s)"

definition parse_date :: "string \<Rightarrow> date option" where
  "parse_date s =
     (let t = (digits_val (take 4 s), digits_val (take 2 (drop 5 s)), digits_val (drop 8 s))
      in if date_shape s \<and> valid_date t then Some t else None)"

text \<open>\<open>_FILENAME_RE\<close>: the date text and the segment (0 when absent); \<open>$\<close> allows one final newline.\<close>

definition parse_name :: "string \<Rightarrow> (string \<times> nat) option" where
  "parse_name nm =
     (let s = (if nm \<noteq> [] \<and> last nm = newline then butlast nm else nm);
          r = drop 6 s; day = take 10 r; t = drop 10 r; seg = takeWhile is_digit (tl t)
      in if \<not> (prefix ''audit-'' s \<and> date_shape day) then None
         else if t = ''.jsonl'' then Some (day, 0)
         else if t \<noteq> [] \<and> hd t = CHR ''.'' \<and> seg \<noteq> [] \<and> dropWhile is_digit (tl t) = ''.jsonl''
              then Some (day, digits_val seg)
         else None)"

definition seg_name :: "date \<times> nat \<Rightarrow> string" where
  "seg_name k =
     ''audit-'' @ date_iso (fst k) @ (if snd k = 0 then [] else ''.'' @ nat_text (snd k)) @ ''.jsonl''"

section \<open>The directory\<close>

type_synonym files = "(string \<times> string) list"

record disk =
  d_files :: files
  d_head :: "string option"

definition day_entry :: "string \<Rightarrow> ((date \<times> nat) \<times> string) option" where
  "day_entry nm =
     (case parse_name nm of
        None \<Rightarrow> None
      | Some (day, seg) \<Rightarrow> map_option (\<lambda>t. ((t, seg), nm)) (parse_date day))"

text \<open>\<open>_sync_list_day_files\<close>: day files in (date, segment) order, which is write order.\<close>

definition list_day_files :: "files \<Rightarrow> (date \<times> string) list" where
  "list_day_files fs =
     map (\<lambda>e. (fst (fst e), snd e)) (sort_key fst (List.map_filter day_entry (map fst fs)))"

definition SEGMENT_MAX_BYTES :: nat where "SEGMENT_MAX_BYTES = 32 * 1024 * 1024"

definition file_size :: "files \<Rightarrow> string \<Rightarrow> nat option" where
  "file_size fs nm = map_option length (dget fs nm)"

text \<open>Python's \<open>max(segments, key=...)\<close>: the first entry with the greatest segment.\<close>

fun max_seg :: "(nat \<times> string) \<Rightarrow> (nat \<times> string) list \<Rightarrow> nat \<times> string" where
  "max_seg best [] = best"
| "max_seg best (x # xs) = max_seg (if fst best < fst x then x else best) xs"

text \<open>\<open>_sync_find_target_day_file\<close>: the segments of one day, and the file to append to.\<close>

definition day_segments :: "files \<Rightarrow> string \<Rightarrow> (nat \<times> string) list" where
  "day_segments fs day =
     [(seg, nm). (nm, _) \<leftarrow> fs, (d, seg) \<leftarrow> (case parse_name nm of None \<Rightarrow> [] | Some x \<Rightarrow> [x]), d = day]"

definition find_target_day_file :: "files \<Rightarrow> string \<Rightarrow> string" where
  "find_target_day_file fs day =
     (case day_segments fs day of
        [] \<Rightarrow> ''audit-'' @ day @ ''.jsonl''
      | x # xs \<Rightarrow>
          (let (seg, nm) = max_seg x xs in
           case file_size fs nm of
             None \<Rightarrow> nm
           | Some sz \<Rightarrow>
               if sz < SEGMENT_MAX_BYTES then nm
               else ''audit-'' @ day @ ''.'' @ nat_text (seg + 1) @ ''.jsonl''))"

text \<open>\<open>_sync_target_day_file\<close>, with the cached (day, file) of the last append.\<close>

definition target_day_file :: "(string \<times> string) option \<Rightarrow> files \<Rightarrow> string \<Rightarrow> string" where
  "target_day_file cache fs day =
     (case cache of
        Some (cday, cname) \<Rightarrow>
          if cday = day \<and> (\<exists>sz \<in> set_option (file_size fs cname). sz < SEGMENT_MAX_BYTES)
          then cname else find_target_day_file fs day
      | None \<Rightarrow> find_target_day_file fs day)"

text \<open>
  How one \<open>_sync_append_durable\<close> ends: the bytes are synced; the file could not be opened; or a
  write or the fsync failed after \<open>n\<close> bytes, and the trim back to the old sz worked or not.
\<close>

datatype append_outcome = Appended | OpenFailed | WriteFailed nat bool

definition append_bytes :: "string \<Rightarrow> string \<Rightarrow> string" where
  "append_bytes old text = (if old \<noteq> [] \<and> last old \<noteq> newline then newline # text else text)"

definition append_durable :: "append_outcome \<Rightarrow> files \<Rightarrow> string \<Rightarrow> string \<Rightarrow> files \<times> bool" where
  "append_durable out fs nm text =
     (let old = (case dget fs nm of None \<Rightarrow> [] | Some b \<Rightarrow> b); data = append_bytes old text in
      case out of
        OpenFailed \<Rightarrow> (fs, False)
      | WriteFailed n trimmed \<Rightarrow> (dset fs nm (if trimmed then old else old @ take n data), False)
      | Appended \<Rightarrow> (dset fs nm (old @ data), True))"

section \<open>Tail reads\<close>

text \<open>
  \<open>_sync_read_tail_window\<close>: a window from the end that doubles until it holds two newlines or
  reaches the start of the file.
\<close>

function tail_window :: "nat \<Rightarrow> string \<Rightarrow> string \<times> nat" where
  "tail_window window bytes =
     (let start = length bytes - window; buf = drop start bytes in
      if start = 0 \<or> 2 \<le> count_list buf newline \<or> window = 0 then (buf, start)
      else tail_window (2 * window) bytes)"
  by pat_completeness auto
termination
  by (relation "measure (\<lambda>(window, bytes). length bytes - window)") auto

declare tail_window.simps [simp del]

text \<open>What follows the last newline (\<open>buf[buf.rfind(b"\n") + 1:]\<close>).\<close>

definition after_last_newline :: "string \<Rightarrow> string" where
  "after_last_newline b = rev (takeWhile (\<lambda>c. c \<noteq> newline) (rev b))"

text \<open>
  \<open>_sync_repair_torn_tail\<close>: the file without its unterminated, unparseable last line and how many
  bytes that was, or \<^term>\<open>None\<close> when nothing is cut.
\<close>

definition repair_torn_tail :: "string \<Rightarrow> (string \<times> nat) option" where
  "repair_torn_tail bytes =
     (let (buf, start) = tail_window REVERSE_READ_BLOCK bytes; fragment = after_last_newline buf in
      if bytes = [] \<or> (buf \<noteq> [] \<and> last buf = newline) then None
      else if bstrip fragment = [] then None
      else if (\<exists>v \<in> set_option (loads_bytes fragment). as_obj v \<noteq> None) then None
      else Some (take (start + (length buf - length fragment)) bytes, length fragment))"

text \<open>\<open>_sync_read_tail_seq_hash\<close>: the last record's seq and hash, for the retention anchor.\<close>

definition read_tail_seq_hash :: "string \<Rightarrow> (int \<times> string) option res" where
  "read_tail_seq_hash bytes =
     bind_res (read_jsonl bytes)
       (\<lambda>ls. Inr
          (if ls = [] then None
           else case Option.bind (loads (last ls)) as_obj of
             None \<Rightarrow> None
           | Some r \<Rightarrow>
               (case (Option.bind (dget r ''seq'') as_pyint, Option.bind (dget r ''hash'') as_str) of
                  (Some s, Some h) \<Rightarrow> if h = [] then None else Some (s, h)
                | _ \<Rightarrow> None)))"

section \<open>Reading back what was written\<close>

definition ascii :: "char \<Rightarrow> bool" where
  "ascii c \<longleftrightarrow> (of_char c :: nat) < 128"

lemma utf8_decode_ascii: "(\<forall>c \<in> set s. ascii c) \<Longrightarrow> utf8_decode s = Some s"
  by (induction s) (auto simp: ascii_def)

lemma ascii_consts [simp]: "ascii newline" "printable c \<Longrightarrow> ascii c"
  by (auto simp: ascii_def printable_iff)

lemma universal_newlines_id: "CHR 13 \<notin> set s \<Longrightarrow> universal_newlines s = s"
  by (induction s) auto

definition line_text :: "dict \<Rightarrow> string" where
  "line_text r = dumps_sorted (JObj r)"

definition render :: "dict list \<Rightarrow> string" where
  "render rs = concat (map (\<lambda>r. line_text r @ [newline]) rs)"

lemma render_simps [simp]: "render [] = []" "render (r # rs) = line_text r @ newline # render rs"
  "render (rs @ ts) = render rs @ render ts"
  by (simp_all add: render_def)

abbreviation wf_dict :: "dict \<Rightarrow> bool" where "wf_dict r \<equiv> wf_json (JObj r)"

lemmas wf_dict_iff = wf_json.simps(3)

declare wf_json.simps(3) [simp del]

lemma line_text_printable: "wf_dict r \<Longrightarrow> c \<in> set (line_text r) \<Longrightarrow> printable c"
  unfolding line_text_def by (rule printable_spaced)

lemma line_text_no_newline: "wf_dict r \<Longrightarrow> newline \<notin> set (line_text r)"
  using line_text_printable [of r newline] by (auto simp: printable_iff)

lemma line_text_ends: "line_text r \<noteq> []" "hd (line_text r) = CHR ''{''" "last (line_text r) = CHR ''}''"
  by (simp_all add: line_text_def)

lemma strip_line_text [simp]:
  "strip (line_text r) = line_text r" "bstrip (line_text r) = line_text r"
  by (simp_all add: strip_by_id line_text_ends is_space_def is_bspace_def)

lemma split_render:
  "(\<forall>r \<in> set rs. wf_dict r) \<Longrightarrow> split_on newline (render rs @ t) = map line_text rs @ split_on newline t"
  by (induction rs) (auto simp: split_on_append line_text_no_newline)

lemma lines_render:
  assumes "\<forall>r \<in> set rs. wf_dict r" "P = is_space \<or> P = is_bspace"
  shows "nonblank_lines (strip_by P) (render rs) = map line_text rs"
proof -
  have "map (strip_by P) (map line_text rs) = map line_text rs"
    using assms(2) by auto
  moreover have "split_on newline (render rs) = map line_text rs @ [[]]"
    using split_render [OF assms(1), of "[]"] by simp
  ultimately show ?thesis
    by (simp add: nonblank_lines_def line_text_ends filter_id_conv)
qed

lemma render_chars: "(\<forall>r \<in> set rs. wf_dict r) \<Longrightarrow> c \<in> set (render rs) \<Longrightarrow> printable c \<or> c = newline"
  by (induction rs) (auto dest: line_text_printable)

lemma read_jsonl_render:
  assumes "\<forall>r \<in> set rs. wf_dict r"
  shows "read_jsonl (render rs) = Inr (map line_text rs)"
proof -
  have "\<forall>c \<in> set (render rs). ascii c" using render_chars [OF assms] ascii_consts by blast
  then have "utf8_decode (render rs) = Some (render rs)" by (rule utf8_decode_ascii)
  moreover have "CHR 13 \<notin> set (render rs)"
    using render_chars [OF assms, of "CHR 13"] by (auto simp: printable_iff)
  ultimately show ?thesis
    using lines_render [OF assms, of is_space] by (simp add: read_jsonl_def universal_newlines_id)
qed

lemma loads_line_text: "wf_dict r \<Longrightarrow> loads (line_text r) = Some (canon True (JObj r))"
  unfolding line_text_def by (rule loads_spaced)

text \<open>The record a written line reads back as: the same entries, keys sorted.\<close>

definition stored :: "dict \<Rightarrow> dict" where
  "stored r = order_keys True (map (\<lambda>p. (fst p, canon True (snd p))) r)"

lemma loads_line: "wf_dict r \<Longrightarrow> loads (line_text r) = Some (JObj (stored r))"
  by (simp add: loads_line_text stored_def)

lemma dget_stored: "wf_dict r \<Longrightarrow> dget (stored r) k = map_option (canon True) (dget r k)"
  by (simp add: stored_def dget_canon wf_dict_iff)

lemma loads_bytes_line: "wf_dict r \<Longrightarrow> loads_bytes (line_text r) = Some (JObj (stored r))"
proof -
  assume wf: "wf_dict r"
  then have "\<forall>c \<in> set (line_text r). ascii c" using line_text_printable by auto
  with wf show ?thesis by (simp add: loads_bytes_def utf8_decode_ascii loads_line)
qed

lemma line_text_stored [simp]: "line_text (stored r) = line_text r"
  using spaced_canon [of True "'', ''" "'': ''" "JObj r"] by (simp add: line_text_def stored_def)

lemma wf_stored [simp]: "wf_dict (stored r) = wf_dict r"
  using wf_json_canon [of True "JObj r"] by (simp add: stored_def)

lemma line_text_ddel_stored [simp]: "line_text (ddel (stored r) k) = line_text (ddel r k)"
  using spaced_canon [of True "'', ''" "'': ''" "JObj (ddel r k)"] canon_ddel [of True r k]
  by (simp add: line_text_def stored_def)

section \<open>The block-wise reverse reader\<close>

lemma split_on_concat:
  "split_on c (a @ b) = butlast (split_on c a) @ (last (split_on c a) @ hd (split_on c b)) # tl (split_on c b)"
proof (induction a)
  case Nil
  then show ?case by (cases "split_on c b") (auto simp: neq_Nil_conv)
next
  case (Cons x a)
  show ?case
  proof (cases "x = c")
    case True
    with Cons show ?thesis by simp
  next
    case False
    obtain y ys where "split_on c a = y # ys" by (cases "split_on c a") auto
    with False Cons show ?thesis by (cases ys) auto
  qed
qed

lemma read_blocks_reversed_spec:
  assumes "0 < blk" "position \<le> length bytes" "newline \<notin> set carry"
  shows "read_blocks_reversed blk bytes position carry
           = rev (nonblank_lines bstrip (take position bytes @ carry))"
  using assms
proof (induction blk bytes position carry rule: read_blocks_reversed.induct)
  case (1 blk bytes position carry)
  show ?case
  proof (cases "position = 0")
    case True
    with "1.prems" show ?thesis
      by (subst read_blocks_reversed.simps) (simp add: nonblank_lines_def split_on_no_sep)
  next
    case False
    let ?size = "min blk position" and ?p = "position - min blk position"
    let ?chunk = "take ?size (drop ?p bytes)"
    let ?parts = "split_on newline (?chunk @ carry)"
    have hd: "newline \<notin> set (hd ?parts)"
      by (rule split_on_parts [OF hd_in_set [OF split_on_nonempty]])
    then have IH: "read_blocks_reversed blk bytes ?p (hd ?parts)
        = rev (nonblank_lines bstrip (take ?p bytes @ hd ?parts))"
      using 1 False by (auto simp: Let_def)
    have "take position bytes = take ?p bytes @ ?chunk"
      by (metis le_add_diff_inverse2 min.cobounded2 take_add)
    then have "split_on newline (take position bytes @ carry)
        = split_on newline (take ?p bytes @ (?chunk @ carry))" by simp
    also have "\<dots> = split_on newline (take ?p bytes @ hd ?parts) @ tl ?parts"
      using split_on_no_sep [OF hd]
      by (simp only: split_on_concat [of newline "take ?p bytes"]) simp
    finally have "nonblank_lines bstrip (take position bytes @ carry)
        = nonblank_lines bstrip (take ?p bytes @ hd ?parts) @ filter (\<lambda>l. l \<noteq> []) (map bstrip (tl ?parts))"
      by (simp add: nonblank_lines_def)
    then show ?thesis
      using False "1.prems"(1) IH
      by (subst read_blocks_reversed.simps) (simp add: Let_def rev_map rev_filter)
  qed
qed

text \<open>The optimised reader yields the lines of the file, last first.\<close>

theorem read_jsonl_reversed_eq:
  "read_jsonl_reversed bytes = rev (nonblank_lines bstrip bytes)"
  using read_blocks_reversed_spec [of REVERSE_READ_BLOCK "length bytes" bytes "[]"]
  by (simp add: read_jsonl_reversed_def REVERSE_READ_BLOCK_def)

section \<open>The torn tail\<close>

lemma after_last_newline_append:
  assumes "newline \<notin> set q"
  shows "after_last_newline (p @ newline # q) = q" "after_last_newline q = q"
proof -
  have all: "\<And>c. c \<in> set (rev q) \<Longrightarrow> c \<noteq> newline" using assms by auto
  then have "takeWhile (\<lambda>c. c \<noteq> newline) (rev q @ newline # rev p) = rev q"
    by (subst takeWhile_append2) auto
  then show "after_last_newline (p @ newline # q) = q" by (simp add: after_last_newline_def)
  have "takeWhile (\<lambda>c. c \<noteq> newline) (rev q) = rev q"
    using all by (subst takeWhile_eq_all_conv) auto
  then show "after_last_newline q = q" unfolding after_last_newline_def by (simp only: rev_rev_ident)
qed

lemma after_last_newline_window:
  assumes "newline \<in> set (drop n b) \<or> n = 0"
  shows "after_last_newline (drop n b) = after_last_newline b"
proof (cases "n = 0")
  case False
  with assms have "newline \<in> set (rev (drop n b))" by simp
  then have "takeWhile (\<lambda>c. c \<noteq> newline) (rev (drop n b) @ rev (take n b))
      = takeWhile (\<lambda>c. c \<noteq> newline) (rev (drop n b))"
    by (intro takeWhile_append1) auto
  then show ?thesis
    by (simp add: after_last_newline_def flip: rev_append)
qed simp

lemma tail_window_spec:
  "0 < window \<Longrightarrow> \<exists>start. tail_window window b = (drop start b, start) \<and> start \<le> length b
     \<and> (start = 0 \<or> 2 \<le> count_list (drop start b) newline)"
proof (induction window b rule: tail_window.induct)
  case (1 window b)
  show ?case
  proof (cases "length b - window = 0 \<or> 2 \<le> count_list (drop (length b - window) b) newline")
    case True
    then show ?thesis by (subst tail_window.simps) (auto simp: Let_def)
  next
    case False
    with 1 show ?thesis by (subst tail_window.simps) (auto simp: Let_def)
  qed
qed

lemma count_list_pos: "0 < count_list xs x \<Longrightarrow> x \<in> set xs"
  by (metis count_notin less_nat_zero_code)

text \<open>The repair looks at the window only, but acts as if it had read the whole file.\<close>

theorem repair_torn_tail_eq:
  "repair_torn_tail bytes =
     (let fragment = after_last_newline bytes in
      if bytes = [] \<or> last bytes = newline \<or> bstrip fragment = []
         \<or> (\<exists>v \<in> set_option (loads_bytes fragment). as_obj v \<noteq> None) then None
      else Some (take (length bytes - length fragment) bytes, length fragment))"
proof -
  obtain start where w: "tail_window REVERSE_READ_BLOCK bytes = (drop start bytes, start)"
    "start \<le> length bytes" "start = 0 \<or> 2 \<le> count_list (drop start bytes) newline"
    using tail_window_spec [of REVERSE_READ_BLOCK bytes] by (auto simp: REVERSE_READ_BLOCK_def)
  then have nl: "newline \<in> set (drop start bytes) \<or> start = 0"
    using count_list_pos [of "drop start bytes" newline] by auto
  then have f: "after_last_newline (drop start bytes) = after_last_newline bytes"
    by (rule after_last_newline_window)
  have l: "length (after_last_newline (drop start bytes)) \<le> length (drop start bytes)"
    unfolding after_last_newline_def by (simp only: length_rev) (metis length_rev length_takeWhile_le)
  from nl w(2) have "bytes \<noteq> [] \<Longrightarrow> drop start bytes \<noteq> []" by auto
  then have e: "bytes = [] \<or> drop start bytes \<noteq> [] \<and> last (drop start bytes) = newline
      \<longleftrightarrow> bytes = [] \<or> last bytes = newline" using w(2) by (auto simp: last_drop)
  show ?thesis using w l e f by (auto simp: repair_torn_tail_def Let_def)
qed

text \<open>A write torn inside a line is cut back to the whole lines before it.\<close>

theorem repair_torn_render:
  assumes wf: "wf_dict r" "\<forall>x \<in> set rs. wf_dict x"
    and pq: "line_text r = p @ q" "p \<noteq> []" "q \<noteq> []"
  shows "repair_torn_tail (render rs @ p) = Some (render rs, length p)"
proof -
  have nn: "newline \<notin> set p" using line_text_no_newline [OF wf(1)] pq(1) by auto
  have frag: "after_last_newline (render rs @ p) = p"
  proof (cases rs rule: rev_cases)
    case Nil
    with nn show ?thesis by (simp add: after_last_newline_append)
  next
    case (snoc ys y)
    with after_last_newline_append(1) [OF nn, of "render ys @ line_text y"] show ?thesis by simp
  qed
  have "loads p = None"
    by (rule loads_torn [OF wf(1), of True p q]) (use pq in \<open>simp_all add: line_text_def\<close>)
  moreover have "\<forall>c \<in> set p. ascii c" using line_text_printable [OF wf(1)] pq(1) by auto
  ultimately have bad: "loads_bytes p = None" by (simp add: loads_bytes_def utf8_decode_ascii)
  have "bstrip p \<noteq> []"
  proof -
    have "hd p = CHR ''{''" using line_text_ends(2) [of r] pq by simp
    with pq(2) have "CHR ''{'' \<in> set p" by (metis hd_in_set)
    then show ?thesis by (auto simp: strip_by_eq_Nil is_bspace_def)
  qed
  moreover have "last (render rs @ p) \<noteq> newline" using nn pq(2) by (metis last_appendR last_in_set)
  ultimately show ?thesis using frag bad pq(2)
    by (simp add: repair_torn_tail_eq Let_def)
qed

text \<open>A file of whole lines, or one whose last line only lost its newline, is left alone.\<close>

lemma repair_whole:
  assumes wf: "wf_dict r" "\<forall>x \<in> set rs. wf_dict x"
  shows "repair_torn_tail (render rs) = None" "repair_torn_tail (render rs @ line_text r) = None"
proof -
  show "repair_torn_tail (render rs) = None"
    by (cases rs rule: rev_cases) (auto simp: repair_torn_tail_eq Let_def)
  have nn: "newline \<notin> set (line_text r)" by (rule line_text_no_newline [OF wf(1)])
  have frag: "after_last_newline (render rs @ line_text r) = line_text r"
  proof (cases rs rule: rev_cases)
    case Nil
    with nn show ?thesis by (simp add: after_last_newline_append)
  next
    case (snoc ys y)
    with after_last_newline_append(1) [OF nn, of "render ys @ line_text y"] show ?thesis by simp
  qed
  with wf show "repair_torn_tail (render rs @ line_text r) = None"
    by (simp add: repair_torn_tail_eq Let_def loads_bytes_line)
qed

section \<open>File names and their order\<close>

lemma digit_char_less: "a < 10 \<Longrightarrow> b < 10 \<Longrightarrow> digit_char a < digit_char b \<longleftrightarrow> a < b"
  by (simp add: less_char_def of_char_digit_char)

lemma digit_char_inj: "a < 10 \<Longrightarrow> b < 10 \<Longrightarrow> digit_char a = digit_char b \<longleftrightarrow> a = b"
  by (metis digit_val_digit_char)

lemma div_mod_less:
  assumes "0 < (k :: nat)"
  shows "a < b \<longleftrightarrow> a div k < b div k \<or> a div k = b div k \<and> a mod k < b mod k"
proof -
  have r: "a mod k < k" "b mod k < k" using assms by auto
  have e: "a = k * (a div k) + a mod k" "b = k * (b div k) + b mod k" by auto
  consider "a div k < b div k" | "a div k = b div k" | "b div k < a div k" by linarith
  then show ?thesis
  proof cases
    case 1
    then have "k * (a div k) + k \<le> k * (b div k)" by (metis Suc_leI mult_Suc_right mult_le_mono2 add.commute)
    with r e have "a < b" by linarith
    with 1 show ?thesis by simp
  next
    case 2
    with e have "a < b \<longleftrightarrow> a mod k < b mod k" by (metis nat_add_left_cancel_less)
    with 2 show ?thesis by simp
  next
    case 3
    then have "k * (b div k) + k \<le> k * (a div k)" by (metis Suc_leI mult_Suc_right mult_le_mono2 add.commute)
    with r e have "\<not> a < b" by linarith
    with 3 show ?thesis by simp
  qed
qed

lemma div_mod_eq: "(a :: nat) = b \<longleftrightarrow> a div k = b div k \<and> a mod k = b mod k"
  by (metis div_mult_mod_eq)

lemma pad2_less:
  assumes "a < 100" "b < 100"
  shows "pad2 a @ x < pad2 b @ y \<longleftrightarrow> a < b \<or> a = b \<and> x < y"
proof -
  have d: "a div 10 < 10" "b div 10 < 10" using assms by auto
  have c: "digit_char (a div 10) < digit_char (b div 10) \<longleftrightarrow> a div 10 < b div 10"
    "digit_char (a div 10) = digit_char (b div 10) \<longleftrightarrow> a div 10 = b div 10"
    "digit_char (a mod 10) < digit_char (b mod 10) \<longleftrightarrow> a mod 10 < b mod 10"
    "digit_char (a mod 10) = digit_char (b mod 10) \<longleftrightarrow> a mod 10 = b mod 10"
    using d by (simp_all only: digit_char_less digit_char_inj mod_less_divisor zero_less_numeral)
  have "pad2 a @ x < pad2 b @ y \<longleftrightarrow> a div 10 < b div 10 \<or> a div 10 = b div 10
      \<and> (a mod 10 < b mod 10 \<or> a mod 10 = b mod 10 \<and> x < y)"
    unfolding pad2_def append_Cons append_Nil Cons_less_Cons c ..
  then show ?thesis using div_mod_less [of 10 a b, OF zero_less_numeral] div_mod_eq [of a b 10] by argo
qed

lemma pad4_less:
  assumes "a < 10000" "b < 10000"
  shows "pad4 a @ x < pad4 b @ y \<longleftrightarrow> a < b \<or> a = b \<and> x < y"
proof -
  have d: "a div 100 < 100" "b div 100 < 100" "a mod 100 < 100" "b mod 100 < 100" using assms by auto
  have "pad4 a @ x < pad4 b @ y \<longleftrightarrow> a div 100 < b div 100 \<or> a div 100 = b div 100
      \<and> (a mod 100 < b mod 100 \<or> a mod 100 = b mod 100 \<and> x < y)"
    unfolding pad4_def append_assoc pad2_less [OF d(1,2)] pad2_less [OF d(3,4)] ..
  then show ?thesis using div_mod_less [of 100 a b, OF zero_less_numeral] div_mod_eq [of a b 100] by argo
qed

lemma valid_date_bounds:
  "valid_date (y, m, d) \<Longrightarrow> 1 \<le> y \<and> y < 10000 \<and> m < 100 \<and> d < 100 \<and> 1 \<le> m \<and> 1 \<le> d"
  by (auto simp: valid_date_def days_in_month_def split: if_splits)

lemma date_iso_less:
  "valid_date s \<Longrightarrow> valid_date t \<Longrightarrow> date_iso s < date_iso t \<longleftrightarrow> s < t"
proof -
  obtain y m d y' m' d' where st: "s = (y, m, d)" "t = (y', m', d')" by (metis prod_cases3)
  assume "valid_date s" "valid_date t"
  then have b: "y < 10000" "m < 100" "d < 100" "y' < 10000" "m' < 100" "d' < 100"
    using st valid_date_bounds by auto
  from pad2_less [OF b(3,6), of "[]" "[]"] have "pad2 d < pad2 d' \<longleftrightarrow> d < d'" by simp
  with b st show ?thesis by (simp add: date_iso_def pad4_less pad2_less less_prod_def) (auto simp: order_le_less)
qed

lemma date_iso_inj: "valid_date s \<Longrightarrow> valid_date t \<Longrightarrow> date_iso s = date_iso t \<longleftrightarrow> s = t"
  using date_iso_less [of s t] date_iso_less [of t s] by (metis less_irrefl neq_iff)

lemma digits_val_pad2: "n < 100 \<Longrightarrow> digits_val (pad2 n) = n"
  by (simp add: pad2_def digits_val_def)

lemma digits_val_pad4: "n < 10000 \<Longrightarrow> digits_val (pad4 n) = n"
proof -
  assume n: "n < 10000"
  define q where "q = n div 100"
  define r where "r = n mod 100"
  have "q < 100" "r < 100" "n = 100 * q + r" using n by (auto simp: q_def r_def)
  then show ?thesis unfolding pad4_def
    by (simp add: pad2_def digits_val_def flip: q_def r_def)
qed

lemma is_digit_pad: "n < 100 \<Longrightarrow> list_all is_digit (pad2 n)" "n < 10000 \<Longrightarrow> list_all is_digit (pad4 n)"
  by (auto simp: pad2_def pad4_def)

lemma length_pad [simp]: "length (pad2 n) = 2" "length (pad4 n) = 4"
  by (simp_all add: pad2_def pad4_def)

lemma length_date_iso [simp]: "length (date_iso t) = 10"
  by (cases t) (simp add: date_iso_def)

lemma date_shape_iso: "valid_date t \<Longrightarrow> date_shape (date_iso t)"
proof -
  assume v: "valid_date t"
  obtain y m d where t: "t = (y, m, d)" by (metis prod_cases3)
  with v valid_date_bounds have "y < 10000" "m < 100" "d < 100" by auto
  then show ?thesis using t is_digit_pad
    by (simp add: date_shape_def date_iso_def nth_append)
qed

lemma parse_date_iso [simp]: "valid_date t \<Longrightarrow> parse_date (date_iso t) = Some t"
proof -
  assume v: "valid_date t"
  obtain y m d where t: "t = (y, m, d)" by (metis prod_cases3)
  with v valid_date_bounds have "y < 10000" "m < 100" "d < 100" by auto
  then show ?thesis using t v date_shape_iso [OF v]
    by (simp add: parse_date_def date_iso_def digits_val_pad2 digits_val_pad4)
qed

lemma parse_date_Some: "parse_date s = Some t \<Longrightarrow> valid_date t"
  by (auto simp: parse_date_def Let_def split: if_splits)

lemma parse_name_seg [simp]: "valid_date (fst k) \<Longrightarrow> parse_name (seg_name k) = Some (date_iso (fst k), snd k)"
proof -
  assume v: "valid_date (fst k)"
  have nd: "\<not> is_digit (CHR ''.'')" by code_simp
  have digs: "takeWhile is_digit (nat_text n @ CHR ''.'' # r) = nat_text n"
    "dropWhile is_digit (nat_text n @ CHR ''.'' # r) = CHR ''.'' # r" for n r
    using nat_text_digits [of _ n] nd by (simp_all add: takeWhile_append2 dropWhile_append2)
  have "nat_text n @ x \<noteq> CHR ''j'' # z" for n x z
    using nat_text_digits [of "CHR ''j''" n] by (cases "nat_text n") (auto simp: is_digit_iff)
  then show ?thesis using date_shape_iso [OF v] digs [of "snd k" "''jsonl''"]
    by (simp add: seg_name_def parse_name_def Let_def)
qed

lemma day_entry_seg [simp]: "valid_date (fst k) \<Longrightarrow> day_entry (seg_name k) = Some (k, seg_name k)"
  by (simp add: day_entry_def)

lemma seg_name_inj:
  "valid_date (fst k) \<Longrightarrow> valid_date (fst k') \<Longrightarrow> seg_name k = seg_name k' \<longleftrightarrow> k = k'"
  by (metis day_entry_seg option.inject prod.inject)

section \<open>Directories that hold a log\<close>

text \<open>
  A log laid out in segments: the records of each day file, the files in (date, segment) order.
  \<open>holds fs segs\<close> says that the day files of the directory are exactly those of \<open>segs\<close> (other
  names may be there) and that each is the printed lines of its records, the newline of the last
  line possibly lost.
\<close>

type_synonym segs = "((date \<times> nat) \<times> dict list) list"

definition file_holds :: "string \<Rightarrow> dict list \<Rightarrow> bool" where
  "file_holds b rs \<longleftrightarrow> b = render rs \<or> rs \<noteq> [] \<and> b @ [newline] = render rs"

definition wf_segs :: "segs \<Rightarrow> bool" where
  "wf_segs segs \<longleftrightarrow> sorted_wrt (<) (map fst segs)
     \<and> (\<forall>e \<in> set segs. valid_date (fst (fst e)) \<and> (\<forall>r \<in> set (snd e). wf_dict r))"

definition holds :: "files \<Rightarrow> segs \<Rightarrow> bool" where
  "holds fs segs \<longleftrightarrow> wf_segs segs \<and> distinct_keys fs
     \<and> (\<forall>nm \<in> fst ` set fs. parse_name nm \<noteq> None \<longrightarrow> nm \<in> seg_name ` fst ` set segs)
     \<and> (\<forall>e \<in> set segs. \<exists>b. dget fs (seg_name (fst e)) = Some b \<and> file_holds b (snd e))"

definition seg_records :: "segs \<Rightarrow> dict list" where
  "seg_records segs = concat (map snd segs)"

lemma seg_records_simps [simp]:
  "seg_records [] = []" "seg_records (e # segs) = snd e @ seg_records segs"
  "seg_records (segs @ segs') = seg_records segs @ seg_records segs'"
  by (simp_all add: seg_records_def)

lemma wf_segs_distinct: "wf_segs segs \<Longrightarrow> distinct (map fst segs)"
  by (auto simp: wf_segs_def strict_sorted_iff)

lemma wf_segs_wf_dict: "wf_segs segs \<Longrightarrow> \<forall>r \<in> set (seg_records segs). wf_dict r"
  by (auto simp: wf_segs_def seg_records_def)

lemma holds_get:
  assumes "holds fs segs" "e \<in> set segs"
  obtains b where "dget fs (seg_name (fst e)) = Some b" "file_holds b (snd e)"
  using assms by (auto simp: holds_def)

lemma inj_seg_names: "wf_segs segs \<Longrightarrow> inj_on seg_name (fst ` set segs)"
  by (auto simp: inj_on_def wf_segs_def seg_name_inj)

lemma sort_key_unique:
  assumes s: "set xs = set ys" "distinct xs" and o: "sorted_wrt (<) (map f ys)"
  shows "sort_key f xs = (ys :: 'a list)"
proof (rule map_sorted_distinct_set_unique)
  have d: "distinct (map f ys)" "sorted (map f ys)" using o unfolding strict_sorted_iff by blast+
  then show "sorted (map f ys)" "distinct (map f ys)" by blast+
  have e: "set (sort_key f xs) = set ys" using s(1) by (metis set_sort)
  then show "set (sort_key f xs) = set ys" .
  show i: "inj_on f (set (sort_key f xs) \<union> set ys)" using d(1) e by (simp only: Un_absorb distinct_map)
  show "sorted (map f (sort_key f xs))" by simp
  show "distinct (map f (sort_key f xs))"
    unfolding distinct_map distinct_sort using s(2) inj_on_subset [OF i Un_upper1] by blast
qed

lemma mem_map_filter: "x \<in> set (List.map_filter f xs) \<longleftrightarrow> (\<exists>y \<in> set xs. f y = Some x)"
  by (induction xs) (auto simp: List.map_filter_simps split: option.splits)

lemma distinct_map_filter:
  assumes "\<And>x y. f x = Some y \<Longrightarrow> g y = x"
  shows "distinct xs \<Longrightarrow> distinct (List.map_filter f xs)"
  by (induction xs) (auto simp: List.map_filter_simps mem_map_filter dest: assms split: option.splits)

lemma map_filter_day_entry:
  assumes h: "holds fs segs"
  shows "set (List.map_filter day_entry (map fst fs)) = (\<lambda>k. (k, seg_name k)) ` fst ` set segs"
    "distinct (List.map_filter day_entry (map fst fs))"
proof -
  let ?L = "List.map_filter day_entry (map fst fs)"
  have w: "wf_segs segs" and d: "distinct (map fst fs)" using h by (auto simp: holds_def)
  then have v: "valid_date (fst k)" if "k \<in> fst ` set segs" for k using that by (auto simp: wf_segs_def)
  have mem: "x \<in> set ?L \<longleftrightarrow> (\<exists>nm \<in> fst ` set fs. day_entry nm = Some x)" for x
    by (simp add: mem_map_filter)
  show "set ?L = (\<lambda>k. (k, seg_name k)) ` fst ` set segs"
  proof (intro set_eqI iffI)
    fix x assume "x \<in> set ?L"
    then obtain nm where nm: "nm \<in> fst ` set fs" "day_entry nm = Some x" using mem by blast
    then have "parse_name nm \<noteq> None" by (auto simp: day_entry_def split: option.splits)
    then have "nm \<in> seg_name ` fst ` set segs" using h nm(1) unfolding holds_def by blast
    then obtain k where "k \<in> fst ` set segs" "nm = seg_name k" by blast
    with v nm(2) show "x \<in> (\<lambda>k. (k, seg_name k)) ` fst ` set segs" by auto
  next
    fix x assume "x \<in> (\<lambda>k. (k, seg_name k)) ` fst ` set segs"
    then obtain e where e: "e \<in> set segs" "x = (fst e, seg_name (fst e))" by auto
    from holds_get [OF h e(1)] obtain b where "dget fs (seg_name (fst e)) = Some b" by blast
    then have "seg_name (fst e) \<in> fst ` set fs" by (metis domI dom_map_of_conv_image_fst)
    moreover have "day_entry (seg_name (fst e)) = Some x" using e v [of "fst e"] by simp
    ultimately show "x \<in> set ?L" unfolding mem by blast
  qed
  have "snd x = nm" if "day_entry nm = Some x" for nm x
    using that by (auto simp: day_entry_def split: option.splits)
  then show "distinct ?L" using d by (rule distinct_map_filter)
qed

theorem list_day_files_holds:
  assumes h: "holds fs segs"
  shows "list_day_files fs = map (\<lambda>e. (fst (fst e), seg_name (fst e))) segs"
proof -
  let ?es = "map (\<lambda>e. (fst e, seg_name (fst e))) segs"
  have "sort_key fst (List.map_filter day_entry (map fst fs)) = ?es"
  proof (rule sort_key_unique)
    show "set (List.map_filter day_entry (map fst fs)) = set ?es"
      using map_filter_day_entry(1) [OF h] by auto
    show "distinct (List.map_filter day_entry (map fst fs))" by (rule map_filter_day_entry(2) [OF h])
    show "sorted_wrt (<) (map fst ?es)" using h by (simp add: holds_def wf_segs_def comp_def)
  qed
  then show ?thesis by (simp add: list_day_files_def comp_def)
qed

text \<open>Reading a day file of such a directory gives its records back.\<close>

lemma file_holds_cases:
  assumes "file_holds b rs"
  obtains "b = render rs" | qs r where "rs = qs @ [r]" "b = render qs @ line_text r"
  using assms by (cases rs rule: rev_cases) (auto simp: file_holds_def)

lemma read_jsonl_holds:
  assumes "file_holds b rs" "\<forall>r \<in> set rs. wf_dict r"
  shows "read_jsonl b = Inr (map line_text rs)"
  using assms(1)
proof (cases rule: file_holds_cases)
  case 1
  with assms(2) show ?thesis by (simp add: read_jsonl_render)
next
  case (2 qs r)
  then have wf: "\<forall>r \<in> set qs. wf_dict r" "wf_dict r" using assms(2) by auto
  have c: "printable c \<or> c = newline" if "c \<in> set b" for c
    using that 2 render_chars [OF wf(1)] line_text_printable [OF wf(2)] by auto
  then have "utf8_decode b = Some b" using ascii_consts by (intro utf8_decode_ascii) blast
  moreover have "universal_newlines b = b" using c [of "CHR 13"] by (intro universal_newlines_id) (auto simp: printable_iff)
  moreover have "split_on newline b = map line_text qs @ [line_text r]"
    using 2 split_render [OF wf(1), of "line_text r"] line_text_no_newline [OF wf(2)]
    by (simp add: split_on_no_sep)
  moreover have "map strip (map line_text xs) = map line_text xs" for xs by simp
  ultimately show ?thesis using 2
    by (simp add: read_jsonl_def nonblank_lines_def line_text_ends filter_id_conv)
qed

lemma read_jsonl_reversed_holds:
  assumes "file_holds b rs" "\<forall>r \<in> set rs. wf_dict r"
  shows "read_jsonl_reversed b = rev (map line_text rs)"
  using assms(1)
proof (cases rule: file_holds_cases)
  case 1
  with assms(2) show ?thesis by (simp add: read_jsonl_reversed_eq lines_render)
next
  case (2 qs r)
  then have wf: "\<forall>r \<in> set qs. wf_dict r" "wf_dict r" using assms(2) by auto
  moreover have "split_on newline b = map line_text qs @ [line_text r]"
    using 2 split_render [OF wf(1), of "line_text r"] line_text_no_newline [OF wf(2)]
    by (simp add: split_on_no_sep)
  moreover have "map bstrip (map line_text xs) = map line_text xs" for xs by simp
  ultimately show ?thesis using 2
    by (simp add: read_jsonl_reversed_eq nonblank_lines_def line_text_ends filter_id_conv)
qed

section \<open>Appending to such a directory\<close>

text \<open>The layout after records go to the file with key \<open>k\<close>, the newest or a new one.\<close>

definition put_seg :: "segs \<Rightarrow> date \<times> nat \<Rightarrow> dict list \<Rightarrow> segs" where
  "put_seg segs k rs =
     (if segs \<noteq> [] \<and> fst (last segs) = k then butlast segs @ [(k, snd (last segs) @ rs)]
      else segs @ [(k, rs)])"

definition next_key :: "segs \<Rightarrow> date \<times> nat \<Rightarrow> bool" where
  "next_key segs k \<longleftrightarrow> valid_date (fst k) \<and> (segs \<noteq> [] \<longrightarrow> fst (last segs) \<le> k)"

lemma seg_records_put [simp]: "seg_records (put_seg segs k rs) = seg_records segs @ rs"
  by (cases segs rule: rev_cases) (auto simp: put_seg_def)

lemma put_seg_last [simp]: "put_seg segs k rs \<noteq> []" "fst (last (put_seg segs k rs)) = k"
  by (auto simp: put_seg_def)

lemma wf_segs_snoc:
  "wf_segs (segs @ [e]) \<longleftrightarrow> wf_segs segs \<and> (segs \<noteq> [] \<longrightarrow> fst (last segs) < fst e)
     \<and> valid_date (fst (fst e)) \<and> (\<forall>r \<in> set (snd e). wf_dict r)"
proof -
  have "(\<forall>x \<in> set segs. fst x < fst e) \<longleftrightarrow> (segs \<noteq> [] \<longrightarrow> fst (last segs) < fst e)"
    if "sorted_wrt (<) (map fst segs)"
    using that by (cases segs rule: rev_cases) (auto simp: sorted_wrt_append intro: less_trans)
  then show ?thesis by (auto simp: wf_segs_def sorted_wrt_append)
qed

lemma wf_segs_put:
  assumes "wf_segs segs" "next_key segs k" "\<forall>r \<in> set rs. wf_dict r"
  shows "wf_segs (put_seg segs k rs)"
proof (cases "segs \<noteq> [] \<and> fst (last segs) = k")
  case True
  then obtain xs e where segs: "segs = xs @ [e]" "fst e = k" by (metis append_butlast_last_id)
  then have "put_seg segs k rs = xs @ [(k, snd e @ rs)]" by (simp add: put_seg_def)
  with assms segs show ?thesis by (auto simp: wf_segs_snoc)
next
  case False
  then have "put_seg segs k rs = segs @ [(k, rs)]" by (auto simp: put_seg_def)
  with False assms show ?thesis by (auto simp: wf_segs_snoc next_key_def order_le_less)
qed

definition old_records :: "segs \<Rightarrow> date \<times> nat \<Rightarrow> dict list" where
  "old_records segs k = (if segs \<noteq> [] \<and> fst (last segs) = k then snd (last segs) else [])"

lemma holds_old:
  assumes "holds fs segs" "next_key segs k"
  shows "file_holds (case dget fs (seg_name k) of None \<Rightarrow> [] | Some b \<Rightarrow> b) (old_records segs k)"
proof (cases "segs \<noteq> [] \<and> fst (last segs) = k")
  case True
  then have "last segs \<in> set segs" by simp
  from holds_get [OF assms(1) this] True show ?thesis by (metis old_records_def option.simps(5))
next
  case False
  have "k \<notin> fst ` set segs"
  proof (cases segs rule: rev_cases)
    case (snoc xs e)
    with False assms(2) have "fst e < k" by (auto simp: next_key_def)
    moreover have "\<forall>x \<in> set xs. fst x < fst e"
      using assms(1) snoc by (auto simp: holds_def wf_segs_def sorted_wrt_append)
    ultimately show ?thesis using snoc by auto
  qed simp
  moreover have v: "valid_date (fst k)" using assms(2) by (simp add: next_key_def)
  moreover have "\<forall>k' \<in> fst ` set segs. valid_date (fst k')" using assms(1) by (auto simp: holds_def wf_segs_def)
  ultimately have "seg_name k \<notin> seg_name ` fst ` set segs" using seg_name_inj [OF v] by blast
  then have "seg_name k \<notin> fst ` set fs" using assms(1) v unfolding holds_def by (metis option.simps(3) parse_name_seg)
  then have "dget fs (seg_name k) = None" by (simp add: map_of_eq_None_iff)
  with False show ?thesis by (auto simp: old_records_def file_holds_def)
qed

lemma holds_dset:
  assumes h: "holds fs segs" and k: "next_key segs k" and rs: "\<forall>r \<in> set rs. wf_dict r"
    and b: "file_holds b (old_records segs k @ rs)"
  shows "holds (dset fs (seg_name k) b) (put_seg segs k rs)"
proof -
  let ?fs = "dset fs (seg_name k) b"
  have w: "wf_segs segs" and v: "valid_date (fst k)" using h k by (auto simp: holds_def next_key_def)
  have w': "wf_segs (put_seg segs k rs)" by (rule wf_segs_put [OF w k rs])
  have keys: "fst ` set (put_seg segs k rs) = insert k (fst ` set segs)"
    by (cases segs rule: rev_cases) (auto simp: put_seg_def)
  have "\<exists>c. dget ?fs (seg_name (fst e)) = Some c \<and> file_holds c (snd e)" if e: "e \<in> set (put_seg segs k rs)" for e
  proof (cases "fst e = k")
    case True
    have "last (put_seg segs k rs) \<in> set (put_seg segs k rs)" by simp
    with True e wf_segs_distinct [OF w'] have "e = last (put_seg segs k rs)"
      by (metis (no_types, lifting) eq_key_imp_eq_value prod.collapse put_seg_last(2))
    then have "snd e = old_records segs k @ rs" by (auto simp: put_seg_def old_records_def)
    with True b show ?thesis by (simp add: dict_simps)
  next
    case False
    with e have "e \<in> set segs" by (auto simp: put_seg_def split: if_splits dest: in_set_butlastD)
    moreover from this w have "valid_date (fst (fst e))" by (auto simp: wf_segs_def)
    ultimately show ?thesis using False v h by (auto simp: dict_simps seg_name_inj holds_def)
  qed
  moreover have "\<forall>nm \<in> fst ` set ?fs. parse_name nm \<noteq> None \<longrightarrow> nm \<in> seg_name ` fst ` set (put_seg segs k rs)"
    using h unfolding keys keys_dset by (auto simp: holds_def)
  ultimately show ?thesis using w' h by (simp add: holds_def)
qed

lemma append_bytes_holds:
  assumes "file_holds b old"
  shows "file_holds (b @ append_bytes b (render rs)) (old @ rs)"
  using assms
proof (cases rule: file_holds_cases)
  case 1
  then have "b = [] \<or> last b = newline" by (cases old rule: rev_cases) auto
  with 1 show ?thesis by (auto simp: append_bytes_def file_holds_def)
next
  case (2 qs r)
  then have "b \<noteq> []" "last b = CHR ''}''" using line_text_ends [of r] by auto
  with 2 show ?thesis by (simp add: append_bytes_def file_holds_def)
qed

text \<open>The durable append, on a directory that holds a log: all of it, or nothing.\<close>

theorem append_durable_holds:
  assumes h: "holds fs segs" and k: "next_key segs k" and rs: "\<forall>r \<in> set rs. wf_dict r"
  shows "append_durable Appended fs (seg_name k) (render rs) = (fs', ok) \<Longrightarrow> ok \<and> holds fs' (put_seg segs k rs)"
    and "append_durable OpenFailed fs (seg_name k) (render rs) = (fs', ok) \<Longrightarrow> \<not> ok \<and> fs' = fs"
    and "append_durable (WriteFailed n True) fs (seg_name k) (render rs) = (fs', ok)
       \<Longrightarrow> \<not> ok \<and> holds fs' (put_seg segs k [])"
  using holds_dset [OF h k rs append_bytes_holds [OF holds_old [OF h k]]]
    holds_dset [OF h k, of "[]"] holds_old [OF h k]
  by (auto simp: append_durable_def Let_def)

section \<open>The file an append goes to\<close>

lemma max_seg_mem: "max_seg best xs = best \<or> max_seg best xs \<in> set xs"
  by (induction best xs rule: max_seg.induct) (auto split: if_splits)

lemma max_seg_mono: "fst best \<le> fst (max_seg best xs)"
proof (induction best xs rule: max_seg.induct)
  case (2 best x xs)
  then show ?case by (simp split: if_splits)
qed simp

lemma max_seg_ge: "y \<in> set xs \<Longrightarrow> fst y \<le> fst (max_seg best xs)"
proof (induction best xs rule: max_seg.induct)
  case (2 best x xs)
  show ?case
  proof (cases "y = x")
    case True
    have "fst x \<le> fst (if fst best < fst x then x else best)" by simp
    also have "\<dots> \<le> fst (max_seg best (x # xs))" by (simp add: max_seg_mono)
    finally show ?thesis using True by simp
  next
    case False
    with 2 show ?thesis by simp
  qed
qed simp

lemma wf_segs_last:
  assumes "wf_segs segs" "k \<in> fst ` set segs"
  shows "k \<le> fst (last segs)"
proof (cases segs rule: rev_cases)
  case (snoc xs e)
  from assms(1) snoc have less: "\<forall>x \<in> set xs. fst x < fst e" by (simp add: wf_segs_def sorted_wrt_append)
  have "k \<in> insert (fst e) (fst ` set xs)" using assms(2) snoc by simp
  then have "k < fst e \<or> k = fst e" using less by (elim insertE imageE) simp_all
  then have "k \<le> fst e" unfolding order_le_less .
  with snoc show ?thesis by simp
qed (use assms(2) in simp)

lemma key_le_iff:
  "(a :: 'a :: linorder \<times> 'b :: linorder) \<le> b \<longleftrightarrow> fst a < fst b \<or> fst a = fst b \<and> snd a \<le> snd b"
  by (auto simp: less_eq_prod_def)

lemma set_day_segments:
  assumes h: "holds fs segs" and d: "valid_date d"
  shows "set (day_segments fs (date_iso d)) = {(s, seg_name (d, s)) |s. (d, s) \<in> fst ` set segs}"
proof (intro set_eqI iffI)
  fix x assume "x \<in> set (day_segments fs (date_iso d))"
  then obtain nm s where x: "x = (s, nm)" "nm \<in> fst ` set fs" "parse_name nm = Some (date_iso d, s)"
    by (force simp: day_segments_def split: option.splits if_splits)
  then have "nm \<in> seg_name ` fst ` set segs" using h unfolding holds_def by (metis option.simps(3))
  then obtain k where k: "k \<in> fst ` set segs" "nm = seg_name k" by blast
  then have "valid_date (fst k)" using h by (auto simp: holds_def wf_segs_def)
  with k x(3) d have "k = (d, s)" by (auto simp: date_iso_inj prod_eq_iff)
  with k x show "x \<in> {(s, seg_name (d, s)) |s. (d, s) \<in> fst ` set segs}" by auto
next
  fix x assume "x \<in> {(s, seg_name (d, s)) |s. (d, s) \<in> fst ` set segs}"
  then obtain s where s: "x = (s, seg_name (d, s))" "(d, s) \<in> fst ` set segs" by blast
  then obtain e where e: "e \<in> set segs" "fst e = (d, s)" by auto
  from holds_get [OF h e(1)] e(2) obtain b where "(seg_name (d, s), b) \<in> set fs" by (metis map_of_SomeD)
  moreover have "parse_name (seg_name (d, s)) = Some (date_iso d, s)" using d by simp
  ultimately show "x \<in> set (day_segments fs (date_iso d))" using s(1)
    by (force simp: day_segments_def)
qed

lemma find_target_holds:
  assumes h: "holds fs segs" and d: "valid_date d" and le: "segs \<noteq> [] \<Longrightarrow> fst (fst (last segs)) \<le> d"
  shows "\<exists>k. find_target_day_file fs (date_iso d) = seg_name k \<and> fst k = d \<and> next_key segs k"
proof (cases "day_segments fs (date_iso d)")
  case Nil
  then have e: "find_target_day_file fs (date_iso d) = seg_name (d, 0)"
    by (simp add: find_target_day_file_def seg_name_def)
  have "fst (last segs) \<le> (d, 0)" if "segs \<noteq> []"
  proof -
    have "last segs \<in> set segs" using that by simp
    then have "fst (fst (last segs)) \<noteq> d"
      using set_day_segments [OF h d] Nil by (metis (mono_tags, lifting) empty_iff image_eqI list.set(1) mem_Collect_eq prod.collapse)
    with le [OF that] have "fst (fst (last segs)) < d" by (metis order_le_less)
    then show ?thesis using key_le_iff [of "fst (last segs)" "(d, 0)"] by simp
  qed
  with e d show ?thesis by (intro exI [of _ "(d, 0)"]) (simp add: next_key_def)
next
  case (Cons x xs)
  obtain s nm where m: "max_seg x xs = (s, nm)" by (metis prod.exhaust)
  with max_seg_mem [of x xs] max_seg_mono [of x xs] max_seg_ge [of _ xs x] Cons
  have mem: "(s, nm) \<in> set (day_segments fs (date_iso d))"
    "\<forall>y \<in> set (day_segments fs (date_iso d)). fst y \<le> s" by (auto simp del: split_paired_All)
  then have nm: "nm = seg_name (d, s)" "(d, s) \<in> fst ` set segs" using set_day_segments [OF h d] by auto
  then have ne: "segs \<noteq> []" by auto
  have w: "wf_segs segs" using h by (simp add: holds_def)
  have "(d, s) \<le> fst (last segs)" by (rule wf_segs_last [OF w nm(2)])
  with le [OF ne] have fd: "fst (fst (last segs)) = d"
    using key_le_iff [of "(d, s)" "fst (last segs)"] by (metis fst_conv leD)
  moreover have "last segs \<in> set segs" using ne by simp
  ultimately have "(snd (fst (last segs)), seg_name (fst (last segs))) \<in> set (day_segments fs (date_iso d))"
    using set_day_segments [OF h d] by (metis (mono_tags, lifting) image_eqI mem_Collect_eq prod.collapse)
  with mem(2) have "snd (fst (last segs)) \<le> s" by fastforce
  with fd have last: "fst (last segs) \<le> (d, s)" "fst (last segs) \<le> (d, s + 1)"
    using key_le_iff [of "fst (last segs)" "(d, s)"] key_le_iff [of "fst (last segs)" "(d, s + 1)"] by auto
  have "find_target_day_file fs (date_iso d) \<in> {seg_name (d, s), seg_name (d, s + 1)}"
    using Cons m nm(1) unfolding find_target_day_file_def
    by (auto simp: seg_name_def split: option.splits)
  then show ?thesis
  proof (elim insertE emptyE)
    assume "find_target_day_file fs (date_iso d) = seg_name (d, s)"
    with last(1) d show ?thesis unfolding next_key_def by (metis fst_conv)
  next
    assume "find_target_day_file fs (date_iso d) = seg_name (d, s + 1)"
    with last(2) d show ?thesis unfolding next_key_def by (metis fst_conv)
  qed
qed

text \<open>The cached target, when its file exists, is the newest file.\<close>

definition cache_ok :: "(string \<times> string) option \<Rightarrow> segs \<Rightarrow> bool" where
  "cache_ok cache segs \<longleftrightarrow>
     (\<forall>day nm. cache = Some (day, nm) \<longrightarrow>
        (\<exists>k. valid_date (fst k) \<and> day = date_iso (fst k) \<and> nm = seg_name k
             \<and> (k \<in> fst ` set segs \<longrightarrow> k = fst (last segs))))"

theorem target_day_file_holds:
  assumes h: "holds fs segs" and d: "valid_date d" and le: "segs \<noteq> [] \<Longrightarrow> fst (fst (last segs)) \<le> d"
    and c: "cache_ok cache segs"
  shows "\<exists>k. target_day_file cache fs (date_iso d) = seg_name k \<and> fst k = d \<and> next_key segs k"
proof (cases "target_day_file cache fs (date_iso d) = find_target_day_file fs (date_iso d)")
  case True
  with find_target_holds [OF h d le] show ?thesis by metis
next
  case False
  then obtain nm sz where nm: "cache = Some (date_iso d, nm)" "file_size fs nm = Some sz"
    "target_day_file cache fs (date_iso d) = nm"
    by (auto simp: target_day_file_def split: option.splits prod.splits if_splits)
  then obtain k where k: "valid_date (fst k)" "date_iso d = date_iso (fst k)" "nm = seg_name k"
    "k \<in> fst ` set segs \<Longrightarrow> k = fst (last segs)" using c unfolding cache_ok_def by blast
  have "nm \<in> fst ` set fs" using nm(2) by (auto simp: file_size_def) (metis domI dom_map_of_conv_image_fst)
  moreover have "parse_name nm \<noteq> None" using k by simp
  ultimately have "nm \<in> seg_name ` fst ` set segs" using h unfolding holds_def by blast
  then obtain k' where k': "k' \<in> fst ` set segs" "nm = seg_name k'" by blast
  moreover have "valid_date (fst k')" using k'(1) h by (auto simp: holds_def wf_segs_def)
  ultimately have "k' = k" using k by (simp add: seg_name_inj)
  with k k' have "k = fst (last segs)" by simp
  moreover have "fst k = d" using k(1,2) d by (simp add: date_iso_inj)
  ultimately show ?thesis using nm(3) k(1,3) unfolding next_key_def by (metis order_refl)
qed

lemma cache_ok_put: "next_key segs k \<Longrightarrow> cache_ok (Some (date_iso (fst k), seg_name k)) (put_seg segs k rs)"
  unfolding cache_ok_def next_key_def put_seg_last by blast

end
