(* ===== verification/AuditLog.thy ===== *)
theory AuditLog
  imports AuditDisk
begin

text \<open>
  \<open>AuditLog\<close> of \<open>audit.py\<close>: its state, the in-memory side (\<open>async_log\<close>, \<open>_prepare_buffered\<close>,
  \<open>_commit_written\<close>), the executor side of a flush (\<open>_sync_flush\<close> with retention), loading and
  recovery at start, and chain-reset detection. SHA-256 of a text is the argument \<open>H\<close> of the
  operations that hash. What the environment decides (clock readings, failing calls) is an
  argument too; text is the ISO form of a time where the code formats one, an integer counts
  microseconds where it subtracts two.
\<close>

declare dumps_with.simps [simp del]

section \<open>State\<close>

record alog =
  buffer :: "dict list"
  prepared :: "dict list"
  dropped_count :: nat
  dropped_first_ts :: "string option"
  dropped_last_ts :: "string option"
  last_flush_error_log :: "int option"
  last_retention :: "int option"
  target_cache :: "(string \<times> string) option"
  day_floor :: "string option"
  recovery_events :: "(string \<times> dict) list"
  seqno :: int
  flush_head :: "(int \<times> json) option"
  head_file_written :: bool
  prev_hash :: json
  anchor :: "dict option"
  reset :: "dict option"
  head_file_found :: bool
  flush_scheduled :: bool
  head_loaded :: bool

definition GENESIS_PREV_HASH :: string where "GENESIS_PREV_HASH = []"

definition new_log :: alog where
  "new_log =
     \<lparr>buffer = [], prepared = [], dropped_count = 0, dropped_first_ts = None, dropped_last_ts = None,
      last_flush_error_log = None, last_retention = None, target_cache = None, day_floor = None,
      recovery_events = [], seqno = 0, flush_head = None, head_file_written = False,
      prev_hash = JStr GENESIS_PREV_HASH, anchor = None, reset = None, head_file_found = False,
      flush_scheduled = False, head_loaded = False\<rparr>"

section \<open>Logging\<close>

definition BUFFER_MAX_RECORDS :: nat where "BUFFER_MAX_RECORDS = 20000"

definition DROPPED_CATEGORY :: string where "DROPPED_CATEGORY = ''audit_records_dropped''"

definition IMMEDIATE_FLUSH_CATEGORIES :: "string list" where
  "IMMEDIATE_FLUSH_CATEGORIES =
     [''user_added'', ''user_updated'', ''user_removed'', ''soc_config_change'', ''dashboard_file_write'',
      ''unifi_config_drift'', ''ssh_device_command'', ''ssh_key_change'', ''ssh_host_key_changed'',
      ''unifi_baseline_accepted'', ''dashboard_file_denied'', ''detection_status_changed'',
      ''probe_auth_rejected'', ''audit_chain_reset'', ''privileged_read'', ''external_audit_chain_break'',
      ''external_audit_rejected'', ''programming_session'']"

definition IMMEDIATE_FLUSH_PREFIXES :: "string list" where
  "IMMEDIATE_FLUSH_PREFIXES = [''firewall_'']"

record audit_event =
  ev_category :: string
  ev_user_id :: "string option"
  ev_domain :: "string option"
  ev_service :: "string option"
  ev_entity_ids :: "string list"
  ev_context_id :: "string option"
  ev_context_parent_id :: "string option"
  ev_ip :: "string option"
  ev_attempted_user :: "string option"
  ev_detail :: "pyval option"
  ev_flush :: bool

definition plain_event :: "string \<Rightarrow> audit_event" where
  "plain_event cat =
     \<lparr>ev_category = cat, ev_user_id = None, ev_domain = None, ev_service = None, ev_entity_ids = [],
      ev_context_id = None, ev_context_parent_id = None, ev_ip = None, ev_attempted_user = None,
      ev_detail = None, ev_flush = False\<rparr>"

definition opt_str :: "string option \<Rightarrow> pyval" where
  "opt_str x = (case x of None \<Rightarrow> PNone | Some s \<Rightarrow> PStr s)"

definition record_fields :: "string \<Rightarrow> audit_event \<Rightarrow> pyval \<Rightarrow> pyval" where
  "record_fields ts e detail =
     PDict [(KStr ''ts'', PStr ts), (KStr ''user_id'', opt_str (ev_user_id e)),
       (KStr ''category'', PStr (ev_category e)), (KStr ''domain'', opt_str (ev_domain e)),
       (KStr ''service'', opt_str (ev_service e)), (KStr ''entity_ids'', PList (map PStr (ev_entity_ids e))),
       (KStr ''context_id'', opt_str (ev_context_id e)),
       (KStr ''context_parent_id'', opt_str (ev_context_parent_id e)),
       (KStr ''ip'', opt_str (ev_ip e)), (KStr ''attempted_user'', opt_str (ev_attempted_user e)),
       (KStr ''detail'', detail)]"

definition safe_record :: "string \<Rightarrow> audit_event \<Rightarrow> pyval \<Rightarrow> dict" where
  "safe_record ts e detail = (case json_safe (record_fields ts e detail) of JObj d \<Rightarrow> d | _ \<Rightarrow> [])"

definition log_record :: "string \<Rightarrow> audit_event \<Rightarrow> dict" where
  "log_record ts e =
     safe_record ts e
       (case ev_detail e of
          None \<Rightarrow> PDict []
        | Some d \<Rightarrow> redact_secrets_deep
            (redact_service_data (ev_domain e) (ev_service e) (ev_category e = ''service_call'') d))"

definition schedule_flush :: "alog \<Rightarrow> alog" where
  "schedule_flush s = (if head_loaded s then s\<lparr>flush_scheduled := True\<rparr> else s)"

definition flushes_at_once :: "audit_event \<Rightarrow> bool" where
  "flushes_at_once e \<longleftrightarrow> ev_flush e \<or> ev_category e \<in> set IMMEDIATE_FLUSH_CATEGORIES
     \<or> (\<exists>p \<in> set IMMEDIATE_FLUSH_PREFIXES. prefix p (ev_category e))"

definition async_log :: "string \<Rightarrow> audit_event \<Rightarrow> alog \<Rightarrow> alog" where
  "async_log ts e s =
     (if BUFFER_MAX_RECORDS \<le> length (buffer s) then
        s\<lparr>dropped_first_ts := (if dropped_count s = 0 then Some ts else dropped_first_ts s),
          dropped_count := dropped_count s + 1,
          dropped_last_ts := Some ts\<rparr>
      else
        (let s' = s\<lparr>buffer := buffer s @ [log_record ts e]\<rparr>
         in if flushes_at_once e then schedule_flush s' else s'))"

section \<open>Numbering and hashing\<close>

definition seal_record :: "(string \<Rightarrow> string) \<Rightarrow> int \<Rightarrow> string \<Rightarrow> dict \<Rightarrow> dict \<times> string" where
  "seal_record H seq p r =
     (let r1 = dset (dset r ''seq'' (JInt seq)) ''prev_hash'' (JStr p);
          h = H (p @ dumps_sorted (JObj r1))
      in (dset r1 ''hash'' (JStr h), h))"

fun seal_from :: "(string \<Rightarrow> string) \<Rightarrow> int \<Rightarrow> string \<Rightarrow> dict list \<Rightarrow> dict list" where
  "seal_from H seq p [] = []"
| "seal_from H seq p (r # rs) =
     (let (r', h) = seal_record H (seq + 1) p r in r' # seal_from H (seq + 1) h rs)"

definition rec_seq :: "dict \<Rightarrow> int" where
  "rec_seq r = (case Option.bind (dget r ''seq'') as_pyint of Some i \<Rightarrow> i | None \<Rightarrow> 0)"

definition rec_hash :: "dict \<Rightarrow> json" where
  "rec_hash r = (case dget r ''hash'' of Some h \<Rightarrow> h | None \<Rightarrow> JNull)"

text \<open>
  \<open>_prepare_buffered\<close>: the cached copies, extended by the records that arrived since. With a
  previous hash that is no text (the head file is not validated), \<open>prev_hash + canonical\<close> raises.
\<close>

definition prepare_buffered :: "(string \<Rightarrow> string) \<Rightarrow> alog \<Rightarrow> (alog \<times> dict list) res" where
  "prepare_buffered H s =
     (let (seq, prev) = (if prepared s \<noteq> [] then (rec_seq (last (prepared s)), rec_hash (last (prepared s)))
                         else (seqno s, prev_hash s));
          new = drop (length (prepared s)) (buffer s)
      in if new = [] then Inr (s, prepared s)
         else case prev of
           JStr p \<Rightarrow>
             (let ps = prepared s @ seal_from H seq p new in Inr (s\<lparr>prepared := ps\<rparr>, ps))
         | _ \<Rightarrow> Inl TypeError)"

definition dropped_record :: "string \<Rightarrow> alog \<Rightarrow> dict" where
  "dropped_record ts s =
     safe_record ts (plain_event DROPPED_CATEGORY)
       (PDict [(KStr ''dropped'', PInt (int (dropped_count s))),
               (KStr ''first_ts'', opt_str (dropped_first_ts s)),
               (KStr ''last_ts'', opt_str (dropped_last_ts s))])"

definition commit_written :: "string \<Rightarrow> dict list \<Rightarrow> alog \<Rightarrow> alog" where
  "commit_written ts written s =
     (let n = length written;
          s1 = s\<lparr>buffer := drop n (buffer s), prepared := drop n (prepared s),
                 seqno := rec_seq (last written), prev_hash := rec_hash (last written)\<rparr>
      in if dropped_count s1 \<noteq> 0 \<and> length (buffer s1) < BUFFER_MAX_RECORDS
         then s1\<lparr>buffer := buffer s1 @ [dropped_record ts s1], dropped_count := 0,
                 dropped_first_ts := None, dropped_last_ts := None\<rparr>
         else s1)"

section \<open>The chain head file\<close>

definition opt_entry :: "string \<Rightarrow> dict option \<Rightarrow> dict" where
  "opt_entry k x = (case x of None \<Rightarrow> [] | Some d \<Rightarrow> [(k, JObj d)])"

text \<open>
  \<open>_sync_write_chain_head\<close>: the position is that of the flush in progress, if any (retention
  rewrites the head before the flush is committed). \<open>ok\<close> says whether the temporary file, its
  fsync and the rename all worked, so the head is either replaced or kept whole.
\<close>

definition head_payload :: "alog \<Rightarrow> dict" where
  "head_payload s =
     (let (q, p) = (case flush_head s of Some qp \<Rightarrow> qp | None \<Rightarrow> (seqno s, prev_hash s))
      in [(''prev_hash'', p), (''seq'', JInt q)]
         @ opt_entry ''anchor'' (anchor s) @ opt_entry ''reset'' (reset s))"

definition write_chain_head :: "bool \<Rightarrow> alog \<Rightarrow> disk \<Rightarrow> disk \<times> bool" where
  "write_chain_head ok s d =
     (if ok then (d\<lparr>d_head := Some (dumps_plain (JObj (head_payload s)))\<rparr>, True) else (d, False))"

definition read_head :: "string \<Rightarrow> json res" where
  "read_head bytes =
     (case utf8_decode bytes of
        None \<Rightarrow> Inl UnicodeDecodeError
      | Some t \<Rightarrow> (case loads (universal_newlines t) of None \<Rightarrow> Inl ValueError | Some v \<Rightarrow> Inr v))"

definition fresh_chain :: "alog \<Rightarrow> alog" where
  "fresh_chain s =
     s\<lparr>head_file_found := False, prev_hash := JStr GENESIS_PREV_HASH, seqno := 0, anchor := None, reset := None\<rparr>"

text \<open>
  \<open>_sync_load_chain_head_file\<close>: a file that is not JSON, or whose seq is not a number, starts a
  fresh chain; \<open>.get\<close> on JSON that is not an object raises AttributeError, and \<open>int\<close> of an
  infinite seq raises OverflowError, and neither is caught.
\<close>

definition load_chain_head_file :: "string option \<Rightarrow> alog \<Rightarrow> alog res" where
  "load_chain_head_file head s0 =
     (let s = s0\<lparr>head_loaded := True, head_file_found := head \<noteq> None\<rparr> in
      case head of
        None \<Rightarrow> Inr (fresh_chain s)
      | Some bytes \<Rightarrow>
          (case read_head bytes of
             Inl e \<Rightarrow> Inr (fresh_chain s)
           | Inr v \<Rightarrow>
               (case as_obj v of
                  None \<Rightarrow> Inl AttributeError
                | Some d \<Rightarrow>
                    (case py_int (dget_default d ''seq'' (JInt 0)) of
                       Inl e \<Rightarrow> if e = TypeError \<or> is_value_error e then Inr (fresh_chain s) else Inl e
                     | Inr q \<Rightarrow>
                         Inr (s\<lparr>prev_hash := dget_default d ''prev_hash'' (JStr GENESIS_PREV_HASH),
                                seqno := q,
                                anchor := Option.bind (dget d ''anchor'') as_obj,
                                reset := Option.bind (dget d ''reset'') as_obj\<rparr>)))))"

section \<open>Writing a batch\<close>

text \<open>
  What the calls of one \<open>_sync_flush\<close> meet: \<open>io_setup\<close> that the directory can be made and listed;
  \<open>io_appends\<close> how the append of each day group ends, \<^term>\<open>None\<close> when even finding its file fails
  (groups past the list succeed); the two head writes; which removals work; and the clocks.
\<close>

record flush_io =
  io_setup :: bool
  io_appends :: "append_outcome option list"
  io_head :: bool
  io_retention_head :: bool
  io_remove :: "string \<Rightarrow> bool"
  io_monotonic :: int
  io_now :: int
  io_now_iso :: string
  io_today :: int

record retention_cfg =
  audit_retention_days :: int
  audit_max_bytes :: int

definition record_day :: "dict \<Rightarrow> string" where
  "record_day r = (case Option.bind (dget r ''ts'') as_str of Some t \<Rightarrow> take 10 t | None \<Rightarrow> [])"

text \<open>Consecutive records of one day key; the key never moves backwards.\<close>

fun group_days :: "string \<Rightarrow> dict list \<Rightarrow> (string \<times> dict list) list" where
  "group_days floor [] = []"
| "group_days floor (r # rs) =
     (let day = max (record_day r) floor in
      case group_days day rs of
        [] \<Rightarrow> [(day, [r])]
      | (d, g) # gs \<Rightarrow> if d = day then (day, r # g) # gs else (day, [r]) # (d, g) # gs)"

record append_state =
  as_files :: files
  as_cache :: "(string \<times> string) option"
  as_floor :: "string option"
  as_written :: nat

fun append_groups ::
    "append_outcome option list \<Rightarrow> (string \<times> dict list) list \<Rightarrow> append_state \<Rightarrow> append_state \<times> bool" where
  "append_groups outs [] st = (st, True)"
| "append_groups outs ((day, rs) # gs) st =
     (case (case outs of [] \<Rightarrow> Some Appended | out # _ \<Rightarrow> out) of
        None \<Rightarrow> (st, False)
      | Some out \<Rightarrow>
          (let nm = target_day_file (as_cache st) (as_files st) day;
               (fs, ok) = append_durable out (as_files st) nm (render rs);
               st' = st\<lparr>as_files := fs, as_cache := Some (day, nm)\<rparr>
           in if ok
              then append_groups (tl outs) gs
                     (st'\<lparr>as_floor := Some day, as_written := as_written st + length rs\<rparr>)
              else (st', False)))"

definition find_day_floor :: "alog \<Rightarrow> files \<Rightarrow> string" where
  "find_day_floor s fs =
     (case day_floor s of
        Some d \<Rightarrow> d
      | None \<Rightarrow> (case list_day_files fs of [] \<Rightarrow> [] | es \<Rightarrow> date_iso (fst (last es))))"

section \<open>Retention\<close>

record removal =
  rm_files :: files
  rm_best :: "(int \<times> string) option"
  rm_through :: "date option"
  rm_any :: bool

definition note_deleted :: "date \<Rightarrow> (int \<times> string) option \<Rightarrow> removal \<Rightarrow> removal" where
  "note_deleted d tail r =
     r\<lparr>rm_any := True,
       rm_through := (case rm_through r of None \<Rightarrow> Some d | Some t \<Rightarrow> Some (if t < d then d else t)),
       rm_best := (case tail of
                     None \<Rightarrow> rm_best r
                   | Some x \<Rightarrow> (case rm_best r of
                                 None \<Rightarrow> Some x
                               | Some b \<Rightarrow> if fst b < fst x then Some x else Some b))\<rparr>"

definition file_bytes :: "files \<Rightarrow> string \<Rightarrow> string" where
  "file_bytes fs nm = (case dget fs nm of None \<Rightarrow> [] | Some b \<Rightarrow> b)"

text \<open>
  Removing one expired file: its tail is read first, and bytes that are not UTF-8 raise. The
  removals made so far stay made when a later one raises, so the state is returned either way.
\<close>

definition remove_file :: "(string \<Rightarrow> bool) \<Rightarrow> date \<Rightarrow> string \<Rightarrow> removal \<Rightarrow> removal \<times> bool res" where
  "remove_file can d nm r =
     (case read_tail_seq_hash (file_bytes (rm_files r) nm) of
        Inl e \<Rightarrow> (r, Inl e)
      | Inr tail \<Rightarrow>
          if can nm then (note_deleted d tail (r\<lparr>rm_files := ddel (rm_files r) nm\<rparr>), Inr True)
          else (r, Inr False))"

text \<open>The age pass: files before the cutoff go; the others are kept, with their sizes.\<close>

fun expire_files ::
    "(string \<Rightarrow> bool) \<Rightarrow> int \<Rightarrow> (date \<times> string) list \<Rightarrow> removal \<Rightarrow> removal \<times> (date \<times> string \<times> nat) list res" where
  "expire_files can cutoff [] r = (r, Inr [])"
| "expire_files can cutoff ((d, nm) # es) r =
     (if to_ordinal d < cutoff
      then (case remove_file can d nm r of
              (r', Inl e) \<Rightarrow> (r', Inl e)
            | (r', Inr _) \<Rightarrow> expire_files can cutoff es r')
      else (case expire_files can cutoff es r of
              (r', Inl e) \<Rightarrow> (r', Inl e)
            | (r', Inr kept) \<Rightarrow> (r', Inr ((d, nm, length (file_bytes (rm_files r) nm)) # kept))))"

text \<open>The size pass: oldest first, never the last remaining file.\<close>

fun enforce_cap ::
    "(string \<Rightarrow> bool) \<Rightarrow> int \<Rightarrow> int \<Rightarrow> (date \<times> string \<times> nat) list \<Rightarrow> removal \<Rightarrow> removal \<times> unit res" where
  "enforce_cap can max_bytes sum_bytes ((d, nm, sz) # e # kept) r =
     (if max_bytes < sum_bytes
      then (case remove_file can d nm r of
              (r', Inl ex) \<Rightarrow> (r', Inl ex)
            | (r', Inr gone) \<Rightarrow>
                enforce_cap can max_bytes (if gone then sum_bytes - int sz else sum_bytes) (e # kept) r')
      else (r, Inr ()))"
| "enforce_cap can max_bytes sum_bytes _ r = (r, Inr ())"

definition retention_anchor :: "flush_io \<Rightarrow> int \<times> string \<Rightarrow> date option \<Rightarrow> dict" where
  "retention_anchor io best through =
     [(''seq'', JInt (fst best)), (''hash'', JStr (snd best)),
      (''expired_through'', (case through of None \<Rightarrow> JNull | Some d \<Rightarrow> JStr (date_iso d))),
      (''expired_at'', JStr (io_now_iso io))]"

definition clear_passed_reset :: "int \<Rightarrow> dict option \<Rightarrow> dict option res" where
  "clear_passed_reset best rst =
     (case rst of
        None \<Rightarrow> Inr None
      | Some d \<Rightarrow>
          bind_res (int_or_none (dget_default d ''seq'' JNull))
            (\<lambda>q. Inr (if q = None \<or> the q \<le> best then None else rst)))"

text \<open>\<open>_sync_apply_retention\<close>. The second component of the result is the exception that escapes.\<close>

definition anchor_ahead :: "int \<Rightarrow> dict option \<Rightarrow> bool res" where
  "anchor_ahead best a =
     (case a of
        None \<Rightarrow> Inr False
      | Some d \<Rightarrow>
          bind_res (int_or_none (dget_default d ''seq'' JNull))
            (\<lambda>q. Inr (case q of None \<Rightarrow> False | Some x \<Rightarrow> best \<le> x)))"

definition re_anchor :: "flush_io \<Rightarrow> removal \<Rightarrow> disk \<Rightarrow> alog \<Rightarrow> (disk \<times> alog) \<times> unit res" where
  "re_anchor io r d s =
     (case rm_best r of
        None \<Rightarrow> ((d, s), Inr ())
      | Some best \<Rightarrow>
          (case anchor_ahead (fst best) (anchor s) of
             Inl e \<Rightarrow> ((d, s), Inl e)
           | Inr True \<Rightarrow> ((d, s), Inr ())
           | Inr False \<Rightarrow>
               (let s1 = s\<lparr>anchor := Some (retention_anchor io best (rm_through r))\<rparr> in
                case clear_passed_reset (fst best) (reset s1) of
                  Inl e \<Rightarrow> ((d, s1), Inl e)
                | Inr rst \<Rightarrow>
                    (let s2 = s1\<lparr>reset := rst\<rparr>
                     in ((fst (write_chain_head (io_retention_head io) s2 d), s2), Inr ())))))"

definition removals :: "flush_io \<Rightarrow> retention_cfg \<Rightarrow> files \<Rightarrow> removal \<times> unit res" where
  "removals io cfg fs =
     (let r0 = \<lparr>rm_files = fs, rm_best = None, rm_through = None, rm_any = False\<rparr>;
          cutoff = io_today io - audit_retention_days cfg in
      if cutoff < 1 then (r0, Inl OverflowError)
      else case expire_files (io_remove io) cutoff (list_day_files fs) r0 of
        (r, Inl e) \<Rightarrow> (r, Inl e)
      | (r, Inr kept) \<Rightarrow>
          enforce_cap (io_remove io) (audit_max_bytes cfg)
            (int (sum_list (map (\<lambda>e. snd (snd e)) kept))) kept r)"

definition apply_retention :: "flush_io \<Rightarrow> retention_cfg \<Rightarrow> disk \<Rightarrow> alog \<Rightarrow> (disk \<times> alog) \<times> unit res" where
  "apply_retention io cfg d s =
     (if list_day_files (d_files d) = [] then ((d, s), Inr ())
      else (let (r, res) = removals io cfg (d_files d); d' = d\<lparr>d_files := rm_files r\<rparr> in
            case res of
              Inl e \<Rightarrow> ((d', s), Inl e)
            | Inr _ \<Rightarrow> if rm_any r then re_anchor io r d' s else ((d', s), Inr ())))"

definition RETENTION_INTERVAL :: int where "RETENTION_INTERVAL = 3600 * 1000000"

definition FLUSH_ERROR_LOG_INTERVAL :: int where "FLUSH_ERROR_LOG_INTERVAL = 600 * 1000000"

text \<open>\<open>_sync_flush\<close>: how many leading records are on disk, or the exception that escapes.\<close>

definition note_flush_error :: "flush_io \<Rightarrow> alog \<Rightarrow> alog" where
  "note_flush_error io s =
     (if last_flush_error_log s = None
         \<or> FLUSH_ERROR_LOG_INTERVAL \<le> io_monotonic io - the (last_flush_error_log s)
      then s\<lparr>last_flush_error_log := Some (io_monotonic io)\<rparr> else s)"

definition flush_records :: "flush_io \<Rightarrow> dict list \<Rightarrow> disk \<Rightarrow> alog \<Rightarrow> (disk \<times> alog) \<times> nat" where
  "flush_records io records d s0 =
     (let s = s0\<lparr>head_file_written := False\<rparr> in
      if \<not> io_setup io then ((d, note_flush_error io s), 0)
      else
        (let fl = find_day_floor s (d_files d);
             (st, ok) = append_groups (io_appends io) (group_days fl records)
               \<lparr>as_files = d_files d, as_cache = target_cache s, as_floor = Some fl, as_written = 0\<rparr>;
             s1 = s\<lparr>target_cache := as_cache st, day_floor := as_floor st\<rparr>
         in ((d\<lparr>d_files := as_files st\<rparr>, if ok then s1 else note_flush_error io s1), as_written st)))"

definition flush_head_step :: "flush_io \<Rightarrow> dict list \<Rightarrow> nat \<Rightarrow> disk \<Rightarrow> alog \<Rightarrow> disk \<times> alog" where
  "flush_head_step io records written d s =
     (if written = 0 then (d, s)
      else
        (let r = records ! (written - 1);
             s1 = s\<lparr>last_flush_error_log := None, flush_head := Some (rec_seq r, rec_hash r)\<rparr>;
             (d', ok) = write_chain_head (io_head io) s1 d
         in (d', s1\<lparr>head_file_written := ok\<rparr>)))"

definition retention_due :: "flush_io \<Rightarrow> alog \<Rightarrow> bool" where
  "retention_due io s \<longleftrightarrow>
     (case last_retention s of None \<Rightarrow> True | Some t \<Rightarrow> RETENTION_INTERVAL \<le> abs (io_now io - t))"

definition flush_retention ::
    "flush_io \<Rightarrow> retention_cfg \<Rightarrow> disk \<Rightarrow> alog \<Rightarrow> (disk \<times> alog) \<times> unit res" where
  "flush_retention io cfg d s =
     (let ((d', s'), out) =
            (if retention_due io s
             then (case apply_retention io cfg d s of
                     ((d1, s1), Inr _) \<Rightarrow> ((d1, s1\<lparr>last_retention := Some (io_now io)\<rparr>), Inr ())
                   | ((d1, s1), Inl e) \<Rightarrow> ((d1, s1), if e = OSError then Inr () else Inl e))
             else ((d, s), Inr ()))
      in ((d', s'\<lparr>flush_head := None\<rparr>), out))"

definition sync_flush ::
    "flush_io \<Rightarrow> retention_cfg \<Rightarrow> dict list \<Rightarrow> disk \<Rightarrow> alog \<Rightarrow> (disk \<times> alog) \<times> nat res" where
  "sync_flush io cfg records d s =
     (let ((d1, s1), written) = flush_records io records d s;
          (d2, s2) = flush_head_step io records written d1 s1;
          ((d3, s3), out) = flush_retention io cfg d2 s2
      in ((d3, s3), case out of Inl e \<Rightarrow> Inl e | Inr _ \<Rightarrow> Inr written))"

section \<open>Starting: load, repair, recover, detect a reset\<close>

record recover_io =
  rc_truncate :: "string \<Rightarrow> bool"
  rc_head :: bool

definition RECOVERY_FILES :: nat where "RECOVERY_FILES = 3"

definition recent_files :: "files \<Rightarrow> (date \<times> string) list" where
  "recent_files fs = take RECOVERY_FILES (rev (list_day_files fs))"

text \<open>\<open>H\<close> is applied to the bytes of the fragment here.\<close>

definition repair_event :: "(string \<Rightarrow> string) \<Rightarrow> string \<Rightarrow> string \<Rightarrow> nat \<Rightarrow> string \<Rightarrow> string \<times> dict" where
  "repair_event H nm kept n bytes =
     (''audit_tail_repaired'',
      [(''file'', JStr nm), (''bytes_removed'', JInt (int n)),
       (''fragment_sha256'', JStr (H (drop (length kept) bytes))), (''truncated_to'', JInt (int (length kept)))])"

fun repair_files ::
    "(string \<Rightarrow> string) \<Rightarrow> (string \<Rightarrow> bool) \<Rightarrow> (date \<times> string) list \<Rightarrow> files \<Rightarrow> (string \<times> dict) list
     \<Rightarrow> (files \<times> (string \<times> dict) list) \<times> bool" where
  "repair_files H can [] fs evs = ((fs, evs), True)"
| "repair_files H can ((_, nm) # es) fs evs =
     (case repair_torn_tail (file_bytes fs nm) of
        None \<Rightarrow> repair_files H can es fs evs
      | Some (kept, n) \<Rightarrow>
          if can nm
          then repair_files H can es (dset fs nm kept) (evs @ [repair_event H nm kept n (file_bytes fs nm)])
          else ((fs, evs), False))"

text \<open>\<open>_sync_records_after\<close>: newest file first, each from its end, until a line or a seq stops it.\<close>

fun collect_lines :: "int \<Rightarrow> string list \<Rightarrow> (int \<times> dict) list \<Rightarrow> (int \<times> dict) list" where
  "collect_lines seq [] found = found"
| "collect_lines seq (l # ls) found =
     (case Option.bind (loads_bytes l) as_obj of
        None \<Rightarrow> found
      | Some r \<Rightarrow>
          (case dget r ''seq'' of
             Some (JInt q) \<Rightarrow> if q < seq then found else collect_lines seq ls (dset found q r)
           | _ \<Rightarrow> found))"

definition records_after :: "files \<Rightarrow> int \<Rightarrow> dict list" where
  "records_after fs seq =
     map snd (sort_key fst
       (foldl (\<lambda>found e. collect_lines seq (read_jsonl_reversed (file_bytes fs (snd e))) found)
          [] (recent_files fs)))"

definition record_hash_ok :: "(string \<Rightarrow> string) \<Rightarrow> dict \<Rightarrow> bool" where
  "record_hash_ok H r =
     (case (dget r ''prev_hash'', dget r ''hash'') of
        (Some (JStr p), Some (JStr h)) \<Rightarrow> H (p @ dumps_sorted (JObj (ddel r ''hash''))) = h
      | _ \<Rightarrow> False)"

fun follow_records :: "(string \<Rightarrow> string) \<Rightarrow> int \<Rightarrow> json \<Rightarrow> dict list \<Rightarrow> (int \<times> json) option" where
  "follow_records H q p [] = Some (q, p)"
| "follow_records H q p (r # rs) =
     (if Option.bind (dget r ''seq'') as_pyint = Some (q + 1)
         \<and> dget_default r ''prev_hash'' JNull = p \<and> record_hash_ok H r
      then follow_records H (q + 1) (rec_hash r) rs else None)"

definition recovered_head :: "(string \<Rightarrow> string) \<Rightarrow> int \<Rightarrow> json \<Rightarrow> dict list \<Rightarrow> (int \<times> json) option" where
  "recovered_head H old_seq old_hash records =
     (if records = [] \<or> rec_seq (last records) \<le> old_seq then None
      else if 0 < old_seq then
        (if rec_seq (hd records) \<noteq> old_seq \<or> rec_hash (hd records) \<noteq> old_hash then None
         else follow_records H old_seq old_hash (tl records))
      else follow_records H old_seq old_hash records)"

definition rebuilt_event :: "int \<Rightarrow> int \<Rightarrow> string \<times> dict" where
  "rebuilt_event before after =
     (''audit_head_rebuilt'', [(''head_seq_before'', JInt before), (''head_seq_after'', JInt after)])"

text \<open>\<open>_sync_recover_from_disk\<close>; a failing truncation ends it and its caller swallows the exception.\<close>

definition recover_from_disk ::
    "(string \<Rightarrow> string) \<Rightarrow> recover_io \<Rightarrow> disk \<Rightarrow> alog \<Rightarrow> disk \<times> alog" where
  "recover_from_disk H io d s =
     (case list_day_files (d_files d) of
        [] \<Rightarrow> (d, s)
      | es \<Rightarrow>
          (let s1 = s\<lparr>day_floor := Some (date_iso (fst (last es)))\<rparr>;
               ((fs, evs), ok) = repair_files H (rc_truncate io) (recent_files (d_files d)) (d_files d) (recovery_events s1);
               d1 = d\<lparr>d_files := fs\<rparr>;
               s2 = s1\<lparr>recovery_events := evs\<rparr>
           in if \<not> ok \<or> \<not> head_file_found s2 then (d1, s2)
              else case recovered_head H (seqno s2) (prev_hash s2) (records_after fs (seqno s2)) of
                None \<Rightarrow> (d1, s2)
              | Some (q, p) \<Rightarrow>
                  (let s3 = s2\<lparr>seqno := q, prev_hash := p\<rparr>
                   in (fst (write_chain_head (rc_head io) s3 d1),
                       s3\<lparr>recovery_events := recovery_events s3 @ [rebuilt_event (seqno s2) q]\<rparr>))))"

definition load_chain_head ::
    "(string \<Rightarrow> string) \<Rightarrow> recover_io \<Rightarrow> disk \<Rightarrow> alog \<Rightarrow> (disk \<times> alog) res" where
  "load_chain_head H io d s =
     bind_res (load_chain_head_file (d_head d) s) (\<lambda>s'. Inr (recover_from_disk H io d s'))"

fun of_json :: "json \<Rightarrow> pyval" where
  "of_json JNull = PNone"
| "of_json (JBool b) = PBool b"
| "of_json (JInt i) = PInt i"
| "of_json (JFloat t) = PFloat (if t = ''NaN'' then NaN else if t = ''Infinity'' then PosInf
                                 else if t = ''-Infinity'' then NegInf else Finite t)"
| "of_json (JStr s) = PStr s"
| "of_json (JArr xs) = PList (map of_json xs)"
| "of_json (JObj d) = PDict (map (\<lambda>p. (KStr (fst p), snd p)) (map (\<lambda>p. (fst p, of_json (snd p))) d))"

text \<open>
  \<open>_async_detect_chain_reset\<close> against the store's mirror of the last flushed head
  (\<^const>\<open>JNull\<close> when the store has none); the second component says that a Repairs issue is
  raised. \<open>at\<close> is the clock of the marker, \<open>ts\<close> that of the record.
\<close>

definition reset_detail :: "alog \<Rightarrow> dict \<Rightarrow> dict" where
  "reset_detail s mirror =
     [(''store_head'', JObj mirror),
      (''disk_head'', if head_file_found s
                       then JObj [(''seq'', JInt (seqno s)), (''prev_hash'', prev_hash s)] else JNull),
      (''actor_source'', JStr ''system'')]"

definition reset_marker :: "string \<Rightarrow> int \<Rightarrow> string \<Rightarrow> alog \<Rightarrow> dict" where
  "reset_marker at mseq mhash s =
     [(''seq'', JInt mseq), (''hash'', JStr mhash), (''at'', JStr at),
      (''disk_head_seq'', if head_file_found s then JInt (seqno s) else JNull)]"

definition mirror_head :: "json \<Rightarrow> (dict \<times> int \<times> string) option res" where
  "mirror_head mirror =
     (case as_obj mirror of
        None \<Rightarrow> Inr None
      | Some m \<Rightarrow>
          bind_res (int_or_none (dget_default m ''seq'' JNull))
            (\<lambda>q. Inr (case (q, Option.bind (dget m ''hash'') as_str) of
                         (Some mseq, Some mhash) \<Rightarrow>
                           if mseq \<le> 0 \<or> mhash = [] then None else Some (m, mseq, mhash)
                       | _ \<Rightarrow> None)))"

definition detect_chain_reset :: "string \<Rightarrow> string \<Rightarrow> json \<Rightarrow> alog \<Rightarrow> (alog \<times> bool) res" where
  "detect_chain_reset at ts mirror s =
     bind_res (mirror_head mirror)
       (\<lambda>m. Inr
          (case m of
             None \<Rightarrow> (s, False)
           | Some (md, mseq, mhash) \<Rightarrow>
               if mseq \<le> seqno s then (s, False)
               else
                 (async_log ts
                    ((plain_event ''audit_chain_reset'')\<lparr>ev_detail := Some (of_json (JObj (reset_detail s md)))\<rparr>)
                    (s\<lparr>reset := Some (reset_marker at mseq mhash s), seqno := mseq, prev_hash := JStr mhash\<rparr>),
                  True)))"

fun log_events :: "(nat \<Rightarrow> string) \<Rightarrow> nat \<Rightarrow> (string \<times> dict) list \<Rightarrow> alog \<Rightarrow> alog" where
  "log_events now i [] s = s"
| "log_events now i ((cat, detail) # evs) s =
     log_events now (Suc i) evs
       (async_log (now i)
          ((plain_event cat)\<lparr>ev_detail := Some (of_json (JObj (dset detail ''actor_source'' (JStr ''system'')))),
                             ev_flush := True\<rparr>) s)"

definition log_recovery_events :: "(nat \<Rightarrow> string) \<Rightarrow> alog \<Rightarrow> alog" where
  "log_recovery_events now s = log_events now 0 (recovery_events s) (s\<lparr>recovery_events := []\<rparr>)"

text \<open>The part of \<open>async_start\<close> before any listener is registered.\<close>

definition start_log ::
    "(string \<Rightarrow> string) \<Rightarrow> recover_io \<Rightarrow> string \<Rightarrow> (nat \<Rightarrow> string) \<Rightarrow> json \<Rightarrow> disk \<Rightarrow> (disk \<times> alog) res" where
  "start_log H io at now mirror d =
     bind_res (load_chain_head H io d new_log)
       (\<lambda>(d', s). bind_res (detect_chain_reset at (now 0) mirror s)
          (\<lambda>(s', _). Inr (d', log_recovery_events (\<lambda>i. now (Suc i)) s')))"

end
