(* ===== verification/AuditVerify.thy ===== *)
theory AuditVerify
  imports AuditLog
begin

text \<open>
  The chain verification of \<open>audit.py\<close> (\<open>_sync_verify_chain\<close>) with the merge of the segments of a day and the
  walk over the records; it reads the disk, not the state. Queries are in \<open>AuditQuery\<close>.
\<close>

section \<open>What the head file says\<close>

text \<open>\<open>_sync_read_chain_head_file\<close>: unreadable files and JSON that is no object read as absent.\<close>

definition head_object :: "string option \<Rightarrow> dict option" where
  "head_object head =
     (case head of
        None \<Rightarrow> None
      | Some bytes \<Rightarrow> (case read_head bytes of Inl _ \<Rightarrow> None | Inr v \<Rightarrow> as_obj v))"

definition head_checkpoint :: "string option \<Rightarrow> (int \<times> json) option res" where
  "head_checkpoint head =
     (case head_object head of
        None \<Rightarrow> Inr None
      | Some d \<Rightarrow>
          bind_res (int_or_none (dget_default d ''seq'' (JInt 0)))
            (\<lambda>q. Inr (map_option (\<lambda>i. (i, dget_default d ''prev_hash'' (JStr GENESIS_PREV_HASH))) q)))"

text \<open>A marker with an integer seq and a non-empty hash text: the anchor and the reset.\<close>

definition marker_point :: "dict \<Rightarrow> (int \<times> string) option res" where
  "marker_point m =
     (case (dget m ''seq'', dget m ''hash'') of
        (Some q, h) \<Rightarrow>
          bind_res (int_or_none q)
            (\<lambda>q. Inr (case (q, Option.bind h as_str) of
                         (Some i, Some t) \<Rightarrow> if t = [] then None else Some (i, t)
                       | _ \<Rightarrow> None))
      | _ \<Rightarrow> Inr None)"

definition head_marker :: "string option \<Rightarrow> string \<Rightarrow> dict option" where
  "head_marker head k =
     Option.bind (head_object head) (\<lambda>d. Option.bind (dget d k) as_obj)"

definition head_anchor :: "string option \<Rightarrow> ((int \<times> string) \<times> string option) option res" where
  "head_anchor head =
     (case head_marker head ''anchor'' of
        None \<Rightarrow> Inr None
      | Some m \<Rightarrow>
          bind_res (marker_point m)
            (\<lambda>x. Inr (map_option (\<lambda>qh. (qh, Option.bind (dget m ''expired_through'') as_str)) x)))"

definition head_reset :: "string option \<Rightarrow> (int \<times> string) option res" where
  "head_reset head = (case head_marker head ''reset'' of None \<Rightarrow> Inr None | Some m \<Rightarrow> marker_point m)"

section \<open>Walking the records\<close>

text \<open>\<open>_iter_verify_records\<close>: a key and the record, \<^term>\<open>None\<close> for a line that is no JSON object.\<close>

fun verify_stream :: "int \<Rightarrow> string list \<Rightarrow> (int \<times> dict option) list" where
  "verify_stream lst [] = []"
| "verify_stream lst (l # ls) =
     (case Option.bind (loads l) as_obj of
        None \<Rightarrow> (lst, None) # verify_stream lst ls
      | Some r \<Rightarrow>
          (let q = (case dget r ''seq'' of Some (JInt i) \<Rightarrow> i | _ \<Rightarrow> lst)
           in (q, Some r) # verify_stream q ls))"

text \<open>
  \<open>heapq.merge\<close> with a key: repeatedly the head with the least key, the earlier stream on ties.
\<close>

fun pick_stream :: "(int \<times> 'a) list list \<Rightarrow> ((int \<times> 'a) \<times> (int \<times> 'a) list list) option" where
  "pick_stream [] = None"
| "pick_stream ([] # ss) = map_option (\<lambda>(x, ss'). (x, [] # ss')) (pick_stream ss)"
| "pick_stream ((x # xs) # ss) =
     (case pick_stream ss of
        None \<Rightarrow> Some (x, xs # ss)
      | Some (y, ss') \<Rightarrow> if fst y < fst x then Some (y, (x # xs) # ss') else Some (x, xs # ss))"

lemma pick_stream_length:
  "pick_stream ss = Some (x, ss') \<Longrightarrow> sum_list (map length ss') < sum_list (map length ss)"
  by (induction ss arbitrary: x ss' rule: pick_stream.induct) (auto split: option.splits if_splits)

function merge_streams :: "(int \<times> 'a) list list \<Rightarrow> (int \<times> 'a) list" where
  "merge_streams ss = (case pick_stream ss of None \<Rightarrow> [] | Some (x, ss') \<Rightarrow> x # merge_streams ss')"
  by pat_completeness auto
termination
  by (relation "measure (\<lambda>ss. sum_list (map length ss))") (auto dest: pick_stream_length)

declare merge_streams.simps [simp del]

section \<open>The verdict\<close>

record verdict =
  v_ok :: bool
  v_records_checked :: nat
  v_first_break_seq :: json
  v_reason :: "string option"
  v_verified_from_seq :: int
  v_expired_through :: "string option"
  v_extra :: dict

record walk =
  w_checked :: nat
  w_prev_hash :: string
  w_last_seq :: int

definition null_or_int :: "int option \<Rightarrow> json" where
  "null_or_int x = (case x of None \<Rightarrow> JNull | Some i \<Rightarrow> JInt i)"

text \<open>
  One record of the walk: the reason and the seq of a break, or the state after it.
  \<open>start\<close> is the start point and the reason that a contradiction of it is reported under.
\<close>

definition walk_record ::
    "(string \<Rightarrow> string) \<Rightarrow> (int \<times> string) option \<Rightarrow> dict \<Rightarrow> walk \<Rightarrow> (string \<times> json) option \<times> walk" where
  "walk_record H start r w0 =
     (let w = w0\<lparr>w_checked := w_checked w0 + 1\<rparr>;
          seq = dget_default r ''seq'' JNull;
          h = H (w_prev_hash w @ dumps_sorted (JObj (ddel r ''hash'')))
      in case (case (start, as_pyint seq) of
                 (Some (s, why), Some q) \<Rightarrow>
                   if q \<le> s \<or> (w_checked w = 1 \<and> q \<noteq> s + 1) then Some (why, seq) else None
               | _ \<Rightarrow> None) of
           Some b \<Rightarrow> (Some b, w)
         | None \<Rightarrow>
             if dget r ''prev_hash'' \<noteq> Some (JStr (w_prev_hash w)) then (Some (''hash_mismatch'', seq), w)
             else if dget r ''hash'' \<noteq> Some (JStr h) then (Some (''hash_mismatch'', seq), w)
             else (None, w\<lparr>w_prev_hash := h,
                           w_last_seq := (case as_pyint seq of Some q \<Rightarrow> q | None \<Rightarrow> w_last_seq w)\<rparr>))"

fun walk_records ::
    "(string \<Rightarrow> string) \<Rightarrow> (int \<times> string) option \<Rightarrow> (int \<times> dict option) list \<Rightarrow> walk
     \<Rightarrow> (string \<times> json) option \<times> walk" where
  "walk_records H start [] w = (None, w)"
| "walk_records H start ((_, None) # xs) w = (Some (''corrupt_record'', JNull), w)"
| "walk_records H start ((_, Some r) # xs) w =
     (case walk_record H start r w of
        (Some b, w') \<Rightarrow> (Some b, w')
      | (None, w') \<Rightarrow> walk_records H start xs w')"

fun read_streams :: "files \<Rightarrow> (date \<times> string) list \<Rightarrow> (int \<times> dict option) list list res" where
  "read_streams fs [] = Inr []"
| "read_streams fs ((_, nm) # es) =
     bind_res (read_jsonl (file_bytes fs nm))
       (\<lambda>ls. bind_res (read_streams fs es) (\<lambda>ss. Inr (verify_stream 0 ls # ss)))"

text \<open>The start point: the anchor, or the reset marker when it is further along.\<close>

definition start_point ::
    "(int \<times> string) option \<Rightarrow> (int \<times> string) option \<Rightarrow> ((int \<times> string) \<times> bool) option" where
  "start_point anch rst =
     (case (anch, rst) of
        (None, None) \<Rightarrow> None
      | (Some a, None) \<Rightarrow> Some (a, False)
      | (None, Some r) \<Rightarrow> Some (r, True)
      | (Some a, Some r) \<Rightarrow> if fst a < fst r then Some (r, True) else Some (a, False))"

definition mirror_seq :: "json \<Rightarrow> int option res" where
  "mirror_seq mirror =
     (case as_obj mirror of None \<Rightarrow> Inr None | Some m \<Rightarrow> int_or_none (dget_default m ''seq'' JNull))"

definition failed_verdict ::
    "nat \<Rightarrow> int \<Rightarrow> string option \<Rightarrow> string \<Rightarrow> json \<Rightarrow> dict \<Rightarrow> verdict" where
  "failed_verdict checked from expired reason break_seq extra =
     \<lparr>v_ok = False, v_records_checked = checked, v_first_break_seq = break_seq, v_reason = Some reason,
      v_verified_from_seq = from, v_expired_through = expired, v_extra = extra\<rparr>"

text \<open>The checks after the walk: completeness against the checkpoint, then the reset marker.\<close>

definition finish_walk ::
    "(int \<times> json) option \<Rightarrow> (int \<times> string) option \<Rightarrow> int \<Rightarrow> string option \<Rightarrow> walk \<Rightarrow> verdict" where
  "finish_walk head rst from expired w =
     (if (\<exists>hq hh. head = Some (hq, hh) \<and> (w_last_seq w < hq \<or> JStr (w_prev_hash w) \<noteq> hh))
      then failed_verdict (w_checked w) from expired ''tail_truncated'' JNull
             [(''checkpoint_seq'', null_or_int (map_option fst head)), (''last_on_disk_seq'', JInt (w_last_seq w))]
      else case rst of
        Some r \<Rightarrow> failed_verdict (w_checked w) from expired ''chain_reset'' JNull [(''reset_seq'', JInt (fst r))]
      | None \<Rightarrow>
          \<lparr>v_ok = True, v_records_checked = w_checked w, v_first_break_seq = JNull, v_reason = None,
           v_verified_from_seq = from, v_expired_through = expired, v_extra = []\<rparr>)"

definition walk_start :: "((int \<times> string) \<times> bool) option \<Rightarrow> walk" where
  "walk_start start =
     (case start of
        None \<Rightarrow> \<lparr>w_checked = 0, w_prev_hash = GENESIS_PREV_HASH, w_last_seq = 0\<rparr>
      | Some (qh, _) \<Rightarrow> \<lparr>w_checked = 0, w_prev_hash = snd qh, w_last_seq = fst qh\<rparr>)"

definition start_reason :: "((int \<times> string) \<times> bool) option \<Rightarrow> (int \<times> string) option" where
  "start_reason start =
     map_option (\<lambda>(qh, is_reset). (fst qh, if is_reset then ''chain_reset'' else ''anchor_inconsistent'')) start"

definition verified_from :: "((int \<times> string) \<times> bool) option \<Rightarrow> int" where
  "verified_from start = (case start of None \<Rightarrow> 1 | Some (qh, _) \<Rightarrow> fst qh + 1)"

definition verify_walk ::
    "(string \<Rightarrow> string) \<Rightarrow> ((int \<times> string) \<times> bool) option \<Rightarrow> (int \<times> json) option \<Rightarrow> (int \<times> string) option
     \<Rightarrow> string option \<Rightarrow> (int \<times> dict option) list \<Rightarrow> verdict" where
  "verify_walk H start head rst expired items =
     (case walk_records H (start_reason start) items (walk_start start) of
        (Some (reason, q), w) \<Rightarrow> failed_verdict (w_checked w) (verified_from start) expired reason q []
      | (None, w) \<Rightarrow> finish_walk head rst (verified_from start) expired w)"

definition verify_chain :: "(string \<Rightarrow> string) \<Rightarrow> json \<Rightarrow> disk \<Rightarrow> verdict res" where
  "verify_chain H mirror d =
     bind_res (head_anchor (d_head d)) (\<lambda>anch.
     bind_res (head_reset (d_head d)) (\<lambda>rst.
     bind_res (mirror_seq mirror) (\<lambda>mseq.
     bind_res (head_checkpoint (d_head d)) (\<lambda>head.
       (let start = start_point (map_option fst anch) rst;
            expired = Option.bind anch snd
        in case mseq of
             Some m \<Rightarrow>
               if head = None \<or> fst (the head) < m
               then Inr (failed_verdict 0 (verified_from start) expired
                      ''chain_reset'' JNull
                      [(''store_head_seq'', JInt m), (''checkpoint_seq'', null_or_int (map_option fst head))])
               else bind_res (read_streams (d_files d) (list_day_files (d_files d)))
                      (\<lambda>ss. Inr (verify_walk H start head rst expired (merge_streams ss)))
           | None \<Rightarrow>
               bind_res (read_streams (d_files d) (list_day_files (d_files d)))
                 (\<lambda>ss. Inr (verify_walk H start head rst expired (merge_streams ss))))))))"

end
