(* ===== verification/AuditChain.thy ===== *)
theory AuditChain
  imports AuditVerify
begin

text \<open>
  The hash chain as a mathematical object: when a list of records continues a chain, where it
  ends, that sealing makes such lists, that the verification walk accepts them, and that two
  logs with one end have the same records or exhibit two texts with one digest. The last part is
  proved once for every chain of digests, in the locale \<open>digest_chain\<close>.
\<close>

section \<open>Chains of digests\<close>

text \<open>
  \<open>link p r\<close> is the state after record \<open>r\<close> if \<open>r\<close> continues a chain that stands at \<open>p\<close>; \<open>pre p r\<close> is what
  is hashed for it, and the state after it shows the digest. \<open>same\<close> is when two records count as equal.
\<close>

locale digest_chain =
  fixes link :: "'p \<Rightarrow> 'r \<Rightarrow> 'p option"
    and pre :: "'p \<Rightarrow> 'r \<Rightarrow> 'x"
    and digest :: "'x \<Rightarrow> 'h"
    and shown :: "'p \<Rightarrow> 'h"
    and same :: "'r \<Rightarrow> 'r \<Rightarrow> bool"
  assumes link_digest: "link p r = Some p' \<Longrightarrow> shown p' = digest (pre p r)"
    and link_inj: "link p r = Some x \<Longrightarrow> link q s = Some y \<Longrightarrow> pre p r = pre q s \<Longrightarrow>
                   shown p = shown q \<and> same r s"
begin

fun run :: "'p \<Rightarrow> 'r list \<Rightarrow> 'p option" where
  "run p [] = Some p"
| "run p (r # rs) = Option.bind (link p r) (\<lambda>p'. run p' rs)"

fun inputs :: "'p \<Rightarrow> 'r list \<Rightarrow> 'x set" where
  "inputs p [] = {}"
| "inputs p (r # rs) = insert (pre p r) (case link p r of None \<Rightarrow> {} | Some p' \<Rightarrow> inputs p' rs)"

lemma run_append: "run p (rs @ ts) = Option.bind (run p rs) (\<lambda>p'. run p' ts)"
  by (induction rs arbitrary: p) (auto split: bind_splits)

lemma inputs_append: "run p rs = Some p' \<Longrightarrow> inputs p (rs @ ts) = inputs p rs \<union> inputs p' ts"
  by (induction rs arbitrary: p) (auto split: bind_splits)

lemma run_snoc:
  assumes "run p (rs @ [r]) = Some x"
  obtains p' where "run p rs = Some p'" "link p' r = Some x"
    "inputs p (rs @ [r]) = insert (pre p' r) (inputs p rs)"
  using assms by (auto simp: run_append inputs_append split: bind_splits)

text \<open>Two chains of one length that show one digest at their ends.\<close>

lemma same_or_collision:
  assumes "run p rs = Some x" "run q ss = Some y" "shown x = shown y" "length rs = length ss"
  shows "shown p = shown q \<and> list_all2 same rs ss
     \<or> (\<exists>a \<in> inputs p rs. \<exists>b \<in> inputs q ss. a \<noteq> b \<and> digest a = digest b)"
  using assms
proof (induction rs arbitrary: ss x y rule: rev_induct)
  case Nil
  then show ?case by auto
next
  case (snoc r rs)
  then obtain ss' s where ss: "ss = ss' @ [s]" "length rs = length ss'"
    by (cases ss rule: rev_cases) auto
  from snoc.prems(1) obtain p' where p': "run p rs = Some p'" "link p' r = Some x"
    "inputs p (rs @ [r]) = insert (pre p' r) (inputs p rs)" by (rule run_snoc)
  from snoc.prems(2) ss obtain q' where q': "run q ss' = Some q'" "link q' s = Some y"
    "inputs q ss = insert (pre q' s) (inputs q ss')" by (metis run_snoc)
  have d: "digest (pre p' r) = digest (pre q' s)"
    using link_digest [OF p'(2)] link_digest [OF q'(2)] snoc.prems(3) by simp
  show ?case
  proof (cases "pre p' r = pre q' s")
    case True
    then have "shown p' = shown q'" "same r s" using link_inj [OF p'(2) q'(2)] by auto
    with snoc.IH [OF p'(1) q'(1)] ss p'(3) q'(3) show ?thesis by (auto simp: list_all2_append)
  next
    case False
    with d p'(3) q'(3) show ?thesis by auto
  qed
qed

text \<open>
  Chains from a state that shows no digest of anything (a genesis state) need no assumption
  on their lengths.
\<close>

theorem same_or_collision_genesis:
  assumes "run p rs = Some x" "run p ss = Some y" "shown x = shown y" and gen: "\<And>a. digest a \<noteq> shown p"
  shows "list_all2 same rs ss
     \<or> (\<exists>a \<in> inputs p rs. \<exists>b \<in> inputs p ss. a \<noteq> b \<and> digest a = digest b)"
  using assms(1-3)
proof (induction rs arbitrary: ss x y rule: rev_induct)
  case Nil
  have "ss = []"
  proof (cases ss rule: rev_cases)
    case (snoc ss' s)
    with Nil obtain q' where "link q' s = Some y" by (metis run_snoc)
    then show ?thesis using link_digest gen Nil by (metis option.inject run.simps(1))
  qed
  then show ?case by simp
next
  case (snoc r rs)
  from snoc.prems(1) obtain p' where p': "run p rs = Some p'" "link p' r = Some x"
    "inputs p (rs @ [r]) = insert (pre p' r) (inputs p rs)" by (rule run_snoc)
  show ?case
  proof (cases ss rule: rev_cases)
    case Nil
    then show ?thesis using link_digest [OF p'(2)] gen snoc.prems by auto
  next
    case ss: (snoc ss' s)
    from snoc.prems(2) ss obtain q' where q': "run p ss' = Some q'" "link q' s = Some y"
      "inputs p ss = insert (pre q' s) (inputs p ss')" by (metis run_snoc)
    have d: "digest (pre p' r) = digest (pre q' s)"
      using link_digest [OF p'(2)] link_digest [OF q'(2)] snoc.prems(3) by simp
    show ?thesis
    proof (cases "pre p' r = pre q' s")
      case True
      then have "shown p' = shown q'" "same r s" using link_inj [OF p'(2) q'(2)] by auto
      with snoc.IH [OF p'(1) q'(1)] ss p'(3) q'(3) show ?thesis
        by (auto simp: list_all2_append list_all2_lengthD)
    next
      case False
      with d p'(3) q'(3) show ?thesis by auto
    qed
  qed
qed

end

section \<open>Chained records\<close>

definition hash_text :: "dict \<Rightarrow> string" where
  "hash_text r = (case dget r ''hash'' of Some (JStr h) \<Rightarrow> h | _ \<Rightarrow> [])"

definition hash_input :: "string \<Rightarrow> dict \<Rightarrow> string" where
  "hash_input p r = p @ dumps_sorted (JObj (ddel r ''hash''))"

definition linked :: "(string \<Rightarrow> string) \<Rightarrow> int \<times> string \<Rightarrow> dict \<Rightarrow> bool" where
  "linked H qp r \<longleftrightarrow> wf_dict r \<and> dget r ''seq'' = Some (JInt (fst qp + 1))
     \<and> dget r ''prev_hash'' = Some (JStr (snd qp))
     \<and> dget r ''hash'' = Some (JStr (H (hash_input (snd qp) r)))"

definition after :: "int \<times> string \<Rightarrow> dict \<Rightarrow> int \<times> string" where
  "after qp r = (fst qp + 1, hash_text r)"

fun chained :: "(string \<Rightarrow> string) \<Rightarrow> int \<times> string \<Rightarrow> dict list \<Rightarrow> bool" where
  "chained H qp [] = True"
| "chained H qp (r # rs) = (linked H qp r \<and> chained H (after qp r) rs)"

definition chain_end :: "int \<times> string \<Rightarrow> dict list \<Rightarrow> int \<times> string" where
  "chain_end qp rs = foldl after qp rs"

lemma chain_end_simps [simp]:
  "chain_end qp [] = qp" "chain_end qp (r # rs) = chain_end (after qp r) rs"
  "chain_end qp (rs @ ts) = chain_end (chain_end qp rs) ts"
  by (simp_all add: chain_end_def)

lemma chained_append [simp]:
  "chained H qp (rs @ ts) \<longleftrightarrow> chained H qp rs \<and> chained H (chain_end qp rs) ts"
  by (induction rs arbitrary: qp) auto

lemma chain_end_seq: "fst (chain_end qp rs) = fst qp + int (length rs)"
  by (induction rs arbitrary: qp) (auto simp: after_def)

lemma linkedD:
  assumes "linked H qp r"
  shows "wf_dict r" "rec_seq r = fst qp + 1" "rec_hash r = JStr (hash_text r)"
    "hash_text r = H (hash_input (snd qp) r)"
  using assms by (simp_all add: linked_def rec_seq_def rec_hash_def hash_text_def)

lemma chained_wf: "chained H qp rs \<Longrightarrow> r \<in> set rs \<Longrightarrow> wf_dict r"
proof (induction rs arbitrary: qp)
  case (Cons a rs)
  then show ?case by (metis chained.simps(2) linked_def set_ConsD)
qed simp

lemma chain_end_last:
  assumes "chained H qp rs" "rs \<noteq> []"
  shows "chain_end qp rs = (rec_seq (last rs), hash_text (last rs))" "rec_hash (last rs) = JStr (hash_text (last rs))"
  using assms by (cases rs rule: rev_cases; auto simp: after_def linkedD)+

lemma chained_seqs: "chained H qp rs \<Longrightarrow> map rec_seq rs = map (\<lambda>i. fst qp + 1 + int i) [0..<length rs]"
proof (induction rs arbitrary: qp)
  case (Cons r rs)
  have "map rec_seq rs = map (\<lambda>i. fst (after qp r) + 1 + int i) [0..<length rs]"
    using Cons.prems by (intro Cons.IH) simp
  then have "map rec_seq rs = map (\<lambda>i. fst qp + 1 + 1 + int i) [0..<length rs]" by (simp add: after_def)
  moreover have "[0..<length (r # rs)] = 0 # map Suc [0..<length rs]" by (simp add: map_Suc_upt upt_conv_Cons del: upt_Suc)
  ultimately show ?case using Cons.prems linkedD(2) [of H qp r] by (simp add: comp_def add.assoc del: upt_Suc)
qed simp

section \<open>Sealing\<close>

text \<open>A record before it is numbered, and what is left of a sealed one without its seal.\<close>

definition plain_body :: "dict \<Rightarrow> bool" where
  "plain_body r \<longleftrightarrow> wf_dict r \<and> fst ` set r \<inter> {''seq'', ''prev_hash'', ''hash''} = {}"

definition unseal :: "dict \<Rightarrow> dict" where
  "unseal r = ddel (ddel (ddel r ''hash'') ''prev_hash'') ''seq''"

lemma wf_dict_dset: "wf_dict r \<Longrightarrow> wf_json v \<Longrightarrow> wf_dict (dset r k v)"
  using set_dset_subset [of k v r] by (auto simp: wf_dict_iff)

lemma seal_record_linked:
  assumes b: "plain_body r" and s: "seal_record H (fst qp + 1) (snd qp) r = (r', h)"
  shows "linked H qp r'" "after qp r' = (fst qp + 1, h)" "unseal r' = r"
proof -
  let ?r1 = "dset (dset r ''seq'' (JInt (fst qp + 1))) ''prev_hash'' (JStr (snd qp))"
  have k: "''hash'' \<notin> fst ` set ?r1" "''seq'' \<notin> fst ` set r"
    "''prev_hash'' \<notin> fst ` set (dset r ''seq'' (JInt (fst qp + 1)))"
    using b by (auto simp: plain_body_def)
  have r': "r' = dset ?r1 ''hash'' (JStr h)" "h = H (snd qp @ dumps_sorted (JObj ?r1))"
    using s by (auto simp: seal_record_def Let_def)
  have d: "ddel r' ''hash'' = ?r1" unfolding r'(1) using k(1) by (rule ddel_dset_new)
  show "linked H qp r'" using b r' d
    by (auto simp: linked_def plain_body_def hash_input_def dict_simps intro!: wf_dict_dset)
  show "after qp r' = (fst qp + 1, h)" using r'(1) by (simp add: after_def hash_text_def dict_simps)
  show "unseal r' = r" unfolding unseal_def d using k by (simp add: ddel_dset_new)
qed

lemma seal_from_chained:
  assumes "\<forall>r \<in> set rs. plain_body r"
  shows "chained H (q, p) (seal_from H q p rs)" "map unseal (seal_from H q p rs) = rs"
proof -
  from assms have "chained H (q, p) (seal_from H q p rs) \<and> map unseal (seal_from H q p rs) = rs"
  proof (induction rs arbitrary: q p)
    case (Cons r rs)
    obtain r' h where s: "seal_record H (q + 1) p r = (r', h)" by (metis prod.exhaust)
    with seal_record_linked [of r H "(q, p)" r' h] Cons show ?case by simp
  qed simp
  then show "chained H (q, p) (seal_from H q p rs)" "map unseal (seal_from H q p rs) = rs" by auto
qed

lemma length_seal_from [simp]: "length (seal_from H q p rs) = length rs"
  by (induction rs arbitrary: q p) (auto split: prod.splits)

lemma seal_from_append:
  assumes "\<forall>r \<in> set rs. plain_body r" "chain_end (q, p) (seal_from H q p rs) = (q', p')"
  shows "seal_from H q p (rs @ ts) = seal_from H q p rs @ seal_from H q' p' ts"
  using assms
proof (induction rs arbitrary: q p)
  case (Cons r rs)
  obtain r' h where s: "seal_record H (q + 1) p r = (r', h)" by (metis prod.exhaust)
  with seal_record_linked [of r H "(q, p)" r' h] Cons show ?case by simp
qed simp

section \<open>The walk accepts a chain\<close>

lemma stored_get:
  assumes "linked H qp r"
  shows "dget (stored r) ''seq'' = Some (JInt (fst qp + 1))"
    "dget (stored r) ''prev_hash'' = Some (JStr (snd qp))"
    "dget (stored r) ''hash'' = Some (JStr (hash_text r))"
  using assms linkedD [OF assms] by (simp_all add: dget_stored linked_def hash_text_def)

lemma hash_input_stored [simp]: "hash_input p (stored r) = hash_input p r"
  using line_text_ddel_stored [of r "''hash''"] by (simp add: hash_input_def line_text_def)

lemma walk_record_linked:
  assumes l: "linked H (w_last_seq w, w_prev_hash w) r"
    and st: "\<And>s why. start = Some (s, why) \<Longrightarrow> w_last_seq w = s + int (w_checked w)"
  shows "walk_record H start (stored r) w =
     (None, w\<lparr>w_checked := w_checked w + 1, w_prev_hash := hash_text r, w_last_seq := w_last_seq w + 1\<rparr>)"
proof -
  note g = stored_get [OF l]
  have h: "hash_text r = H (w_prev_hash w @ dumps_sorted (JObj (ddel (stored r) ''hash'')))"
    using linkedD(4) [OF l] hash_input_stored [of "w_prev_hash w" r] by (simp add: hash_input_def)
  show ?thesis
  proof (cases start)
    case None
    with g show ?thesis by (simp add: walk_record_def Let_def dget_default_def flip: h)
  next
    case (Some sw)
    then obtain s why where "start = Some (s, why)" by (metis surj_pair)
    with g st show ?thesis by (auto simp add: walk_record_def Let_def dget_default_def simp flip: h)
  qed
qed

text \<open>\<open>items\<close> is what the readers make of the records \<open>rs\<close> of whole files.\<close>

definition items :: "dict list \<Rightarrow> (int \<times> dict option) list" where
  "items rs = map (\<lambda>r. (rec_seq r, Some (stored r))) rs"

lemma items_simps [simp]:
  "items [] = []" "items (r # rs) = (rec_seq r, Some (stored r)) # items rs"
  "items (rs @ ts) = items rs @ items ts"
  by (simp_all add: items_def)

lemma walk_chained:
  assumes "chained H (w_last_seq w, w_prev_hash w) rs"
    and "\<And>s why. start = Some (s, why) \<Longrightarrow> w_last_seq w = s + int (w_checked w)"
  shows "walk_records H start (items rs) w =
     (None, let (q, p) = chain_end (w_last_seq w, w_prev_hash w) rs
            in w\<lparr>w_checked := w_checked w + length rs, w_prev_hash := p, w_last_seq := q\<rparr>)"
  using assms
proof (induction rs arbitrary: w)
  case (Cons r rs)
  let ?w = "w\<lparr>w_checked := w_checked w + 1, w_prev_hash := hash_text r, w_last_seq := w_last_seq w + 1\<rparr>"
  have "walk_record H start (stored r) w = (None, ?w)"
    using Cons.prems by (intro walk_record_linked) auto
  moreover have "walk_records H start (items rs) ?w =
     (None, let (q, p) = chain_end (w_last_seq ?w, w_prev_hash ?w) rs
            in ?w\<lparr>w_checked := w_checked ?w + length rs, w_prev_hash := p, w_last_seq := q\<rparr>)"
  proof (rule Cons.IH)
    show "chained H (w_last_seq ?w, w_prev_hash ?w) rs" using Cons.prems(1) by (simp add: after_def)
    fix s why assume "start = Some (s, why)"
    with Cons.prems(2) show "w_last_seq ?w = s + int (w_checked ?w)" by simp
  qed
  ultimately show ?case by (simp add: after_def split: prod.splits)
qed simp

section \<open>Reading the records of a directory\<close>

definition has_seq :: "dict \<Rightarrow> bool" where
  "has_seq r \<longleftrightarrow> wf_dict r \<and> (\<exists>i. dget r ''seq'' = Some (JInt i))"

lemma has_seq_stored: "has_seq r \<Longrightarrow> dget (stored r) ''seq'' = Some (JInt (rec_seq r))"
  by (auto simp: has_seq_def dget_stored rec_seq_def)

lemma verify_stream_lines:
  "(\<forall>r \<in> set rs. has_seq r) \<Longrightarrow> verify_stream lst (map line_text rs) = items rs"
proof (induction rs arbitrary: lst)
  case (Cons r rs)
  then have "wf_dict r" by (simp add: has_seq_def)
  with Cons has_seq_stored [of r] show ?case by (simp add: loads_line)
qed simp

lemma read_streams_holds:
  assumes "holds fs segs0" "set segs \<subseteq> set segs0" "\<forall>r \<in> set (seg_records segs). has_seq r"
  shows "read_streams fs (map (\<lambda>e. (fst (fst e), seg_name (fst e))) segs) = Inr (map (\<lambda>e. items (snd e)) segs)"
  using assms(2,3)
proof (induction segs)
  case (Cons e segs)
  then have "e \<in> set segs0" by simp
  from holds_get [OF assms(1) this] obtain b where
    b: "dget fs (seg_name (fst e)) = Some b" "file_holds b (snd e)" by blast
  have "\<forall>r \<in> set (snd e). wf_dict r" using Cons.prems(2) by (simp add: has_seq_def)
  with b have "read_jsonl (file_bytes fs (seg_name (fst e))) = Inr (map line_text (snd e))"
    by (simp add: file_bytes_def read_jsonl_holds)
  with Cons show ?case by (simp add: verify_stream_lines)
qed simp

text \<open>Merging streams whose keys already ascend from one to the next is concatenation.\<close>

lemma pick_stream_sorted:
  assumes "sorted (map fst (concat ss))"
  shows "case concat ss of [] \<Rightarrow> pick_stream ss = None
         | x # xs \<Rightarrow> \<exists>ss'. pick_stream ss = Some (x, ss') \<and> concat ss' = xs"
  using assms
proof (induction ss rule: pick_stream.induct)
  case (2 ss)
  show ?case
  proof (cases "concat ss")
    case Nil
    with 2 show ?thesis by (simp del: concat_eq_Nil_conv)
  next
    case (Cons x xs)
    with 2 obtain ss' where "pick_stream ss = Some (x, ss')" "concat ss' = xs" by auto
    with Cons show ?thesis by simp
  qed
next
  case (3 x xs ss)
  have "sorted (map fst (concat ss))" using 3(2) by (simp add: sorted_append)
  note IH = 3(1) [OF this]
  show ?case
  proof (cases "concat ss")
    case Nil
    with IH show ?thesis by auto
  next
    case (Cons y ys)
    with IH obtain ss' where "pick_stream ss = Some (y, ss')" by auto
    moreover have "y \<in> set (concat ss)" unfolding Cons by simp
    then have "fst x \<le> fst y" using 3(2) by auto
    ultimately show ?thesis by auto
  qed
qed simp

lemma merge_streams_sorted:
  "sorted (map fst (concat ss)) \<Longrightarrow> merge_streams ss = concat ss"
proof (induction "length (concat ss)" arbitrary: ss rule: less_induct)
  case less
  show ?case
  proof (cases "concat ss")
    case Nil
    with pick_stream_sorted [OF less.prems] show ?thesis by (subst merge_streams.simps) simp
  next
    case (Cons x xs)
    with pick_stream_sorted [OF less.prems] obtain ss' where
      "pick_stream ss = Some (x, ss')" "concat ss' = xs" by auto
    moreover from this Cons less have "merge_streams ss' = xs" by auto
    ultimately show ?thesis using Cons by (subst merge_streams.simps) simp
  qed
qed

lemma chained_has_seq: "chained H qp rs \<Longrightarrow> r \<in> set rs \<Longrightarrow> has_seq r"
proof (induction rs arbitrary: qp)
  case (Cons a rs)
  then show ?case by (metis chained.simps(2) has_seq_def linked_def set_ConsD)
qed simp

lemma concat_items: "concat (map (\<lambda>e. items (snd e)) segs) = items (seg_records segs)"
  by (induction segs) auto

text \<open>What the walk sees of a directory that holds a chained log: its records in chain order.\<close>

theorem directory_items:
  assumes h: "holds fs segs" and c: "chained H qp (seg_records segs)"
  shows "\<exists>ss. read_streams fs (list_day_files fs) = Inr ss \<and> merge_streams ss = items (seg_records segs)"
proof -
  have hs: "\<forall>r \<in> set (seg_records segs). has_seq r" using chained_has_seq [OF c] by blast
  have "map fst (items (seg_records segs)) = map rec_seq (seg_records segs)" by (simp add: items_def)
  also have "\<dots> = map (\<lambda>i. fst qp + 1 + int i) [0..<length (seg_records segs)]" by (rule chained_seqs [OF c])
  also have "sorted \<dots>" by (auto simp: sorted_iff_nth_mono)
  finally have "sorted (map fst (concat (map (\<lambda>e. items (snd e)) segs)))" by (simp add: concat_items)
  then have "merge_streams (map (\<lambda>e. items (snd e)) segs) = items (seg_records segs)"
    by (simp add: merge_streams_sorted concat_items)
  then show ?thesis using read_streams_holds [OF h _ hs] list_day_files_holds [OF h] by simp
qed

section \<open>The head file read back\<close>

lemma canon_False [simp]: "canon False v = v"
  by (induction v) (auto simp: order_keys_def map_idI snds.simps prod_eq_iff)

lemma order_keys_False [simp]: "order_keys False d = d"
  by (simp add: order_keys_def)

lemma read_head_plain: "wf_dict d \<Longrightarrow> read_head (dumps_plain (JObj d)) = Inr (JObj d)"
proof -
  assume wf: "wf_dict d"
  have c: "printable c" if "c \<in> set (dumps_plain (JObj d))" for c using printable_spaced [OF wf that] .
  then have "utf8_decode (dumps_plain (JObj d)) = Some (dumps_plain (JObj d))"
    using ascii_consts by (intro utf8_decode_ascii) blast
  moreover have "universal_newlines (dumps_plain (JObj d)) = dumps_plain (JObj d)"
    using c [of "CHR 13"] by (intro universal_newlines_id) (auto simp: printable_iff)
  ultimately show ?thesis using loads_spaced [OF wf, of False] by (simp add: read_head_def)
qed

definition payload_of :: "int \<times> string \<Rightarrow> dict option \<Rightarrow> dict option \<Rightarrow> dict" where
  "payload_of qp a r =
     [(''prev_hash'', JStr (snd qp)), (''seq'', JInt (fst qp))] @ opt_entry ''anchor'' a @ opt_entry ''reset'' r"

text \<open>A marker as the log writes it: an integer seq and a non-empty hash.\<close>

definition marks :: "dict option \<Rightarrow> (int \<times> string) option \<Rightarrow> bool" where
  "marks m x \<longleftrightarrow>
     (case (m, x) of
        (None, None) \<Rightarrow> True
      | (Some d, Some (q, h)) \<Rightarrow>
          wf_dict d \<and> dget d ''seq'' = Some (JInt q) \<and> dget d ''hash'' = Some (JStr h) \<and> h \<noteq> []
      | _ \<Rightarrow> False)"

lemma marks_simps [simp]:
  "marks None x \<longleftrightarrow> x = None"
  "marks (Some d) x \<longleftrightarrow> (\<exists>q h. x = Some (q, h) \<and> wf_dict d \<and> dget d ''seq'' = Some (JInt q)
     \<and> dget d ''hash'' = Some (JStr h) \<and> h \<noteq> [])"
  by (auto simp: marks_def split: option.splits)

lemma wf_payload:
  assumes "marks a x" "marks r y"
  shows "wf_dict (payload_of qp a r)"
  using assms
  by (cases a; cases r) (auto simp: payload_of_def opt_entry_def wf_dict_iff)

lemma payload_head_object:
  assumes "marks a x" "marks r y"
  shows "head_object (Some (dumps_plain (JObj (payload_of qp a r)))) = Some (payload_of qp a r)"
  using wf_payload [OF assms] by (simp add: head_object_def read_head_plain)

lemma payload_readers:
  assumes "marks a x" "marks r y" and hf: "hf = Some (dumps_plain (JObj (payload_of qp a r)))"
  shows "head_checkpoint hf = Inr (Some (fst qp, JStr (snd qp)))"
    "\<exists>ex. head_anchor hf = Inr (map_option (\<lambda>z. (z, ex)) x)"
    "head_reset hf = Inr y"
proof -
  note ho = payload_head_object [OF assms(1,2), of qp, folded hf]
  have k: "dget (payload_of qp a r) ''seq'' = Some (JInt (fst qp))"
    "dget (payload_of qp a r) ''prev_hash'' = Some (JStr (snd qp))"
    "dget (payload_of qp a r) ''anchor'' = map_option JObj a"
    "dget (payload_of qp a r) ''reset'' = map_option JObj r"
    by (auto simp: payload_of_def opt_entry_def split: option.splits)
  show "head_checkpoint hf = Inr (Some (fst qp, JStr (snd qp)))"
    using k by (simp add: head_checkpoint_def ho dget_default_def)
  show "\<exists>ex. head_anchor hf = Inr (map_option (\<lambda>z. (z, ex)) x)"
    using k(3) assms(1) by (cases a) (auto simp: head_anchor_def head_marker_def ho marker_point_def)
  show "head_reset hf = Inr y"
    using k(4) assms(2) by (cases r) (auto simp: head_reset_def head_marker_def ho marker_point_def)
qed

section \<open>The verdict on an intact log\<close>

text \<open>Where a log that keeps its records from \<open>qp\<close> on must start, given its two markers.\<close>

definition starts_at :: "(int \<times> string) option \<Rightarrow> (int \<times> string) option \<Rightarrow> int \<times> string \<Rightarrow> bool" where
  "starts_at x y qp \<longleftrightarrow>
     (case start_point x y of None \<Rightarrow> qp = (0, GENESIS_PREV_HASH) | Some (z, _) \<Rightarrow> qp = z)"

definition mirror_behind :: "json \<Rightarrow> int \<Rightarrow> bool" where
  "mirror_behind mirror q \<longleftrightarrow> (\<exists>m. mirror_seq mirror = Inr m \<and> (\<forall>i. m = Some i \<longrightarrow> i \<le> q))"

record intact =
  in_segs :: segs
  in_start :: "int \<times> string"
  in_anchor :: "(int \<times> string) option"
  in_reset :: "(int \<times> string) option"

text \<open>
  A disk that holds an intact log: a directory of chained records, and a head that is the end
  of the chain and carries the markers that explain where it starts.
\<close>

definition intact_disk :: "(string \<Rightarrow> string) \<Rightarrow> intact \<Rightarrow> disk \<Rightarrow> bool" where
  "intact_disk H x d \<longleftrightarrow>
     holds (d_files d) (in_segs x) \<and> chained H (in_start x) (seg_records (in_segs x))
     \<and> starts_at (in_anchor x) (in_reset x) (in_start x)
     \<and> (\<exists>a r. marks a (in_anchor x) \<and> marks r (in_reset x)
          \<and> d_head d = Some (dumps_plain (JObj (payload_of (chain_end (in_start x) (seg_records (in_segs x))) a r))))"

lemma verify_intact:
  assumes i: "intact_disk H x d"
    and m: "mirror_behind mirror (fst (chain_end (in_start x) (seg_records (in_segs x))))"
  shows "\<exists>v. verify_chain H mirror d = Inr v \<and> v_records_checked v = length (seg_records (in_segs x))
     \<and> (in_reset x = None \<longrightarrow> v_ok v) \<and> (in_reset x \<noteq> None \<longrightarrow> \<not> v_ok v \<and> v_reason v = Some ''chain_reset'')"
proof -
  let ?rs = "seg_records (in_segs x)" and ?qp = "in_start x"
  obtain a r where ar: "marks a (in_anchor x)" "marks r (in_reset x)"
    "d_head d = Some (dumps_plain (JObj (payload_of (chain_end ?qp ?rs) a r)))"
    and h: "holds (d_files d) (in_segs x)" "chained H ?qp ?rs" "starts_at (in_anchor x) (in_reset x) ?qp"
    using i by (auto simp: intact_disk_def)
  note rd = payload_readers [OF ar]
  obtain ex where ex: "head_anchor (d_head d) = Inr (map_option (\<lambda>z. (z, ex)) (in_anchor x))" using rd(2) by blast
  obtain ss where ss: "read_streams (d_files d) (list_day_files (d_files d)) = Inr ss"
    "merge_streams ss = items ?rs" using directory_items [OF h(1,2)] by blast
  define start where "start = start_point (in_anchor x) (in_reset x)"
  have w0: "w_last_seq (walk_start start) = fst ?qp" "w_prev_hash (walk_start start) = snd ?qp"
    "w_checked (walk_start start) = 0"
    using h(3) by (auto simp: walk_start_def starts_at_def start_def split: option.splits prod.splits)
  have "walk_records H (start_reason start) (items ?rs) (walk_start start) =
     (None, let (q, p) = chain_end (w_last_seq (walk_start start), w_prev_hash (walk_start start)) ?rs
            in (walk_start start)\<lparr>w_checked := w_checked (walk_start start) + length ?rs, w_prev_hash := p, w_last_seq := q\<rparr>)"
  proof (rule walk_chained)
    show "chained H (w_last_seq (walk_start start), w_prev_hash (walk_start start)) ?rs" using h(2) by (simp add: w0)
    fix s y assume "start_reason start = Some (s, y)"
    then show "w_last_seq (walk_start start) = s + int (w_checked (walk_start start))"
      by (auto simp: start_reason_def walk_start_def split: prod.splits)
  qed
  moreover define w' where "w' = (walk_start start)\<lparr>w_checked := length ?rs,
      w_prev_hash := snd (chain_end ?qp ?rs), w_last_seq := fst (chain_end ?qp ?rs)\<rparr>"
  ultimately have walk: "walk_records H (start_reason start) (items ?rs) (walk_start start) = (None, w')"
    "w_checked w' = length ?rs" "w_prev_hash w' = snd (chain_end ?qp ?rs)" "w_last_seq w' = fst (chain_end ?qp ?rs)"
    by (simp_all add: w0 split: prod.splits)
  have sp: "start_point (map_option fst (map_option (\<lambda>z. (z, ex)) (in_anchor x))) (in_reset x) = start"
    by (simp add: start_def option.map_comp comp_def option.map_ident)
  have "verify_chain H mirror d = Inr (verify_walk H start (Some (fst (chain_end ?qp ?rs), JStr (snd (chain_end ?qp ?rs))))
          (in_reset x) (Option.bind (map_option (\<lambda>z. (z, ex)) (in_anchor x)) snd) (items ?rs))"
    using m unfolding verify_chain_def ex rd(1,3) mirror_behind_def bind_res_simps sp Let_def
    by (auto simp: ss split: option.splits)
  then show ?thesis using walk
    by (auto simp: verify_walk_def finish_walk_def failed_verdict_def split: option.splits)
qed

section \<open>Tamper evidence\<close>

text \<open>What the code relies on of \<open>hashlib.sha256(...).hexdigest()\<close>: 64 hexadecimal digits.\<close>

definition hexdigest_like :: "(string \<Rightarrow> string) \<Rightarrow> bool" where
  "hexdigest_like H \<longleftrightarrow> (\<forall>x. length (H x) = 64 \<and> set (H x) \<subseteq> set ''0123456789abcdef'')"

definition audit_link :: "(string \<Rightarrow> string) \<Rightarrow> string \<Rightarrow> dict \<Rightarrow> string option" where
  "audit_link H p r =
     (if CHR ''{'' \<notin> set p \<and> dget r ''hash'' = Some (JStr (H (hash_input p r)))
      then Some (H (hash_input p r)) else None)"

text \<open>Equal but for the order of keys: the same canonical text without the hash, and the same hash.\<close>

definition same_record :: "dict \<Rightarrow> dict \<Rightarrow> bool" where
  "same_record r s \<longleftrightarrow> dumps_sorted (JObj (ddel r ''hash'')) = dumps_sorted (JObj (ddel s ''hash''))
     \<and> dget r ''hash'' = dget s ''hash''"

lemma dumps_obj_start: "\<exists>t. dumps_sorted (JObj d) = CHR ''{'' # t"
  by (simp add: dumps_with.simps)

lemma hash_input_split:
  assumes "CHR ''{'' \<notin> set p" "CHR ''{'' \<notin> set q" "hash_input p r = hash_input q s"
  shows "p = q" "dumps_sorted (JObj (ddel r ''hash'')) = dumps_sorted (JObj (ddel s ''hash''))"
proof -
  let ?P = "\<lambda>c. c \<noteq> CHR ''{''"
  have "takeWhile ?P (hash_input x t) = x" if "CHR ''{'' \<notin> set x" for x t
  proof -
    obtain u where "dumps_sorted (JObj (ddel t ''hash'')) = CHR ''{'' # u" using dumps_obj_start by blast
    moreover have "\<forall>c \<in> set x. ?P c" using that by auto
    ultimately show ?thesis by (simp add: hash_input_def takeWhile_append)
  qed
  with assms show "p = q" by metis
  with assms(3) show "dumps_sorted (JObj (ddel r ''hash'')) = dumps_sorted (JObj (ddel s ''hash''))"
    by (simp add: hash_input_def)
qed

interpretation audit: digest_chain "audit_link H" hash_input H "\<lambda>p. p" same_record for H
proof unfold_locales
  fix p r p' assume "audit_link H p r = Some p'"
  then show "p' = H (hash_input p r)" by (auto simp: audit_link_def split: if_splits)
next
  fix p r x q s y
  assume "audit_link H p r = Some x" "audit_link H q s = Some y" "hash_input p r = hash_input q s"
  then show "p = q \<and> same_record r s"
    using hash_input_split [of p q r s] by (auto simp: audit_link_def same_record_def split: if_splits)
qed

text \<open>The texts that are hashed when a log is checked from \<open>p\<close> on.\<close>

fun hashed_texts :: "string \<Rightarrow> dict list \<Rightarrow> string set" where
  "hashed_texts p [] = {}"
| "hashed_texts p (r # rs) = insert (hash_input p r) (hashed_texts (hash_text r) rs)"

lemma inputs_hashed: "audit.run H p rs = Some x \<Longrightarrow> audit.inputs H p rs = hashed_texts p rs"
proof (induction rs arbitrary: p)
  case (Cons r rs)
  then obtain p' where p': "audit_link H p r = Some p'" "audit.run H p' rs = Some x"
    by (auto split: bind_splits)
  then have "hash_text r = p'" by (auto simp: audit_link_def hash_text_def split: if_splits)
  with Cons.IH [OF p'(2)] p' show ?case by simp
qed simp

definition collision_in :: "(string \<Rightarrow> string) \<Rightarrow> string set \<Rightarrow> string set \<Rightarrow> bool" where
  "collision_in H A B \<longleftrightarrow> (\<exists>a \<in> A. \<exists>b \<in> B. a \<noteq> b \<and> H a = H b)"

text \<open>The records of a directory in the order in which verification meets them.\<close>

definition merged_records :: "files \<Rightarrow> dict list" where
  "merged_records fs =
     (case read_streams fs (list_day_files fs) of
        Inl _ \<Rightarrow> []
      | Inr ss \<Rightarrow> List.map_filter snd (merge_streams ss))"

lemma walk_run:
  assumes "walk_records H start xs w = (None, w')" "CHR ''{'' \<notin> set (w_prev_hash w)" and H: "hexdigest_like H"
  shows "\<exists>rs. map snd xs = map Some rs \<and> audit.run H (w_prev_hash w) rs = Some (w_prev_hash w')
     \<and> w_checked w' = w_checked w + length rs"
  using assms(1,2)
proof (induction xs arbitrary: w)
  case (Cons x xs)
  obtain k y where x: "x = (k, y)" by (metis surj_pair)
  with Cons.prems(1) obtain r w1 where r: "y = Some r" "walk_record H start r w = (None, w1)"
    "walk_records H start xs w1 = (None, w')"
    by (cases y) (auto split: option.splits prod.splits)
  from r(2) have w1: "dget r ''hash'' = Some (JStr (H (hash_input (w_prev_hash w) r)))"
    "w_prev_hash w1 = H (hash_input (w_prev_hash w) r)" "w_checked w1 = w_checked w + 1"
    by (auto simp: walk_record_def Let_def hash_input_def split: option.splits if_splits)
  have "CHR ''{'' \<notin> set (w_prev_hash w1)"
    using H unfolding w1(2) hexdigest_like_def by fastforce
  from Cons.IH [OF r(3) this] obtain rs where
    "map snd xs = map Some rs" "audit.run H (w_prev_hash w1) rs = Some (w_prev_hash w')"
    "w_checked w' = w_checked w1 + length rs" by blast
  moreover have "audit_link H (w_prev_hash w) r = Some (w_prev_hash w1)"
    using w1 Cons.prems(2) by (simp add: audit_link_def)
  ultimately show ?case using x r(1) w1(3) by (intro exI [of _ "r # rs"]) simp
qed simp

lemma map_filter_Some: "map snd xs = map Some rs \<Longrightarrow> List.map_filter snd xs = rs"
  by (induction xs arbitrary: rs) (auto simp: List.map_filter_simps)

text \<open>What a clean verdict says about the records and the checkpoint.\<close>

lemma verify_walk_ok:
  assumes "v_ok (verify_walk H start (Some (hq, hh)) rst ex xs)"
  shows "rst = None" "\<exists>w. walk_records H (start_reason start) xs (walk_start start) = (None, w)
     \<and> v_records_checked (verify_walk H start (Some (hq, hh)) rst ex xs) = w_checked w \<and> JStr (w_prev_hash w) = hh"
proof -
  obtain b w where bw: "walk_records H (start_reason start) xs (walk_start start) = (b, w)" by (metis surj_pair)
  with assms have b: "b = None" by (cases b) (auto simp: verify_walk_def failed_verdict_def)
  with bw assms show "rst = None" "\<exists>w. walk_records H (start_reason start) xs (walk_start start) = (None, w)
     \<and> v_records_checked (verify_walk H start (Some (hq, hh)) rst ex xs) = w_checked w \<and> JStr (w_prev_hash w) = hh"
    by (auto simp: verify_walk_def finish_walk_def failed_verdict_def split: option.splits if_splits)
qed

lemma verify_ok_run:
  assumes v: "verify_chain H mirror d = Inr v" "v_ok v" and H: "hexdigest_like H"
    and a: "head_anchor (d_head d) = Inr anch" and p: "p = (case anch of None \<Rightarrow> [] | Some (qh, _) \<Rightarrow> snd qh)"
    and c: "head_checkpoint (d_head d) = Inr (Some (hq, JStr hh))" and cl: "CHR ''{'' \<notin> set p"
  shows "audit.run H p (merged_records (d_files d)) = Some hh"
    "v_records_checked v = length (merged_records (d_files d))"
proof -
  obtain rst where rst: "head_reset (d_head d) = Inr rst" using v(1) a by (auto simp: verify_chain_def bind_res_Inr)
  obtain mq where mq: "mirror_seq mirror = Inr mq" using v(1) a by (auto simp: verify_chain_def bind_res_Inr)
  let ?st = "start_point (map_option fst anch) rst"
  have "\<exists>ss. read_streams (d_files d) (list_day_files (d_files d)) = Inr ss
      \<and> v = verify_walk H ?st (Some (hq, JStr hh)) rst (Option.bind anch snd) (merge_streams ss)"
    using v a rst mq c
    by (auto simp: verify_chain_def bind_res_Inr Let_def failed_verdict_def split: option.splits if_splits)
  then obtain ss where ss: "read_streams (d_files d) (list_day_files (d_files d)) = Inr ss"
    "v = verify_walk H ?st (Some (hq, JStr hh)) rst (Option.bind anch snd) (merge_streams ss)" by blast
  note ok = verify_walk_ok [OF v(2) [unfolded ss(2)]]
  obtain w' where w': "walk_records H (start_reason ?st) (merge_streams ss) (walk_start ?st) = (None, w')"
    "v_records_checked v = w_checked w'" "w_prev_hash w' = hh" using ok(2) ss(2) by auto
  have p0: "w_prev_hash (walk_start ?st) = p" "w_checked (walk_start ?st) = 0"
    using p ok(1) by (cases anch; simp add: walk_start_def start_point_def GENESIS_PREV_HASH_def split_beta)+
  from walk_run [OF w'(1) _ H] cl p0 obtain rs where rs: "map snd (merge_streams ss) = map Some rs"
    "audit.run H p rs = Some hh" "w_checked w' = length rs" using w'(3) by auto
  from map_filter_Some [OF rs(1)] have "merged_records (d_files d) = rs" by (simp add: merged_records_def ss(1))
  with rs w'(2) show "audit.run H p (merged_records (d_files d)) = Some hh"
    "v_records_checked v = length (merged_records (d_files d))" by auto
qed

text \<open>
  Two disks that verify, with one anchor and one head hash: equal records, or an explicit
  collision of the hash among the texts that verification hashes.
\<close>

lemma equal_or_collision:
  assumes H: "hexdigest_like H"
    and v: "verify_chain H m d = Inr v" "v_ok v" and v': "verify_chain H m' d' = Inr v'" "v_ok v'"
    and a: "head_anchor (d_head d) = Inr anch" "head_anchor (d_head d') = Inr anch"
    and p: "p = (case anch of None \<Rightarrow> [] | Some (qh, _) \<Rightarrow> snd qh)" "CHR ''{'' \<notin> set p"
    and c: "head_checkpoint (d_head d) = Inr (Some (hq, JStr hh))"
           "head_checkpoint (d_head d') = Inr (Some (hq', JStr hh))"
    and len: "anch = None \<or> v_records_checked v = v_records_checked v'"
  shows "list_all2 same_record (merged_records (d_files d)) (merged_records (d_files d'))
     \<or> collision_in H (hashed_texts p (merged_records (d_files d))) (hashed_texts p (merged_records (d_files d')))"
proof -
  note r = verify_ok_run [OF v H a(1) p(1) c(1) p(2)] and r' = verify_ok_run [OF v' H a(2) p(1) c(2) p(2)]
  show ?thesis
  proof (cases "anch = None")
    case True
    have "H x \<noteq> p" for x using H True p(1) unfolding hexdigest_like_def by (metis length_0_conv option.simps(4) zero_neq_numeral)
    from audit.same_or_collision_genesis [OF r(1) r'(1) refl this] show ?thesis
      using inputs_hashed [OF r(1)] inputs_hashed [OF r'(1)] by (simp add: collision_in_def)
  next
    case False
    then have "length (merged_records (d_files d)) = length (merged_records (d_files d'))"
      using len r(2) r'(2) by metis
    from audit.same_or_collision [OF r(1) r'(1) refl this] show ?thesis
      using inputs_hashed [OF r(1)] inputs_hashed [OF r'(1)] by (simp add: collision_in_def)
  qed
qed

end
