(* ===== verification/AuditFlush.thy ===== *)
theory AuditFlush
  imports AuditChain
begin

text \<open>
  What a flush does to a directory that holds a log: the day groups of a batch, the appends with
  every way they can end, and retention, which removes a prefix of the files and re-anchors the
  chain at the end of what it removed.
\<close>

section \<open>Day groups\<close>

text \<open>The date of a record whose timestamp starts with a date, and a day key as a date.\<close>

definition dated :: "dict \<Rightarrow> bool" where
  "dated r \<longleftrightarrow> (\<exists>d. valid_date d \<and> record_day r = date_iso d)"

definition rec_date :: "dict \<Rightarrow> date" where
  "rec_date r = the (parse_date (record_day r))"

lemma dated_date: "dated r \<Longrightarrow> valid_date (rec_date r) \<and> record_day r = date_iso (rec_date r)"
  by (auto simp: dated_def rec_date_def)

definition floor_text :: "date option \<Rightarrow> string" where
  "floor_text f = (case f of None \<Rightarrow> [] | Some d \<Rightarrow> date_iso d)"

definition valid_floor :: "date option \<Rightarrow> bool" where
  "valid_floor f \<longleftrightarrow> (\<forall>d. f = Some d \<longrightarrow> valid_date d)"

definition raise_to :: "date option \<Rightarrow> date \<Rightarrow> date" where
  "raise_to f d = (case f of None \<Rightarrow> d | Some e \<Rightarrow> max d e)"

lemma raise_to_ge: "d \<le> raise_to f d" "f = Some e \<Longrightarrow> e \<le> raise_to f d"
  by (auto simp: raise_to_def split: option.splits)

lemma raise_to_valid: "valid_floor f \<Longrightarrow> valid_date d \<Longrightarrow> valid_date (raise_to f d)"
  by (auto simp: raise_to_def valid_floor_def max_def split: option.splits)

lemma max_floor_text:
  "valid_floor f \<Longrightarrow> valid_date d \<Longrightarrow> max (date_iso d) (floor_text f) = date_iso (raise_to f d)"
  by (auto simp: raise_to_def floor_text_def valid_floor_def max_def date_iso_less date_iso_inj le_less
      split: option.splits)

fun groups_ok :: "date option \<Rightarrow> (date \<times> dict list) list \<Rightarrow> bool" where
  "groups_ok f [] = True"
| "groups_ok f ((d, g) # gs) =
     (valid_date d \<and> g \<noteq> [] \<and> d = raise_to f (rec_date (hd g)) \<and> (\<forall>r \<in> set g. dated r \<and> rec_date r \<le> d)
      \<and> groups_ok (Some d) gs)"

definition day_keys :: "(date \<times> dict list) list \<Rightarrow> (string \<times> dict list) list" where
  "day_keys gs = map (\<lambda>p. (date_iso (fst p), snd p)) gs"

text \<open>Every record lies in a file that is dated no earlier than the record itself.\<close>

definition dates_ok :: "segs \<Rightarrow> bool" where
  "dates_ok segs \<longleftrightarrow> (\<forall>e \<in> set segs. \<forall>r \<in> set (snd e). dated r \<and> rec_date r \<le> fst (fst e))"

lemma dates_ok_put: "dates_ok segs \<Longrightarrow> \<forall>r \<in> set rs. dated r \<and> rec_date r \<le> fst k \<Longrightarrow> dates_ok (put_seg segs k rs)"
  by (cases segs rule: rev_cases) (auto simp: dates_ok_def put_seg_def)

text \<open>The groups partition the batch in order, and their dates ascend from the floor.\<close>

lemma group_days_ok:
  assumes "\<forall>r \<in> set rs. dated r" "valid_floor f"
  shows "\<exists>gs. group_days (floor_text f) rs = day_keys gs \<and> groups_ok f gs \<and> concat (map snd gs) = rs"
  using assms
proof (induction rs arbitrary: f)
  case Nil
  then show ?case by (intro exI [of _ "[]"]) (simp add: day_keys_def)
next
  case (Cons r rs)
  let ?d = "raise_to f (rec_date r)"
  have r: "valid_date (rec_date r)" "record_day r = date_iso (rec_date r)" using Cons.prems dated_date by auto
  have d: "valid_date ?d" using r Cons.prems(2) by (simp add: raise_to_valid)
  have fit: "dated r \<and> rec_date r \<le> ?d" using Cons.prems(1) raise_to_ge(1) by auto
  have day: "max (record_day r) (floor_text f) = floor_text (Some ?d)"
    using max_floor_text [OF Cons.prems(2) r(1)] r(2) by (simp add: floor_text_def)
  obtain gs where gs: "group_days (floor_text (Some ?d)) rs = day_keys gs" "groups_ok (Some ?d) gs" "concat (map snd gs) = rs"
    using Cons.IH [of "Some ?d"] Cons.prems d by (auto simp: valid_floor_def)
  show ?case
  proof (cases gs)
    case Nil
    with gs d day fit show ?thesis
      by (intro exI [of _ "[(?d, [r])]"]) (simp add: day_keys_def floor_text_def)
  next
    case (Cons p gs')
    obtain e g where p: "p = (e, g)" by (metis surj_pair)
    from gs(2) Cons p have e: "valid_date e" "?d \<le> e" "groups_ok (Some e) gs'" "g \<noteq> []"
      using raise_to_ge(2) by auto
    have "groups_ok (Some ?d) ((e, g) # gs')" using gs(2) Cons p by (simp only:)
    then have eg: "e = raise_to (Some ?d) (rec_date (hd g))" "\<forall>x \<in> set g. dated x \<and> rec_date x \<le> e"
      unfolding groups_ok.simps by blast+
    show ?thesis
    proof (cases "e = ?d")
      case True
      with gs Cons p e d day fit show ?thesis
        by (intro exI [of _ "(?d, r # g) # gs'"]) (simp add: day_keys_def floor_text_def)
    next
      case False
      then have "date_iso e \<noteq> date_iso ?d" using e(1) d by (simp add: date_iso_inj)
      moreover have "groups_ok f ((?d, [r]) # (e, g) # gs')" using d e eg fit by simp
      moreover have "group_days (floor_text f) (r # rs) = day_keys ((?d, [r]) # (e, g) # gs')"
        using gs(1) Cons p False \<open>date_iso e \<noteq> date_iso ?d\<close> day by (simp add: day_keys_def floor_text_def)
      moreover have "concat (map snd ((?d, [r]) # (e, g) # gs')) = r # rs" using gs(3) Cons p by simp
      ultimately show ?thesis by blast
    qed
  qed
qed

section \<open>Appending the groups\<close>

text \<open>Outcomes that leave no partial line behind: a failed append was trimmed.\<close>

definition clean_outcome :: "append_outcome option \<Rightarrow> bool" where
  "clean_outcome out \<longleftrightarrow> (\<forall>n t. out = Some (WriteFailed n t) \<longrightarrow> t)"

definition last_date_le :: "segs \<Rightarrow> date \<Rightarrow> bool" where
  "last_date_le segs d \<longleftrightarrow> (segs \<noteq> [] \<longrightarrow> fst (fst (last segs)) \<le> d)"

text \<open>
  Where the next record may go: the newest file is no newer than the day key, or (after an
  append that failed on a new file) no newer than the day of the first record waiting.
\<close>

definition floor_ok :: "date option \<Rightarrow> dict list \<Rightarrow> segs \<Rightarrow> bool" where
  "floor_ok f waiting segs \<longleftrightarrow> valid_floor f \<and>
     (segs = [] \<or> (\<exists>d. f = Some d \<and> last_date_le segs d)
      \<or> (waiting \<noteq> [] \<and> last_date_le segs (raise_to f (rec_date (hd waiting)))))"

lemma floor_ok_next:
  assumes "floor_ok f rs segs" "groups_ok f ((d, g) # gs)" "hd g = hd rs" "rs \<noteq> []"
  shows "last_date_le segs d"
  using assms raise_to_ge(2) [of f _ "rec_date (hd g)"]
  by (auto simp: floor_ok_def last_date_le_def intro: order_trans)

definition st_ok :: "append_state \<Rightarrow> segs \<Rightarrow> bool" where
  "st_ok st segs \<longleftrightarrow> holds (as_files st) segs \<and> cache_ok (as_cache st) segs \<and> dates_ok segs"

lemma cache_ok_next:
  assumes w: "wf_segs segs" and k: "next_key segs k"
  shows "cache_ok (Some (date_iso (fst k), seg_name k)) segs"
proof -
  have "k = fst (last segs)" if "k \<in> fst ` set segs"
  proof -
    have "segs \<noteq> []" using that by auto
    with k wf_segs_last [OF w that] show ?thesis by (simp add: next_key_def)
  qed
  then show ?thesis using k unfolding cache_ok_def next_key_def by blast
qed

lemma append_groups_ok:
  assumes "st_ok st segs" "as_floor st = Some (floor_text f)" "floor_ok f rs segs" "groups_ok f gs"
    "concat (map snd gs) = rs" "\<forall>r \<in> set rs. wf_dict r" "\<forall>out \<in> set outs. clean_outcome out"
    "append_groups outs (day_keys gs) st = (st', ok)"
  shows "\<exists>segs' n f'. st_ok st' segs' \<and> as_floor st' = Some (floor_text f') \<and> n \<le> length rs
     \<and> as_written st' = as_written st + n \<and> seg_records segs' = seg_records segs @ take n rs
     \<and> floor_ok f' (drop n rs) segs' \<and> (ok \<longrightarrow> n = length rs)"
  using assms
proof (induction gs arbitrary: outs st segs f rs)
  case Nil
  then show ?case by (intro exI [of _ segs] exI [of _ 0] exI [of _ f]) (auto simp: day_keys_def)
next
  case (Cons p gs)
  obtain d g where p: "p = (d, g)" by (metis surj_pair)
  let ?out = "case outs of [] \<Rightarrow> Some Appended | out # _ \<Rightarrow> out"
  let ?day = "date_iso d"
  have g: "valid_date d" "g \<noteq> []" "d = raise_to f (rec_date (hd g))" "groups_ok (Some d) gs"
    "\<forall>r \<in> set g. dated r \<and> rec_date r \<le> d"
    using Cons.prems(4) p by auto
  have rs: "rs = g @ concat (map snd gs)" using Cons.prems(5) p by simp
  have hd: "hd rs = hd g" "rs \<noteq> []" using rs g(2) by auto
  have le: "last_date_le segs d"
    using floor_ok_next [OF Cons.prems(3) Cons.prems(4) [unfolded p]] hd by simp
  have wf: "\<forall>r \<in> set g. wf_dict r" using Cons.prems(6) rs by simp
  have co: "clean_outcome ?out" using Cons.prems(7) by (cases outs) (auto simp: clean_outcome_def)
  have st: "holds (as_files st) segs" "cache_ok (as_cache st) segs" "dates_ok segs" using Cons.prems(1) by (auto simp: st_ok_def)
  obtain k where k: "target_day_file (as_cache st) (as_files st) ?day = seg_name k" "fst k = d" "next_key segs k"
    using target_day_file_holds [OF st(1) g(1) _ st(2)] le unfolding last_date_le_def by blast
  have stay: ?case if "st' = st" "\<not> ok"
    using that Cons.prems by (intro exI [of _ segs] exI [of _ 0] exI [of _ f]) auto
  show ?case
  proof (cases ?out)
    case None
    with Cons.prems(8) p stay show ?thesis by (simp add: day_keys_def)
  next
    case (Some out)
    obtain fs ok1 where a: "append_durable out (as_files st) (seg_name k) (render g) = (fs, ok1)" by (metis surj_pair)
    note ad = append_durable_holds [OF st(1) k(3) wf]
    let ?st1 = "st\<lparr>as_files := fs, as_cache := Some (?day, seg_name k)\<rparr>"
    have run: "(if ok1 then append_groups (tl outs) (day_keys gs)
                  (?st1\<lparr>as_floor := Some ?day, as_written := as_written st + length g\<rparr>) else (?st1, False)) = (st', ok)"
      using Cons.prems(8) Some p k(1) a by (auto simp: day_keys_def Let_def split: if_splits)
    have cache: "cache_ok (Some (?day, seg_name k)) (put_seg segs k xs)" for xs
      using cache_ok_put [OF k(3)] k(2) by simp
    show ?thesis
    proof (cases ok1)
      case True
      then have out: "out = Appended"
        using a by (cases out) (auto simp: append_durable_def Let_def)
      from ad(1) a True out have h: "holds fs (put_seg segs k g)" by auto
      let ?st2 = "?st1\<lparr>as_floor := Some ?day, as_written := as_written st + length g\<rparr>"
      have "\<exists>segs' n f'. st_ok st' segs' \<and> as_floor st' = Some (floor_text f') \<and> n \<le> length (concat (map snd gs))
         \<and> as_written st' = as_written ?st2 + n \<and> seg_records segs' = seg_records (put_seg segs k g) @ take n (concat (map snd gs))
         \<and> floor_ok f' (drop n (concat (map snd gs))) segs' \<and> (ok \<longrightarrow> n = length (concat (map snd gs)))"
      proof (rule Cons.IH)
        show "st_ok ?st2 (put_seg segs k g)" using h cache dates_ok_put [OF st(3), of g k] g(5) k(2) by (simp add: st_ok_def)
        show "as_floor ?st2 = Some (floor_text (Some d))" by (simp add: floor_text_def)
        show "floor_ok (Some d) (concat (map snd gs)) (put_seg segs k g)"
          using g(1) k(2) by (simp add: floor_ok_def valid_floor_def last_date_le_def)
        show "\<forall>out \<in> set (tl outs). clean_outcome out" using Cons.prems(7) by (cases outs) auto
        show "append_groups (tl outs) (day_keys gs) ?st2 = (st', ok)" using run True by simp
      qed (use g(4) Cons.prems(6) rs in auto)
      then obtain segs' n f' where r: "st_ok st' segs'" "as_floor st' = Some (floor_text f')"
        "n \<le> length (concat (map snd gs))" "as_written st' = as_written ?st2 + n"
        "seg_records segs' = seg_records (put_seg segs k g) @ take n (concat (map snd gs))"
        "floor_ok f' (drop n (concat (map snd gs))) segs'" "ok \<longrightarrow> n = length (concat (map snd gs))" by blast
      show ?thesis
        by (rule exI [of _ segs'], rule exI [of _ "length g + n"], rule exI [of _ f']) (use r rs in simp)
    next
      case False
      with run have st': "st' = ?st1" "\<not> ok" by auto
      have "fs = as_files st \<or> holds fs (put_seg segs k [])"
        using a False co Some ad(2,3) by (cases out) (auto simp: clean_outcome_def append_durable_def Let_def)
      then show ?thesis
      proof
        assume fs: "fs = as_files st"
        have "cache_ok (Some (?day, seg_name k)) segs"
          using cache_ok_next [OF _ k(3)] st(1) k(2) by (simp add: holds_def)
        with st' fs Cons.prems(1-3) show ?thesis
          by (intro exI [of _ segs] exI [of _ 0] exI [of _ f]) (auto simp: st_ok_def)
      next
        assume h: "holds fs (put_seg segs k [])"
        have "floor_ok f rs (put_seg segs k [])"
          using Cons.prems(3) hd k(2) g(3) by (simp add: floor_ok_def last_date_le_def)
        with st' h cache Cons.prems(2) dates_ok_put [OF st(3), of "[]" k] show ?thesis
          by (intro exI [of _ "put_seg segs k []"] exI [of _ 0] exI [of _ f]) (auto simp: st_ok_def)
      qed
    qed
  qed
qed

section \<open>Ordinals ascend with dates\<close>

definition days_before_year :: "nat \<Rightarrow> int" where
  "days_before_year y = (let p = int y - 1 in p * 365 + p div 4 - p div 100 + p div 400)"

definition days_before_month :: "nat \<Rightarrow> nat \<Rightarrow> nat" where
  "days_before_month y m = sum_list (map (days_in_month y) [1..<m])"

lemma to_ordinal_parts: "to_ordinal (y, m, d) = days_before_year y + int (days_before_month y m) + int d"
  by (simp add: to_ordinal_def days_before_year_def days_before_month_def Let_def)

lemma div_step: "0 < k \<Longrightarrow> int y div k = (int y - 1) div k + (if int y mod k = 0 then 1 else 0)" for k :: int
proof -
  assume k: "0 < k"
  define q r where "q = int y div k" and "r = int y mod k"
  have y: "int y = k * q + r" "0 \<le> r" "r < k" using k by (auto simp: q_def r_def)
  show ?thesis
  proof (cases "r = 0")
    case True
    have "(int y - 1) div k = q - 1"
      by (rule int_div_pos_eq [where r = "k - 1"]) (use y True k in \<open>auto simp: algebra_simps\<close>)
    with True show ?thesis by (simp add: q_def r_def)
  next
    case False
    have "(int y - 1) div k = q"
      by (rule int_div_pos_eq [where r = "r - 1"]) (use y False k in auto)
    with False show ?thesis by (simp add: q_def r_def)
  qed
qed

lemma days_before_year_Suc:
  "days_before_year (Suc y) = days_before_year y + 365 + (if is_leap y then 1 else 0)"
proof -
  have l: "is_leap y \<longleftrightarrow> int y mod 4 = 0 \<and> (int y mod 100 \<noteq> 0 \<or> int y mod 400 = 0)"
    unfolding is_leap_def by presburger
  have "int y mod 400 = 0 \<Longrightarrow> int y mod 100 = 0" "int y mod 100 = 0 \<Longrightarrow> int y mod 4 = 0" by presburger+
  then have leap: "(if is_leap y then 1 else 0 :: int) = (if int y mod 4 = 0 then 1 else 0)
      - (if int y mod 100 = 0 then 1 else 0) + (if int y mod 400 = 0 then 1 else 0)"
    unfolding l by (cases "int y mod 400 = 0"; cases "int y mod 100 = 0"; cases "int y mod 4 = 0"; simp)
  have gen: "n * 365 + (a + A) - (b + B) + (c + C) = (n - 1) * 365 + a - b + c + 365 + (A - B + C)"
    for n a b c A B C :: int by simp
  show ?thesis unfolding leap days_before_year_def Let_def of_nat_Suc add_diff_cancel_left'
    div_step [of 4 y, OF zero_less_numeral] div_step [of 100 y, OF zero_less_numeral]
    div_step [of 400 y, OF zero_less_numeral] by (rule gen)
qed

lemma days_before_month_Suc: "1 \<le> m \<Longrightarrow> days_before_month y (Suc m) = days_before_month y m + days_in_month y m"
  by (simp add: days_before_month_def upt_Suc)

lemma days_before_month_mono: "m \<le> m' \<Longrightarrow> days_before_month y m \<le> days_before_month y m'"
proof (induction m' rule: dec_induct)
  case (step n)
  have "days_before_month y n \<le> days_before_month y (Suc n)"
    by (cases n) (auto simp: days_before_month_Suc days_before_month_def)
  with step show ?case by simp
qed simp

lemma days_before_month_13: "days_before_month y 13 = 365 + (if is_leap y then 1 else 0)"
proof -
  have "[1..<13] = [1, 2, 3, 4, 5, 6, 7, 8, 9, 10, 11, 12 :: nat]" by code_simp
  then show ?thesis by (simp add: days_before_month_def days_in_month_def)
qed

lemma day_of_year:
  assumes "valid_date (y, m, d)"
  shows "1 \<le> days_before_month y m + d" "days_before_month y m + d \<le> days_before_month y (Suc m)"
    "days_before_month y (Suc m) \<le> 365 + (if is_leap y then 1 else 0)"
proof -
  have b: "1 \<le> m" "m \<le> 12" "1 \<le> d" "d \<le> days_in_month y m" using assms by (auto simp: valid_date_def)
  then show "1 \<le> days_before_month y m + d" "days_before_month y m + d \<le> days_before_month y (Suc m)"
    by (auto simp: days_before_month_Suc)
  show "days_before_month y (Suc m) \<le> 365 + (if is_leap y then 1 else 0)"
    using days_before_month_mono [of "Suc m" 13 y] b(2) by (simp add: days_before_month_13)
qed

lemma days_before_year_mono: "y < y' \<Longrightarrow> days_before_year y + 365 + (if is_leap y then 1 else 0) \<le> days_before_year y'"
proof (induction y' rule: less_Suc_induct)
  case (1 i)
  then show ?case by (simp add: days_before_year_Suc)
next
  case (2 i j k)
  then show ?case by (auto split: if_splits)
qed

theorem to_ordinal_mono:
  assumes v: "valid_date s" "valid_date t" and le: "s \<le> t"
  shows "to_ordinal s \<le> to_ordinal t"
proof -
  obtain y m d y' m' d' where st: "s = (y, m, d)" "t = (y', m', d')" by (metis prod_cases3)
  note ds = day_of_year [OF v(1) [unfolded st]] and dt = day_of_year [OF v(2) [unfolded st]]
  have "y < y' \<or> y = y' \<and> (m < m' \<or> m = m' \<and> d \<le> d')"
    using le st by (auto simp: less_eq_prod_def)
  then consider "y < y'" | "y = y'" "m < m'" | "y = y'" "m = m'" "d \<le> d'" by blast
  then show ?thesis
  proof cases
    case 1
    from days_before_year_mono [OF this] ds dt show ?thesis unfolding st to_ordinal_parts
      by (cases "is_leap y") simp_all
  next
    case 2
    from days_before_month_mono [of "Suc m" m' y] 2 have "days_before_month y (Suc m) \<le> days_before_month y m'" by simp
    then have "days_before_month y m + d \<le> days_before_month y m' + d'" using ds(2) by linarith
    with 2(1) show ?thesis unfolding st to_ordinal_parts by simp
  next
    case 3
    then show ?thesis unfolding st to_ordinal_parts by simp
  qed
qed

section \<open>Retention removes a prefix\<close>

definition tail_of :: "dict list \<Rightarrow> (int \<times> string) option" where
  "tail_of rs = (if rs = [] then None else Some (rec_seq (last rs), hash_text (last rs)))"

lemma tail_of_chain_end: "chained H qp rs \<Longrightarrow> tail_of rs = (if rs = [] then None else Some (chain_end qp rs))"
  using chain_end_last(1) [of H qp rs] by (simp add: tail_of_def)

text \<open>The state of a removal pass: what is gone, and what the directory still holds.\<close>

definition rm_ok :: "removal \<Rightarrow> segs \<Rightarrow> segs \<Rightarrow> bool" where
  "rm_ok r gone segs \<longleftrightarrow> holds (rm_files r) segs \<and> rm_best r = tail_of (seg_records gone)
     \<and> (rm_any r \<longleftrightarrow> gone \<noteq> [])"

lemma holds_ddel:
  assumes h: "holds fs (e # segs)"
  shows "holds (ddel fs (seg_name (fst e))) segs"
proof -
  have w: "wf_segs (e # segs)" using h by (simp add: holds_def)
  have ne: "seg_name (fst x) \<noteq> seg_name (fst e)" if "x \<in> set segs" for x
    using w that wf_segs_distinct [OF w] by (auto simp: wf_segs_def seg_name_inj)
  show ?thesis unfolding holds_def
  proof (intro conjI ballI impI)
    show "wf_segs segs" using w by (simp add: wf_segs_def)
    show "distinct_keys (ddel fs (seg_name (fst e)))" using h by (simp add: holds_def)
  next
    fix nm assume "nm \<in> fst ` set (ddel fs (seg_name (fst e)))" "parse_name nm \<noteq> None"
    with h show "nm \<in> seg_name ` fst ` set segs" unfolding holds_def keys_ddel by auto
  next
    fix x assume x: "x \<in> set segs"
    then have "x \<in> set (e # segs)" by simp
    from holds_get [OF h this] obtain b where "dget fs (seg_name (fst x)) = Some b" "file_holds b (snd x)" by blast
    with ne [OF x] show "\<exists>b. dget (ddel fs (seg_name (fst e))) (seg_name (fst x)) = Some b \<and> file_holds b (snd x)"
      by (simp add: dict_simps)
  qed
qed

lemma read_tail_holds:
  assumes "file_holds b rs" "chained H qp rs" "hexdigest_like H"
  shows "read_tail_seq_hash b = Inr (tail_of rs)"
proof (cases rs rule: rev_cases)
  case Nil
  with assms(1) show ?thesis
    using read_jsonl_holds [OF assms(1)] by (simp add: read_tail_seq_hash_def tail_of_def)
next
  case (snoc xs r)
  have wf: "\<forall>r \<in> set rs. wf_dict r" using chained_wf [OF assms(2)] by blast
  have l: "linked H (chain_end qp xs) r" using assms(2) snoc by simp
  note g = stored_get [OF l]
  have "hash_text r \<noteq> []" using linkedD(4) [OF l] assms(3) unfolding hexdigest_like_def
    by (metis length_0_conv zero_neq_numeral)
  moreover have "loads (last (map line_text rs)) = Some (JObj (stored r))"
    using snoc wf by (simp add: loads_line)
  ultimately show ?thesis using read_jsonl_holds [OF assms(1) wf] snoc g linkedD(2) [OF l]
    by (simp add: read_tail_seq_hash_def tail_of_def)
qed

lemma remove_file_ok:
  assumes r: "rm_ok r gone (e # segs)" and c: "chained H qp (seg_records (gone @ [e]))" and H: "hexdigest_like H"
    and can: "can (seg_name (fst e))"
  shows "\<exists>r'. remove_file can d (seg_name (fst e)) r = (r', Inr True) \<and> rm_ok r' (gone @ [e]) segs"
proof -
  have h: "holds (rm_files r) (e # segs)" using r by (simp add: rm_ok_def)
  obtain b where b: "dget (rm_files r) (seg_name (fst e)) = Some b" "file_holds b (snd e)"
    using holds_get [OF h, of e] by auto
  have ce: "chained H (chain_end qp (seg_records gone)) (snd e)" using c by simp
  have tail: "read_tail_seq_hash (file_bytes (rm_files r) (seg_name (fst e))) = Inr (tail_of (snd e))"
    using read_tail_holds [OF b(2) ce H] b(1) by (simp add: file_bytes_def)
  let ?r' = "note_deleted d (tail_of (snd e)) (r\<lparr>rm_files := ddel (rm_files r) (seg_name (fst e))\<rparr>)"
  have "rm_best ?r' = tail_of (seg_records (gone @ [e]))"
  proof (cases "snd e = []")
    case True
    with r show ?thesis by (simp add: note_deleted_def rm_ok_def tail_of_def)
  next
    case False
    have new: "tail_of (seg_records (gone @ [e])) = tail_of (snd e)" using False by (simp add: tail_of_def)
    have "fst (chain_end qp (seg_records gone)) < fst (chain_end qp (seg_records gone @ snd e))"
      using False by (simp add: chain_end_seq)
    moreover have "tail_of (snd e) = Some (chain_end qp (seg_records gone @ snd e))"
      using tail_of_chain_end [OF ce] False by simp
    moreover have "rm_best r = (if seg_records gone = [] then None else Some (chain_end qp (seg_records gone)))"
      using r c tail_of_chain_end [of H qp "seg_records gone"] by (simp add: rm_ok_def)
    ultimately show ?thesis unfolding new by (simp add: note_deleted_def)
  qed
  then have "rm_ok ?r' (gone @ [e]) segs" using holds_ddel [OF h] by (simp add: rm_ok_def note_deleted_def)
  with tail can show ?thesis by (simp add: remove_file_def)
qed

definition seg_entry :: "(date \<times> nat) \<times> dict list \<Rightarrow> date \<times> string" where
  "seg_entry e = (fst (fst e), seg_name (fst e))"

definition sized_entry :: "files \<Rightarrow> (date \<times> nat) \<times> dict list \<Rightarrow> date \<times> string \<times> nat" where
  "sized_entry fs e = (fst (fst e), seg_name (fst e), length (file_bytes fs (seg_name (fst e))))"

lemma expire_keeps_all:
  "(\<forall>e \<in> set segs. \<not> to_ordinal (fst (fst e)) < cutoff) \<Longrightarrow>
   expire_files can cutoff (map seg_entry segs) r = (r, Inr (map (sized_entry (rm_files r)) segs))"
  by (induction segs) (auto simp: seg_entry_def sized_entry_def)

lemma expire_files_ok:
  assumes "rm_ok r gone segs" "chained H qp (seg_records (gone @ segs))" "hexdigest_like H" "\<And>nm. can nm"
  shows "\<exists>r' gone' segs'. expire_files can cutoff (map seg_entry segs) r
            = (r', Inr (map (sized_entry (rm_files r')) segs'))
     \<and> rm_ok r' gone' segs' \<and> gone' @ segs' = gone @ segs"
  using assms(1,2)
proof (induction segs arbitrary: r gone)
  case Nil
  then show ?case by (intro exI [of _ r] exI [of _ gone] exI [of _ "[]"]) simp
next
  case (Cons e segs)
  show ?case
  proof (cases "to_ordinal (fst (fst e)) < cutoff")
    case True
    from Cons.prems(2) have c: "chained H qp (seg_records (gone @ [e]))" by simp
    obtain r' where r': "remove_file can (fst (fst e)) (seg_name (fst e)) r = (r', Inr True)" "rm_ok r' (gone @ [e]) segs"
      using remove_file_ok [OF Cons.prems(1) c assms(3), where can = can and d = "fst (fst e)"] assms(4) by blast
    with Cons.IH [OF r'(2)] Cons.prems(2) True show ?thesis by (simp add: seg_entry_def)
  next
    case False
    have w: "wf_segs (e # segs)" using Cons.prems(1) by (simp add: rm_ok_def holds_def)
    have "\<not> to_ordinal (fst (fst x)) < cutoff" if "x \<in> set (e # segs)" for x
    proof -
      have "fst e \<le> fst x" using w that by (auto simp: wf_segs_def less_imp_le)
      then have "fst (fst e) \<le> fst (fst x)" using key_le_iff [of "fst e" "fst x"] by (metis less_imp_le order_refl)
      with w that False show ?thesis
        using to_ordinal_mono [of "fst (fst e)" "fst (fst x)"] unfolding wf_segs_def by fastforce
    qed
    then have "expire_files can cutoff (map seg_entry (e # segs)) r = (r, Inr (map (sized_entry (rm_files r)) (e # segs)))"
      by (intro expire_keeps_all) blast
    with Cons.prems(1) show ?thesis by blast
  qed
qed

lemma enforce_cap_ok:
  assumes "rm_ok r gone segs" "chained H qp (seg_records (gone @ segs))" "hexdigest_like H" "\<And>nm. can nm"
  shows "\<exists>r' gone' segs'. enforce_cap can mx sm (map (sized_entry fs) segs) r = (r', Inr ())
     \<and> rm_ok r' gone' segs' \<and> gone' @ segs' = gone @ segs"
  using assms(1,2)
proof (induction segs arbitrary: r gone sm)
  case Nil
  then show ?case by (intro exI [of _ r] exI [of _ gone] exI [of _ "[]"]) simp
next
  case (Cons e segs)
  have stop: ?case if "enforce_cap can mx sm (map (sized_entry fs) (e # segs)) r = (r, Inr ())"
    using that Cons.prems by (intro exI [of _ r] exI [of _ gone] exI [of _ "e # segs"]) simp
  show ?case
  proof (cases "segs \<noteq> [] \<and> mx < sm")
    case True
    then obtain x xs where segs: "segs = x # xs" by (cases segs) auto
    from Cons.prems(2) have c: "chained H qp (seg_records (gone @ [e]))" by simp
    obtain r' where r': "remove_file can (fst (fst e)) (seg_name (fst e)) r = (r', Inr True)" "rm_ok r' (gone @ [e]) segs"
      using remove_file_ok [OF Cons.prems(1) c assms(3), where can = can and d = "fst (fst e)"] assms(4) by blast
    from Cons.IH [OF r'(2), of "sm - int (length (file_bytes fs (seg_name (fst e))))"] Cons.prems(2)
    show ?thesis using True r'(1) segs by (simp add: sized_entry_def)
  next
    case False
    then have "enforce_cap can mx sm (map (sized_entry fs) (e # segs)) r = (r, Inr ())"
      by (cases segs) (auto simp: sized_entry_def)
    then show ?thesis by (rule stop)
  qed
qed

theorem removals_ok:
  assumes h: "holds fs segs" and c: "chained H qp (seg_records segs)" and H: "hexdigest_like H"
    and io: "\<And>nm. io_remove io nm" "1 \<le> io_today io - audit_retention_days cfg"
  shows "\<exists>r gone segs'. removals io cfg fs = (r, Inr ()) \<and> rm_ok r gone segs' \<and> gone @ segs' = segs"
proof -
  let ?r0 = "\<lparr>rm_files = fs, rm_best = None, rm_through = None, rm_any = False\<rparr>"
  have "rm_ok ?r0 [] segs" using h by (simp add: rm_ok_def tail_of_def)
  from expire_files_ok [OF this _ H, of qp "io_remove io" "io_today io - audit_retention_days cfg"] c io(1)
  obtain r gone segs1 where
    e: "expire_files (io_remove io) (io_today io - audit_retention_days cfg) (map seg_entry segs) ?r0
          = (r, Inr (map (sized_entry (rm_files r)) segs1))" "rm_ok r gone segs1" "gone @ segs1 = segs" by auto
  from enforce_cap_ok [OF e(2) _ H, of qp "io_remove io"] c e(3) io(1)
  obtain r' gone' segs2 where
    "enforce_cap (io_remove io) (audit_max_bytes cfg)
       (int (sum_list (map (\<lambda>e. snd (snd e)) (map (sized_entry (rm_files r)) segs1))))
       (map (sized_entry (rm_files r)) segs1) r = (r', Inr ())" and g: "rm_ok r' gone' segs2" "gone' @ segs2 = segs" by metis
  moreover have "list_day_files fs = map seg_entry segs" by (simp add: list_day_files_holds [OF h] seg_entry_def)
  ultimately have "removals io cfg fs = (r', Inr ())" using e(1) io(2) by (simp add: removals_def Let_def)
  with g show ?thesis by blast
qed

section \<open>A whole flush\<close>

text \<open>
  Where the kept records start: \<open>ex\<close> are the records that retention removed from the chain that
  began at \<open>base\<close>. Without removals the anchor is absent and a reset marker, if any, is the base.
\<close>

definition origin_ok :: "int \<times> string \<Rightarrow> dict list \<Rightarrow> dict option \<Rightarrow> dict option \<Rightarrow> bool" where
  "origin_ok base ex a r \<longleftrightarrow>
     (if ex = [] then a = None \<and> (r = None \<and> base = (0, GENESIS_PREV_HASH) \<or> marks r (Some base))
      else marks a (Some (chain_end base ex)) \<and> r = None)"

lemma origin_starts_at:
  assumes "origin_ok base ex a r"
  obtains x y where "marks a x" "marks r y" "starts_at x y (chain_end base ex)" "r = None \<longleftrightarrow> y = None"
proof (cases "ex = []")
  case True
  with assms consider "a = None" "r = None" "base = (0, GENESIS_PREV_HASH)" | "a = None" "marks r (Some base)"
    by (auto simp: origin_ok_def)
  then show thesis
  proof cases
    case 1
    with True that [of None None] show thesis by (simp add: starts_at_def start_point_def)
  next
    case 2
    with True that [of None "Some base"] show thesis by (cases r) (auto simp: starts_at_def start_point_def)
  qed
next
  case False
  with assms that [of "Some (chain_end base ex)" None] show thesis
    by (auto simp: origin_ok_def starts_at_def start_point_def)
qed

definition floor_state :: "string option \<Rightarrow> dict list \<Rightarrow> segs \<Rightarrow> bool" where
  "floor_state fl waiting segs \<longleftrightarrow> fl = None \<or> (\<exists>f. fl = Some (floor_text f) \<and> floor_ok f waiting segs)"

definition log_on_disk ::
    "(string \<Rightarrow> string) \<Rightarrow> int \<times> string \<Rightarrow> dict list \<Rightarrow> segs \<Rightarrow> dict list \<Rightarrow> disk \<Rightarrow> alog \<Rightarrow> bool" where
  "log_on_disk H base ex segs waiting d s \<longleftrightarrow>
     holds (d_files d) segs \<and> dates_ok segs \<and> chained H base (ex @ seg_records segs)
     \<and> cache_ok (target_cache s) segs \<and> floor_state (day_floor s) waiting segs
     \<and> origin_ok base ex (anchor s) (reset s)"

definition head_at :: "int \<times> string \<Rightarrow> disk \<Rightarrow> alog \<Rightarrow> bool" where
  "head_at qp d s \<longleftrightarrow> d_head d = Some (dumps_plain (JObj (payload_of qp (anchor s) (reset s))))"

definition clean_io :: "flush_io \<Rightarrow> retention_cfg \<Rightarrow> bool" where
  "clean_io io cfg \<longleftrightarrow> (\<forall>out \<in> set (io_appends io). clean_outcome out) \<and> (\<forall>nm. io_remove io nm)
     \<and> 1 \<le> io_today io - audit_retention_days cfg"

text \<open>The fields a flush leaves alone on the executor side.\<close>

definition same_memory :: "alog \<Rightarrow> alog \<Rightarrow> bool" where
  "same_memory s t \<longleftrightarrow> buffer t = buffer s \<and> prepared t = prepared s \<and> dropped_count t = dropped_count s
     \<and> dropped_first_ts t = dropped_first_ts s \<and> dropped_last_ts t = dropped_last_ts s
     \<and> seqno t = seqno s \<and> prev_hash t = prev_hash s \<and> head_loaded t = head_loaded s
     \<and> head_file_found t = head_file_found s \<and> flush_scheduled t = flush_scheduled s
     \<and> recovery_events t = recovery_events s"

lemma same_memory_refl [simp]: "same_memory s s"
  by (simp add: same_memory_def)

lemma same_memory_trans: "same_memory s t \<Longrightarrow> same_memory t u \<Longrightarrow> same_memory s u"
  by (simp add: same_memory_def)

lemma note_flush_error_same [simp]:
  "same_memory s (note_flush_error io s)" "target_cache (note_flush_error io s) = target_cache s"
  "day_floor (note_flush_error io s) = day_floor s" "anchor (note_flush_error io s) = anchor s"
  "reset (note_flush_error io s) = reset s" "flush_head (note_flush_error io s) = flush_head s"
  "head_file_written (note_flush_error io s) = head_file_written s"
  by (simp_all add: note_flush_error_def same_memory_def)

lemma find_day_floor_ok:
  assumes "holds fs segs" "floor_state (day_floor s) waiting segs"
  shows "\<exists>f. find_day_floor s fs = floor_text f \<and> floor_ok f waiting segs"
proof (cases "day_floor s")
  case None
  show ?thesis
  proof (cases segs rule: rev_cases)
    case Nil
    with None assms(1) show ?thesis
      by (intro exI [of _ None]) (simp add: find_day_floor_def list_day_files_holds floor_text_def floor_ok_def valid_floor_def)
  next
    case (snoc xs e)
    then have "list_day_files fs \<noteq> []" "fst (last (list_day_files fs)) = fst (fst e)"
      using list_day_files_holds [OF assms(1)] by auto
    then have "find_day_floor s fs = floor_text (Some (fst (fst e)))"
      using None by (cases "list_day_files fs") (simp_all add: find_day_floor_def floor_text_def)
    moreover have "valid_date (fst (fst e))" using assms(1) snoc by (auto simp: holds_def wf_segs_def)
    ultimately show ?thesis using snoc
      by (intro exI [of _ "Some (fst (fst e))"]) (simp add: floor_ok_def valid_floor_def last_date_le_def)
  qed
next
  case (Some f)
  with assms(2) show ?thesis by (auto simp: floor_state_def find_day_floor_def)
qed

lemma append_all_succeed: "snd (append_groups [] gs st)"
  by (induction gs arbitrary: st)
    (auto simp: append_durable_def Let_def)

lemma flush_records_ok:
  assumes l: "log_on_disk H base ex segs records d s"
    and r: "chained H (chain_end base (ex @ seg_records segs)) records" "\<forall>r \<in> set records. dated r"
    and io: "\<forall>out \<in> set (io_appends io). clean_outcome out"
    and run: "flush_records io records d s = ((d', s'), n)"
  shows "\<exists>segs'. log_on_disk H base ex segs' (drop n records) d' s' \<and> n \<le> length records
     \<and> seg_records segs' = seg_records segs @ take n records
     \<and> d_head d' = d_head d \<and> same_memory s s' \<and> anchor s' = anchor s \<and> reset s' = reset s
     \<and> flush_head s' = flush_head s \<and> \<not> head_file_written s'
     \<and> (io_setup io \<and> io_appends io = [] \<longrightarrow> n = length records)"
proof (cases "io_setup io")
  case False
  with run have "d' = d" "n = 0" "s' = note_flush_error io (s\<lparr>head_file_written := False\<rparr>)"
    by (auto simp: flush_records_def)
  with l show ?thesis
    using False by (intro exI [of _ segs]) (simp add: log_on_disk_def note_flush_error_def same_memory_def)
next
  case True
  have h: "holds (d_files d) segs" and fl: "floor_state (day_floor s) records segs" using l by (auto simp: log_on_disk_def)
  have same: "find_day_floor (s\<lparr>head_file_written := False\<rparr>) (d_files d) = find_day_floor s (d_files d)"
    by (simp add: find_day_floor_def)
  obtain f where f: "find_day_floor s (d_files d) = floor_text f" "floor_ok f records segs"
    using find_day_floor_ok [OF h fl] by blast
  obtain gs where gs: "group_days (floor_text f) records = day_keys gs" "groups_ok f gs" "concat (map snd gs) = records"
    using group_days_ok [OF r(2)] f(2) by (auto simp: floor_ok_def)
  let ?st = "\<lparr>as_files = d_files d, as_cache = target_cache s, as_floor = Some (floor_text f), as_written = 0\<rparr>"
  obtain st ok where st: "append_groups (io_appends io) (day_keys gs) ?st = (st, ok)" by (metis surj_pair)
  have wf: "\<forall>r \<in> set records. wf_dict r" using chained_wf [OF r(1)] by blast
  obtain segs' n' f' where a: "st_ok st segs'" "as_floor st = Some (floor_text f')" "n' \<le> length records"
    "as_written st = n'" "seg_records segs' = seg_records segs @ take n' records" "floor_ok f' (drop n' records) segs'"
    "ok \<longrightarrow> n' = length records"
    using append_groups_ok [OF _ _ f(2) gs(2,3) wf io st] l by (auto simp: st_ok_def log_on_disk_def)
  from run True st have res: "d' = d\<lparr>d_files := as_files st\<rparr>" "n = n'"
    "s' = (if ok then s\<lparr>head_file_written := False, target_cache := as_cache st, day_floor := as_floor st\<rparr>
           else note_flush_error io (s\<lparr>head_file_written := False, target_cache := as_cache st, day_floor := as_floor st\<rparr>))"
    by (auto simp: flush_records_def Let_def same f(1) gs(1) a(4))
  have "chained H base (ex @ seg_records segs')"
    using l r(1) a(5) append_take_drop_id [of n' records] chained_append [of H _ "take n' records" "drop n' records"]
    by (simp add: log_on_disk_def)
  then have "log_on_disk H base ex segs' (drop n records) d' s'"
    using l a res by (auto simp: log_on_disk_def st_ok_def floor_state_def)
  moreover have "io_appends io = [] \<longrightarrow> n = length records"
    using append_all_succeed [of "day_keys gs" ?st] st a(7) res(2) by auto
  ultimately show ?thesis using a res
    by (intro exI [of _ segs']) (auto simp: note_flush_error_def same_memory_def)
qed

text \<open>The position that a head write of this state would store.\<close>

definition position_is :: "int \<times> string \<Rightarrow> alog \<Rightarrow> bool" where
  "position_is qp s \<longleftrightarrow>
     (case flush_head s of Some x \<Rightarrow> x | None \<Rightarrow> (seqno s, prev_hash s)) = (fst qp, JStr (snd qp))"

lemma write_head_at:
  assumes "position_is qp s"
  shows "write_chain_head True s d = (d', ok) \<Longrightarrow> head_at qp d' s \<and> ok \<and> d_files d' = d_files d"
    and "write_chain_head False s d = (d', ok) \<Longrightarrow> d' = d \<and> \<not> ok"
  using assms
  by (auto simp: write_chain_head_def head_at_def head_payload_def position_is_def payload_of_def split: prod.splits)

lemma flush_head_step_ok:
  assumes c: "chained H qp records" and n: "n \<le> length records"
    and run: "flush_head_step io records n d s = (d', s')"
  shows "same_memory s s' \<and> d_files d' = d_files d \<and> anchor s' = anchor s \<and> reset s' = reset s
     \<and> target_cache s' = target_cache s \<and> day_floor s' = day_floor s"
    and "n = 0 \<Longrightarrow> d' = d \<and> s' = s"
    and "0 < n \<Longrightarrow> position_is (chain_end qp (take n records)) s' \<and> head_file_written s' = io_head io
           \<and> (io_head io \<longrightarrow> head_at (chain_end qp (take n records)) d' s')"
proof -
  show "n = 0 \<Longrightarrow> d' = d \<and> s' = s" using run by (simp add: flush_head_step_def)
  show "same_memory s s' \<and> d_files d' = d_files d \<and> anchor s' = anchor s \<and> reset s' = reset s
     \<and> target_cache s' = target_cache s \<and> day_floor s' = day_floor s"
    using run by (auto simp: flush_head_step_def Let_def write_chain_head_def same_memory_def split: if_splits)
  assume pos: "0 < n"
  let ?ts = "take n records" and ?r = "records ! (n - 1)"
  have ts1: "?ts \<noteq> []" using pos n by auto
  have ts: "?ts \<noteq> []" "last ?ts = ?r" using pos n ts1 last_conv_nth [OF ts1] by (auto simp: min_absorb2)
  have "chained H qp ?ts" using c chained_append [of H qp ?ts "drop n records"] by simp
  note ce = chain_end_last [OF this ts(1), unfolded ts(2)]
  let ?s1 = "s\<lparr>last_flush_error_log := None, flush_head := Some (rec_seq ?r, rec_hash ?r)\<rparr>"
  have p: "position_is (chain_end qp ?ts) ?s1" using ce by (simp add: position_is_def)
  obtain d1 ok where w: "write_chain_head (io_head io) ?s1 d = (d1, ok)" by (metis surj_pair)
  with run pos have s': "s' = ?s1\<lparr>head_file_written := ok\<rparr>" "d' = d1" by (auto simp: flush_head_step_def Let_def)
  with p w write_head_at [OF p, of d d1 ok]
  show "position_is (chain_end qp ?ts) s' \<and> head_file_written s' = io_head io
     \<and> (io_head io \<longrightarrow> head_at (chain_end qp ?ts) d' s')"
    by (cases "io_head io") (auto simp: position_is_def head_at_def)
qed

lemma suffix_state:
  assumes "segs = gone @ segs'"
  shows "dates_ok segs \<Longrightarrow> dates_ok segs'" "cache_ok c segs \<Longrightarrow> cache_ok c segs'" "floor_state fl w segs \<Longrightarrow> floor_state fl w segs'"
proof -
  show "dates_ok segs \<Longrightarrow> dates_ok segs'" unfolding assms by (auto simp: dates_ok_def)
  have l: "segs' \<noteq> [] \<Longrightarrow> last segs' = last segs" using assms by simp
  show "cache_ok c segs \<Longrightarrow> cache_ok c segs'"
  proof -
    assume c: "cache_ok c segs"
    show "cache_ok c segs'" unfolding cache_ok_def
    proof (intro allI impI)
      fix day nm assume "c = Some (day, nm)"
      with c obtain k where k: "valid_date (fst k)" "day = date_iso (fst k)" "nm = seg_name k"
        "k \<in> fst ` set segs \<longrightarrow> k = fst (last segs)" unfolding cache_ok_def by blast
      have "k = fst (last segs')" if "k \<in> fst ` set segs'"
      proof -
        have "segs' \<noteq> []" using that by auto
        moreover have "k \<in> fst ` set segs" unfolding assms set_append image_Un using that by (rule UnI2)
        ultimately show ?thesis using k(4) l by simp
      qed
      with k(1-3) show "\<exists>k. valid_date (fst k) \<and> day = date_iso (fst k) \<and> nm = seg_name k
          \<and> (k \<in> fst ` set segs' \<longrightarrow> k = fst (last segs'))" by blast
    qed
  qed
  show "floor_state fl w segs \<Longrightarrow> floor_state fl w segs'"
  proof -
    have "floor_ok f w segs \<Longrightarrow> floor_ok f w segs'" for f
    proof (cases "segs' = []")
      case False
      then have "segs \<noteq> []" "last_date_le segs' d = last_date_le segs d" for d
        using l assms by (simp_all add: last_date_le_def)
      then show "floor_ok f w segs \<Longrightarrow> floor_ok f w segs'" by (simp add: floor_ok_def)
    qed (simp add: floor_ok_def)
    then show "floor_state fl w segs \<Longrightarrow> floor_state fl w segs'" unfolding floor_state_def by blast
  qed
qed

lemma re_anchor_ok:
  assumes o: "origin_ok base ex (anchor s) (reset s)" and c: "chained H base (ex @ rs)" and H: "hexdigest_like H"
    and best: "rm_best r = tail_of rs" and p: "position_is qp s"
    and run: "re_anchor io r d s = ((d', s'), out)"
  shows "out = Inr () \<and> d_files d' = d_files d \<and> same_memory s s' \<and> flush_head s' = flush_head s
     \<and> head_file_written s' = head_file_written s \<and> target_cache s' = target_cache s \<and> day_floor s' = day_floor s
     \<and> origin_ok base (ex @ rs) (anchor s') (reset s')
     \<and> (head_at qp d s \<and> io_retention_head io \<longrightarrow> head_at qp d' s')"
proof (cases "rs = []")
  case True
  with best run o show ?thesis by (simp add: re_anchor_def tail_of_def)
next
  case False
  let ?b = "chain_end base (ex @ rs)"
  have cr: "chained H (chain_end base ex) rs" using c by simp
  have b: "rm_best r = Some ?b" using best tail_of_chain_end [OF cr] False by simp
  have bs: "fst ?b = fst base + int (length ex) + int (length rs)" by (simp add: chain_end_seq)
  have bh: "snd ?b \<noteq> []"
  proof -
    have "linked H (chain_end base (ex @ butlast rs)) (last rs)"
      using cr False append_butlast_last_id [OF False] chained_append [of H "chain_end base ex" "butlast rs" "[last rs]"] by simp
    then have "hash_text (last rs) = H (hash_input (snd (chain_end base (ex @ butlast rs))) (last rs))" by (rule linkedD)
    moreover have "snd ?b = hash_text (last rs)" using chain_end_last(1) [OF cr False] by simp
    ultimately show ?thesis using H unfolding hexdigest_like_def by (metis length_0_conv zero_neq_numeral)
  qed
  let ?s1 = "s\<lparr>anchor := Some (retention_anchor io ?b (rm_through r)), reset := None\<rparr>"
  obtain q h where ce: "chain_end base ex = (q, h)" by (metis surj_pair)
  then have q: "q = fst base + int (length ex)" using chain_end_seq [of base ex] by simp
  have ahead: "anchor_ahead (fst ?b) (anchor s) = Inr False"
    using o bs False ce q by (cases "ex = []"; cases "anchor s")
      (auto simp: origin_ok_def anchor_ahead_def dget_default_def chain_end_seq)
  have clear: "clear_passed_reset (fst ?b) (reset s) = Inr None"
    using o bs by (cases "ex = []"; cases "reset s")
      (auto simp: origin_ok_def clear_passed_reset_def dget_default_def)
  have res: "d' = fst (write_chain_head (io_retention_head io) ?s1 d)" "s' = ?s1" "out = Inr ()"
    using run b ahead clear by (auto simp: re_anchor_def Let_def)
  have p1: "position_is qp ?s1" using p by (simp add: position_is_def split: option.splits)
  have "marks (Some (retention_anchor io ?b (rm_through r))) (Some ?b)"
    using bh by (cases ?b) (auto simp: retention_anchor_def wf_dict_iff split: option.splits)
  then have org: "origin_ok base (ex @ rs) (anchor s') (reset s')" using False res(2) by (simp add: origin_ok_def)
  obtain d1 ok where w: "write_chain_head (io_retention_head io) ?s1 d = (d1, ok)" by (metis surj_pair)
  with res(1) have d1: "d' = d1" by simp
  have "d_files d' = d_files d \<and> (io_retention_head io \<longrightarrow> head_at qp d' s')"
    using write_head_at [OF p1, of d d1 ok] w unfolding d1 res(2) by (cases "io_retention_head io") auto
  moreover have "same_memory s s'" "flush_head s' = flush_head s" "head_file_written s' = head_file_written s"
    "target_cache s' = target_cache s" "day_floor s' = day_floor s"
    unfolding res(2) by (simp_all add: same_memory_def)
  ultimately show ?thesis using res(3) org by blast
qed

lemma apply_retention_ok:
  assumes l: "log_on_disk H base ex segs w d s" and H: "hexdigest_like H" and io: "clean_io io cfg"
    and p: "position_is qp s" and run: "apply_retention io cfg d s = ((d', s'), out)"
  shows "\<exists>ex' segs'. out = Inr () \<and> log_on_disk H base ex' segs' w d' s'
     \<and> ex' @ seg_records segs' = ex @ seg_records segs \<and> same_memory s s' \<and> flush_head s' = flush_head s
     \<and> head_file_written s' = head_file_written s
     \<and> (head_at qp d s \<and> io_retention_head io \<longrightarrow> head_at qp d' s')"
proof (cases "list_day_files (d_files d) = []")
  case True
  with run l show ?thesis by (intro exI [of _ ex] exI [of _ segs]) (auto simp: apply_retention_def)
next
  case False
  have h: "holds (d_files d) segs" and c: "chained H base (ex @ seg_records segs)" using l by (auto simp: log_on_disk_def)
  obtain r gone segs' where r: "removals io cfg (d_files d) = (r, Inr ())" "rm_ok r gone segs'" "segs = gone @ segs'"
    using removals_ok [OF h _ H, of "chain_end base ex" io cfg] c io by (auto simp: clean_io_def)
  have hs: "holds (rm_files r) segs'" using r(2) by (simp add: rm_ok_def)
  have st: "cache_ok (target_cache s) segs'" "floor_state (day_floor s) w segs'" "dates_ok segs'"
    using suffix_state [OF r(3)] l by (auto simp: log_on_disk_def)
  let ?d' = "d\<lparr>d_files := rm_files r\<rparr>"
  show ?thesis
  proof (cases "rm_any r")
    case True
    then have ra: "re_anchor io r ?d' s = ((d', s'), out)" using run r(1) False by (simp add: apply_retention_def Let_def)
    have "chained H base (ex @ seg_records gone)" using c r(3) by simp
    from re_anchor_ok [OF _ this H _ p ra] r(2) l
    have "out = Inr () \<and> d_files d' = rm_files r \<and> same_memory s s' \<and> flush_head s' = flush_head s
       \<and> head_file_written s' = head_file_written s \<and> target_cache s' = target_cache s \<and> day_floor s' = day_floor s
       \<and> origin_ok base (ex @ seg_records gone) (anchor s') (reset s')
       \<and> (head_at qp ?d' s \<and> io_retention_head io \<longrightarrow> head_at qp d' s')"
      by (simp add: rm_ok_def log_on_disk_def)
    with hs st c r(3) show ?thesis
      by (intro exI [of _ "ex @ seg_records gone"] exI [of _ segs']) (auto simp: log_on_disk_def head_at_def)
  next
    case False
    with r(2) have "gone = []" by (simp add: rm_ok_def)
    with False run r(1,3) \<open>list_day_files (d_files d) \<noteq> []\<close> l hs show ?thesis
      by (intro exI [of _ ex] exI [of _ segs]) (auto simp: apply_retention_def log_on_disk_def head_at_def)
  qed
qed

lemma flush_retention_ok:
  assumes l: "log_on_disk H base ex segs w d s" and H: "hexdigest_like H" and io: "clean_io io cfg"
    and p: "position_is qp s" and run: "flush_retention io cfg d s = ((d', s'), out)"
  shows "\<exists>ex' segs'. out = Inr () \<and> log_on_disk H base ex' segs' w d' s'
     \<and> ex' @ seg_records segs' = ex @ seg_records segs \<and> same_memory s s' \<and> flush_head s' = None
     \<and> head_file_written s' = head_file_written s
     \<and> (head_at qp d s \<and> io_retention_head io \<longrightarrow> head_at qp d' s')"
proof (cases "retention_due io s")
  case False
  with run have "d' = d" "s' = s\<lparr>flush_head := None\<rparr>" "out = Inr ()" by (auto simp: flush_retention_def)
  with l show ?thesis
    by (intro exI [of _ ex] exI [of _ segs]) (simp add: log_on_disk_def same_memory_def head_at_def)
next
  case True
  obtain d1 s1 o1 where a: "apply_retention io cfg d s = ((d1, s1), o1)" by (metis surj_pair)
  from apply_retention_ok [OF l H io p a] obtain ex' segs' where r: "o1 = Inr ()" "log_on_disk H base ex' segs' w d1 s1"
    "ex' @ seg_records segs' = ex @ seg_records segs" "same_memory s s1"
    "head_file_written s1 = head_file_written s" "head_at qp d s \<and> io_retention_head io \<longrightarrow> head_at qp d1 s1" by blast
  moreover from run True a r(1) have "d' = d1" "s' = s1\<lparr>last_retention := Some (io_now io), flush_head := None\<rparr>" "out = Inr ()"
    by (auto simp: flush_retention_def)
  ultimately show ?thesis
    by (intro exI [of _ ex'] exI [of _ segs']) (simp add: log_on_disk_def same_memory_def head_at_def)
qed

text \<open>
  The flush as the log sees it: the records of a prefix of the batch are appended, nothing that
  was kept is lost but what retention expires, and the head follows when its writes work.
\<close>

theorem sync_flush_ok:
  assumes l: "log_on_disk H base ex segs records d s" and H: "hexdigest_like H" and io: "clean_io io cfg"
    and r: "chained H (chain_end base (ex @ seg_records segs)) records" "\<forall>r \<in> set records. dated r"
    and pos: "position_is (chain_end base (ex @ seg_records segs)) s" "flush_head s = None"
    and run: "sync_flush io cfg records d s = ((d', s'), out)"
  shows "\<exists>ex' segs' n. out = Inr n \<and> n \<le> length records \<and> log_on_disk H base ex' segs' (drop n records) d' s'
     \<and> ex' @ seg_records segs' = ex @ seg_records segs @ take n records
     \<and> same_memory s s' \<and> flush_head s' = None
     \<and> (head_file_written s' \<longleftrightarrow> 0 < n \<and> io_head io)
     \<and> (io_setup io \<and> io_appends io = [] \<longrightarrow> n = length records)
     \<and> (io_retention_head io \<and> (if n = 0 then head_at (chain_end base (ex @ seg_records segs)) d s else io_head io)
          \<longrightarrow> head_at (chain_end base (ex' @ seg_records segs')) d' s')"
proof -
  obtain d1 s1 n where f: "flush_records io records d s = ((d1, s1), n)" by (metis surj_pair)
  obtain d2 s2 where hs: "flush_head_step io records n d1 s1 = (d2, s2)" by (metis surj_pair)
  obtain d3 s3 o3 where ret: "flush_retention io cfg d2 s2 = ((d3, s3), o3)" by (metis surj_pair)
  have io1: "\<forall>out \<in> set (io_appends io). clean_outcome out" using io by (simp add: clean_io_def)
  obtain segs1 where s1: "log_on_disk H base ex segs1 (drop n records) d1 s1" "n \<le> length records"
    "seg_records segs1 = seg_records segs @ take n records" "d_head d1 = d_head d" "same_memory s s1"
    "anchor s1 = anchor s" "reset s1 = reset s" "flush_head s1 = None" "\<not> head_file_written s1"
    "io_setup io \<and> io_appends io = [] \<longrightarrow> n = length records"
    using flush_records_ok [OF l r io1 f] pos(2) by auto
  note h = flush_head_step_ok [OF r(1) s1(2) hs]
  let ?e = "chain_end base (ex @ seg_records segs1)"
  have e: "chain_end (chain_end base (ex @ seg_records segs)) (take n records) = ?e" using s1(3) by simp
  have l2: "log_on_disk H base ex segs1 (drop n records) d2 s2" using s1(1) h(1) by (simp add: log_on_disk_def)
  have p2: "position_is ?e s2"
  proof (cases "n = 0")
    case True
    with h(2) s1 pos show ?thesis by (simp add: position_is_def same_memory_def)
  next
    case False
    with h(3) e show ?thesis by simp
  qed
  have hd2: "(if n = 0 then head_at (chain_end base (ex @ seg_records segs)) d s else io_head io) \<longrightarrow> head_at ?e d2 s2"
  proof (cases "n = 0")
    case True
    with h(2) s1 show ?thesis by (simp add: head_at_def)
  next
    case False
    with h(3) e show ?thesis by simp
  qed
  obtain ex' segs' where s3: "o3 = Inr ()" "log_on_disk H base ex' segs' (drop n records) d3 s3"
     "ex' @ seg_records segs' = ex @ seg_records segs1" "same_memory s2 s3" "flush_head s3 = None"
     "head_file_written s3 = head_file_written s2" "head_at ?e d2 s2 \<and> io_retention_head io \<longrightarrow> head_at ?e d3 s3"
    using flush_retention_ok [OF l2 H io p2 ret] by blast
  have out: "d' = d3" "s' = s3" "out = Inr n" using run f hs ret s3(1) by (auto simp: sync_flush_def)
  have hw: "head_file_written s3 \<longleftrightarrow> 0 < n \<and> io_head io"
    using h(2,3) s1(9) s3(6) by (cases "n = 0") auto
  have sm: "same_memory s s3" using same_memory_trans [OF s1(5) same_memory_trans [OF conjunct1 [OF h(1)] s3(4)]] .
  have fin: "io_retention_head io \<and> (if n = 0 then head_at (chain_end base (ex @ seg_records segs)) d s else io_head io)
          \<longrightarrow> head_at (chain_end base (ex' @ seg_records segs')) d3 s3"
    unfolding s3(3) using hd2 s3(7) by blast
  show ?thesis unfolding out
    using s1(2,3,10) s3(2,3,5) hw fin sm by (intro exI [of _ ex'] exI [of _ segs'] exI [of _ n]) simp
qed

end
