(* ===== verification/Store.thy ===== *)
theory Store
  imports PyDict AuditRedact
begin

text \<open>
  \<open>store.py\<close>: the data \<open>HaSocData\<close> keeps in memory and the operations that change it. The data is
  the JSON dict the code has; an operation meets a field of the wrong shape with the exception
  Python raises there. \<open>store_shaped\<close> is the shape \<open>StoreData\<close> declares, which every operation keeps, and
  under which none raises. Persistence and the migrations at load are in \<open>StoreDisk\<close>.
\<close>

section \<open>The data\<close>

definition DEFAULT_EVIDENCE_RETENTION_DAYS :: int where "DEFAULT_EVIDENCE_RETENTION_DAYS = 365"

definition DEFAULT_NVD_LOOKUPS_ENABLED :: bool where "DEFAULT_NVD_LOOKUPS_ENABLED = True"

definition EVIDENCE_FINDING_TABLES :: "string list" where
  "EVIDENCE_FINDING_TABLES = [''vuln_findings'', ''misconfig_findings'', ''scanner_findings'']"

definition SECURITY_INTEGRATION_DOMAINS :: "string list" where
  "SECURITY_INTEGRATION_DOMAINS = [''kidde_homesafe'', ''elkm1'', ''emporia_vue'', ''unifiprotect'', ''keymaster'']"

definition SECURITY_ENTITY_DOMAINS :: "string list" where
  "SECURITY_ENTITY_DOMAINS = [''lock'', ''siren'', ''valve'']"

definition DEFAULT_SECURITY_SOURCES_ENABLED :: dict where
  "DEFAULT_SECURITY_SOURCES_ENABLED =
     map (\<lambda>d. (d, JBool True)) (SECURITY_INTEGRATION_DOMAINS @ SECURITY_ENTITY_DOMAINS)"

definition SYSLOG_RECEIVER_MAX_ENTRIES :: nat where "SYSLOG_RECEIVER_MAX_ENTRIES = 2000"

definition default_settings :: dict where
  "default_settings =
     [(''audit_retention_days'', JInt 90),
      (''audit_max_bytes'', JInt (200 * 1024 * 1024)),
      (''syslog_transport'', JStr ''disabled''),
      (''syslog_format'', JStr ''rfc5424_json''),
      (''syslog_host'', JNull),
      (''syslog_port'', JInt 514),
      (''syslog_tls_verify'', JBool True),
      (''syslog_facility'', JInt 16),
      (''syslog_receiver_enabled'', JBool False),
      (''observe_enabled'', JBool False),
      (''observe_url'', JNull),
      (''observe_host_name'', JNull),
      (''observe_interval_seconds'', JInt 60),
      (''observe_ca_pem'', JNull),
      (''observe_cert_sha256'', JNull),
      (''syslog_receiver_port'', JInt 5514),
      (''evidence_retention_days'', JInt DEFAULT_EVIDENCE_RETENTION_DAYS),
      (''scanner_enabled'', JBool True),
      (''scanner_network_checks_enabled'', JBool False),
      (''hygiene_scan_yaml_dashboards'', JBool False),
      (''dashboard_edit_enabled'', JBool False),
      (''ssh_collection_enabled'', JBool False),
      (''ssh_username'', JNull),
      (''nvd_lookups_enabled'', JBool DEFAULT_NVD_LOOKUPS_ENABLED),
      (''external_connections_enabled'', JBool True),
      (''external_connections_changed_at'', JNull),
      (''detection_thresholds'', JObj []),
      (''access_level'', JStr ''owner_only''),
      (''mfa_policy'', JStr ''audit_only''),
      (''mfa_grace_period_days'', JInt 14),
      (''security_sources_enabled'', JObj DEFAULT_SECURITY_SOURCES_ENABLED),
      (''unifi_network_host'', JNull),
      (''unifi_network_write_enabled'', JBool False),
      (''unifi_network_verify_ssl'', JBool True),
      (''unifi_protect_host'', JNull),
      (''unifi_protect_verify_ssl'', JBool True),
      (''pihole_host'', JNull),
      (''pihole_verify_ssl'', JBool True),
      (''pihole_iot_cidr'', JNull),
      (''technitium_verify_ssl'', JBool True),
      (''snmp_enabled'', JBool False),
      (''snmp_listen_address'', JNull),
      (''snmp_port'', JInt 161),
      (''snmp_username'', JNull),
      (''netscan_enabled'', JBool False),
      (''netscan_port_list'', JArr (map JInt [22, 23, 80, 443, 445, 3389, 8080, 8443])),
      (''netscan_max_concurrency'', JInt 32),
      (''crash_forensics_enabled'', JBool True),
      (''heartbeat_interval_seconds'', JInt 30)]"

definition default_watchdog :: dict where
  "default_watchdog =
     [(''enabled'', JBool False),
      (''default_cpu_percent'', JInt 85),
      (''default_memory_percent'', JInt 85),
      (''default_action'', JStr ''restart''),
      (''sustained_samples'', JInt 3),
      (''interval_seconds'', JInt 60),
      (''overrides'', JObj []),
      (''hard_limits'', JObj []),
      (''hard_limit_state'', JObj [])]"

definition default_store_data :: dict where
  "default_store_data =
     [(''settings'', JObj default_settings),
      (''audit_head'', JNull),
      (''permissions_matrix'', JObj []),
      (''vuln_findings'', JObj []),
      (''misconfig_findings'', JObj []),
      (''scanner_findings'', JObj []),
      (''detections'', JObj []),
      (''user_baselines'', JObj []),
      (''posture_history'', JArr []),
      (''posture_terms'', JObj []),
      (''detections_meta'', JObj []),
      (''integration_health'', JObj []),
      (''mfa_grace_started'', JObj []),
      (''host_probe'', JNull),
      (''peripheral_ignored'', JObj []),
      (''network_suggestions'', JObj []),
      (''firewall'', JObj [(''known_rules'', JNull), (''known_rules_reported_at'', JNull),
                           (''pending'', JNull), (''history'', JArr [])]),
      (''integration_security'', JObj [(''github'', JObj []), (''refreshed_at'', JNull)]),
      (''unifi_ledger'', JObj [(''baseline'', JNull), (''history'', JArr [])]),
      (''unifi_ssh'', JObj [(''host_keys'', JObj [])]),
      (''hacs_updates'', JObj [(''last_refresh'', JNull), (''last_update'', JNull)]),
      (''resource_watchdog'', JObj default_watchdog),
      (''panel_layout'', JObj []),
      (''snmp_status'', JNull),
      (''netscan_result'', JNull),
      (''netscan_rescan_requested_at'', JNull),
      (''external_audit_heads'', JObj []),
      (''syslog_receiver_entries'', JArr []),
      (''syslog_receiver_status'', JNull)]"

record soc_store =
  sd :: dict
  save_scheduled :: bool
  ring_scheduled :: bool
  ring_dirty :: bool
  ring_flushing :: bool
  ring_in_main :: bool

definition new_store :: soc_store where
  "new_store =
     \<lparr>sd = default_store_data, save_scheduled = False, ring_scheduled = False, ring_dirty = False,
      ring_flushing = False, ring_in_main = False\<rparr>"

definition schedule_save :: "soc_store \<Rightarrow> soc_store" where
  "schedule_save s = s\<lparr>save_scheduled := True\<rparr>"

text \<open>\<open>self.data[k] = v\<close> followed by the debounced save.\<close>

definition set_field :: "string \<Rightarrow> json \<Rightarrow> soc_store \<Rightarrow> soc_store" where
  "set_field k v s = schedule_save (s\<lparr>sd := dset (sd s) k v\<rparr>)"

text \<open>The table \<open>self.data[k]\<close>, changed in place; \<open>e\<close> is what the first use of a non-dict raises.\<close>

definition on_table :: "py_exc \<Rightarrow> string \<Rightarrow> (dict \<Rightarrow> dict res) \<Rightarrow> soc_store \<Rightarrow> soc_store res" where
  "on_table e k f s =
     bind_res (item (sd s) k) (\<lambda>v. bind_res (as_table e v) (\<lambda>t. bind_res (f t) (\<lambda>t'.
       Inr (s\<lparr>sd := dset (sd s) k (JObj t')\<rparr>))))"

definition then_save :: "soc_store res \<Rightarrow> soc_store res" where
  "then_save r = bind_res r (\<lambda>s. Inr (schedule_save s))"

section \<open>Settings and heads\<close>

definition settings :: "soc_store \<Rightarrow> json res" where
  "settings s = item (sd s) ''settings''"

definition async_update_settings :: "dict \<Rightarrow> soc_store \<Rightarrow> soc_store res" where
  "async_update_settings changes s =
     then_save (on_table AttributeError ''settings'' (\<lambda>t. Inr (dupdate t changes)) s)"

text \<open>\<open>int(current.get("seq", 0)) >= int(head["seq"])\<close>.\<close>

definition seq_regresses :: "dict \<Rightarrow> dict \<Rightarrow> bool res" where
  "seq_regresses cur new =
     bind_res (py_int (dget_default cur ''seq'' (JInt 0))) (\<lambda>c.
       bind_res (item new ''seq'') (\<lambda>q. bind_res (py_int q) (\<lambda>n. Inr (n \<le> c))))"

definition external_audit_head :: "string \<Rightarrow> soc_store \<Rightarrow> (soc_store \<times> dict option) res" where
  "external_audit_head source s =
     (let d = dsetdefault (sd s) ''external_audit_heads'' (JObj [])
      in bind_res (as_table AttributeError (dget_null d ''external_audit_heads'')) (\<lambda>heads.
           Inr (s\<lparr>sd := d\<rparr>, Option.bind (dget heads source) as_obj)))"

definition async_set_external_audit_head :: "string \<Rightarrow> dict \<Rightarrow> soc_store \<Rightarrow> soc_store res" where
  "async_set_external_audit_head source head s =
     (let d = dsetdefault (sd s) ''external_audit_heads'' (JObj [])
      in bind_res (as_table AttributeError (dget_null d ''external_audit_heads'')) (\<lambda>heads.
           bind_res (case Option.bind (dget heads source) as_obj of
                       None \<Rightarrow> Inr False | Some cur \<Rightarrow> seq_regresses cur head) (\<lambda>r.
             Inr (if r then s\<lparr>sd := d\<rparr>
                  else schedule_save (s\<lparr>sd := dset d ''external_audit_heads'' (JObj (dset heads source (JObj head)))\<rparr>)))))"

text \<open>A mirrored head that cannot be compared is replaced; OverflowError is not caught.\<close>

definition head_regresses :: "dict \<Rightarrow> json \<Rightarrow> bool res" where
  "head_regresses new mirror =
     (case as_obj mirror of
        None \<Rightarrow> Inr False
      | Some cur \<Rightarrow>
          (case seq_regresses cur new of
             Inl e \<Rightarrow> if e = TypeError \<or> e = KeyError \<or> is_value_error e then Inr False else Inl e
           | Inr b \<Rightarrow> Inr b))"

text \<open>What \<open>async_set_audit_head\<close> makes of the mirror.\<close>

definition set_audit_head :: "dict \<Rightarrow> json \<Rightarrow> json res" where
  "set_audit_head new mirror =
     bind_res (head_regresses new mirror) (\<lambda>r. Inr (if r then mirror else JObj new))"

definition async_set_audit_head :: "dict \<Rightarrow> soc_store \<Rightarrow> soc_store res" where
  "async_set_audit_head new s =
     bind_res (head_regresses new (dget_null (sd s) ''audit_head'')) (\<lambda>r.
       Inr (if r then s else set_field ''audit_head'' (JObj new) s))"

section \<open>Permissions and layout\<close>

definition get_user_dashboard_policy :: "string \<Rightarrow> string \<Rightarrow> soc_store \<Rightarrow> json res" where
  "get_user_dashboard_policy user url s =
     bind_res (item (sd s) ''permissions_matrix'') (\<lambda>v. bind_res (as_table AttributeError v) (\<lambda>m.
       bind_res (as_table AttributeError (dget_default m user (JObj []))) (\<lambda>u.
         Inr (dget_default u url (JObj [(''views'', JObj []), (''sidebar_hidden'', JBool False)])))))"

text \<open>\<open>table.setdefault(a, {})[b] = v\<close>.\<close>

definition set_nested :: "string \<Rightarrow> string \<Rightarrow> json \<Rightarrow> dict \<Rightarrow> dict res" where
  "set_nested a b v t =
     bind_res (as_table TypeError (dget_default t a (JObj []))) (\<lambda>u. Inr (dset t a (JObj (dset u b v))))"

definition async_set_user_dashboard_policy :: "string \<Rightarrow> string \<Rightarrow> json \<Rightarrow> soc_store \<Rightarrow> soc_store res" where
  "async_set_user_dashboard_policy user url policy s =
     then_save (on_table AttributeError ''permissions_matrix'' (set_nested user url policy) s)"

text \<open>\<open>self.data[k].pop(key, None)\<close>; \<open>list.pop\<close> takes one argument only.\<close>

definition pop_from :: "string \<Rightarrow> string \<Rightarrow> soc_store \<Rightarrow> soc_store res" where
  "pop_from k key s =
     bind_res (item (sd s) k) (\<lambda>v.
       case v of
         JObj t \<Rightarrow> Inr (s\<lparr>sd := dset (sd s) k (JObj (ddel t key))\<rparr>)
       | JArr xs \<Rightarrow> Inl TypeError
       | _ \<Rightarrow> Inl AttributeError)"

definition async_purge_user :: "string \<Rightarrow> soc_store \<Rightarrow> soc_store res" where
  "async_purge_user user s =
     then_save (bind_res (pop_from ''permissions_matrix'' user s) (\<lambda>s.
       bind_res (pop_from ''user_baselines'' user s) (\<lambda>s.
       bind_res (pop_from ''mfa_grace_started'' user s) (\<lambda>s. pop_from ''panel_layout'' user s))))"

definition get_user_panel_layout :: "string \<Rightarrow> string \<Rightarrow> soc_store \<Rightarrow> json res" where
  "get_user_panel_layout user view s =
     bind_res (item (sd s) ''panel_layout'') (\<lambda>v. bind_res (as_table AttributeError v) (\<lambda>m.
       bind_res (as_table AttributeError (dget_default m user (JObj []))) (\<lambda>u.
         Inr (dget_default u view (JObj [])))))"

definition async_set_user_panel_layout ::
    "string \<Rightarrow> string \<Rightarrow> string list \<Rightarrow> string list \<Rightarrow> soc_store \<Rightarrow> soc_store res" where
  "async_set_user_panel_layout user view order hidden s =
     then_save (on_table AttributeError ''panel_layout''
       (set_nested user view (JObj [(''order'', JArr (map JStr order)), (''hidden'', JArr (map JStr hidden))])) s)"

section \<open>Findings and detections\<close>

text \<open>An entry of a table that is absent or null is \<^const>\<open>None\<close> to the code.\<close>

definition entry :: "dict \<Rightarrow> string \<Rightarrow> json option" where
  "entry t k = (case dget t k of None \<Rightarrow> None | Some JNull \<Rightarrow> None | Some v \<Rightarrow> Some v)"

definition keep_finding_state :: "dict \<Rightarrow> dict \<Rightarrow> dict" where
  "keep_finding_state old f =
     (let f = dset f ''status'' (dget_default old ''status'' (JStr ''new''));
          f = dset f ''status_by'' (dget_null old ''status_by'');
          f = dset f ''status_at'' (dget_null old ''status_at'');
          f = dset f ''note'' (dget_null old ''note'')
      in dset f ''first_seen'' (dget_default old ''first_seen'' (dget_null f ''first_seen'')))"

definition upsert_finding_in :: "string \<Rightarrow> dict \<Rightarrow> dict \<Rightarrow> dict res" where
  "upsert_finding_in fid f t =
     (case entry t fid of
        None \<Rightarrow> Inr (dset t fid (JObj f))
      | Some old \<Rightarrow> bind_res (as_table AttributeError old) (\<lambda>o'. Inr (dset t fid (JObj (keep_finding_state o' f)))))"

definition async_upsert_finding :: "string \<Rightarrow> string \<Rightarrow> dict \<Rightarrow> soc_store \<Rightarrow> soc_store res" where
  "async_upsert_finding table fid f s =
     then_save (on_table AttributeError table (upsert_finding_in fid f) s)"

definition with_status :: "string \<Rightarrow> string option \<Rightarrow> string option \<Rightarrow> string \<Rightarrow> dict \<Rightarrow> dict" where
  "with_status status user note at f =
     (let f = dset f ''status'' (JStr status);
          f = dset f ''status_by'' (opt_json user);
          f = dset f ''status_at'' (JStr at)
      in case note of None \<Rightarrow> f | Some n \<Rightarrow> dset f ''note'' (JStr n))"

definition async_set_finding_status ::
    "string \<Rightarrow> string \<Rightarrow> string \<Rightarrow> string option \<Rightarrow> string option \<Rightarrow> string \<Rightarrow> soc_store \<Rightarrow> soc_store res" where
  "async_set_finding_status table fid status user note at s =
     bind_res (item (sd s) table) (\<lambda>v. bind_res (as_table AttributeError v) (\<lambda>t.
       case entry t fid of
         None \<Rightarrow> Inr s
       | Some f \<Rightarrow> bind_res (as_table TypeError f) (\<lambda>f.
           Inr (set_field table (JObj (dset t fid (JObj (with_status status user note at f)))) s))))"

text \<open>The analyst's state of an existing row survives a replacement of the row.\<close>

definition keep_key :: "dict \<Rightarrow> string \<Rightarrow> dict \<Rightarrow> dict" where
  "keep_key old k d = (case dget old k of None \<Rightarrow> d | Some v \<Rightarrow> dset d k v)"

definition keep_detection_state :: "dict \<Rightarrow> dict \<Rightarrow> dict" where
  "keep_detection_state old d =
     keep_key old ''previous_status'' (keep_key old ''status_at'' (keep_key old ''status_by''
       (dset d ''status'' (dget_default old ''status'' (dget_null d ''status'')))))"

text \<open>\<open>same\<close>: the caller hands back the very dict object that is in the table.\<close>

definition upsert_detection_in :: "bool \<Rightarrow> string \<Rightarrow> dict \<Rightarrow> dict \<Rightarrow> dict res" where
  "upsert_detection_in same did d t =
     (case entry t did of
        None \<Rightarrow> Inr (dset t did (JObj d))
      | Some old \<Rightarrow>
          if same then Inr (dset t did (JObj d))
          else bind_res (as_table AttributeError old) (\<lambda>o'. Inr (dset t did (JObj (keep_detection_state o' d)))))"

definition async_upsert_detection :: "bool \<Rightarrow> string \<Rightarrow> dict \<Rightarrow> soc_store \<Rightarrow> soc_store res" where
  "async_upsert_detection same did d s =
     then_save (on_table AttributeError ''detections'' (upsert_detection_in same did d) s)"

definition restatus_detection :: "string \<Rightarrow> string option \<Rightarrow> string option \<Rightarrow> dict \<Rightarrow> dict" where
  "restatus_detection status user at d =
     (let d = dset d ''previous_status'' (dget_null d ''status'');
          d = dset d ''status'' (JStr status);
          d = dset d ''status_by'' (opt_json user)
      in dset d ''status_at'' (opt_json at))"

definition async_set_detection_status ::
    "string \<Rightarrow> string \<Rightarrow> string option \<Rightarrow> string option \<Rightarrow> soc_store \<Rightarrow> (soc_store \<times> dict option) res" where
  "async_set_detection_status did status user at s =
     bind_res (item (sd s) ''detections'') (\<lambda>v. bind_res (as_table AttributeError v) (\<lambda>t.
       case entry t did of
         None \<Rightarrow> Inr (s, None)
       | Some old \<Rightarrow> bind_res (as_table AttributeError old) (\<lambda>d.
           let d' = restatus_detection status user at d
           in Inr (set_field ''detections'' (JObj (dset t did (JObj d'))) s, Some d'))))"

definition async_note_detection_pass_completed :: "string \<Rightarrow> soc_store \<Rightarrow> soc_store res" where
  "async_note_detection_pass_completed at s =
     then_save (on_table TypeError ''detections_meta'' (\<lambda>t. Inr (dset t ''last_pass_completed_at'' (JStr at))) s)"

section \<open>Evidence retention\<close>

text \<open>
  \<open>parse\<close> is \<open>dt_util.parse_datetime\<close> of Home Assistant on text; on a value that is not text it
  raises TypeError.
\<close>

fun first_moment :: "(string \<Rightarrow> moment option) \<Rightarrow> dict \<Rightarrow> string list \<Rightarrow> moment option res" where
  "first_moment parse r [] = Inr None"
| "first_moment parse r (k # ks) =
     (let raw = dget_null r k in
      if truthy raw then
        (case raw of
           JStr t \<Rightarrow> (case parse t of Some m \<Rightarrow> Inr (Some m) | None \<Rightarrow> first_moment parse r ks)
         | _ \<Rightarrow> Inl TypeError)
      else first_moment parse r ks)"

definition is_expired :: "(string \<Rightarrow> moment option) \<Rightarrow> int \<Rightarrow> string list \<Rightarrow> dict \<Rightarrow> bool res" where
  "is_expired parse cutoff fallback r =
     bind_res (first_moment parse r (''status_at'' # fallback)) (\<lambda>m.
       case m of None \<Rightarrow> Inr False | Some t \<Rightarrow> moment_less t (Aware cutoff))"

fun expired_ids ::
    "string list \<Rightarrow> (string \<Rightarrow> moment option) \<Rightarrow> int \<Rightarrow> string list \<Rightarrow> dict \<Rightarrow> string list res" where
  "expired_ids closed parse cutoff fallback [] = Inr []"
| "expired_ids closed parse cutoff fallback (p # t) =
     bind_res (as_table AttributeError (snd p)) (\<lambda>r.
       bind_res (if dget_null r ''status'' \<in> JStr ` set closed then is_expired parse cutoff fallback r
                 else Inr False) (\<lambda>x.
         bind_res (expired_ids closed parse cutoff fallback t) (\<lambda>ks. Inr (if x then fst p # ks else ks))))"

definition prune_table ::
    "string \<Rightarrow> string list \<Rightarrow> string list \<Rightarrow> (string \<Rightarrow> moment option) \<Rightarrow> int \<Rightarrow> soc_store \<Rightarrow> (soc_store \<times> nat) res" where
  "prune_table k closed fallback parse cutoff s =
     bind_res (item (sd s) k) (\<lambda>v. bind_res (as_table AttributeError v) (\<lambda>t.
       bind_res (expired_ids closed parse cutoff fallback t) (\<lambda>ids.
         Inr (s\<lparr>sd := dset (sd s) k (JObj (foldl ddel t ids))\<rparr>, length ids))))"

fun prune_findings ::
    "string list \<Rightarrow> (string \<Rightarrow> moment option) \<Rightarrow> int \<Rightarrow> soc_store \<Rightarrow> (soc_store \<times> (string \<times> nat) list) res" where
  "prune_findings [] parse cutoff s = Inr (s, [])"
| "prune_findings (k # ks) parse cutoff s =
     bind_res (prune_table k [''resolved'', ''dismissed''] [''last_seen'', ''first_seen''] parse cutoff s)
       (\<lambda>(s, n). bind_res (prune_findings ks parse cutoff s) (\<lambda>(s, m). Inr (s, (k, n) # m)))"

text \<open>The settings field is an int by \<open>SettingsData\<close>.\<close>

definition evidence_cutoff :: "int \<Rightarrow> soc_store \<Rightarrow> int res" where
  "evidence_cutoff now s =
     bind_res (settings s) (\<lambda>v. bind_res (as_table AttributeError v) (\<lambda>st.
       case as_pyint (dget_default st ''evidence_retention_days'' (JInt DEFAULT_EVIDENCE_RETENTION_DAYS)) of
         None \<Rightarrow> Inl TypeError | Some days \<Rightarrow> minus_days now days))"

definition async_prune_evidence ::
    "(string \<Rightarrow> moment option) \<Rightarrow> int \<Rightarrow> soc_store \<Rightarrow> (soc_store \<times> (string \<times> nat) list) res" where
  "async_prune_evidence parse now s =
     bind_res (evidence_cutoff now s) (\<lambda>cutoff.
       bind_res (prune_table ''detections'' [''resolved''] [''last_seen'', ''ts''] parse cutoff s) (\<lambda>(s, n).
         bind_res (prune_findings EVIDENCE_FINDING_TABLES parse cutoff s) (\<lambda>(s, m).
           let removed = (''detections'', n) # m
           in Inr (if list_ex (\<lambda>p. snd p \<noteq> 0) removed then schedule_save s else s, removed))))"

section \<open>Posture, suggestions and whole fields\<close>

definition async_mark_posture_term_computed :: "string \<Rightarrow> string \<Rightarrow> soc_store \<Rightarrow> soc_store res" where
  "async_mark_posture_term_computed term at s =
     bind_res (item (sd s) ''posture_terms'') (\<lambda>v.
       case v of
         JObj t \<Rightarrow> Inr (if dget t term \<noteq> None then s
                        else set_field ''posture_terms'' (JObj (dset t term (JStr at))) s)
       | JArr xs \<Rightarrow> if JStr term \<in> set xs then Inr s else Inl TypeError
       | JStr t \<Rightarrow> if contains term t then Inr s else Inl TypeError
       | _ \<Rightarrow> Inl TypeError)"

definition async_append_posture_snapshot :: "json \<Rightarrow> nat \<Rightarrow> soc_store \<Rightarrow> soc_store res" where
  "async_append_posture_snapshot snapshot max_days s =
     bind_res (item (sd s) ''posture_history'') (\<lambda>v. bind_res (as_list AttributeError v) (\<lambda>h.
       Inr (set_field ''posture_history'' (JArr (keep_newest max_days (h @ [snapshot]))) s)))"

definition async_set_suggestion_decision ::
    "string \<Rightarrow> string option \<Rightarrow> string option \<Rightarrow> string \<Rightarrow> json \<Rightarrow> soc_store \<Rightarrow> soc_store res" where
  "async_set_suggestion_decision fid status user at detail s =
     (let s' = s\<lparr>sd := dsetdefault (sd s) ''network_suggestions'' (JObj [])\<rparr>
      in then_save (case status of
           None \<Rightarrow> pop_from ''network_suggestions'' fid s'
         | Some st \<Rightarrow> on_table TypeError ''network_suggestions''
             (\<lambda>t. Inr (dset t fid (JObj [(''status'', JStr st), (''at'', JStr at), (''by'', opt_json user),
                                        (''detail'', detail)]))) s'))"

definition async_set_unifi_ssh :: "dict \<Rightarrow> soc_store \<Rightarrow> soc_store" where
  "async_set_unifi_ssh v = set_field ''unifi_ssh'' (JObj v)"

definition async_set_unifi_ledger :: "dict \<Rightarrow> soc_store \<Rightarrow> soc_store" where
  "async_set_unifi_ledger v = set_field ''unifi_ledger'' (JObj v)"

definition async_set_host_probe_result :: "dict \<Rightarrow> soc_store \<Rightarrow> soc_store" where
  "async_set_host_probe_result v = set_field ''host_probe'' (JObj v)"

definition async_set_snmp_status :: "dict \<Rightarrow> soc_store \<Rightarrow> soc_store" where
  "async_set_snmp_status v = set_field ''snmp_status'' (JObj v)"

definition async_set_netscan_result :: "dict \<Rightarrow> soc_store \<Rightarrow> soc_store" where
  "async_set_netscan_result v = set_field ''netscan_result'' (JObj v)"

definition async_set_syslog_receiver_status :: "dict \<Rightarrow> soc_store \<Rightarrow> soc_store" where
  "async_set_syslog_receiver_status v = set_field ''syslog_receiver_status'' (JObj v)"

definition async_request_netscan_rescan :: "string \<Rightarrow> soc_store \<Rightarrow> soc_store" where
  "async_request_netscan_rescan at = set_field ''netscan_rescan_requested_at'' (JStr at)"

text \<open>Only the ring file is scheduled for the received syslog lines.\<close>

definition async_append_syslog_entries :: "json list \<Rightarrow> nat \<Rightarrow> soc_store \<Rightarrow> soc_store res" where
  "async_append_syslog_entries es max_entries s =
     (if es = [] then Inr s
      else
        (let d = dsetdefault (sd s) ''syslog_receiver_entries'' (JArr [])
         in bind_res (as_list AttributeError (dget_null d ''syslog_receiver_entries'')) (\<lambda>b.
              Inr (s\<lparr>sd := dset d ''syslog_receiver_entries'' (JArr (keep_newest max_entries (b @ es))),
                     ring_dirty := True, ring_scheduled := True\<rparr>))))"

definition async_set_peripheral_ignored ::
    "string \<Rightarrow> bool \<Rightarrow> string option \<Rightarrow> string \<Rightarrow> string \<Rightarrow> soc_store \<Rightarrow> soc_store res" where
  "async_set_peripheral_ignored key ignored user raw_name at s =
     then_save
       (if ignored then on_table TypeError ''peripheral_ignored''
          (\<lambda>t. Inr (dset t key (JObj [(''ignored_at'', JStr at), (''ignored_by'', opt_json user),
                                     (''raw_name'', JStr raw_name)]))) s
        else pop_from ''peripheral_ignored'' key s)"

end
