(* ===== verification/AuditSys.thy ===== *)
theory AuditSys
  imports AuditFlush Store
begin

text \<open>
  The audit log as a running system: a flush is three steps on the event loop and the executor
  (\<open>_async_flush\<close> up to the executor job, the job, and what follows it), and between them the
  loop may log records and prepare them for queries. The transition relation \<open>audit_step\<close> says
  so; its invariant gives conservation of records, an unbroken chain and bounded memory.
\<close>

section \<open>The system and its steps\<close>

datatype phase = Idle | Writing "dict list" | Written "dict list" nat

text \<open>
  \<open>accepted\<close> is a history variable: every record body put into the buffer so far. \<open>exported\<close> is
  what the syslog exporter was handed, \<open>mirror\<close> the store's copy of the flushed head.
\<close>

record asys =
  sy_log :: alog
  sy_disk :: disk
  sy_mirror :: json
  sy_exported :: "dict list"
  sy_phase :: phase
  sy_accepted :: "dict list"

definition mirror_entry :: "string \<Rightarrow> alog \<Rightarrow> dict" where
  "mirror_entry at l = [(''seq'', JInt (seqno l)), (''hash'', prev_hash l), (''at'', JStr at)]"

text \<open>
  \<open>_async_flush\<close> before the executor job: nothing to do when nothing is buffered. An exception
  in any of the three parts ends the flush and releases its lock.
\<close>

definition begin_flush :: "(string \<Rightarrow> string) \<Rightarrow> asys \<Rightarrow> asys" where
  "begin_flush H s =
     (case prepare_buffered H (sy_log s) of
        Inl _ \<Rightarrow> s
      | Inr (l, rs) \<Rightarrow> s\<lparr>sy_log := l, sy_phase := (if rs = [] then Idle else Writing rs)\<rparr>)"

definition write_flush :: "flush_io \<Rightarrow> retention_cfg \<Rightarrow> dict list \<Rightarrow> asys \<Rightarrow> asys" where
  "write_flush io cfg rs s =
     (let ((d, l), out) = sync_flush io cfg rs (sy_disk s) (sy_log s)
      in s\<lparr>sy_disk := d, sy_log := l,
           sy_phase := (case out of Inl _ \<Rightarrow> Idle | Inr n \<Rightarrow> if n = 0 then Idle else Written rs n)\<rparr>)"

text \<open>\<open>_async_flush\<close> after the executor job wrote \<open>n\<close> records.\<close>

definition end_flush :: "string \<Rightarrow> string \<Rightarrow> dict list \<Rightarrow> nat \<Rightarrow> asys \<Rightarrow> asys" where
  "end_flush ts at rs n s =
     (let l = commit_written ts (take n rs) (sy_log s);
          s1 = s\<lparr>sy_log := l, sy_phase := Idle, sy_exported := sy_exported s @ take n rs,
                 sy_accepted := sy_accepted s @ drop (length (buffer (sy_log s)) - length (take n rs)) (buffer l)\<rparr>
      in if head_file_written l
         then (case set_audit_head (mirror_entry at l) (sy_mirror s) of
                 Inl _ \<Rightarrow> s1 | Inr m \<Rightarrow> s1\<lparr>sy_mirror := m\<rparr>)
         else s1)"

definition log_event :: "string \<Rightarrow> audit_event \<Rightarrow> asys \<Rightarrow> asys" where
  "log_event ts e s =
     (let l = async_log ts e (sy_log s)
      in s\<lparr>sy_log := l, sy_accepted := sy_accepted s @ drop (length (buffer (sy_log s))) (buffer l)\<rparr>)"

text \<open>\<open>async_query\<close> prepares what is buffered; the files are read, not written.\<close>

definition query_prepare :: "(string \<Rightarrow> string) \<Rightarrow> asys \<Rightarrow> asys" where
  "query_prepare H s =
     (case prepare_buffered H (sy_log s) of Inl _ \<Rightarrow> s | Inr (l, _) \<Rightarrow> s\<lparr>sy_log := l\<rparr>)"

definition fresh_sys :: asys where
  "fresh_sys =
     \<lparr>sy_log = new_log\<lparr>head_loaded := True\<rparr>, sy_disk = \<lparr>d_files = [], d_head = None\<rparr>, sy_mirror = JNull,
      sy_exported = [], sy_phase = Idle, sy_accepted = []\<rparr>"

text \<open>Timestamps are ISO texts of a date and a time, and payload floats have a Python text.\<close>

definition dated_ts :: "string \<Rightarrow> bool" where
  "dated_ts ts \<longleftrightarrow> (\<exists>d. valid_date d \<and> take 10 ts = date_iso d)"

definition event_ok :: "audit_event \<Rightarrow> bool" where
  "event_ok e \<longleftrightarrow> (\<forall>d. ev_detail e = Some d \<longrightarrow> floats_ok d)"

inductive audit_step :: "(string \<Rightarrow> string) \<Rightarrow> retention_cfg \<Rightarrow> asys \<Rightarrow> asys \<Rightarrow> bool"
  for H :: "string \<Rightarrow> string" and cfg :: retention_cfg where
  log: "dated_ts ts \<Longrightarrow> event_ok e \<Longrightarrow> audit_step H cfg s (log_event ts e s)"
| query: "audit_step H cfg s (query_prepare H s)"
| begin_flush: "sy_phase s = Idle \<Longrightarrow> audit_step H cfg s (begin_flush H s)"
| write_flush: "sy_phase s = Writing rs \<Longrightarrow> clean_io io cfg \<Longrightarrow> audit_step H cfg s (write_flush io cfg rs s)"
| end_flush: "sy_phase s = Written rs n \<Longrightarrow> dated_ts ts \<Longrightarrow> audit_step H cfg s (end_flush ts at rs n s)"

inductive reachable :: "(string \<Rightarrow> string) \<Rightarrow> retention_cfg \<Rightarrow> asys \<Rightarrow> bool"
  for H :: "string \<Rightarrow> string" and cfg :: retention_cfg where
  start: "reachable H cfg fresh_sys"
| step: "reachable H cfg s \<Longrightarrow> audit_step H cfg s s' \<Longrightarrow> reachable H cfg s'"

inductive_cases audit_stepE: "audit_step H cfg s s'"

section \<open>Records as they are logged\<close>

lemma dict_of_distinct: "distinct (map fst ps) \<Longrightarrow> dict_of ps = ps"
proof (induction ps rule: rev_induct)
  case (snoc p ps)
  then have "dict_of ps = ps" "fst p \<notin> fst ` set ps" by auto
  then show ?case by (simp add: dict_of_def dset_new)
qed (simp add: dict_of_def)

definition record_dict :: "string \<Rightarrow> audit_event \<Rightarrow> pyval \<Rightarrow> dict" where
  "record_dict ts e detail =
     [(''ts'', JStr ts), (''user_id'', json_safe (opt_str (ev_user_id e))),
      (''category'', JStr (ev_category e)), (''domain'', json_safe (opt_str (ev_domain e))),
      (''service'', json_safe (opt_str (ev_service e))), (''entity_ids'', JArr (map JStr (ev_entity_ids e))),
      (''context_id'', json_safe (opt_str (ev_context_id e))),
      (''context_parent_id'', json_safe (opt_str (ev_context_parent_id e))),
      (''ip'', json_safe (opt_str (ev_ip e))), (''attempted_user'', json_safe (opt_str (ev_attempted_user e))),
      (''detail'', json_safe detail)]"

lemma safe_record_eq: "safe_record ts e detail = record_dict ts e detail"
proof -
  have "map fst (record_dict ts e detail) =
     [''ts'', ''user_id'', ''category'', ''domain'', ''service'', ''entity_ids'', ''context_id'',
      ''context_parent_id'', ''ip'', ''attempted_user'', ''detail'']" by (simp add: record_dict_def)
  then have "distinct (map fst (record_dict ts e detail))" by simp
  then show ?thesis
    using dict_of_distinct [of "record_dict ts e detail"]
    by (simp add: safe_record_def record_fields_def record_dict_def comp_def)
qed

lemma safe_record_ok:
  assumes "dated_ts ts" "floats_ok detail"
  shows "plain_body (safe_record ts e detail)" "dated (safe_record ts e detail)"
proof -
  have w: "wf_json (json_safe (opt_str x))" for x by (auto simp: opt_str_def split: option.splits)
  show "plain_body (safe_record ts e detail)"
    using w wf_json_safe [OF assms(2)] by (simp add: safe_record_eq record_dict_def plain_body_def wf_dict_iff)
  show "dated (safe_record ts e detail)"
    using assms(1) by (simp add: safe_record_eq record_dict_def dated_def record_day_def dated_ts_def)
qed

lemma log_record_ok:
  assumes "dated_ts ts" "event_ok e"
  shows "plain_body (log_record ts e)" "dated (log_record ts e)"
  using assms safe_record_ok [OF assms(1)]
  by (auto simp: log_record_def event_ok_def split: option.splits)

lemma dropped_record_ok:
  assumes "dated_ts ts"
  shows "plain_body (dropped_record ts l)" "dated (dropped_record ts l)"
  using safe_record_ok [OF assms]
  by (auto simp: dropped_record_def opt_str_def split: option.splits)

lemma dget_ddel_other: "k \<noteq> k' \<Longrightarrow> dget (ddel d k') k = dget d k"
  by (simp add: dict_simps)

lemma unseal_date:
  "rec_date (unseal r) = rec_date r" "dated (unseal r) = dated r"
  by (simp_all add: rec_date_def dated_def record_day_def unseal_def dget_ddel_other)

section \<open>The invariant\<close>

text \<open>The records of the buffer that are not on disk yet.\<close>

definition waiting :: "asys \<Rightarrow> dict list" where
  "waiting s = (case sy_phase s of Written rs n \<Rightarrow> drop n (buffer (sy_log s)) | _ \<Rightarrow> buffer (sy_log s))"

text \<open>The in-memory chain: what is prepared continues the committed head and seals the buffer.\<close>

definition memory_ok :: "(string \<Rightarrow> string) \<Rightarrow> int \<times> string \<Rightarrow> alog \<Rightarrow> bool" where
  "memory_ok H tip l \<longleftrightarrow>
     (\<forall>r \<in> set (buffer l). plain_body r \<and> dated r) \<and> length (buffer l) \<le> BUFFER_MAX_RECORDS
     \<and> seqno l = fst tip \<and> prev_hash l = JStr (snd tip)
     \<and> chained H tip (prepared l) \<and> map unseal (prepared l) = take (length (prepared l)) (buffer l)
     \<and> (dropped_count l \<noteq> 0 \<longrightarrow> length (buffer l) = BUFFER_MAX_RECORDS) \<and> flush_head l = None"

definition phase_ok :: "phase \<Rightarrow> alog \<Rightarrow> bool" where
  "phase_ok ph l \<longleftrightarrow>
     (case ph of
        Idle \<Rightarrow> True
      | Writing rs \<Rightarrow> rs \<noteq> [] \<and> prefix rs (prepared l)
      | Written rs n \<Rightarrow> prefix rs (prepared l) \<and> 0 < n \<and> n \<le> length rs)"

definition in_flight :: "phase \<Rightarrow> dict list" where
  "in_flight ph = (case ph of Written rs n \<Rightarrow> take n rs | _ \<Rightarrow> [])"

definition sys_inv ::
    "(string \<Rightarrow> string) \<Rightarrow> int \<times> string \<Rightarrow> dict list \<Rightarrow> segs \<Rightarrow> int \<times> string \<Rightarrow> asys \<Rightarrow> bool" where
  "sys_inv H base ex segs tip s \<longleftrightarrow>
     memory_ok H tip (sy_log s) \<and> phase_ok (sy_phase s) (sy_log s)
     \<and> log_on_disk H base ex segs (waiting s) (sy_disk s) (sy_log s)
     \<and> chain_end base (sy_exported s) = tip
     \<and> ex @ seg_records segs = sy_exported s @ in_flight (sy_phase s)
     \<and> sy_accepted s = map unseal (sy_exported s @ in_flight (sy_phase s)) @ waiting s
     \<and> (sy_mirror s = JNull \<or> (\<exists>m q. sy_mirror s = JObj m \<and> dget m ''seq'' = Some (JInt q) \<and> q \<le> fst tip))"

lemma floor_ok_cong:
  assumes "w \<noteq> [] \<Longrightarrow> w' \<noteq> [] \<and> rec_date (hd w') = rec_date (hd w)"
  shows "floor_ok f w segs \<Longrightarrow> floor_ok f w' segs"
  using assms by (auto simp: floor_ok_def)

lemma log_on_disk_cong:
  assumes "log_on_disk H base ex segs w d l" "w \<noteq> [] \<Longrightarrow> w' \<noteq> [] \<and> rec_date (hd w') = rec_date (hd w)"
    "target_cache l' = target_cache l" "day_floor l' = day_floor l" "anchor l' = anchor l" "reset l' = reset l"
  shows "log_on_disk H base ex segs w' d l'"
  using assms floor_ok_cong [OF assms(2)] by (auto simp: log_on_disk_def floor_state_def)

lemma memory_prepared_le: "memory_ok H tip l \<Longrightarrow> length (prepared l) \<le> length (buffer l)"
  unfolding memory_ok_def by (metis length_map length_take min.cobounded1 nat_le_linear take_all)

text \<open>Preparing seals exactly the buffer, whatever was cached before.\<close>

lemma prepare_memory_ok:
  assumes m: "memory_ok H tip l"
  shows "\<exists>l' new. prepare_buffered H l = Inr (l', prepared l @ new) \<and> l' = l\<lparr>prepared := prepared l @ new\<rparr>
     \<and> memory_ok H tip l' \<and> map unseal (prepared l @ new) = buffer l"
proof -
  let ?ps = "prepared l" and ?new = "drop (length (prepared l)) (buffer l)"
  have c: "chained H tip ?ps" "map unseal ?ps = take (length ?ps) (buffer l)"
    and b: "\<forall>r \<in> set ?new. plain_body r" and sp: "seqno l = fst tip" "prev_hash l = JStr (snd tip)"
    using m in_set_dropD [of _ "length ?ps" "buffer l"] unfolding memory_ok_def by blast+
  obtain q p where qp: "chain_end tip ?ps = (q, p)" by (metis surj_pair)
  have start: "(if ?ps \<noteq> [] then (rec_seq (last ?ps), rec_hash (last ?ps)) else (seqno l, prev_hash l)) = (q, JStr p)"
    using chain_end_last [OF c(1)] qp sp by (cases "?ps = []") auto
  note sf = seal_from_chained [OF b, of H q p]
  show ?thesis
  proof (cases "?new = []")
    case True
    then have "prepare_buffered H l = Inr (l, ?ps @ [])" by (simp add: prepare_buffered_def Let_def split: prod.splits)
    moreover have "map unseal ?ps = buffer l" using c(2) True by simp
    ultimately show ?thesis using m by (intro exI [of _ l] exI [of _ "[]"]) simp
  next
    case False
    then have e: "prepare_buffered H l = Inr (l\<lparr>prepared := ?ps @ seal_from H q p ?new\<rparr>, ?ps @ seal_from H q p ?new)"
      using start by (simp add: prepare_buffered_def Let_def)
    have u: "map unseal (?ps @ seal_from H q p ?new) = buffer l" using sf(2) c(2) by simp
    have "length (?ps @ seal_from H q p ?new) = length (buffer l)" using u by (metis length_map)
    then have "memory_ok H tip (l\<lparr>prepared := ?ps @ seal_from H q p ?new\<rparr>)"
      using m sf(1) qp u by (simp add: memory_ok_def)
    with e u show ?thesis by blast
  qed
qed

lemma phase_ok_mono: "phase_ok ph l \<Longrightarrow> prefix (prepared l) (prepared l') \<Longrightarrow> phase_ok ph l'"
  by (auto simp: phase_ok_def split: phase.splits intro: prefix_order.order_trans)

text \<open>A step of the event loop that appends \<open>x\<close> to the buffer and writes nothing.\<close>

lemma sys_inv_step:
  assumes i: "sys_inv H base ex segs tip s" and m: "memory_ok H tip l" and p: "phase_ok ph l"
    and f: "in_flight ph = in_flight (sy_phase s)"
    and w: "waiting (s\<lparr>sy_log := l, sy_phase := ph, sy_accepted := sy_accepted s @ x\<rparr>) = waiting s @ x"
    and same: "target_cache l = target_cache (sy_log s)" "day_floor l = day_floor (sy_log s)"
      "anchor l = anchor (sy_log s)" "reset l = reset (sy_log s)"
  shows "sys_inv H base ex segs tip (s\<lparr>sy_log := l, sy_phase := ph, sy_accepted := sy_accepted s @ x\<rparr>)"
proof -
  have "log_on_disk H base ex segs (waiting s) (sy_disk s) (sy_log s)" using i by (simp add: sys_inv_def)
  then have "log_on_disk H base ex segs (waiting s @ x) (sy_disk s) l"
    by (rule log_on_disk_cong) (use same in simp_all)
  with i m p show ?thesis unfolding sys_inv_def w asys.simps f by (simp add: f)
qed

lemma query_inv: "sys_inv H base ex segs tip s \<Longrightarrow> sys_inv H base ex segs tip (query_prepare H s)"
proof -
  assume i: "sys_inv H base ex segs tip s"
  then have "memory_ok H tip (sy_log s)" and ph: "phase_ok (sy_phase s) (sy_log s)" by (auto simp: sys_inv_def)
  from prepare_memory_ok [OF this(1)] obtain l' new where
    p: "prepare_buffered H (sy_log s) = Inr (l', prepared (sy_log s) @ new)"
      "l' = (sy_log s)\<lparr>prepared := prepared (sy_log s) @ new\<rparr>" "memory_ok H tip l'" by blast
  have e: "query_prepare H s = s\<lparr>sy_log := l', sy_phase := sy_phase s, sy_accepted := sy_accepted s @ []\<rparr>"
    using p(1) by (simp add: query_prepare_def)
  have "phase_ok (sy_phase s) l'" using ph p(2) by (auto intro: phase_ok_mono [OF ph])
  then show ?thesis unfolding e
    by (rule sys_inv_step [OF i p(3)]) (simp_all add: p(2) waiting_def split: phase.splits)
qed

lemma begin_inv:
  assumes i: "sys_inv H base ex segs tip s" and ph: "sy_phase s = Idle"
  shows "sys_inv H base ex segs tip (begin_flush H s)"
proof -
  have "memory_ok H tip (sy_log s)" using i by (simp add: sys_inv_def)
  from prepare_memory_ok [OF this] obtain l' new where
    p: "prepare_buffered H (sy_log s) = Inr (l', prepared (sy_log s) @ new)"
      "l' = (sy_log s)\<lparr>prepared := prepared (sy_log s) @ new\<rparr>" "memory_ok H tip l'" by blast
  let ?rs = "prepared (sy_log s) @ new"
  have e: "begin_flush H s = s\<lparr>sy_log := l', sy_phase := (if ?rs = [] then Idle else Writing ?rs),
      sy_accepted := sy_accepted s @ []\<rparr>"
    using p(1) by (simp add: begin_flush_def)
  show ?thesis unfolding e
    by (rule sys_inv_step [OF i p(3)])
      (simp_all add: p(2) ph waiting_def phase_ok_def in_flight_def split: phase.splits)
qed

lemma async_log_full:
  assumes "BUFFER_MAX_RECORDS \<le> length (buffer l)"
  shows "buffer (async_log ts e l) = buffer l" "prepared (async_log ts e l) = prepared l"
    "target_cache (async_log ts e l) = target_cache l" "day_floor (async_log ts e l) = day_floor l"
    "anchor (async_log ts e l) = anchor l" "reset (async_log ts e l) = reset l"
    "seqno (async_log ts e l) = seqno l" "prev_hash (async_log ts e l) = prev_hash l"
    "flush_head (async_log ts e l) = flush_head l" "dropped_count (async_log ts e l) = dropped_count l + 1"
  using assms by (simp_all add: async_log_def)

lemma async_log_room:
  assumes "\<not> BUFFER_MAX_RECORDS \<le> length (buffer l)"
  shows "buffer (async_log ts e l) = buffer l @ [log_record ts e]" "prepared (async_log ts e l) = prepared l"
    "target_cache (async_log ts e l) = target_cache l" "day_floor (async_log ts e l) = day_floor l"
    "anchor (async_log ts e l) = anchor l" "reset (async_log ts e l) = reset l"
    "seqno (async_log ts e l) = seqno l" "prev_hash (async_log ts e l) = prev_hash l"
    "flush_head (async_log ts e l) = flush_head l" "dropped_count (async_log ts e l) = dropped_count l"
  using assms by (simp_all add: async_log_def Let_def schedule_flush_def)

lemma written_le_buffer:
  "memory_ok H tip l \<Longrightarrow> phase_ok (Written rs n) l \<Longrightarrow> n \<le> length (buffer l)"
  using memory_prepared_le [of H tip l] by (auto simp: phase_ok_def prefix_def)

lemma log_inv:
  assumes i: "sys_inv H base ex segs tip s" and ts: "dated_ts ts" and e: "event_ok e"
  shows "sys_inv H base ex segs tip (log_event ts e s)"
proof -
  let ?l = "async_log ts e (sy_log s)"
  have m: "memory_ok H tip (sy_log s)" and ph: "phase_ok (sy_phase s) (sy_log s)" using i by (auto simp: sys_inv_def)
  show ?thesis
  proof (cases "BUFFER_MAX_RECORDS \<le> length (buffer (sy_log s))")
    case True
    note l = async_log_full [OF True, of ts e]
    have s': "log_event ts e s = s\<lparr>sy_log := ?l, sy_phase := sy_phase s, sy_accepted := sy_accepted s @ []\<rparr>"
      using l by (simp add: log_event_def)
    have "memory_ok H tip ?l" using m l True by (simp add: memory_ok_def)
    moreover have "phase_ok (sy_phase s) ?l" using ph l by (auto intro: phase_ok_mono [OF ph])
    ultimately show ?thesis unfolding s'
      by (rule sys_inv_step [OF i]) (simp_all add: l waiting_def split: phase.splits)
  next
    case False
    note l = async_log_room [OF False, of ts e]
    have s': "log_event ts e s = s\<lparr>sy_log := ?l, sy_phase := sy_phase s, sy_accepted := sy_accepted s @ [log_record ts e]\<rparr>"
      using l by (simp add: log_event_def)
    have "memory_ok H tip ?l"
      using m l log_record_ok [OF ts e] False memory_prepared_le [OF m] by (auto simp: memory_ok_def)
    moreover have "phase_ok (sy_phase s) ?l" using ph l by (auto intro: phase_ok_mono [OF ph])
    moreover have "waiting (s\<lparr>sy_log := ?l, sy_phase := sy_phase s, sy_accepted := sy_accepted s @ [log_record ts e]\<rparr>)
        = waiting s @ [log_record ts e]"
      using l ph written_le_buffer [OF m] by (cases "sy_phase s") (auto simp: waiting_def)
    ultimately show ?thesis unfolding s' by (intro sys_inv_step [OF i]) (simp_all add: l)
  qed
qed

lemma unseal_prefix:
  assumes m: "memory_ok H tip l" and p: "prefix rs (prepared l)"
  shows "chained H tip rs" "map unseal rs = take (length rs) (buffer l)" "\<forall>r \<in> set rs. dated r"
    "length rs \<le> length (buffer l)" "n \<le> length rs \<Longrightarrow> map unseal (take n rs) = take n (buffer l)"
    "drop n rs \<noteq> [] \<Longrightarrow> drop n (buffer l) \<noteq> [] \<and> rec_date (hd (drop n (buffer l))) = rec_date (hd (drop n rs))"
proof -
  obtain zs where zs: "prepared l = rs @ zs" using p by (auto simp: prefix_def)
  have c: "chained H tip (rs @ zs)" "map unseal (rs @ zs) = take (length (rs @ zs)) (buffer l)"
    and d: "\<forall>r \<in> set (buffer l). dated r" using m by (auto simp: memory_ok_def zs)
  show "chained H tip rs" using c(1) by simp
  have "take (length rs) (map unseal (rs @ zs)) = take (length rs) (buffer l)" unfolding c(2) by simp
  then show u: "map unseal rs = take (length rs) (buffer l)" by simp
  then show "\<forall>r \<in> set rs. dated r"
    using d unseal_date(2) by (metis in_set_takeD image_eqI list.set_map)
  have "length rs = length (take (length rs) (buffer l))" using u by (metis length_map)
  then show le: "length rs \<le> length (buffer l)" by simp
  show "map unseal (take n rs) = take n (buffer l)" if "n \<le> length rs"
    using u that by (metis min.absorb1 take_map take_take)
  assume n: "drop n rs \<noteq> []"
  then have lt: "n < length rs" "n < length (buffer l)" using le by auto
  have "unseal (rs ! n) = buffer l ! n" using u lt by (metis nth_map nth_take)
  then have "rec_date (buffer l ! n) = rec_date (rs ! n)" by (metis unseal_date(1))
  then show "drop n (buffer l) \<noteq> [] \<and> rec_date (hd (drop n (buffer l))) = rec_date (hd (drop n rs))"
    using lt by (simp add: hd_drop_conv_nth)
qed

lemma write_inv:
  assumes i: "sys_inv H base ex segs tip s" and ph: "sy_phase s = Writing rs" and io: "clean_io io cfg"
    and H: "hexdigest_like H"
  shows "\<exists>ex' segs' n. sys_inv H base ex' segs' tip (write_flush io cfg rs s)
     \<and> n \<le> length rs \<and> ex' @ seg_records segs' = sy_exported s @ take n rs
     \<and> sy_phase (write_flush io cfg rs s) = (if n = 0 then Idle else Written rs n)
     \<and> (io_setup io \<and> io_appends io = [] \<longrightarrow> n = length rs)
     \<and> (io_retention_head io \<and> (if n = 0 then head_at tip (sy_disk s) (sy_log s) else io_head io)
          \<longrightarrow> head_at (chain_end base (ex' @ seg_records segs')) (sy_disk (write_flush io cfg rs s)) (sy_log (write_flush io cfg rs s)))"
proof -
  let ?l = "sy_log s"
  have m: "memory_ok H tip ?l" and rs: "rs \<noteq> []" "prefix rs (prepared ?l)" and w: "waiting s = buffer ?l"
    and lod: "log_on_disk H base ex segs (buffer ?l) (sy_disk s) ?l" and e: "ex @ seg_records segs = sy_exported s"
      "chain_end base (sy_exported s) = tip"
    using i ph by (auto simp: sys_inv_def phase_ok_def waiting_def in_flight_def)
  note u = unseal_prefix [OF m rs(2)]
  have b: "buffer ?l \<noteq> []" using rs(1) u(4) by (metis le_zero_eq length_0_conv)
  obtain d l out where run: "sync_flush io cfg rs (sy_disk s) ?l = ((d, l), out)" by (metis surj_pair)
  have lod': "log_on_disk H base ex segs rs (sy_disk s) ?l"
    using u(6) [of 0] rs(1) by (intro log_on_disk_cong [OF lod]) auto
  have ce: "chain_end base (ex @ seg_records segs) = tip" unfolding e(1) by (rule e(2))
  have pos: "position_is tip ?l" "flush_head ?l = None" using m by (simp_all add: memory_ok_def position_is_def)
  from sync_flush_ok [OF lod' H io, unfolded ce, OF u(1,3) pos run]
  obtain ex' segs' n where r: "out = Inr n" "n \<le> length rs" "log_on_disk H base ex' segs' (drop n rs) d l"
    "ex' @ seg_records segs' = ex @ seg_records segs @ take n rs" "same_memory ?l l" "flush_head l = None"
    "io_setup io \<and> io_appends io = [] \<longrightarrow> n = length rs" "io_retention_head io \<and> (if n = 0 then head_at tip (sy_disk s) ?l else io_head io)
          \<longrightarrow> head_at (chain_end base (ex' @ seg_records segs')) d l" by blast
  let ?s = "write_flush io cfg rs s"
  have s': "?s = s\<lparr>sy_disk := d, sy_log := l, sy_phase := (if n = 0 then Idle else Written rs n)\<rparr>"
    using run r(1) by (simp add: write_flush_def)
  have buf: "buffer l = buffer ?l" using r(5) by (simp add: same_memory_def)
  have w': "waiting ?s = drop n (buffer ?l)" by (simp add: s' waiting_def buf)
  have all: "ex' @ seg_records segs' = sy_exported s @ take n rs" using r(4) e(1) by simp
  have "memory_ok H tip l" using m r(5,6) by (simp add: memory_ok_def same_memory_def)
  moreover have "phase_ok (sy_phase ?s) l" using rs r(2,5) by (simp add: s' phase_ok_def same_memory_def)
  moreover have "log_on_disk H base ex' segs' (waiting ?s) d l"
    unfolding w' by (rule log_on_disk_cong [OF r(3)]) (use u(6) in auto)
  moreover have "sy_accepted s = map unseal (sy_exported s @ take n rs) @ drop n (buffer ?l)"
    using i ph u(5) [OF r(2)] by (simp add: sys_inv_def in_flight_def waiting_def)
  moreover have sel: "sy_log ?s = l" "sy_disk ?s = d" "sy_exported ?s = sy_exported s" "sy_accepted ?s = sy_accepted s"
    "sy_mirror ?s = sy_mirror s" "in_flight (sy_phase ?s) = take n rs" by (simp_all add: s' in_flight_def)
  ultimately have "sys_inv H base ex' segs' tip ?s"
    using i all e(2) unfolding sys_inv_def sel w' by blast
  then show ?thesis
    by (intro exI [of _ ex'] exI [of _ segs'] exI [of _ n] conjI) (use r all in \<open>simp_all add: s'\<close>)
qed

lemma commit_fields:
  "prepared (commit_written ts w l) = drop (length w) (prepared l)"
  "seqno (commit_written ts w l) = rec_seq (last w)" "prev_hash (commit_written ts w l) = rec_hash (last w)"
  "target_cache (commit_written ts w l) = target_cache l" "day_floor (commit_written ts w l) = day_floor l"
  "anchor (commit_written ts w l) = anchor l" "reset (commit_written ts w l) = reset l"
  "flush_head (commit_written ts w l) = flush_head l" "head_file_written (commit_written ts w l) = head_file_written l"
  by (simp_all add: commit_written_def Let_def)

lemma commit_buffer:
  "buffer (commit_written ts w l) = drop (length w) (buffer l)
     @ (if dropped_count l \<noteq> 0 \<and> length (buffer l) - length w < BUFFER_MAX_RECORDS
        then [dropped_record ts (l\<lparr>buffer := drop (length w) (buffer l), prepared := drop (length w) (prepared l),
                seqno := rec_seq (last w), prev_hash := rec_hash (last w)\<rparr>)] else [])"
  "dropped_count (commit_written ts w l) =
     (if length (buffer l) - length w < BUFFER_MAX_RECORDS then 0 else dropped_count l)"
  by (simp_all add: commit_written_def Let_def)

lemma set_audit_head_ok:
  assumes "mirror = JNull \<or> (\<exists>m q. mirror = JObj m \<and> dget m ''seq'' = Some (JInt q) \<and> q \<le> t)"
    "dget new ''seq'' = Some (JInt n)" "t \<le> n"
  shows "\<exists>m. set_audit_head new mirror = Inr m
     \<and> (m = JNull \<or> (\<exists>m' q. m = JObj m' \<and> dget m' ''seq'' = Some (JInt q) \<and> q \<le> n))"
  using assms by (auto simp: set_audit_head_def head_regresses_def seq_regresses_def item_def dget_default_def)

lemma end_inv:
  assumes i: "sys_inv H base ex segs tip s" and ph: "sy_phase s = Written rs n" and ts: "dated_ts ts"
  shows "sys_inv H base ex segs (chain_end tip (take n rs)) (end_flush ts at rs n s)"
proof -
  let ?l = "sy_log s" and ?w = "take n rs" and ?tip = "chain_end tip (take n rs)"
  let ?l' = "commit_written ts ?w ?l"
  have m: "memory_ok H tip ?l" and rs: "prefix rs (prepared ?l)" "0 < n" "n \<le> length rs"
    and lod: "log_on_disk H base ex segs (drop n (buffer ?l)) (sy_disk s) ?l"
    and e: "ex @ seg_records segs = sy_exported s @ ?w" "chain_end base (sy_exported s) = tip"
      "sy_accepted s = map unseal (sy_exported s @ ?w) @ drop n (buffer ?l)"
    using i ph by (auto simp: sys_inv_def phase_ok_def waiting_def in_flight_def)
  note u = unseal_prefix [OF m rs(1)]
  have len: "length ?w = n" using rs(3) by simp
  have wne: "?w \<noteq> []" using rs(2,3) by auto
  have cw: "chained H tip ?w" using u(1) chained_append [of H tip ?w "drop n rs"] by simp
  note ce = chain_end_last [OF cw wne]
  obtain zs where zs: "prepared ?l = rs @ zs" using rs(1) by (auto simp: prefix_def)
  have pr: "prepared ?l = ?w @ drop n (prepared ?l)" using zs rs(3) by simp
  have "chained H tip (?w @ drop n (prepared ?l))" using m pr by (simp add: memory_ok_def)
  then have cp: "chained H ?tip (drop n (prepared ?l))" by simp
  have pl: "length (prepared ?l) \<le> length (buffer ?l)" by (rule memory_prepared_le [OF m])
  have up: "map unseal (drop n (prepared ?l)) = take (length (prepared ?l) - n) (drop n (buffer ?l))"
    using m by (simp add: memory_ok_def drop_map [symmetric] drop_take)
  define x where "x = drop (length (buffer ?l) - n) (buffer ?l')"
  have n_le: "n \<le> length (buffer ?l)" using u(4) rs(3) by simp
  have buf: "buffer ?l' = drop n (buffer ?l) @ x" and x: "\<forall>r \<in> set x. plain_body r \<and> dated r"
    "x \<noteq> [] \<Longrightarrow> length (buffer ?l) - n < BUFFER_MAX_RECORDS" "length x \<le> 1"
    using n_le commit_buffer(1) [of ts ?w ?l, unfolded len] dropped_record_ok [OF ts] by (auto simp: x_def split: if_splits)
  have mem: "memory_ok H ?tip ?l'" unfolding memory_ok_def
  proof (intro conjI)
    show "\<forall>r \<in> set (buffer ?l'). plain_body r \<and> dated r"
      using m x(1) in_set_dropD [of _ n "buffer ?l"] unfolding buf memory_ok_def by auto
    show "length (buffer ?l') \<le> BUFFER_MAX_RECORDS" using m x(2,3) unfolding buf memory_ok_def by (cases "x = []") auto
    show "seqno ?l' = fst ?tip" "prev_hash ?l' = JStr (snd ?tip)" using ce by (simp_all add: commit_fields)
    show "chained H ?tip (prepared ?l')" using cp unfolding commit_fields(1) len .
    show "map unseal (prepared ?l') = take (length (prepared ?l')) (buffer ?l')"
      using up pl unfolding commit_fields(1) len buf by simp
    show "dropped_count ?l' \<noteq> 0 \<longrightarrow> length (buffer ?l') = BUFFER_MAX_RECORDS"
      using m rs(2) n_le unfolding commit_buffer(2) len by (auto simp: memory_ok_def BUFFER_MAX_RECORDS_def split: if_splits)
    show "flush_head ?l' = None" using m by (simp add: commit_fields memory_ok_def)
  qed
  have lod': "log_on_disk H base ex segs (drop n (buffer ?l) @ x) (sy_disk s) ?l'"
    by (rule log_on_disk_cong [OF lod]) (auto simp: commit_fields)
  have tip_le: "fst tip \<le> fst ?tip" by (simp add: chain_end_seq)
  have mir: "\<exists>m. set_audit_head (mirror_entry at ?l') (sy_mirror s) = Inr m
     \<and> (m = JNull \<or> (\<exists>m' q. m = JObj m' \<and> dget m' ''seq'' = Some (JInt q) \<and> q \<le> fst ?tip))"
    using i mem by (intro set_audit_head_ok [of _ "fst tip"]) (use tip_le in \<open>auto simp: sys_inv_def mirror_entry_def memory_ok_def\<close>)
  have old: "sy_mirror s = JNull \<or> (\<exists>m q. sy_mirror s = JObj m \<and> dget m ''seq'' = Some (JInt q) \<and> q \<le> fst ?tip)"
    using i tip_le by (auto simp: sys_inv_def)
  define s1 where "s1 = s\<lparr>sy_log := ?l', sy_phase := Idle, sy_exported := sy_exported s @ ?w, sy_accepted := sy_accepted s @ x\<rparr>"
  have inv1: "sys_inv H base ex segs ?tip (s1\<lparr>sy_mirror := mm\<rparr>)"
    if "mm = JNull \<or> (\<exists>m' q. mm = JObj m' \<and> dget m' ''seq'' = Some (JInt q) \<and> q \<le> fst ?tip)" for mm
    using that mem lod' e buf unfolding sys_inv_def
    by (simp add: s1_def phase_ok_def in_flight_def waiting_def)
  have s1': "s1\<lparr>sy_mirror := sy_mirror s\<rparr> = s1" by (simp add: s1_def)
  have "end_flush ts at rs n s = (if head_file_written ?l'
      then (case set_audit_head (mirror_entry at ?l') (sy_mirror s) of Inl _ \<Rightarrow> s1 | Inr m \<Rightarrow> s1\<lparr>sy_mirror := m\<rparr>) else s1)"
    unfolding end_flush_def Let_def s1_def x_def len ..
  then show ?thesis using mir inv1 inv1 [OF old, unfolded s1'] by auto
qed

text \<open>A log that just started in an empty directory.\<close>

lemma fresh_inv: "sys_inv H (0, GENESIS_PREV_HASH) [] [] (0, GENESIS_PREV_HASH) fresh_sys"
  by (simp add: sys_inv_def fresh_sys_def new_log_def memory_ok_def phase_ok_def log_on_disk_def holds_def
      wf_segs_def dates_ok_def cache_ok_def floor_state_def origin_ok_def in_flight_def waiting_def)

theorem reachable_inv:
  assumes "reachable H cfg s" "hexdigest_like H"
  shows "\<exists>ex segs tip. sys_inv H (0, GENESIS_PREV_HASH) ex segs tip s"
  using assms(1)
proof induction
  case start
  show ?case using fresh_inv by blast
next
  case (step s s')
  then obtain ex segs tip where i: "sys_inv H (0, GENESIS_PREV_HASH) ex segs tip s" by blast
  from step(2) show ?case
  proof (cases rule: audit_step.cases)
    case (log ts e)
    then show ?thesis using log_inv [OF i] by blast
  next
    case query
    then show ?thesis using query_inv [OF i] by blast
  next
    case begin_flush
    then show ?thesis using begin_inv [OF i] by blast
  next
    case (write_flush rs io)
    then show ?thesis using write_inv [OF i _ _ assms(2)] by blast
  next
    case (end_flush rs n ts at)
    then show ?thesis using end_inv [OF i] by blast
  qed
qed

section \<open>Flushing and verifying\<close>

text \<open>\<open>_async_flush\<close> with nothing between its three parts, as a call awaits it.\<close>

definition async_flush ::
    "(string \<Rightarrow> string) \<Rightarrow> flush_io \<Rightarrow> retention_cfg \<Rightarrow> string \<Rightarrow> string \<Rightarrow> asys \<Rightarrow> asys" where
  "async_flush H io cfg ts at s =
     (let s1 = begin_flush H s in
      case sy_phase s1 of
        Writing rs \<Rightarrow>
          (let s2 = write_flush io cfg rs s1 in
           case sy_phase s2 of Written rs' n \<Rightarrow> end_flush ts at rs' n s2 | _ \<Rightarrow> s2)
      | _ \<Rightarrow> s1)"

text \<open>\<open>async_verify_chain\<close>: flush, then judge what is on disk.\<close>

definition async_verify_chain ::
    "(string \<Rightarrow> string) \<Rightarrow> flush_io \<Rightarrow> retention_cfg \<Rightarrow> string \<Rightarrow> string \<Rightarrow> asys \<Rightarrow> asys \<times> verdict res" where
  "async_verify_chain H io cfg ts at s =
     (let s' = async_flush H io cfg ts at s in (s', verify_chain H (sy_mirror s') (sy_disk s')))"

text \<open>A flush in which every call succeeds.\<close>

definition good_io :: "flush_io \<Rightarrow> retention_cfg \<Rightarrow> bool" where
  "good_io io cfg \<longleftrightarrow> clean_io io cfg \<and> io_setup io \<and> io_appends io = [] \<and> io_head io \<and> io_retention_head io"

lemma log_on_disk_intact:
  assumes l: "log_on_disk H base ex segs w d l" and h: "head_at (chain_end base (ex @ seg_records segs)) d l"
  shows "\<exists>x. intact_disk H x d \<and> in_segs x = segs \<and> (in_reset x = None \<longleftrightarrow> reset l = None)
     \<and> chain_end (in_start x) (seg_records (in_segs x)) = chain_end base (ex @ seg_records segs)"
proof -
  have o: "origin_ok base ex (anchor l) (reset l)" using l by (simp add: log_on_disk_def)
  from origin_starts_at [OF o] obtain x y where xy: "marks (anchor l) x" "marks (reset l) y"
    "starts_at x y (chain_end base ex)" "reset l = None \<longleftrightarrow> y = None" by metis
  let ?i = "\<lparr>in_segs = segs, in_start = chain_end base ex, in_anchor = x, in_reset = y\<rparr>"
  have "\<exists>a r. marks a x \<and> marks r y \<and> d_head d = Some (dumps_plain (JObj (payload_of
      (chain_end (chain_end base ex) (seg_records segs)) a r)))"
    using h xy(1,2) unfolding head_at_def chain_end_simps(3) by blast
  then have "intact_disk H ?i d" using l xy(3) unfolding intact_disk_def log_on_disk_def intact.simps by simp
  then show ?thesis using xy(4) by (intro exI [of _ ?i]) auto
qed

lemma genesis_no_reset: "origin_ok (0, GENESIS_PREV_HASH) ex a r \<Longrightarrow> r = None"
  by (cases r) (auto simp: origin_ok_def GENESIS_PREV_HASH_def split: if_splits)

lemma verify_sys:
  assumes i: "sys_inv H (0, GENESIS_PREV_HASH) ex segs tip s"
    and h: "head_at (chain_end (0, GENESIS_PREV_HASH) (ex @ seg_records segs)) (sy_disk s) (sy_log s)"
  shows "\<exists>v. verify_chain H (sy_mirror s) (sy_disk s) = Inr v \<and> v_ok v \<and> v_records_checked v = length (seg_records segs)"
proof -
  let ?fin = "chain_end (0, GENESIS_PREV_HASH) (ex @ seg_records segs)"
  have l: "log_on_disk H (0, GENESIS_PREV_HASH) ex segs (waiting s) (sy_disk s) (sy_log s)" using i by (simp add: sys_inv_def)
  obtain x where x: "intact_disk H x (sy_disk s)" "in_segs x = segs" "in_reset x = None \<longleftrightarrow> reset (sy_log s) = None"
    "chain_end (in_start x) (seg_records (in_segs x)) = ?fin"
    using log_on_disk_intact [OF l h] by (elim exE conjE) (rule that)
  have "origin_ok (0, GENESIS_PREV_HASH) ex (anchor (sy_log s)) (reset (sy_log s))" using l by (simp add: log_on_disk_def)
  then have r: "in_reset x = None" unfolding x(3) by (rule genesis_no_reset)
  have a: "chain_end (0, GENESIS_PREV_HASH) (sy_exported s) = tip"
    "ex @ seg_records segs = sy_exported s @ in_flight (sy_phase s)" using i unfolding sys_inv_def by blast+
  have "?fin = chain_end tip (in_flight (sy_phase s))" unfolding a(2) chain_end_simps(3) a(1) ..
  then have t: "fst tip \<le> fst ?fin" by (simp only: chain_end_seq)
  have m: "sy_mirror s = JNull \<or> (\<exists>m q. sy_mirror s = JObj m \<and> dget m ''seq'' = Some (JInt q) \<and> q \<le> fst tip)"
    using i unfolding sys_inv_def by blast
  have "mirror_behind (sy_mirror s) u" if "fst tip \<le> u" for u
    using m that by (auto simp: mirror_behind_def mirror_seq_def dget_default_def)
  from this [OF t] have "mirror_behind (sy_mirror s) (fst (chain_end (in_start x) (seg_records (in_segs x))))"
    unfolding x(4) .
  from verify_intact [OF x(1) this] r x(2) show ?thesis by auto
qed

text \<open>A flush that meets no failure empties the buffer and leaves a log that verifies.\<close>

lemma good_flush:
  assumes i: "sys_inv H (0, GENESIS_PREV_HASH) ex segs tip s" and ph: "sy_phase s = Idle" and io: "good_io io cfg"
    and H: "hexdigest_like H" and ts: "dated_ts ts" and b: "buffer (sy_log s) \<noteq> []"
  shows "\<exists>ex' segs' tip'. sys_inv H (0, GENESIS_PREV_HASH) ex' segs' tip' (async_flush H io cfg ts at s)
     \<and> sy_phase (async_flush H io cfg ts at s) = Idle
     \<and> map unseal (ex' @ seg_records segs') = sy_accepted s
     \<and> head_at (chain_end (0, GENESIS_PREV_HASH) (ex' @ seg_records segs'))
         (sy_disk (async_flush H io cfg ts at s)) (sy_log (async_flush H io cfg ts at s))"
proof -
  let ?s1 = "begin_flush H s"
  have i1: "sys_inv H (0, GENESIS_PREV_HASH) ex segs tip ?s1" by (rule begin_inv [OF i ph])
  have m: "memory_ok H tip (sy_log s)" using i by (simp add: sys_inv_def)
  from prepare_memory_ok [OF m] obtain l new where p: "prepare_buffered H (sy_log s) = Inr (l, prepared (sy_log s) @ new)"
    "map unseal (prepared (sy_log s) @ new) = buffer (sy_log s)" by blast
  let ?rs = "prepared (sy_log s) @ new"
  have ne: "?rs \<noteq> []" using p(2) b by (metis list.map_disc_iff)
  have s1: "sy_phase ?s1 = Writing ?rs" "sy_accepted ?s1 = sy_accepted s" "sy_exported ?s1 = sy_exported s"
    using p(1) ne by (auto simp: begin_flush_def)
  let ?s2 = "write_flush io cfg ?rs ?s1"
  obtain ex' segs' n where w: "sys_inv H (0, GENESIS_PREV_HASH) ex' segs' tip ?s2" "n \<le> length ?rs"
    "ex' @ seg_records segs' = sy_exported ?s1 @ take n ?rs" "sy_phase ?s2 = (if n = 0 then Idle else Written ?rs n)"
    "n = length ?rs"
    "head_at (chain_end (0, GENESIS_PREV_HASH) (ex' @ seg_records segs')) (sy_disk ?s2) (sy_log ?s2)"
    using write_inv [OF i1 s1(1) _ H] io ne unfolding good_io_def
    by (metis length_0_conv)
  let ?s3 = "end_flush ts at ?rs n ?s2"
  have ph2: "sy_phase ?s2 = Written ?rs n" using w(4,5) ne by simp
  have s3: "async_flush H io cfg ts at s = ?s3" using s1(1) ph2 by (simp add: async_flush_def Let_def)
  have acc: "sy_accepted s = map unseal (sy_exported s) @ buffer (sy_log s)"
    using i ph by (simp add: sys_inv_def in_flight_def waiting_def)
  have all: "map unseal (ex' @ seg_records segs') = sy_accepted s"
    unfolding w(3) acc s1(3) using w(5) p(2) by simp
  have i3: "sys_inv H (0, GENESIS_PREV_HASH) ex' segs' (chain_end tip (take n ?rs)) ?s3"
    by (rule end_inv [OF w(1) ph2 ts])
  have "sy_disk ?s3 = sy_disk ?s2" "sy_log ?s3 = commit_written ts (take n ?rs) (sy_log ?s2)" "sy_phase ?s3 = Idle"
    by (auto simp: end_flush_def Let_def split: sum.splits)
  with w(6) have "head_at (chain_end (0, GENESIS_PREV_HASH) (ex' @ seg_records segs')) (sy_disk ?s3) (sy_log ?s3)"
    "sy_phase ?s3 = Idle"
    by (simp_all add: head_at_def commit_fields)
  with i3 all show ?thesis unfolding s3 by blast
qed

end
