(* ===== verification/PyNum.thy ===== *)
theory PyNum
  imports Complex_Main PyInt
begin

text \<open>
  Numbers as Python reads them from JSON, as exact rationals. Arithmetic on floats is modelled by
  arithmetic on rationals: rounding to binary64 is not. \<open>round\<close> rounds halves to even, and a float
  with few decimals is printed with them, at least one.
\<close>

text \<open>A number as Python reads it from JSON; the finite ones.\<close>

definition num_of :: "json \<Rightarrow> rat option" where
  "num_of v =
     (case v of
        JInt i \<Rightarrow> Some (of_int i)
      | JBool b \<Rightarrow> Some (if b then 1 else 0)
      | JFloat t \<Rightarrow>
          (let (neg, ip, fp, e) = float_parts t; m = of_nat (digits_val (ip @ fp)); x = e - int (length fp);
               q = (if 0 \<le> x then m * 10 ^ nat x else m / 10 ^ nat (- x))
           in Some (if neg then - q else q))
      | _ \<Rightarrow> None)"

text \<open>A value in arithmetic or in a comparison with a number.\<close>

definition as_num :: "json \<Rightarrow> rat res" where
  "as_num v = (case num_of v of None \<Rightarrow> Inl TypeError | Some x \<Rightarrow> Inr x)"

lemma num_of_simps [simp]:
  "num_of (JInt i) = Some (of_int i)" "num_of (JBool b) = Some (if b then 1 else 0)"
  "num_of (JStr s) = None" "num_of JNull = None" "num_of (JArr xs) = None" "num_of (JObj d) = None"
  by (simp_all add: num_of_def)

lemma as_num_simps [simp]: "as_num (JInt i) = Inr (of_int i)" "as_num (JStr s) = Inl TypeError" "as_num JNull = Inl TypeError"
  by (simp_all add: as_num_def)

section \<open>Rounding\<close>

definition round_even :: "rat \<Rightarrow> int" where
  "round_even x =
     (let q = \<lfloor>x\<rfloor>; r = x - of_int q
      in if r < 1 / 2 then q else if 1 / 2 < r then q + 1 else if even q then q else q + 1)"

lemma round_even_of_int [simp]: "round_even (of_int i) = i"
  by (simp add: round_even_def)

lemma round_even_numeral [simp]: "round_even (numeral n) = numeral n" "round_even 0 = 0" "round_even 1 = 1"
  using round_even_of_int [of "numeral n"] round_even_of_int [of 0] round_even_of_int [of 1] by simp_all

lemma round_even_bounds: "of_int (round_even x) \<le> x + 1 / 2" "x - 1 / 2 \<le> of_int (round_even x)"
proof -
  have f: "of_int \<lfloor>x\<rfloor> \<le> x" "x < of_int \<lfloor>x\<rfloor> + 1" by linarith+
  show "of_int (round_even x) \<le> x + 1 / 2" "x - 1 / 2 \<le> of_int (round_even x)"
    using f by (simp_all add: round_even_def Let_def) linarith+
qed

lemma round_even_mono:
  assumes "x \<le> y"
  shows "round_even x \<le> round_even y"
proof -
  have m: "\<lfloor>x\<rfloor> \<le> \<lfloor>y\<rfloor>" using assms by (rule floor_mono)
  show ?thesis
  proof (cases "\<lfloor>x\<rfloor> = \<lfloor>y\<rfloor>")
    case True
    then show ?thesis using assms by (auto simp: round_even_def Let_def)
  next
    case False
    then have "\<lfloor>x\<rfloor> + 1 \<le> \<lfloor>y\<rfloor>" using m by linarith
    then show ?thesis by (auto simp: round_even_def Let_def)
  qed
qed

lemma round_even_le: "x \<le> of_int i \<Longrightarrow> round_even x \<le> i"
  using round_even_mono [of x "of_int i"] by simp

lemma round_even_ge: "of_int i \<le> x \<Longrightarrow> i \<le> round_even x"
  using round_even_mono [of "of_int i" x] by simp

text \<open>\<open>round(x, n)\<close>, and the text of such a float.\<close>

definition round_to :: "nat \<Rightarrow> rat \<Rightarrow> rat" where
  "round_to n x = of_int (round_even (x * 10 ^ n)) / 10 ^ n"

definition drop_zeros :: "string \<Rightarrow> string" where
  "drop_zeros s = rev (dropWhile (\<lambda>c. c = CHR ''0'') (rev s))"

definition dec_text :: "nat \<Rightarrow> rat \<Rightarrow> string" where
  "dec_text n x =
     (let k = round_even (x * 10 ^ n); m = nat \<bar>k\<bar>; q = m div 10 ^ n;
          d = nat_text (m mod 10 ^ n); f = drop_zeros (replicate (n - length d) (CHR ''0'') @ d)
      in (if k < 0 then ''-'' else '''') @ nat_text q @ ''.'' @ (if f = [] then ''0'' else f))"

definition round_json :: "nat \<Rightarrow> rat \<Rightarrow> json" where
  "round_json n x = JFloat (dec_text n x)"

section \<open>Time spans\<close>

text \<open>\<open>timedelta(unit=x)\<close> in microseconds, a unit being \<open>u\<close> of them.\<close>

definition span_us :: "int \<Rightarrow> json \<Rightarrow> int res" where
  "span_us u v =
     bind_res (as_num v) (\<lambda>x. let d = round_even (x * of_int u)
       in if 86400000000 * 999999999 < \<bar>d\<bar> then Inl OverflowError else Inr d)"

end
