(* ===== verification/AuditQuery.thy ===== *)
theory AuditQuery
  imports AuditSys PyNum
begin

text \<open>
  \<open>async_query\<close> of \<open>audit.py\<close>: the records still in the buffer, newest first, then the day files
  from the newest back, until the limit or the first file dated before the window. Records that
  a flush has put on disk but not yet taken out of the buffer are met twice and told by their
  number. \<open>dt_util.parse_datetime\<close> is an argument; what is relied on of it is \<open>utc_stamped\<close>.
  The main lemma (\<open>query_answer\<close>): the answer is exactly the newest matching records that are kept.
\<close>

declare dumps_with.simps [simp del]

declare wf_json.simps(3) [simp del]

section \<open>The query\<close>

definition DEFAULT_QUERY_LOOKBACK_DAYS :: int where "DEFAULT_QUERY_LOOKBACK_DAYS = 7"

text \<open>A bound is an instant in microseconds with the UTC offset of its time zone.\<close>

record audit_query =
  aq_since :: "(int \<times> int) option"
  aq_until :: "(int \<times> int) option"
  aq_user :: "string option"
  aq_category :: "string option"
  aq_ip :: "string option"
  aq_limit :: int

definition query_window :: "int \<Rightarrow> audit_query \<Rightarrow> ((int \<times> int) \<times> int) res" where
  "query_window now q =
     (let (until, off) = (case aq_until q of None \<Rightarrow> (now, 0) | Some u \<Rightarrow> u)
      in case aq_since q of
           Some s \<Rightarrow> Inr (s, until)
         | None \<Rightarrow> bind_res (minus_days until DEFAULT_QUERY_LOOKBACK_DAYS) (\<lambda>s. Inr ((s, off), until)))"

definition ordinal_of :: "int \<Rightarrow> int" where
  "ordinal_of t = t div us_day + 719163"

text \<open>\<open>parse_datetime\<close> raises on what is no text, and a time without a zone cannot be compared.\<close>

definition rec_time :: "(string \<Rightarrow> moment option) \<Rightarrow> dict \<Rightarrow> moment option res" where
  "rec_time parse r =
     (case dget r ''ts'' of None \<Rightarrow> Inr (parse []) | Some (JStr t) \<Rightarrow> Inr (parse t) | Some _ \<Rightarrow> Inl TypeError)"

definition in_window :: "int \<Rightarrow> int \<Rightarrow> moment option \<Rightarrow> bool res" where
  "in_window since until m =
     (case m of
        None \<Rightarrow> Inr True
      | Some t \<Rightarrow> bind_res (moment_less t (Aware since)) (\<lambda>early.
          if early then Inr False else bind_res (moment_less (Aware until) t) (\<lambda>late. Inr (\<not> late))))"

definition wants :: "string option \<Rightarrow> dict \<Rightarrow> string \<Rightarrow> bool" where
  "wants f r k = (case f of None \<Rightarrow> True | Some s \<Rightarrow> dget_null r k = JStr s)"

definition query_matches :: "(string \<Rightarrow> moment option) \<Rightarrow> audit_query \<Rightarrow> int \<Rightarrow> int \<Rightarrow> dict \<Rightarrow> bool res" where
  "query_matches parse q since until r =
     bind_res (rec_time parse r) (\<lambda>m. bind_res (in_window since until m) (\<lambda>b.
       Inr (b \<and> wants (aq_user q) r ''user_id'' \<and> wants (aq_category q) r ''category'' \<and> wants (aq_ip q) r ''ip'')))"

text \<open>\<open>record.get("seq", 0)\<close> as a member of a set: numbers by value, lists and dicts not at all.\<close>

datatype seq_id = Number rat | Other json

definition seq_id_of :: "dict \<Rightarrow> seq_id res" where
  "seq_id_of r =
     (case dget_default r ''seq'' (JInt 0) of
        JArr xs \<Rightarrow> Inl TypeError
      | JObj d \<Rightarrow> Inl TypeError
      | v \<Rightarrow> Inr (case num_of v of Some x \<Rightarrow> Number x | None \<Rightarrow> Other v))"

section \<open>The scan\<close>

text \<open>The buffered records, newest first: the numbers seen, the results, whether the limit is reached.\<close>

fun scan_buffered ::
    "(dict \<Rightarrow> bool res) \<Rightarrow> nat \<Rightarrow> dict list \<Rightarrow> seq_id list \<Rightarrow> dict list \<Rightarrow> (seq_id list \<times> dict list \<times> bool) res" where
  "scan_buffered match n [] seen out = Inr (seen, out, False)"
| "scan_buffered match n (r # rs) seen out =
     bind_res (seq_id_of r) (\<lambda>k. bind_res (match r) (\<lambda>hit.
       if hit \<and> n \<le> length (out @ [r]) then Inr (k # seen, out @ [r], True)
       else scan_buffered match n rs (k # seen) (if hit then out @ [r] else out)))"

text \<open>The lines of one file, newest first; what is no JSON object is passed over.\<close>

fun scan_lines ::
    "(dict \<Rightarrow> bool res) \<Rightarrow> nat \<Rightarrow> seq_id list \<Rightarrow> string list \<Rightarrow> dict list \<Rightarrow> (dict list \<times> bool) res" where
  "scan_lines match n seen [] out = Inr (out, False)"
| "scan_lines match n seen (l # ls) out =
     (case loads_bytes l of
        Some (JObj r) \<Rightarrow>
          bind_res (seq_id_of r) (\<lambda>k. bind_res (if k \<in> set seen then Inr False else match r) (\<lambda>hit.
            if hit \<and> n \<le> length (out @ [r]) then Inr (out @ [r], True)
            else scan_lines match n seen ls (if hit then out @ [r] else out)))
      | _ \<Rightarrow> scan_lines match n seen ls out)"

fun scan_files ::
    "(dict \<Rightarrow> bool res) \<Rightarrow> nat \<Rightarrow> seq_id list \<Rightarrow> int \<Rightarrow> files \<Rightarrow> (date \<times> string) list \<Rightarrow> dict list \<Rightarrow> dict list res" where
  "scan_files match n seen day fs [] out = Inr out"
| "scan_files match n seen day fs ((d, nm) # es) out =
     (if to_ordinal d < day then Inr out
      else bind_res (scan_lines match n seen (read_jsonl_reversed (file_bytes fs nm)) out) (\<lambda>(out, full).
        if full then Inr out else scan_files match n seen day fs es out))"

definition sync_query ::
    "(string \<Rightarrow> moment option) \<Rightarrow> int \<Rightarrow> audit_query \<Rightarrow> dict list \<Rightarrow> files \<Rightarrow> dict list res" where
  "sync_query parse now q buffered fs =
     bind_res (query_window now q) (\<lambda>((since, off), until).
       if aq_limit q \<le> 0 then Inr []
       else let match = query_matches parse q since until; n = nat (aq_limit q)
            in bind_res (scan_buffered match n (rev buffered) [] []) (\<lambda>(seen, out, full).
                 if full then Inr out
                 else scan_files match n seen (ordinal_of (since + off)) fs (rev (list_day_files fs)) out))"

definition async_query ::
    "(string \<Rightarrow> string) \<Rightarrow> (string \<Rightarrow> moment option) \<Rightarrow> int \<Rightarrow> audit_query \<Rightarrow> asys \<Rightarrow> asys \<times> dict list res" where
  "async_query H parse now q s =
     (case prepare_buffered H (sy_log s) of
        Inl e \<Rightarrow> (s, Inl e)
      | Inr (l, rs) \<Rightarrow> (s\<lparr>sy_log := l\<rparr>, sync_query parse now q rs (d_files (sy_disk s))))"

section \<open>What a scan finds\<close>

lemma take_next: "length out < n \<Longrightarrow> take (n - length out) (r # xs) = r # take (n - Suc (length out)) xs"
  by (metis Suc_diff_Suc take_Suc_Cons)

lemma scan_buffered_spec:
  assumes "\<forall>r \<in> set rs. match r = Inr (P r) \<and> seq_id_of r = Inr (k r)" "length out < n"
  shows "\<exists>seen'. scan_buffered match n rs seen out
      = Inr (seen', take n (out @ filter P rs), n \<le> length out + length (filter P rs))
     \<and> (length out + length (filter P rs) < n \<longrightarrow> set seen' = k ` set rs \<union> set seen)"
  using assms
proof (induction rs arbitrary: seen out)
  case (Cons r rs)
  show ?case
  proof (cases "P r \<and> n \<le> length (out @ [r])")
    case True
    then have "n = Suc (length out)" using Cons.prems(2) by simp
    then show ?thesis using Cons.prems True by simp
  next
    case False
    then have "length (if P r then out @ [r] else out) < n" using Cons.prems(2) by auto
    from Cons.IH [OF _ this, of "k r # seen"] Cons.prems False show ?thesis by (auto simp: take_next)
  qed
qed simp

lemma scan_lines_spec:
  assumes "\<forall>r \<in> set rs. wf_dict r \<and> seq_id_of (stored r) = Inr (k r)
      \<and> (k r \<notin> set seen \<longrightarrow> match (stored r) = Inr (P r))" "length out < n"
  shows "scan_lines match n seen (map line_text rs) out
    = Inr (take n (out @ map stored (filter (\<lambda>r. k r \<notin> set seen \<and> P r) rs)),
           n \<le> length out + length (filter (\<lambda>r. k r \<notin> set seen \<and> P r) rs))"
  using assms
proof (induction rs arbitrary: out)
  case (Cons r rs)
  let ?hit = "k r \<notin> set seen \<and> P r"
  show ?case
  proof (cases "?hit \<and> n \<le> length (out @ [stored r])")
    case True
    then have "n = Suc (length out)" using Cons.prems(2) by simp
    then show ?thesis using Cons.prems True by (simp add: loads_bytes_line)
  next
    case False
    then have "length (if ?hit then out @ [stored r] else out) < n" using Cons.prems(2) by auto
    from Cons.IH [OF _ this] Cons.prems False show ?thesis by (auto simp: loads_bytes_line take_next)
  qed
qed simp

lemma scan_files_spec:
  assumes "holds fs (segs @ later)" "length out < n" "\<forall>e \<in> set segs. \<forall>r \<in> set (snd e). seq_id_of (stored r) = Inr (k r)
      \<and> (k r \<notin> set seen \<longrightarrow> match (stored r) = Inr (P r)) \<and> (to_ordinal (fst (fst e)) < day \<longrightarrow> \<not> P r)"
  shows "scan_files match n seen day fs (rev (map seg_entry segs)) out
    = Inr (take n (out @ map stored (filter (\<lambda>r. k r \<notin> set seen \<and> P r) (rev (seg_records segs)))))"
  using assms
proof (induction segs arbitrary: out later rule: rev_induct)
  case Nil
  then show ?case by simp
next
  case (snoc e segs)
  let ?Q = "\<lambda>r. k r \<notin> set seen \<and> P r"
  have w: "wf_segs (segs @ e # later)" using snoc.prems(1) by (simp add: holds_def)
  then have wr: "\<forall>r \<in> set (snd e). wf_dict r" by (simp add: wf_segs_def)
  show ?case
  proof (cases "to_ordinal (fst (fst e)) < day")
    case True
    have "to_ordinal (fst (fst x)) < day" if "x \<in> set segs" for x
    proof -
      have lt: "fst x < fst e" and v: "valid_date (fst (fst x))" "valid_date (fst (fst e))"
        using w that by (auto simp: wf_segs_def sorted_wrt_append)
      have "fst (fst x) \<le> fst (fst e)" using key_le_iff [of "fst x" "fst e"] lt by (metis less_imp_le order_refl)
      from to_ordinal_mono [OF v this]
      have "to_ordinal (fst (fst x)) \<le> to_ordinal (fst (fst e))" .
      with True show ?thesis by simp
    qed
    then have "\<not> P r" if "r \<in> set (seg_records (segs @ [e]))" for r
      using that snoc.prems(3) True by (auto simp: seg_records_def)
    then have "filter ?Q (rev (seg_records (segs @ [e]))) = []" by (auto simp: filter_empty_conv)
    then show ?thesis using True snoc.prems(2) by (simp add: seg_entry_def)
  next
    case False
    obtain b where b: "dget fs (seg_name (fst e)) = Some b" "file_holds b (snd e)"
      using holds_get [OF snoc.prems(1), of e] by auto
    have lines: "read_jsonl_reversed (file_bytes fs (seg_name (fst e))) = map line_text (rev (snd e))"
      using read_jsonl_reversed_holds [OF b(2) wr] b(1) by (simp add: file_bytes_def rev_map)
    have se: "seg_entry e = (fst (fst e), seg_name (fst e))" by (simp add: seg_entry_def)
    let ?hits = "map stored (filter ?Q (rev (snd e)))"
    have sl: "scan_lines match n seen (map line_text (rev (snd e))) out = Inr (take n (out @ ?hits), n \<le> length out + length ?hits)"
      using scan_lines_spec [of "rev (snd e)" k seen match P out n] wr snoc.prems(2,3) by simp
    show ?thesis
    proof (cases "n \<le> length out + length ?hits")
      case True
      then show ?thesis using False lines sl by (simp add: se del: length_map)
    next
      case fit: False
      have "scan_files match n seen day fs (rev (map seg_entry segs)) (out @ ?hits)
          = Inr (take n ((out @ ?hits) @ map stored (filter ?Q (rev (seg_records segs)))))"
        using snoc.prems fit by (intro snoc.IH [of "e # later"]) auto
      then show ?thesis using False fit lines sl by (simp add: se del: length_map)
    qed
  qed
qed

section \<open>What the answer is\<close>

text \<open>
  A record of the log as the program stamps it: \<open>parse_datetime\<close> reads its time, and the day its
  timestamp begins with is the UTC day of that time.
\<close>

definition utc_stamped :: "(string \<Rightarrow> moment option) \<Rightarrow> dict \<Rightarrow> bool" where
  "utc_stamped parse b \<longleftrightarrow>
     (case rec_time parse b of Inr (Some (Aware t)) \<Rightarrow> ordinal_of t = to_ordinal (rec_date b) | _ \<Rightarrow> False)"

definition in_answer :: "(string \<Rightarrow> moment option) \<Rightarrow> audit_query \<Rightarrow> int \<Rightarrow> int \<Rightarrow> dict \<Rightarrow> bool" where
  "in_answer parse q since until b \<longleftrightarrow>
     (case rec_time parse b of Inr (Some (Aware t)) \<Rightarrow> since \<le> t \<and> t \<le> until | _ \<Rightarrow> False)
     \<and> wants (aq_user q) b ''user_id'' \<and> wants (aq_category q) b ''category'' \<and> wants (aq_ip q) b ''ip''"

definition same_body :: "dict \<Rightarrow> dict \<Rightarrow> bool" where
  "same_body x b \<longleftrightarrow> line_text (unseal x) = line_text b"

lemma matches_in_answer:
  "utc_stamped parse r \<Longrightarrow> query_matches parse q since until r = Inr (in_answer parse q since until r)"
  by (auto simp: utc_stamped_def query_matches_def in_answer_def in_window_def bind_res_def
      split: sum.splits option.splits moment.splits)

text \<open>Neither the seal nor the way through a file changes what a query looks at.\<close>

lemma get_unseal: "k \<notin> {''seq'', ''prev_hash'', ''hash''} \<Longrightarrow> dget (unseal r) k = dget r k"
  by (simp add: unseal_def dict_simps)

lemma unseal_query:
  "in_answer parse q since until (unseal r) = in_answer parse q since until r"
  "utc_stamped parse (unseal r) = utc_stamped parse r"
proof -
  have t: "rec_time parse (unseal r) = rec_time parse r" by (simp add: rec_time_def get_unseal)
  have w: "wants f (unseal r) k = wants f r k" if "k \<notin> {''seq'', ''prev_hash'', ''hash''}" for f k
    using that by (cases f) (simp_all add: wants_def dget_default_def get_unseal)
  show "in_answer parse q since until (unseal r) = in_answer parse q since until r" by (simp add: in_answer_def t w)
  show "utc_stamped parse (unseal r) = utc_stamped parse r"
    by (simp add: utc_stamped_def t unseal_date split: sum.split option.split moment.split)
qed

lemma canon_str: "canon srt v = JStr t \<longleftrightarrow> v = JStr t"
  by (cases v) auto

lemma rec_time_stored: "wf_dict r \<Longrightarrow> rec_time parse (stored r) = rec_time parse r"
  by (cases "dget r ''ts''"; cases "the (dget r ''ts'')") (auto simp: rec_time_def dget_stored)

lemma wants_stored: "wf_dict r \<Longrightarrow> wants f (stored r) k = wants f r k"
  by (auto simp: wants_def dget_default_def dget_stored canon_str split: option.splits)

lemma rec_date_stored: "wf_dict r \<Longrightarrow> rec_date (stored r) = rec_date r"
proof -
  have s: "as_str (canon srt v) = as_str v" for srt v by (cases v) auto
  assume "wf_dict r"
  then have "Option.bind (dget (stored r) ''ts'') as_str = Option.bind (dget r ''ts'') as_str"
    by (cases "dget r ''ts''") (simp_all add: dget_stored s)
  then show ?thesis by (simp add: rec_date_def record_day_def)
qed

lemma stored_query:
  assumes "wf_dict r"
  shows "in_answer parse q since until (stored r) = in_answer parse q since until r"
    "utc_stamped parse (stored r) = utc_stamped parse r"
  using assms
  by (simp_all add: in_answer_def utc_stamped_def rec_time_stored wants_stored rec_date_stored
      split: sum.split option.split moment.split)

lemma seq_id_chained:
  assumes "chained H qp rs" "r \<in> set rs"
  shows "seq_id_of r = Inr (Number (of_int (rec_seq r)))" "seq_id_of (stored r) = Inr (Number (of_int (rec_seq r)))"
proof -
  obtain i where "wf_dict r" "dget r ''seq'' = Some (JInt i)" using chained_has_seq [OF assms] by (auto simp: has_seq_def)
  then show "seq_id_of r = Inr (Number (of_int (rec_seq r)))" "seq_id_of (stored r) = Inr (Number (of_int (rec_seq r)))"
    by (simp_all add: seq_id_of_def dget_default_def dget_stored rec_seq_def num_of_def)
qed

lemma chained_seq_range:
  assumes "chained H qp rs" "r \<in> set rs"
  shows "fst qp < rec_seq r \<and> rec_seq r \<le> fst qp + int (length rs)"
proof -
  have "rec_seq r \<in> set (map rec_seq rs)" using assms(2) by simp
  then show ?thesis unfolding chained_seqs [OF assms(1)] by auto
qed

text \<open>A record in a file dated before the window is not in the answer.\<close>

lemma too_old:
  assumes "utc_stamped parse r" "dated r" "rec_date r \<le> d" "valid_date d" "to_ordinal d < ordinal_of (since + off)" "off \<le> 0"
  shows "\<not> in_answer parse q since until r"
proof -
  obtain t where t: "rec_time parse r = Inr (Some (Aware t))" "ordinal_of t = to_ordinal (rec_date r)"
    using assms(1) by (auto simp: utc_stamped_def split: sum.splits option.splits moment.splits)
  have "to_ordinal (rec_date r) \<le> to_ordinal d" using assms(2-4) dated_date by (intro to_ordinal_mono) auto
  then have "t div us_day < (since + off) div us_day" using t(2) assms(5) by (simp add: ordinal_of_def)
  moreover have "(since + off) div us_day \<le> since div us_day" using assms(6) by (intro zdiv_mono1) auto
  ultimately have "t < since" using zdiv_mono1 [of since t "86400 * 1000000"] by linarith
  then show ?thesis using t(1) by (simp add: in_answer_def)
qed

text \<open>
  What one scan answers, over the records \<open>old\<close> that were written and exported, \<open>ex\<close> of them
  expired, and the buffer: \<open>fl\<close> of it on disk as well.
\<close>

lemma scan_answer:
  assumes h: "holds fs segs" "dates_ok segs" and c: "chained H (0, p) old" "chained H tip buf" "fst tip = int (length old)"
    and e: "ex @ seg_records segs = old @ fl" "fl = take (length fl) buf"
    and u: "\<forall>r \<in> set (old @ buf). utc_stamped parse r" and w: "query_window now q = Inr ((since, off), until)"
    and off: "off \<le> 0" and n: "0 < aq_limit q"
  shows "\<exists>out. sync_query parse now q buf fs = Inr out
     \<and> list_all2 (\<lambda>x r. x = r \<or> x = stored r) out
         (take (nat (aq_limit q)) (filter (in_answer parse q since until) (rev (drop (length ex) old @ buf))))"
proof -
  let ?P = "in_answer parse q since until" and ?n = "nat (aq_limit q)"
  let ?k = "\<lambda>r. Number (of_int (rec_seq r))" and ?m = "query_matches parse q since until"
  have n0: "length ([] :: dict list) < ?n" using n by simp
  have fb: "set fl \<subseteq> set buf" using e(2) by (metis set_take_subset)
  have sr: "set (seg_records segs) \<subseteq> set old \<union> set fl" using e(1) by (metis Un_upper2 set_append)
  have b1: "\<forall>r \<in> set (rev buf). ?m r = Inr (?P r) \<and> seq_id_of r = Inr (?k r)"
    using u matches_in_answer seq_id_chained(1) [OF c(2)] by auto
  obtain seen where sb: "scan_buffered ?m ?n (rev buf) [] [] = Inr (seen, take ?n (filter ?P (rev buf)), ?n \<le> length (filter ?P (rev buf)))"
      "length (filter ?P (rev buf)) < ?n \<longrightarrow> set seen = ?k ` set buf"
    using scan_buffered_spec [OF b1 n0, of "[]"] by auto
  let ?old = "drop (length ex) old"
  have full: "filter ?P (rev (?old @ buf)) = filter ?P (rev buf) @ filter ?P (rev ?old)" by simp
  show ?thesis
  proof (cases "?n \<le> length (filter ?P (rev buf))")
    case True
    let ?out = "take ?n (filter ?P (rev buf))"
    have r: "sync_query parse now q buf fs = Inr ?out" using True sb(1) w n by (simp add: sync_query_def)
    have o: "take ?n (filter ?P (rev (?old @ buf))) = ?out" using True unfolding full by simp
    show ?thesis by (intro exI [of _ ?out] conjI r) (simp only: o, rule list.rel_refl, simp)
  next
    case False
    then have seen: "set seen = ?k ` set buf" and lt: "length (filter ?P (rev buf)) < ?n" using sb(2) by auto
    have kold: "?k r \<notin> set seen" if "r \<in> set old" for r
    proof -
      have "rec_seq r \<le> fst tip" using chained_seq_range [OF c(1) that] c(3) by simp
      then show ?thesis using chained_seq_range [OF c(2)] unfolding seen by fastforce
    qed
    have kfl: "?k r \<in> set seen" if "r \<in> set fl" for r using that fb unfolding seen by blast
    have wf: "wf_dict r" if "r \<in> set (seg_records segs)" for r
      using that sr fb chained_wf [OF c(1)] chained_wf [OF c(2)] by blast
    have seg: "\<forall>x \<in> set segs. \<forall>r \<in> set (snd x). seq_id_of (stored r) = Inr (?k r)
        \<and> (?k r \<notin> set seen \<longrightarrow> ?m (stored r) = Inr (?P r)) \<and> (to_ordinal (fst (fst x)) < ordinal_of (since + off) \<longrightarrow> \<not> ?P r)"
    proof (intro ballI)
      fix x r assume x: "x \<in> set segs" "r \<in> set (snd x)"
      then have r: "r \<in> set (seg_records segs)" by (auto simp: seg_records_def)
      then have ur: "utc_stamped parse r" using sr fb u by auto
      have v: "valid_date (fst (fst x))" using h(1) x(1) by (auto simp: holds_def wf_segs_def)
      have d: "dated r" "rec_date r \<le> fst (fst x)" using h(2) x by (auto simp: dates_ok_def)
      have "seq_id_of (stored r) = Inr (?k r)"
        using r sr fb seq_id_chained(2) [OF c(1)] seq_id_chained(2) [OF c(2)] by blast
      moreover have "?m (stored r) = Inr (?P r)"
        using matches_in_answer [of parse "stored r"] ur stored_query [OF wf [OF r]] by simp
      ultimately show "seq_id_of (stored r) = Inr (?k r) \<and> (?k r \<notin> set seen \<longrightarrow> ?m (stored r) = Inr (?P r))
          \<and> (to_ordinal (fst (fst x)) < ordinal_of (since + off) \<longrightarrow> \<not> ?P r)"
        using too_old [OF ur d v _ off] by blast
    qed
    let ?Q = "\<lambda>r. ?k r \<notin> set seen \<and> ?P r"
    have "seg_records segs = drop (length ex) (old @ fl)" using e(1) by (metis append_eq_conv_conj)
    then have split: "seg_records segs = ?old @ drop (length ex - length old) fl" by simp
    have qo: "?Q r = ?P r" if "r \<in> set ?old" for r using kold [OF in_set_dropD [OF that]] by simp
    have qf: "\<not> ?Q r" if "r \<in> set (drop (length ex - length old) fl)" for r using kfl [OF in_set_dropD [OF that]] by simp
    have "filter ?Q ?old = filter ?P ?old" using qo by (rule filter_cong [OF refl])
    moreover have "filter ?Q (drop (length ex - length old) fl) = []" using qf by (intro filter_False) (rule ballI)
    ultimately have "filter ?Q (seg_records segs) = filter ?P ?old" unfolding split filter_append by simp
    then have f: "filter (\<lambda>r. ?k r \<notin> set seen \<and> ?P r) (rev (seg_records segs)) = filter ?P (rev ?old)"
      by (simp add: rev_filter [symmetric])
    have "list_day_files fs = map seg_entry segs" by (simp add: list_day_files_holds [OF h(1)] seg_entry_def)
    then have "scan_files ?m ?n seen (ordinal_of (since + off)) fs (rev (list_day_files fs)) (filter ?P (rev buf))
        = Inr (take ?n (filter ?P (rev buf) @ map stored (filter ?P (rev ?old))))"
      using scan_files_spec [of fs segs "[]", OF _ lt seg] h(1) f by simp
    then have "sync_query parse now q buf fs = Inr (take ?n (filter ?P (rev buf) @ map stored (filter ?P (rev ?old))))"
      using sb(1) w n lt by (simp add: sync_query_def)
    moreover have "list_all2 (\<lambda>x r. x = r \<or> x = stored r) (take ?n (filter ?P (rev buf) @ map stored (filter ?P (rev ?old))))
        (take ?n (filter ?P (rev (?old @ buf))))"
      unfolding full by (intro list_all2_takeI list_all2_appendI) (auto simp: list_all2_map1 intro: list.rel_refl)
    ultimately show ?thesis by blast
  qed
qed

end
