(* ===== verification/AuditTheorems.thy ===== *)
theory AuditTheorems
  imports AuditQuery
begin

text \<open>
  The properties of the audit log as a running system: no accepted record is lost, reordered or
  altered, a flush leaves a chain that verifies, memory is bounded, the exporter gets what was
  written, and a query answers with exactly the newest matching records.
\<close>

declare dumps_with.simps [simp del]

declare wf_json.simps(3) [simp del]

section \<open>A concrete setting for the witnesses\<close>

definition w_hash :: "string \<Rightarrow> string" where
  "w_hash x = replicate 64 (CHR ''0'')"

definition w_io :: flush_io where
  "w_io = \<lparr>io_setup = True, io_appends = [], io_head = True, io_retention_head = True, io_remove = (\<lambda>_. True),
     io_monotonic = 0, io_now = 0, io_now_iso = ''2026-03-01T10:00:00+00:00'', io_today = 739676\<rparr>"

definition w_cfg :: retention_cfg where
  "w_cfg = \<lparr>audit_retention_days = 30, audit_max_bytes = 1000000\<rparr>"

definition w_ts :: string where "w_ts = ''2026-03-01T10:00:00+00:00''"

definition w_event :: audit_event where
  "w_event = (plain_event ''user_added'')\<lparr>ev_detail := Some (PDict [(KStr ''name'', PStr ''eve'')])\<rparr>"

definition w_sys :: asys where "w_sys = log_event w_ts w_event fresh_sys"

lemma w_hash_like: "hexdigest_like w_hash"
  by (simp add: hexdigest_like_def w_hash_def)

lemma w_good_io: "good_io w_io w_cfg"
  by (simp add: good_io_def clean_io_def w_io_def w_cfg_def)

lemma w_dated: "dated_ts w_ts"
proof -
  have "valid_date (2026, 3, 1)" "take 10 w_ts = date_iso (2026, 3, 1)" by code_simp+
  then show ?thesis unfolding dated_ts_def by blast
qed

lemma w_reachable: "reachable w_hash w_cfg w_sys"
  unfolding w_sys_def
  by (rule reachable.step [OF reachable.start audit_step.log [OF w_dated]]) (simp add: event_ok_def w_event_def)

lemma w_idle: "sy_phase w_sys = Idle" "buffer (sy_log w_sys) \<noteq> []"
  by (simp_all add: w_sys_def log_event_def fresh_sys_def new_log_def async_log_def BUFFER_MAX_RECORDS_def
      Let_def schedule_flush_def)

section \<open>Properties\<close>

text \<open>
  C1. Conservation: in every reachable state of the log, with any interleaving of logging,
  querying and flushing and any clean failure of the disk, the bodies accepted so far are, in
  order, those of the records that were written (some since expired by retention, the rest in
  the day files) followed by those still waiting in the buffer; and the written records form
  one unbroken chain from genesis.
\<close>

theorem audit_conservation:
  assumes "reachable H cfg s" "hexdigest_like H"
  shows "\<exists>ex segs. holds (d_files (sy_disk s)) segs
     \<and> chained H (0, GENESIS_PREV_HASH) (ex @ seg_records segs)
     \<and> sy_accepted s = map unseal (ex @ seg_records segs) @ waiting s"
proof -
  obtain ex segs tip where i: "sys_inv H (0, GENESIS_PREV_HASH) ex segs tip s" using reachable_inv [OF assms] by blast
  then have "ex @ seg_records segs = sy_exported s @ in_flight (sy_phase s)" by (simp add: sys_inv_def)
  with i show ?thesis by (intro exI [of _ ex] exI [of _ segs]) (simp only: sys_inv_def log_on_disk_def simp_thms)
qed

theorem audit_conservation_witness:
  "\<exists>ex segs. holds (d_files (sy_disk w_sys)) segs
     \<and> chained w_hash (0, GENESIS_PREV_HASH) (ex @ seg_records segs)
     \<and> sy_accepted w_sys = map unseal (ex @ seg_records segs) @ waiting w_sys"
  by (rule audit_conservation [OF w_reachable w_hash_like])

text \<open>
  C2. A flush that meets no failure writes the whole buffer, and verification right after it
  (\<open>async_verify_chain\<close>) finds the chain intact over every record the directory keeps.
\<close>

theorem flush_then_verify:
  assumes "reachable H cfg s" "hexdigest_like H" "sy_phase s = Idle" "buffer (sy_log s) \<noteq> []"
    "good_io io cfg" "dated_ts ts"
  shows "\<exists>ex segs v. holds (d_files (sy_disk (async_flush H io cfg ts now_iso s))) segs
     \<and> map unseal (ex @ seg_records segs) = sy_accepted s
     \<and> snd (async_verify_chain H io cfg ts now_iso s) = Inr v \<and> v_ok v
     \<and> v_records_checked v = length (seg_records segs)"
proof -
  obtain ex segs tip where i: "sys_inv H (0, GENESIS_PREV_HASH) ex segs tip s" using reachable_inv [OF assms(1,2)] by blast
  from good_flush [OF i assms(3,5,2,6,4), of now_iso] obtain ex' segs' tip' where
    f: "sys_inv H (0, GENESIS_PREV_HASH) ex' segs' tip' (async_flush H io cfg ts now_iso s)"
    "map unseal (ex' @ seg_records segs') = sy_accepted s"
    "head_at (chain_end (0, GENESIS_PREV_HASH) (ex' @ seg_records segs'))
       (sy_disk (async_flush H io cfg ts now_iso s)) (sy_log (async_flush H io cfg ts now_iso s))" by blast
  moreover from f(1) have "holds (d_files (sy_disk (async_flush H io cfg ts now_iso s))) segs'"
    by (simp add: sys_inv_def log_on_disk_def)
  ultimately show ?thesis using verify_sys [OF f(1,3)] by (auto simp: async_verify_chain_def Let_def)
qed

theorem flush_then_verify_witness:
  "\<exists>ex segs v. holds (d_files (sy_disk (async_flush w_hash w_io w_cfg w_ts w_ts w_sys))) segs
     \<and> map unseal (ex @ seg_records segs) = sy_accepted w_sys
     \<and> snd (async_verify_chain w_hash w_io w_cfg w_ts w_ts w_sys) = Inr v \<and> v_ok v
     \<and> v_records_checked v = length (seg_records segs)"
  by (rule flush_then_verify [OF w_reachable w_hash_like w_idle w_good_io w_dated])

text \<open>
  C3. Bounded memory and counted loss: the buffer never exceeds its bound, and records are
  counted as dropped only while it is full.
\<close>

theorem buffer_bounded:
  assumes "reachable H cfg s" "hexdigest_like H"
  shows "length (buffer (sy_log s)) \<le> 20000
     \<and> (dropped_count (sy_log s) = 0 \<or> length (buffer (sy_log s)) = 20000)"
  using reachable_inv [OF assms] by (auto simp: sys_inv_def memory_ok_def BUFFER_MAX_RECORDS_def)

theorem buffer_bounded_witness:
  "length (buffer (sy_log w_sys)) \<le> 20000
     \<and> (dropped_count (sy_log w_sys) = 0 \<or> length (buffer (sy_log w_sys)) = 20000)"
  by (rule buffer_bounded [OF w_reachable w_hash_like])

text \<open>
  The off-box exporter is handed every written record exactly once and in chain order:
  what it got, with the batch a flush in progress has just written, is the chain on disk.
\<close>

theorem exported_is_written:
  assumes "reachable H cfg s" "hexdigest_like H"
  shows "\<exists>ex segs. holds (d_files (sy_disk s)) segs
     \<and> ex @ seg_records segs = sy_exported s @ in_flight (sy_phase s)"
  using reachable_inv [OF assms] by (auto simp: sys_inv_def log_on_disk_def)

theorem exported_is_written_witness:
  "\<exists>ex segs. holds (d_files (sy_disk w_sys)) segs
     \<and> ex @ seg_records segs = sy_exported w_sys @ in_flight (sy_phase w_sys)"
  by (rule exported_is_written [OF w_reachable w_hash_like])

section \<open>Queries\<close>

lemma stored_ddel: "ddel (stored r) k = stored (ddel r k)"
  using canon_ddel [of True r k] by (simp add: stored_def)

lemma same_body_stored: "same_body (stored r) (unseal r)" "same_body r (unseal r)"
  by (simp_all add: same_body_def unseal_def stored_ddel)

lemma same_bodies: "list_all2 (\<lambda>x r. x = r \<or> x = stored r) out rs \<Longrightarrow> list_all2 same_body out (map unseal rs)"
  by (auto simp: list_all2_map2 same_body_stored elim!: list_all2_mono)

lemma newest_unsealed:
  "take n (filter (in_answer parse q since until) (rev (map unseal rs)))
     = map unseal (take n (filter (in_answer parse q since until) (rev rs)))"
  by (simp add: rev_map filter_map comp_def unseal_query take_map)

lemma reachable_buffer:
  assumes i: "sys_inv H base ex segs tip s"
  shows "\<exists>l all. prepare_buffered H (sy_log s) = Inr (l, all) \<and> chained H tip all
     \<and> map unseal (sy_exported s @ all) = sy_accepted s
     \<and> in_flight (sy_phase s) = take (length (in_flight (sy_phase s))) all"
proof -
  have m: "memory_ok H tip (sy_log s)" and ph: "phase_ok (sy_phase s) (sy_log s)" using i by (auto simp: sys_inv_def)
  obtain l new where p: "prepare_buffered H (sy_log s) = Inr (l, prepared (sy_log s) @ new)"
      "l = (sy_log s)\<lparr>prepared := prepared (sy_log s) @ new\<rparr>" "memory_ok H tip l"
      "map unseal (prepared (sy_log s) @ new) = buffer (sy_log s)"
    using prepare_memory_ok [OF m] by blast
  let ?all = "prepared (sy_log s) @ new" and ?fl = "in_flight (sy_phase s)"
  have c: "chained H tip ?all" using p(2,3) by (simp add: memory_ok_def)
  have f: "?fl = take (length ?fl) ?all"
    using ph by (auto simp: in_flight_def phase_ok_def prefix_def split: phase.splits)
  have "map unseal ?all = map unseal ?fl @ waiting s"
  proof (cases "sy_phase s")
    case (Written rs n)
    have n: "length ?fl = n" "prefix rs (prepared (sy_log s))" "n \<le> length rs"
      using ph Written by (auto simp: in_flight_def phase_ok_def)
    have "map unseal ?fl = take n (buffer (sy_log s))"
      using unseal_prefix(5) [OF m n(2,3)] Written by (simp add: in_flight_def)
    then show ?thesis using Written p(4) by (simp add: waiting_def)
  qed (use p(4) in \<open>simp_all add: in_flight_def waiting_def\<close>)
  then have "map unseal (sy_exported s @ ?all) = sy_accepted s" using i by (simp add: sys_inv_def)
  then show ?thesis using p(1) c f by (intro exI [of _ l] exI [of _ ?all]) simp
qed

text \<open>What a query answers, in terms of the sealed records behind the accepted bodies.\<close>

lemma query_reachable:
  assumes "reachable H cfg s" "hexdigest_like H" "\<forall>b \<in> set (sy_accepted s). utc_stamped parse b"
    "query_window now q = Inr ((since, off), until)" "off \<le> 0" "0 < aq_limit q"
  shows "\<exists>ex segs gone rs out. holds (d_files (sy_disk s)) segs
     \<and> sy_accepted s = map unseal (ex @ seg_records segs) @ waiting s \<and> gone \<le> length ex
     \<and> snd (async_query H parse now q s) = Inr out
     \<and> map unseal rs = drop gone (sy_accepted s) \<and> list_all wf_dict rs
     \<and> list_all2 (\<lambda>x r. x = r \<or> x = stored r) out
          (take (nat (aq_limit q)) (filter (in_answer parse q since until) (rev rs)))"
proof -
  obtain ex segs tip where i: "sys_inv H (0, GENESIS_PREV_HASH) ex segs tip s" using reachable_inv [OF assms(1,2)] by blast
  let ?old = "sy_exported s" and ?fl = "in_flight (sy_phase s)"
  obtain l all where b: "prepare_buffered H (sy_log s) = Inr (l, all)" "chained H tip all"
      "map unseal (?old @ all) = sy_accepted s" "?fl = take (length ?fl) all"
    using reachable_buffer [OF i] by blast
  have d: "holds (d_files (sy_disk s)) segs" "dates_ok segs" "chained H (0, GENESIS_PREV_HASH) (ex @ seg_records segs)"
      "ex @ seg_records segs = ?old @ ?fl" "chain_end (0, GENESIS_PREV_HASH) ?old = tip"
    using i unfolding sys_inv_def log_on_disk_def by blast+
  have c: "chained H (0, GENESIS_PREV_HASH) ?old" using d(3) unfolding d(4) by simp
  have t: "fst tip = int (length ?old)" using d(5) chain_end_seq [of "(0, GENESIS_PREV_HASH)" ?old] by simp
  have u: "\<forall>r \<in> set (?old @ all). utc_stamped parse r"
    using assms(3) unseal_query(2) unfolding b(3) [symmetric] set_map by blast
  obtain out where o: "sync_query parse now q all (d_files (sy_disk s)) = Inr out"
      "list_all2 (\<lambda>x r. x = r \<or> x = stored r) out
         (take (nat (aq_limit q)) (filter (in_answer parse q since until) (rev (drop (length ex) ?old @ all))))"
    using scan_answer [OF d(1,2) c b(2) t d(4) b(4) u assms(4,5,6)] by blast
  let ?gone = "min (length ex) (length ?old)"
  have "map unseal (drop (length ex) ?old @ all) = drop ?gone (sy_accepted s)"
    unfolding b(3) [symmetric] by (simp add: drop_map min_def)
  moreover have "list_all wf_dict (drop (length ex) ?old @ all)"
    using chained_has_seq [OF c] chained_has_seq [OF b(2)] set_drop_subset [of "length ex" ?old]
    by (auto simp: has_seq_def list_all_iff)
  moreover have "sy_accepted s = map unseal (ex @ seg_records segs) @ waiting s"
    using i unfolding d(4) sys_inv_def by blast
  ultimately show ?thesis using d(1) b(1) o
    by (intro exI [of _ ex] exI [of _ segs] exI [of _ ?gone] exI [of _ "drop (length ex) ?old @ all"] exI [of _ out])
      (simp add: async_query_def)
qed


definition w_parse :: "string \<Rightarrow> moment option" where
  "w_parse t = (if t = w_ts then Some (Aware (20513 * us_day)) else None)"

definition w_query :: audit_query where
  "w_query = \<lparr>aq_since = None, aq_until = None, aq_user = None, aq_category = Some ''user_added'', aq_ip = None, aq_limit = 5\<rparr>"

lemma w_stamped: "\<forall>b \<in> set (sy_accepted w_sys). utc_stamped w_parse b"
proof -
  have "list_all (utc_stamped w_parse) (sy_accepted w_sys)" by code_simp
  then show ?thesis by (simp add: list_all_iff)
qed

lemma w_window: "query_window (20514 * us_day) w_query = Inr ((20507 * us_day, 0), 20514 * us_day)"
  by code_simp

lemma w_answers: "length (filter (in_answer w_parse w_query (20507 * us_day) (20514 * us_day)) (rev (sy_accepted w_sys))) = 1"
  by code_simp


end
