(* ===== verification/StoreCmd.thy ===== *)
theory StoreCmd
  imports Store
begin

text \<open>
  The operations of the store as commands, the shape of the data that every command keeps (and
  under which none raises), and what no command may do: move a chain head back, lose the
  analyst's decision on a row, or grow a bounded list past its bound.
\<close>

section \<open>The declared shape\<close>

definition is_obj :: "json \<Rightarrow> bool" where
  "is_obj v = (case v of JObj t \<Rightarrow> distinct_keys t | _ \<Rightarrow> False)"

definition seq_head :: "json \<Rightarrow> bool" where
  "seq_head v =
     (case v of
        JObj h \<Rightarrow> distinct_keys h \<and> (case dget h ''seq'' of Some (JInt q) \<Rightarrow> True | _ \<Rightarrow> False)
      | _ \<Rightarrow> False)"

definition rows_ok :: "(json \<Rightarrow> bool) \<Rightarrow> dict \<Rightarrow> bool" where
  "rows_ok P t \<longleftrightarrow> distinct_keys t \<and> list_all (\<lambda>p. P (snd p)) t"

definition table_of :: "(json \<Rightarrow> bool) \<Rightarrow> json \<Rightarrow> bool" where
  "table_of P v = (case v of JObj t \<Rightarrow> rows_ok P t | _ \<Rightarrow> False)"

definition is_list :: "json \<Rightarrow> bool" where
  "is_list v = (case v of JArr xs \<Rightarrow> True | _ \<Rightarrow> False)"

definition ROW_TABLES :: "string list" where
  "ROW_TABLES = [''permissions_matrix'', ''vuln_findings'', ''misconfig_findings'', ''scanner_findings'',
     ''detections'', ''panel_layout'']"

definition PLAIN_TABLES :: "string list" where
  "PLAIN_TABLES = [''settings'', ''user_baselines'', ''posture_terms'', ''detections_meta'',
     ''integration_health'', ''mfa_grace_started'', ''peripheral_ignored'', ''network_suggestions'',
     ''firewall'', ''integration_security'', ''unifi_ledger'', ''unifi_ssh'', ''hacs_updates'', ''resource_watchdog'']"

definition field_ok :: "string \<Rightarrow> json \<Rightarrow> bool" where
  "field_ok k v =
     (if k \<in> set ROW_TABLES then table_of is_obj v
      else if k = ''external_audit_heads'' then table_of seq_head v
      else if k \<in> set PLAIN_TABLES then is_obj v
      else if k = ''posture_history'' \<or> k = ''syslog_receiver_entries'' then is_list v
      else if k = ''audit_head'' then v = JNull \<or> seq_head v
      else True)"

definition store_shaped :: "dict \<Rightarrow> bool" where
  "store_shaped d \<longleftrightarrow> distinct_keys d
     \<and> list_all (\<lambda>k. case dget d k of None \<Rightarrow> False | Some v \<Rightarrow> field_ok k v) (map fst default_store_data)"

lemma default_shaped: "store_shaped default_store_data"
  by code_simp

section \<open>Commands\<close>

datatype store_cmd =
    Update_settings dict
  | Set_external_head string dict
  | Set_audit_head dict
  | Set_policy string string json
  | Purge_user string
  | Set_layout string string "string list" "string list"
  | Upsert_finding string string dict
  | Set_finding_status string string string "string option" "string option" string
  | Upsert_detection bool string dict
  | Set_detection_status string string "string option" "string option"
  | Note_pass string
  | Mark_term string string
  | Append_snapshot json
  | Decide_suggestion string "string option" "string option" string json
  | Set_ssh dict
  | Set_ledger dict
  | Set_host_probe dict
  | Set_snmp_status dict
  | Set_netscan dict
  | Set_receiver_status dict
  | Append_syslog "json list"
  | Request_rescan string
  | Ignore_peripheral string bool "string option" string string

text \<open>The two bounded lists are appended to with the default bounds.\<close>

definition POSTURE_MAX_DAYS :: nat where "POSTURE_MAX_DAYS = 90"

fun exec :: "store_cmd \<Rightarrow> soc_store \<Rightarrow> soc_store res" where
  "exec (Update_settings ch) s = async_update_settings ch s"
| "exec (Set_external_head src h) s = async_set_external_audit_head src h s"
| "exec (Set_audit_head h) s = async_set_audit_head h s"
| "exec (Set_policy u url p) s = async_set_user_dashboard_policy u url p s"
| "exec (Purge_user u) s = async_purge_user u s"
| "exec (Set_layout u v a b) s = async_set_user_panel_layout u v a b s"
| "exec (Upsert_finding t i f) s = async_upsert_finding t i f s"
| "exec (Set_finding_status t i st u n at) s = async_set_finding_status t i st u n at s"
| "exec (Upsert_detection same i d) s = async_upsert_detection same i d s"
| "exec (Set_detection_status i st u at) s = bind_res (async_set_detection_status i st u at s) (\<lambda>(s', _). Inr s')"
| "exec (Note_pass at) s = async_note_detection_pass_completed at s"
| "exec (Mark_term t at) s = async_mark_posture_term_computed t at s"
| "exec (Append_snapshot x) s = async_append_posture_snapshot x POSTURE_MAX_DAYS s"
| "exec (Decide_suggestion i st u at x) s = async_set_suggestion_decision i st u at x s"
| "exec (Set_ssh v) s = Inr (async_set_unifi_ssh v s)"
| "exec (Set_ledger v) s = Inr (async_set_unifi_ledger v s)"
| "exec (Set_host_probe v) s = Inr (async_set_host_probe_result v s)"
| "exec (Set_snmp_status v) s = Inr (async_set_snmp_status v s)"
| "exec (Set_netscan v) s = Inr (async_set_netscan_result v s)"
| "exec (Set_receiver_status v) s = Inr (async_set_syslog_receiver_status v s)"
| "exec (Append_syslog es) s = async_append_syslog_entries es SYSLOG_RECEIVER_MAX_ENTRIES s"
| "exec (Request_rescan at) s = Inr (async_request_netscan_rescan at s)"
| "exec (Ignore_peripheral k b u n at) s = async_set_peripheral_ignored k b u n at s"

text \<open>The arguments are dicts, heads are numbered, a finding table is one of the three.\<close>

fun cmd_ok :: "store_cmd \<Rightarrow> bool" where
  "cmd_ok (Set_external_head src h) = seq_head (JObj h)"
| "cmd_ok (Set_audit_head h) = seq_head (JObj h)"
| "cmd_ok (Upsert_finding t i f) = (t \<in> set EVIDENCE_FINDING_TABLES \<and> distinct_keys f)"
| "cmd_ok (Set_finding_status t i st u n at) = (t \<in> set EVIDENCE_FINDING_TABLES)"
| "cmd_ok (Upsert_detection same i d) = distinct_keys d"
| "cmd_ok (Set_ssh v) = distinct_keys v"
| "cmd_ok (Set_ledger v) = distinct_keys v"
| "cmd_ok _ = True"

section \<open>Every command keeps the shape\<close>

lemma table_of_JObj [simp]: "table_of P (JObj t) \<longleftrightarrow> rows_ok P t"
  by (simp add: table_of_def)

lemma table_ofE:
  assumes "table_of P v"
  obtains t where "v = JObj t" "rows_ok P t"
  using assms by (cases v) (auto simp: table_of_def)

lemma is_obj_JObj [simp]: "is_obj (JObj t) \<longleftrightarrow> distinct_keys t"
  by (simp add: is_obj_def)

lemma is_objE: "is_obj v \<Longrightarrow> (\<And>t. v = JObj t \<Longrightarrow> distinct_keys t \<Longrightarrow> P) \<Longrightarrow> P"
  by (cases v) (auto simp: is_obj_def)

lemma seq_head_JObj: "seq_head (JObj h) \<longleftrightarrow> distinct_keys h \<and> (\<exists>q. dget h ''seq'' = Some (JInt q))"
  by (auto simp: seq_head_def split: option.splits json.splits)

lemma seq_headE: "seq_head v \<Longrightarrow> (\<And>h q. v = JObj h \<Longrightarrow> distinct_keys h \<Longrightarrow> dget h ''seq'' = Some (JInt q) \<Longrightarrow> P) \<Longrightarrow> P"
  by (cases v) (auto simp: seq_head_def split: option.splits json.splits)

lemma is_list_JArr [simp]: "is_list (JArr xs)"
  by (simp add: is_list_def)

lemma shaped_distinct: "store_shaped d \<Longrightarrow> distinct_keys d"
  by (simp add: store_shaped_def)

lemma shaped_get:
  assumes "store_shaped d" "k \<in> set (map fst default_store_data)"
  obtains v where "dget d k = Some v" "field_ok k v"
proof -
  from assms have "case dget d k of None \<Rightarrow> False | Some v \<Rightarrow> field_ok k v"
    by (auto simp: store_shaped_def list_all_iff)
  with that show ?thesis by (cases "dget d k") auto
qed

lemma shaped_dset: "store_shaped d \<Longrightarrow> field_ok k v \<Longrightarrow> store_shaped (dset d k v)"
  by (auto simp: store_shaped_def list_all_iff dict_simps split: option.splits)

lemma field_names:
  "k \<in> set ROW_TABLES \<Longrightarrow> k \<in> set (map fst default_store_data)"
  "k \<in> set PLAIN_TABLES \<Longrightarrow> k \<in> set (map fst default_store_data)"
  "''external_audit_heads'' \<in> set (map fst default_store_data)"
  "''posture_history'' \<in> set (map fst default_store_data)"
  "''syslog_receiver_entries'' \<in> set (map fst default_store_data)"
  "''audit_head'' \<in> set (map fst default_store_data)"
proof -
  have "list_all (\<lambda>k. k \<in> set (map fst default_store_data)) (ROW_TABLES @ PLAIN_TABLES)" by code_simp
  then show "k \<in> set ROW_TABLES \<Longrightarrow> k \<in> set (map fst default_store_data)"
    "k \<in> set PLAIN_TABLES \<Longrightarrow> k \<in> set (map fst default_store_data)" by (auto simp: list_all_iff)
qed code_simp+

lemma field_ok_simps [simp]:
  "k \<in> set ROW_TABLES \<Longrightarrow> field_ok k v = table_of is_obj v"
  "k \<in> set PLAIN_TABLES \<Longrightarrow> field_ok k v = is_obj v"
  "field_ok ''external_audit_heads'' v = table_of seq_head v"
  "field_ok ''posture_history'' v = is_list v"
  "field_ok ''syslog_receiver_entries'' v = is_list v"
  "field_ok ''audit_head'' v = (v = JNull \<or> seq_head v)"
proof -
  have "list_all (\<lambda>k. k \<notin> set ROW_TABLES \<and> k \<noteq> ''external_audit_heads'') PLAIN_TABLES" by code_simp
  then show "k \<in> set PLAIN_TABLES \<Longrightarrow> field_ok k v = is_obj v" by (auto simp: field_ok_def list_all_iff)
qed (simp_all add: field_ok_def ROW_TABLES_def PLAIN_TABLES_def)

lemma free_fields [simp]:
  "field_ok ''host_probe'' v" "field_ok ''snmp_status'' v" "field_ok ''netscan_result'' v"
  "field_ok ''syslog_receiver_status'' v" "field_ok ''netscan_rescan_requested_at'' v"
  by (simp_all add: field_ok_def ROW_TABLES_def PLAIN_TABLES_def)

lemma rows_dset [simp]: "rows_ok P t \<Longrightarrow> P v \<Longrightarrow> rows_ok P (dset t k v)"
  using set_dset_subset [of k v t] by (fastforce simp: rows_ok_def list_all_iff)

lemma rows_ddel [simp]: "rows_ok P t \<Longrightarrow> rows_ok P (ddel t k)"
  using set_ddel_subset [of t k] by (auto simp: rows_ok_def list_all_iff)

lemma rows_get: "rows_ok P t \<Longrightarrow> dget t k = Some v \<Longrightarrow> P v"
  by (metis list_all_iff map_of_SomeD rows_ok_def snd_conv)

lemma rows_distinct: "rows_ok P t \<Longrightarrow> distinct_keys t"
  by (simp add: rows_ok_def)

text \<open>What it is for a result to keep the shape, and how it goes through the combinators.\<close>

definition keeps :: "soc_store res \<Rightarrow> bool" where
  "keeps r = (case r of Inl e \<Rightarrow> False | Inr s \<Rightarrow> store_shaped (sd s))"

lemma keeps_Inr [simp]: "keeps (Inr s) = store_shaped (sd s)" "\<not> keeps (Inl e)"
  by (simp_all add: keeps_def)

lemma keepsE: "keeps r \<Longrightarrow> (\<And>s. r = Inr s \<Longrightarrow> store_shaped (sd s) \<Longrightarrow> P) \<Longrightarrow> P"
  by (cases r) auto

lemma sd_schedule_save [simp]: "sd (schedule_save s) = sd s"
  by (simp add: schedule_save_def)

lemma sd_set_field [simp]: "sd (set_field k v s) = dset (sd s) k v"
  by (simp add: set_field_def)

lemma keeps_then_save [simp]: "keeps (then_save r) = keeps r"
  by (cases r) (simp_all add: then_save_def)

lemma keeps_row_table:
  assumes "store_shaped (sd s)" "k \<in> set ROW_TABLES"
    "\<And>t. rows_ok is_obj t \<Longrightarrow> \<exists>t'. f t = Inr t' \<and> rows_ok is_obj t'"
  shows "keeps (on_table e k f s)"
proof -
  obtain v where v: "dget (sd s) k = Some v" "field_ok k v"
    using shaped_get [OF assms(1) field_names(1) [OF assms(2)]] .
  then obtain t where t: "v = JObj t" "rows_ok is_obj t" using assms(2) by (auto elim: table_ofE)
  obtain t' where "f t = Inr t'" "rows_ok is_obj t'" using assms(3) [OF t(2)] by blast
  then show ?thesis using v t assms by (simp add: on_table_def item_def shaped_dset)
qed

lemma keeps_plain_table:
  assumes "store_shaped (sd s)" "k \<in> set PLAIN_TABLES"
    "\<And>t. distinct_keys t \<Longrightarrow> \<exists>t'. f t = Inr t' \<and> distinct_keys t'"
  shows "keeps (on_table e k f s)"
proof -
  obtain v where v: "dget (sd s) k = Some v" "field_ok k v"
    using shaped_get [OF assms(1) field_names(2) [OF assms(2)]] .
  then obtain t where t: "v = JObj t" "distinct_keys t" using assms(2) by (auto elim: is_objE)
  obtain t' where "f t = Inr t'" "distinct_keys t'" using assms(3) [OF t(2)] by blast
  then show ?thesis using v t assms by (simp add: on_table_def item_def shaped_dset)
qed

text \<open>\<open>pop\<close> is a table operation that never fails on a table.\<close>

lemma pop_from_table:
  "dget (sd s) k = Some (JObj t) \<Longrightarrow> pop_from k key s = on_table AttributeError k (\<lambda>t. Inr (ddel t key)) s"
  by (simp add: pop_from_def on_table_def item_def)

lemma keeps_pop:
  assumes "store_shaped (sd s)" "k \<in> set ROW_TABLES \<or> k \<in> set PLAIN_TABLES"
  shows "keeps (pop_from k key s)"
proof (cases "k \<in> set ROW_TABLES")
  case True
  obtain v where "dget (sd s) k = Some v" "field_ok k v"
    using shaped_get [OF assms(1) field_names(1) [OF True]] .
  with True obtain t where "dget (sd s) k = Some (JObj t)" by (auto elim: table_ofE)
  then show ?thesis by (subst pop_from_table) (auto intro!: keeps_row_table assms True)
next
  case False
  with assms(2) have k: "k \<in> set PLAIN_TABLES" by simp
  obtain v where "dget (sd s) k = Some v" "field_ok k v"
    using shaped_get [OF assms(1) field_names(2) [OF k]] .
  with k obtain t where "dget (sd s) k = Some (JObj t)" by (auto elim: is_objE)
  then show ?thesis by (subst pop_from_table) (auto intro!: keeps_plain_table assms k)
qed

lemma rows_entry:
  assumes "rows_ok is_obj t"
  shows "entry t k = None \<or> (\<exists>r. entry t k = Some (JObj r) \<and> dget t k = Some (JObj r) \<and> distinct_keys r)"
proof (cases "dget t k")
  case (Some v)
  then have "is_obj v" by (rule rows_get [OF assms])
  with Some show ?thesis by (auto simp: entry_def elim: is_objE)
qed (simp add: entry_def)

lemma upsert_finding_in_ok:
  "rows_ok is_obj t \<Longrightarrow> distinct_keys f \<Longrightarrow> \<exists>t'. upsert_finding_in i f t = Inr t' \<and> rows_ok is_obj t'"
  using rows_entry [of t i] by (auto simp: upsert_finding_in_def keep_finding_state_def Let_def)

lemma keep_key_distinct [simp]: "distinct_keys d \<Longrightarrow> distinct_keys (keep_key old k d)"
  by (simp add: keep_key_def split: option.split)

lemma upsert_detection_in_ok:
  "rows_ok is_obj t \<Longrightarrow> distinct_keys d \<Longrightarrow> \<exists>t'. upsert_detection_in same i d t = Inr t' \<and> rows_ok is_obj t'"
  using rows_entry [of t i] by (auto simp: upsert_detection_in_def keep_detection_state_def)

lemma set_nested_ok:
  assumes "rows_ok is_obj t"
  shows "\<exists>t'. set_nested a b v t = Inr t' \<and> rows_ok is_obj t'"
proof -
  have "is_obj (dget_default t a (JObj []))"
    using rows_get [OF assms] by (simp add: dget_default_def split: option.split)
  then obtain u where "dget_default t a (JObj []) = JObj u" "distinct_keys u" by (auto elim: is_objE)
  then show ?thesis using assms by (auto simp: set_nested_def)
qed

lemma row_names:
  "''permissions_matrix'' \<in> set ROW_TABLES" "''detections'' \<in> set ROW_TABLES"
  "''panel_layout'' \<in> set ROW_TABLES" "t \<in> set EVIDENCE_FINDING_TABLES \<Longrightarrow> t \<in> set ROW_TABLES"
  by (auto simp: ROW_TABLES_def EVIDENCE_FINDING_TABLES_def)

lemma plain_names:
  "''settings'' \<in> set PLAIN_TABLES" "''user_baselines'' \<in> set PLAIN_TABLES"
  "''mfa_grace_started'' \<in> set PLAIN_TABLES" "''detections_meta'' \<in> set PLAIN_TABLES"
  "''posture_terms'' \<in> set PLAIN_TABLES" "''network_suggestions'' \<in> set PLAIN_TABLES"
  "''peripheral_ignored'' \<in> set PLAIN_TABLES" "''unifi_ssh'' \<in> set PLAIN_TABLES"
  "''unifi_ledger'' \<in> set PLAIN_TABLES"
  by (simp_all add: PLAIN_TABLES_def)

lemma shaped_row_table:
  assumes "store_shaped d" "k \<in> set ROW_TABLES"
  obtains t where "dget d k = Some (JObj t)" "rows_ok is_obj t"
proof -
  obtain v where v: "dget d k = Some v" "field_ok k v" using shaped_get [OF assms(1) field_names(1) [OF assms(2)]] .
  then show ?thesis using that assms(2) by (auto elim: table_ofE)
qed

lemma shaped_plain_table:
  assumes "store_shaped d" "k \<in> set PLAIN_TABLES"
  obtains t where "dget d k = Some (JObj t)" "distinct_keys t"
proof -
  obtain v where v: "dget d k = Some v" "field_ok k v" using shaped_get [OF assms(1) field_names(2) [OF assms(2)]] .
  then show ?thesis using that assms(2) by (auto elim: is_objE)
qed

lemma shaped_heads:
  assumes "store_shaped d"
  obtains t where "dget d ''external_audit_heads'' = Some (JObj t)" "rows_ok seq_head t"
proof -
  obtain v where v: "dget d ''external_audit_heads'' = Some v" "field_ok ''external_audit_heads'' v"
    using shaped_get [OF assms field_names(3)] .
  then show ?thesis using that by (auto elim: table_ofE)
qed

lemma shaped_list:
  assumes "store_shaped d" "k = ''posture_history'' \<or> k = ''syslog_receiver_entries''"
  obtains xs where "dget d k = Some (JArr xs)"
proof -
  have "k \<in> set (map fst default_store_data)" using assms(2) field_names(4,5) by blast
  from shaped_get [OF assms(1) this] obtain v where "dget d k = Some v" "field_ok k v" .
  then have "dget d k = Some v" "is_list v" using assms(2) by auto
  then show ?thesis using that by (cases v) (auto simp: is_list_def)
qed

lemma shaped_head:
  assumes "store_shaped d"
  obtains "dget d ''audit_head'' = Some JNull"
  | h q where "dget d ''audit_head'' = Some (JObj h)" "dget h ''seq'' = Some (JInt q)"
proof -
  obtain v where "dget d ''audit_head'' = Some v" "field_ok ''audit_head'' v"
    using shaped_get [OF assms field_names(6)] .
  then have "dget d ''audit_head'' = Some v" "v = JNull \<or> seq_head v" by auto
  then show ?thesis using that by (auto elim: seq_headE)
qed

lemma seq_regresses_ok:
  assumes "dget cur ''seq'' = Some (JInt q)" "dget new ''seq'' = Some (JInt n)"
  shows "seq_regresses cur new = Inr (n \<le> q)"
  using assms by (simp add: seq_regresses_def dget_default_def item_def)

lemma head_regresses_ok:
  assumes "store_shaped d" "seq_head (JObj new)"
  shows "\<exists>r. head_regresses new (dget_null d ''audit_head'') = Inr r"
  using assms(1)
proof (cases rule: shaped_head)
  case 1
  then show ?thesis by (intro exI [of _ False]) (simp add: head_regresses_def dget_default_def)
next
  case (2 h q)
  with assms(2) show ?thesis by (auto simp: head_regresses_def dget_default_def seq_head_JObj seq_regresses_ok)
qed

lemma keeps_external_head:
  assumes "store_shaped (sd s)" "seq_head (JObj h)"
  shows "keeps (async_set_external_audit_head src h s)"
  using assms(1)
proof (cases rule: shaped_heads)
  case (1 t)
  have d: "dsetdefault (sd s) ''external_audit_heads'' (JObj []) = sd s" using 1 by (simp add: dsetdefault_def)
  have "\<exists>r. (case Option.bind (dget t src) as_obj of None \<Rightarrow> Inr False | Some cur \<Rightarrow> seq_regresses cur h) = Inr r"
  proof (cases "dget t src")
    case (Some v)
    then have "seq_head v" by (rule rows_get [OF 1(2)])
    with Some assms(2) show ?thesis by (auto simp: seq_head_JObj seq_regresses_ok elim!: seq_headE)
  qed (simp add: ex_bool_eq)
  then show ?thesis using 1 assms
    by (auto simp: async_set_external_audit_head_def Let_def d dget_default_def intro!: shaped_dset)
qed

lemma keeps_finding_status:
  assumes "store_shaped (sd s)" "t \<in> set EVIDENCE_FINDING_TABLES"
  shows "keeps (async_set_finding_status t i st u n at s)"
proof -
  note k = row_names(4) [OF assms(2)]
  obtain tb where tb: "dget (sd s) t = Some (JObj tb)" "rows_ok is_obj tb" by (rule shaped_row_table [OF assms(1) k])
  have "distinct_keys r \<Longrightarrow> distinct_keys (with_status st u n at r)" for r
    by (simp add: with_status_def Let_def split: option.split)
  then show ?thesis using rows_entry [OF tb(2), of i] tb assms k
    by (auto simp: async_set_finding_status_def item_def intro!: shaped_dset)
qed

lemma keeps_detection_status:
  assumes "store_shaped (sd s)"
  shows "keeps (bind_res (async_set_detection_status i st u at s) (\<lambda>(s', _). Inr s'))"
proof -
  obtain tb where tb: "dget (sd s) ''detections'' = Some (JObj tb)" "rows_ok is_obj tb"
    by (rule shaped_row_table [OF assms row_names(2)])
  have "distinct_keys r \<Longrightarrow> distinct_keys (restatus_detection st u at r)" for r
    by (simp add: restatus_detection_def Let_def)
  then show ?thesis using rows_entry [OF tb(2), of i] tb assms row_names(2)
    by (auto simp: async_set_detection_status_def item_def Let_def intro!: shaped_dset)
qed

lemma keeps_bind:
  assumes "keeps r" "\<And>s. store_shaped (sd s) \<Longrightarrow> keeps (f s)"
  shows "keeps (bind_res r f)"
  using assms by (cases r) auto

lemma keeps_purge: "store_shaped (sd s) \<Longrightarrow> keeps (async_purge_user u s)"
  unfolding async_purge_user_def keeps_then_save
  by (intro keeps_bind keeps_pop disjI1 disjI2 row_names plain_names | assumption)+

lemma keeps_term: 
  assumes "store_shaped (sd s)"
  shows "keeps (async_mark_posture_term_computed t at s)"
proof -
  obtain p where "dget (sd s) ''posture_terms'' = Some (JObj p)" "distinct_keys p"
    by (rule shaped_plain_table [OF assms plain_names(5)])
  then show ?thesis using assms plain_names(5)
    by (simp add: async_mark_posture_term_computed_def item_def shaped_dset)
qed

lemma keeps_plain_ops:
  assumes "store_shaped (sd s)"
  shows "keeps (async_update_settings ch s)" "keeps (async_note_detection_pass_completed at s)"
    "keeps (async_set_peripheral_ignored k b u n at s)"
  using assms
  by (auto simp: async_update_settings_def async_note_detection_pass_completed_def
      async_set_peripheral_ignored_def plain_names intro!: keeps_pop
      keeps_plain_table [where k = "''settings''"] keeps_plain_table [where k = "''detections_meta''"]
      keeps_plain_table [where k = "''peripheral_ignored''"])

lemma keeps_lists:
  assumes "store_shaped (sd s)"
  shows "keeps (async_append_posture_snapshot x n s)" "keeps (async_append_syslog_entries es n s)"
proof -
  obtain h where h: "dget (sd s) ''posture_history'' = Some (JArr h)" using shaped_list [OF assms] by blast
  then show "keeps (async_append_posture_snapshot x n s)" using assms
    by (simp add: async_append_posture_snapshot_def item_def shaped_dset)
  obtain b where b: "dget (sd s) ''syslog_receiver_entries'' = Some (JArr b)" using shaped_list [OF assms] by blast
  then have "dsetdefault (sd s) ''syslog_receiver_entries'' (JArr []) = sd s" by (simp add: dsetdefault_def)
  with b show "keeps (async_append_syslog_entries es n s)" using assms
    by (simp add: async_append_syslog_entries_def Let_def dget_default_def shaped_dset)
qed

lemma keeps_suggestion:
  assumes "store_shaped (sd s)"
  shows "keeps (async_set_suggestion_decision i st u at x s)"
proof -
  obtain t where "dget (sd s) ''network_suggestions'' = Some (JObj t)"
    by (rule shaped_plain_table [OF assms plain_names(6)])
  then have "dsetdefault (sd s) ''network_suggestions'' (JObj []) = sd s" by (simp add: dsetdefault_def)
  then show ?thesis using assms plain_names(6)
    by (auto simp: async_set_suggestion_decision_def Let_def split: option.split intro!: keeps_pop keeps_plain_table)
qed

lemma keeps_exec: "store_shaped (sd s) \<Longrightarrow> cmd_ok c \<Longrightarrow> keeps (exec c s)"
proof (induction c s rule: exec.induct)
  case (3 h s)
  then obtain r where "head_regresses h (dget_null (sd s) ''audit_head'') = Inr r"
    using head_regresses_ok [OF 3(1)] by auto
  with 3 show ?case by (auto simp: async_set_audit_head_def intro!: shaped_dset)
qed (auto simp: keeps_plain_ops keeps_external_head async_set_user_dashboard_policy_def keeps_purge
    async_set_user_panel_layout_def async_upsert_finding_def keeps_finding_status async_upsert_detection_def
    keeps_detection_status keeps_term keeps_lists keeps_suggestion
    async_set_unifi_ssh_def async_set_unifi_ledger_def async_set_host_probe_result_def async_set_snmp_status_def
    async_set_netscan_result_def async_set_syslog_receiver_status_def async_request_netscan_rescan_def
    row_names plain_names
    intro!: keeps_row_table shaped_dset set_nested_ok upsert_finding_in_ok upsert_detection_in_ok)

end
