(* ===== verification/StoreProps.thy ===== *)
theory StoreProps
  imports StoreCmd
begin

text \<open>
  What the commands of the store preserve beyond the shape: every field a command does not name,
  the two chain heads (which only advance), the analyst's decision on a row, the bounds of the
  two growing lists; and what pruning removes.
\<close>

section \<open>Frame\<close>

fun touches :: "store_cmd \<Rightarrow> string list" where
  "touches (Update_settings ch) = [''settings'']"
| "touches (Set_external_head src h) = [''external_audit_heads'']"
| "touches (Set_audit_head h) = [''audit_head'']"
| "touches (Set_policy u url p) = [''permissions_matrix'']"
| "touches (Purge_user u) = [''permissions_matrix'', ''user_baselines'', ''mfa_grace_started'', ''panel_layout'']"
| "touches (Set_layout u v a b) = [''panel_layout'']"
| "touches (Upsert_finding t i f) = [t]"
| "touches (Set_finding_status t i st u n at) = [t]"
| "touches (Upsert_detection same i d) = [''detections'']"
| "touches (Set_detection_status i st u at) = [''detections'']"
| "touches (Note_pass at) = [''detections_meta'']"
| "touches (Mark_term t at) = [''posture_terms'']"
| "touches (Append_snapshot x) = [''posture_history'']"
| "touches (Decide_suggestion i st u at x) = [''network_suggestions'']"
| "touches (Set_ssh v) = [''unifi_ssh'']"
| "touches (Set_ledger v) = [''unifi_ledger'']"
| "touches (Set_host_probe v) = [''host_probe'']"
| "touches (Set_snmp_status v) = [''snmp_status'']"
| "touches (Set_netscan v) = [''netscan_result'']"
| "touches (Set_receiver_status v) = [''syslog_receiver_status'']"
| "touches (Append_syslog es) = [''syslog_receiver_entries'']"
| "touches (Request_rescan at) = [''netscan_rescan_requested_at'']"
| "touches (Ignore_peripheral k b u n at) = [''peripheral_ignored'']"

definition frame :: "string list \<Rightarrow> soc_store \<Rightarrow> soc_store res \<Rightarrow> bool" where
  "frame ks s r =
     (case r of
        Inl e \<Rightarrow> True
      | Inr s' \<Rightarrow> ring_in_main s' = ring_in_main s \<and> (\<forall>k. k \<notin> set ks \<longrightarrow> dget (sd s') k = dget (sd s) k))"

lemma frame_simps [simp]: "frame ks s (Inl e)"
  "frame ks s (Inr s') \<longleftrightarrow>
     ring_in_main s' = ring_in_main s \<and> (\<forall>k. k \<notin> set ks \<longrightarrow> dget (sd s') k = dget (sd s) k)"
  by (simp_all add: frame_def)

lemma ring_in_main_saves [simp]:
  "ring_in_main (schedule_save s) = ring_in_main s" "ring_in_main (set_field k v s) = ring_in_main s"
  by (simp_all add: schedule_save_def set_field_def)

lemma frame_bind: "(\<And>x. r = Inr x \<Longrightarrow> frame ks s (f x)) \<Longrightarrow> frame ks s (bind_res r f)"
  by (cases r) auto

lemma frame_then_save [simp]: "frame ks s (then_save r) = frame ks s r"
  by (cases r) (simp_all add: then_save_def)

lemma frame_on_table: "k \<in> set ks \<Longrightarrow> frame ks s (on_table e k f s)"
  unfolding on_table_def by (intro frame_bind) (auto simp: dict_simps)

lemma frame_pop: "k \<in> set ks \<Longrightarrow> frame ks s (pop_from k key s)"
  unfolding pop_from_def by (intro frame_bind) (auto simp: dict_simps split: json.split)

lemma frame_trans: "frame ks s (Inr s') \<Longrightarrow> frame ks s' r \<Longrightarrow> frame ks s r"
  by (cases r) auto

lemma frame_seq:
  assumes "frame ks s r" "\<And>s'. frame ks s' (f s')"
  shows "frame ks s (bind_res r f)"
  using assms by (cases r) (auto intro: frame_trans)

lemma frame_purge: "frame [''permissions_matrix'', ''user_baselines'', ''mfa_grace_started'', ''panel_layout''] s (async_purge_user u s)"
  unfolding async_purge_user_def frame_then_save by (intro frame_seq frame_pop) simp_all

lemma frame_dsetdefault:
  "k \<noteq> k' \<Longrightarrow> dget (dsetdefault d k v) k' = dget d k'"
  by (simp add: dict_simps)

lemma frame_exec: "frame (touches c) s (exec c s)"
proof (cases c)
  case (Set_external_head src h)
  show ?thesis
    unfolding Set_external_head exec.simps touches.simps async_set_external_audit_head_def Let_def
    by (intro frame_bind) (simp add: dict_simps)
next
  case (Set_finding_status t i st u n at)
  show ?thesis unfolding Set_finding_status exec.simps touches.simps async_set_finding_status_def
    by (intro frame_bind) (auto intro!: frame_bind simp: dict_simps split: option.split)
next
  case (Set_detection_status i st u at)
  show ?thesis unfolding Set_detection_status exec.simps touches.simps async_set_detection_status_def
    by (intro frame_bind) (auto simp: dict_simps Let_def bind_res_Inr split: option.split_asm)
next
  case (Mark_term t at)
  show ?thesis unfolding Mark_term exec.simps touches.simps async_mark_posture_term_computed_def
    by (intro frame_bind) (simp add: dict_simps split: json.split)
next
  case (Append_snapshot x)
  show ?thesis unfolding Append_snapshot exec.simps touches.simps async_append_posture_snapshot_def
    by (intro frame_bind) (simp add: dict_simps)
next
  case (Append_syslog es)
  show ?thesis unfolding Append_syslog exec.simps touches.simps async_append_syslog_entries_def Let_def
    by (cases "es = []") (auto intro!: frame_bind simp: dict_simps)
next
  case (Set_audit_head h)
  show ?thesis unfolding Set_audit_head exec.simps touches.simps async_set_audit_head_def
    by (intro frame_bind) (simp add: dict_simps)
next
  case (Decide_suggestion i st u at x)
  define s' where "s' = s\<lparr>sd := dsetdefault (sd s) ''network_suggestions'' (JObj [])\<rparr>"
  have "frame [''network_suggestions''] s (Inr s')" by (simp add: s'_def frame_dsetdefault)
  then show ?thesis unfolding Decide_suggestion exec.simps async_set_suggestion_decision_def touches.simps Let_def
      frame_then_save s'_def [symmetric]
    by (rule frame_trans) (simp add: frame_on_table frame_pop split: option.split)
qed (simp_all add: async_update_settings_def async_set_user_dashboard_policy_def frame_purge
    async_set_user_panel_layout_def async_upsert_finding_def async_upsert_detection_def
    async_note_detection_pass_completed_def async_set_unifi_ssh_def async_set_unifi_ledger_def
    async_set_host_probe_result_def async_set_snmp_status_def async_set_netscan_result_def
    async_set_syslog_receiver_status_def async_request_netscan_rescan_def
    async_set_peripheral_ignored_def frame_on_table frame_pop dict_simps)

lemma exec_frame: "exec c s = Inr s' \<Longrightarrow> k \<notin> set (touches c) \<Longrightarrow> dget (sd s') k = dget (sd s) k"
  using frame_exec [of c s] by simp

lemma exec_ring_in_main: "exec c s = Inr s' \<Longrightarrow> ring_in_main s' = ring_in_main s"
  using frame_exec [of c s] by simp

section \<open>Heads\<close>

definition head_no :: "json option \<Rightarrow> int option" where
  "head_no v =
     (case Option.bind v as_obj of None \<Rightarrow> None
      | Some h \<Rightarrow> (case dget h ''seq'' of Some (JInt q) \<Rightarrow> Some q | _ \<Rightarrow> None))"

definition audit_no :: "soc_store \<Rightarrow> int option" where
  "audit_no s = head_no (dget (sd s) ''audit_head'')"

definition source_no :: "string \<Rightarrow> soc_store \<Rightarrow> int option" where
  "source_no src s = head_no (Option.bind (Option.bind (dget (sd s) ''external_audit_heads'') as_obj) (\<lambda>t. dget t src))"

text \<open>An absent position may become any; a known one only grows.\<close>

definition advances :: "int option \<Rightarrow> int option \<Rightarrow> bool" where
  "advances a b \<longleftrightarrow> (\<forall>q. a = Some q \<longrightarrow> (\<exists>q'. b = Some q' \<and> q \<le> q'))"

lemma advances_refl [simp]: "advances a a"
  by (simp add: advances_def)

lemma advances_trans: "advances a b \<Longrightarrow> advances b c \<Longrightarrow> advances a c"
  by (fastforce simp: advances_def)

lemma head_no_JObj [simp]: "dget h ''seq'' = Some (JInt q) \<Longrightarrow> head_no (Some (JObj h)) = Some q"
  by (simp add: head_no_def)

lemma head_no_None [simp]: "head_no None = None" "head_no (Some JNull) = None"
  by (simp_all add: head_no_def)

lemma audit_head_advances:
  assumes "store_shaped (sd s)" "seq_head (JObj h)" "async_set_audit_head h s = Inr s'"
  shows "advances (audit_no s) (audit_no s')"
  using assms(1)
proof (cases rule: shaped_head)
  case 1
  then show ?thesis by (simp add: audit_no_def advances_def)
next
  case (2 old q)
  from assms(2) obtain n where n: "dget h ''seq'' = Some (JInt n)" by (auto simp: seq_head_JObj)
  with 2 have "head_regresses h (dget_null (sd s) ''audit_head'') = Inr (n \<le> q)"
    by (simp add: head_regresses_def dget_default_def seq_regresses_ok)
  with assms(3) 2 n show ?thesis
    by (auto simp: async_set_audit_head_def audit_no_def advances_def dict_simps split: if_splits)
qed

lemma source_head_advances:
  assumes "store_shaped (sd s)" "seq_head (JObj h)" "async_set_external_audit_head src h s = Inr s'"
  shows "advances (source_no src' s) (source_no src' s')"
  using assms(1)
proof (cases rule: shaped_heads)
  case (1 t)
  from assms(2) obtain n where n: "dget h ''seq'' = Some (JInt n)" by (auto simp: seq_head_JObj)
  have d: "dsetdefault (sd s) ''external_audit_heads'' (JObj []) = sd s" using 1 by (simp add: dsetdefault_def)
  note r = assms(3) [unfolded async_set_external_audit_head_def Let_def d]
  show ?thesis
  proof (cases "dget t src")
    case None
    with r 1 show ?thesis by (auto simp: dget_default_def source_no_def advances_def dict_simps)
  next
    case (Some v)
    then have "seq_head v" by (rule rows_get [OF 1(2)])
    then obtain c q where v: "v = JObj c" "dget c ''seq'' = Some (JInt q)" by (auto elim: seq_headE)
    with Some r 1 n show ?thesis
      by (auto simp: dget_default_def source_no_def advances_def dict_simps seq_regresses_ok split: if_splits)
  qed
qed

lemma exec_heads:
  assumes "store_shaped (sd s)" "cmd_ok c" "exec c s = Inr s'"
  shows "advances (audit_no s) (audit_no s')" "advances (source_no src s) (source_no src s')"
proof -
  show "advances (audit_no s) (audit_no s')"
  proof (cases "''audit_head'' \<in> set (touches c)")
    case True
    then obtain h where "c = Set_audit_head h"
      using assms(2) by (cases c) (auto simp: EVIDENCE_FINDING_TABLES_def)
    then show ?thesis using assms audit_head_advances by simp
  qed (simp add: audit_no_def exec_frame [OF assms(3)])
  show "advances (source_no src s) (source_no src s')"
  proof (cases "''external_audit_heads'' \<in> set (touches c)")
    case True
    then obtain a h where "c = Set_external_head a h"
      using assms(2) by (cases c) (auto simp: EVIDENCE_FINDING_TABLES_def)
    then show ?thesis using assms source_head_advances by simp
  qed (simp add: source_no_def exec_frame [OF assms(3)])
qed

section \<open>Sequences of commands\<close>

fun exec_all :: "store_cmd list \<Rightarrow> soc_store \<Rightarrow> soc_store res" where
  "exec_all [] s = Inr s"
| "exec_all (c # cs) s = bind_res (exec c s) (exec_all cs)"

lemma exec_step:
  assumes "store_shaped (sd s)" "cmd_ok c"
  obtains s' where "exec c s = Inr s'" "store_shaped (sd s')"
  using keeps_exec [OF assms] by (auto elim: keepsE)

lemma exec_all_run:
  assumes "store_shaped (sd s)" "list_all cmd_ok cs"
    "\<And>c s s'. store_shaped (sd s) \<Longrightarrow> cmd_ok c \<Longrightarrow> exec c s = Inr s' \<Longrightarrow> Q s \<Longrightarrow> Q s'" "Q s"
  shows "\<exists>s'. exec_all cs s = Inr s' \<and> store_shaped (sd s') \<and> Q s'"
  using assms(1,2,4)
proof (induction cs arbitrary: s)
  case (Cons c cs)
  then have c: "cmd_ok c" by simp
  obtain s1 where s1: "exec c s = Inr s1" "store_shaped (sd s1)" using exec_step [OF Cons.prems(1) c] .
  with assms(3) [OF Cons.prems(1) c s1(1)] Cons show ?case by simp
qed simp

section \<open>Bounds\<close>

definition lists_bounded :: "soc_store \<Rightarrow> bool" where
  "lists_bounded s \<longleftrightarrow>
     (\<forall>xs. dget (sd s) ''posture_history'' = Some (JArr xs) \<longrightarrow> length xs \<le> POSTURE_MAX_DAYS)
     \<and> (\<forall>xs. dget (sd s) ''syslog_receiver_entries'' = Some (JArr xs) \<longrightarrow> length xs \<le> SYSLOG_RECEIVER_MAX_ENTRIES)"

lemma lists_bounded_exec:
  assumes "store_shaped (sd s)" "cmd_ok c" "exec c s = Inr s'" "lists_bounded s"
  shows "lists_bounded s'"
proof (cases c)
  case (Append_snapshot x)
  obtain h where "dget (sd s) ''posture_history'' = Some (JArr h)" using shaped_list [OF assms(1)] by blast
  with assms Append_snapshot show ?thesis
    by (auto simp: async_append_posture_snapshot_def item_def lists_bounded_def dict_simps)
next
  case (Append_syslog es)
  obtain b where "dget (sd s) ''syslog_receiver_entries'' = Some (JArr b)" using shaped_list [OF assms(1)] by blast
  with assms Append_syslog show ?thesis
    by (auto simp: async_append_syslog_entries_def Let_def dsetdefault_def dget_default_def lists_bounded_def
        dict_simps split: if_splits)
qed (use assms exec_frame [OF assms(3)] in \<open>auto simp: lists_bounded_def EVIDENCE_FINDING_TABLES_def\<close>)

section \<open>Decisions on rows\<close>

definition row :: "soc_store \<Rightarrow> string \<Rightarrow> string \<Rightarrow> dict option" where
  "row s t i = Option.bind (Option.bind (dget (sd s) t) as_obj) (\<lambda>tb. Option.bind (dget tb i) as_obj)"

definition decision_keys :: "string list" where
  "decision_keys = [''status'', ''status_by'', ''status_at'', ''note'', ''first_seen'']"

lemma dget_keep_finding_state:
  "dget (keep_finding_state old f) k =
     (if k = ''first_seen'' then Some (dget_default old ''first_seen'' (dget_null f ''first_seen''))
      else if k = ''note'' then Some (dget_null old ''note'')
      else if k = ''status_at'' then Some (dget_null old ''status_at'')
      else if k = ''status_by'' then Some (dget_null old ''status_by'')
      else if k = ''status'' then Some (dget_default old ''status'' (JStr ''new''))
      else dget f k)"
  unfolding keep_finding_state_def Let_def dget_dset dget_default_simps by simp

lemma keep_finding_state_keys:
  assumes "k \<in> set decision_keys" "dget old k = Some v"
  shows "dget (keep_finding_state old f) k = Some v"
proof -
  have "k = ''status'' \<or> k = ''status_by'' \<or> k = ''status_at'' \<or> k = ''note'' \<or> k = ''first_seen''"
    using assms(1) by (simp add: decision_keys_def)
  then show ?thesis
    by (elim disjE; use assms(2) in \<open>simp add: dget_keep_finding_state dget_default_Some\<close>)
qed

lemma upsert_finding_keeps:
  assumes "store_shaped (sd s)" "t \<in> set EVIDENCE_FINDING_TABLES" "async_upsert_finding t j f s = Inr s'"
    "row s t i = Some r" "k \<in> set decision_keys" "dget r k = Some v"
  shows "\<exists>r'. row s' t i = Some r' \<and> dget r' k = Some v"
proof -
  obtain tb where tb: "dget (sd s) t = Some (JObj tb)" "rows_ok is_obj tb"
    by (rule shaped_row_table [OF assms(1) row_names(4) [OF assms(2)]])
  with assms(4) have r: "dget tb i = Some (JObj r)"
    by (cases "dget tb i") (auto simp: row_def elim: as_obj.elims)
  then have e: "entry tb i = Some (JObj r)" by (simp add: entry_def)
  obtain tb' where tb': "upsert_finding_in j f tb = Inr tb'" "dget (sd s') t = Some (JObj tb')"
    using assms(3) tb by (auto simp: async_upsert_finding_def then_save_def on_table_def item_def bind_res_Inr dict_simps)
  show ?thesis
  proof (cases "j = i")
    case True
    with tb' e have "dget tb' i = Some (JObj (keep_finding_state r f))"
      by (auto simp: upsert_finding_in_def dict_simps)
    with tb'(2) keep_finding_state_keys [OF assms(5,6)] show ?thesis by (simp add: row_def)
  next
    case False
    with tb' r have "dget tb' i = Some (JObj r)"
      by (auto simp: upsert_finding_in_def dict_simps bind_res_Inr split: option.splits)
    with tb'(2) assms(6) show ?thesis by (simp add: row_def)
  qed
qed

text \<open>The one command that decides on row \<open>i\<close> of table \<open>t\<close>.\<close>

fun decides :: "store_cmd \<Rightarrow> string \<Rightarrow> string \<Rightarrow> bool" where
  "decides (Set_finding_status t i st u n at) t' i' = (t = t' \<and> i = i')"
| "decides _ t i = False"

lemma finding_status_other:
  assumes "store_shaped (sd s)" "async_set_finding_status t j st u n at s = Inr s'" "j \<noteq> i"
    "row s t i = Some r"
  shows "row s' t i = Some r"
  using assms(2,4) assms(3)
  by (auto simp: async_set_finding_status_def row_def item_def bind_res_Inr as_table_Inr dict_simps
      split: option.splits)

lemma exec_keeps_decision:
  assumes "store_shaped (sd s)" "cmd_ok c" "exec c s = Inr s'" "t \<in> set EVIDENCE_FINDING_TABLES"
    "\<not> decides c t i" "row s t i = Some r" "k \<in> set decision_keys" "dget r k = Some v"
  shows "\<exists>r'. row s' t i = Some r' \<and> dget r' k = Some v"
proof (cases "t \<in> set (touches c)")
  case False
  then have "row s' t i = row s t i" by (simp add: row_def exec_frame [OF assms(3)])
  with assms show ?thesis by simp
next
  case True
  have "(\<exists>j f. c = Upsert_finding t j f) \<or> (\<exists>j st u n at. c = Set_finding_status t j st u n at)"
    using True assms(4) by (cases c) (auto simp: EVIDENCE_FINDING_TABLES_def)
  then show ?thesis
  proof (elim disjE exE)
    fix j f assume "c = Upsert_finding t j f"
    then show ?thesis using upsert_finding_keeps [OF assms(1,4) _ assms(6-8)] assms(3) by simp
  next
    fix j st u n at assume "c = Set_finding_status t j st u n at"
    then show ?thesis using finding_status_other [OF assms(1) _ _ assms(6)] assms(3,5,8) by auto
  qed
qed

section \<open>Pruning\<close>

text \<open>Which rows a table loses: closed, and with a readable time before the cutoff.\<close>

definition gone :: "string list \<Rightarrow> (string \<Rightarrow> moment option) \<Rightarrow> int \<Rightarrow> string list \<Rightarrow> string \<times> json \<Rightarrow> bool" where
  "gone closed parse cutoff fallback p =
     (case snd p of
        JObj r \<Rightarrow> dget_null r ''status'' \<in> JStr ` set closed \<and> is_expired parse cutoff fallback r = Inr True
      | _ \<Rightarrow> False)"

lemma foldl_ddel: "foldl ddel t ids = filter (\<lambda>p. fst p \<notin> set ids) t"
  by (induction ids arbitrary: t) (auto simp: ddel_def intro: filter_cong)

lemma expired_ids_eq:
  "expired_ids closed parse cutoff fb t = Inr ids \<Longrightarrow> ids = map fst (filter (gone closed parse cutoff fb) t)"
proof (induction t arbitrary: ids)
  case (Cons p t)
  from Cons.prems obtain r x ks where r: "snd p = JObj r" and
    x: "(if dget_null r ''status'' \<in> JStr ` set closed then is_expired parse cutoff fb r else Inr False) = Inr x"
    and ks: "expired_ids closed parse cutoff fb t = Inr ks" "ids = (if x then fst p # ks else ks)"
    unfolding expired_ids.simps bind_res_Inr as_table_Inr by blast
  have "gone closed parse cutoff fb p = x"
    using x r by (cases "dget_null r ''status'' \<in> JStr ` set closed") (simp_all add: gone_def)
  then show ?case using Cons.IH [OF ks(1)] ks(2) by simp
qed simp

lemma expired_rows:
  assumes "expired_ids closed parse cutoff fb t = Inr ids" "distinct_keys t"
  shows "foldl ddel t ids = filter (\<lambda>p. \<not> gone closed parse cutoff fb p) t"
    "length ids = length (filter (gone closed parse cutoff fb) t)"
proof -
  note ids = expired_ids_eq [OF assms(1)]
  have "fst p \<notin> set ids \<longleftrightarrow> \<not> gone closed parse cutoff fb p" if "p \<in> set t" for p
  proof
    assume "fst p \<notin> set ids"
    then show "\<not> gone closed parse cutoff fb p" using that by (auto simp: ids)
  next
    assume g: "\<not> gone closed parse cutoff fb p"
    have "q = p" if "q \<in> set t" "fst q = fst p" for q
      using that \<open>p \<in> set t\<close> assms(2) by (metis distinct_map inj_on_def)
    with g show "fst p \<notin> set ids" unfolding ids by auto
  qed
  then show "foldl ddel t ids = filter (\<lambda>p. \<not> gone closed parse cutoff fb p) t"
    unfolding foldl_ddel by (intro filter_cong refl)
  show "length ids = length (filter (gone closed parse cutoff fb) t)" by (simp add: ids)
qed

definition prune_rule :: "string \<Rightarrow> (string list \<times> string list) option" where
  "prune_rule k =
     (if k = ''detections'' then Some ([''resolved''], [''last_seen'', ''ts''])
      else if k \<in> set EVIDENCE_FINDING_TABLES
           then Some ([''resolved'', ''dismissed''], [''last_seen'', ''first_seen''])
      else None)"

definition prune_field :: "(string \<Rightarrow> moment option) \<Rightarrow> int \<Rightarrow> string \<Rightarrow> json \<Rightarrow> json" where
  "prune_field parse cutoff k v =
     (case (prune_rule k, v) of
        (Some (closed, fb), JObj t) \<Rightarrow> JObj (filter (\<lambda>p. \<not> gone closed parse cutoff fb p) t)
      | _ \<Rightarrow> v)"

lemma prune_table_eq:
  assumes "store_shaped (sd s)" "k \<in> set ROW_TABLES" "prune_rule k = Some (closed, fb)"
    "prune_table k closed fb parse cutoff s = Inr (s', n)"
  shows "dget (sd s') k' = (if k' = k then map_option (prune_field parse cutoff k) (dget (sd s) k) else dget (sd s) k')"
    "store_shaped (sd s')"
proof -
  obtain t where t: "dget (sd s) k = Some (JObj t)" "rows_ok is_obj t" by (rule shaped_row_table [OF assms(1,2)])
  obtain ids where ids: "expired_ids closed parse cutoff fb t = Inr ids"
    "s' = s\<lparr>sd := dset (sd s) k (JObj (foldl ddel t ids))\<rparr>"
    using assms(4) t by (auto simp: prune_table_def item_def bind_res_Inr)
  have f: "foldl ddel t ids = filter (\<lambda>p. \<not> gone closed parse cutoff fb p) t"
    by (rule expired_rows [OF ids(1) rows_distinct [OF t(2)]])
  then have "rows_ok is_obj (foldl ddel t ids)"
    using t(2) by (auto simp: rows_ok_def list_all_iff distinct_map_filter)
  then show "store_shaped (sd s')" using ids(2) assms by (simp add: shaped_dset)
  show "dget (sd s') k' = (if k' = k then map_option (prune_field parse cutoff k) (dget (sd s) k) else dget (sd s) k')"
    using ids(2) t(1) assms(3) f by (simp add: prune_field_def dict_simps)
qed

lemma prune_findings_eq:
  assumes "store_shaped (sd s)" "set ks \<subseteq> set EVIDENCE_FINDING_TABLES" "distinct ks"
    "prune_findings ks parse cutoff s = Inr (s', m)"
  shows "(\<forall>k. dget (sd s') k = (if k \<in> set ks then map_option (prune_field parse cutoff k) (dget (sd s) k)
     else dget (sd s) k)) \<and> store_shaped (sd s')"
  using assms
proof (induction ks arbitrary: s m)
  case (Cons k ks)
  from Cons.prems(4) obtain s1 n m1 where s1:
    "prune_table k [''resolved'', ''dismissed''] [''last_seen'', ''first_seen''] parse cutoff s = Inr (s1, n)"
    "prune_findings ks parse cutoff s1 = Inr (s', m1)"
    by (auto simp: bind_res_Inr)
  have k: "k \<in> set EVIDENCE_FINDING_TABLES" "k \<noteq> ''detections''"
    using Cons.prems(2) by (auto simp: EVIDENCE_FINDING_TABLES_def)
  then have r: "prune_rule k = Some ([''resolved'', ''dismissed''], [''last_seen'', ''first_seen''])"
    by (simp add: prune_rule_def)
  note t = prune_table_eq [OF Cons.prems(1) row_names(4) [OF k(1)] r s1(1)]
  have "set ks \<subseteq> set EVIDENCE_FINDING_TABLES" "distinct ks" "k \<notin> set ks" using Cons.prems by auto
  with Cons.IH [OF t(2) _ _ s1(2)] show ?case by (auto simp: t(1))
qed simp

lemma prune_evidence_eq:
  assumes "store_shaped (sd s)" "async_prune_evidence parse now s = Inr (s', removed)"
  obtains cutoff where "evidence_cutoff now s = Inr cutoff"
    "\<And>k. dget (sd s') k = map_option (prune_field parse cutoff k) (dget (sd s) k)" "store_shaped (sd s')"
proof -
  from assms(2) obtain cutoff s1 n s2 m where
    s: "evidence_cutoff now s = Inr cutoff"
    "prune_table ''detections'' [''resolved''] [''last_seen'', ''ts''] parse cutoff s = Inr (s1, n)"
    "prune_findings EVIDENCE_FINDING_TABLES parse cutoff s1 = Inr (s2, m)" "sd s' = sd s2"
    by (auto simp: async_prune_evidence_def bind_res_Inr Let_def split: if_splits)
  have r: "prune_rule ''detections'' = Some ([''resolved''], [''last_seen'', ''ts''])" by (simp add: prune_rule_def)
  note t = prune_table_eq [OF assms(1) row_names(2) r s(2)]
  have d: "distinct EVIDENCE_FINDING_TABLES" "''detections'' \<notin> set EVIDENCE_FINDING_TABLES" by code_simp+
  note f = prune_findings_eq [OF t(2) subset_refl d(1) s(3)]
  have "prune_field parse cutoff k v = v" if "k \<noteq> ''detections''" "k \<notin> set EVIDENCE_FINDING_TABLES" for k v
    using that by (simp add: prune_field_def prune_rule_def)
  then have "dget (sd s') k = map_option (prune_field parse cutoff k) (dget (sd s) k)" for k
    using f d(2) s(4) t(1) by (cases "dget (sd s) k") auto
  then show ?thesis using that s(1,4) f by auto
qed

text \<open>It returns a result when every row's times are texts, and those that parse carry an offset.\<close>

definition stamps_ok :: "(string \<Rightarrow> moment option) \<Rightarrow> json \<Rightarrow> bool" where
  "stamps_ok parse v =
     (case v of
        JObj r \<Rightarrow> list_all (\<lambda>k. case dget_null r k of
            JStr t \<Rightarrow> (case parse t of Some (Naive x) \<Rightarrow> False | _ \<Rightarrow> True) | x \<Rightarrow> \<not> truthy x)
          [''status_at'', ''last_seen'', ''ts'', ''first_seen'']
      | _ \<Rightarrow> False)"

lemma first_moment_ok:
  assumes "stamps_ok parse (JObj r)" "set ks \<subseteq> {''status_at'', ''last_seen'', ''ts'', ''first_seen''}"
  shows "\<exists>m. first_moment parse r ks = Inr m \<and> (\<forall>x. m \<noteq> Some (Naive x))"
  using assms(2)
proof (induction ks)
  case (Cons k ks)
  have "case dget_null r k of JStr t \<Rightarrow> (case parse t of Some (Naive x) \<Rightarrow> False | _ \<Rightarrow> True) | x \<Rightarrow> \<not> truthy x"
    using assms(1) Cons.prems by (auto simp: stamps_ok_def)
  with Cons show ?case
    by (cases "dget_null r k") (auto simp: Let_def split: option.splits moment.splits)
qed simp

lemma expired_ids_ok:
  assumes "list_all (\<lambda>p. stamps_ok parse (snd p)) t"
    "set fb \<subseteq> {''status_at'', ''last_seen'', ''ts'', ''first_seen''}"
  shows "\<exists>ids. expired_ids closed parse cutoff fb t = Inr ids"
  using assms(1)
proof (induction t)
  case (Cons p t)
  then obtain r where r: "snd p = JObj r" "stamps_ok parse (JObj r)"
    by (cases "snd p") (auto simp: stamps_ok_def)
  obtain m where m: "first_moment parse r (''status_at'' # fb) = Inr m" "\<forall>x. m \<noteq> Some (Naive x)"
    using first_moment_ok [OF r(2), of "''status_at'' # fb"] assms(2) by auto
  have "\<exists>b. is_expired parse cutoff fb r = Inr b"
  proof (cases m)
    case (Some t)
    with m obtain x where "t = Aware x" by (cases t) auto
    with m Some show ?thesis by (simp add: is_expired_def del: first_moment.simps)
  next
    case None
    with m show ?thesis unfolding is_expired_def by (simp del: first_moment.simps add: ex_bool_eq)
  qed
  with Cons r show ?case by auto
qed simp

end
