(* ===== verification/StoreDisk.thy ===== *)
theory StoreDisk
  imports StoreProps
begin

text \<open>
  Persistence of the store (\<open>store.py\<close>): the two payloads, the counted write failures of
  \<open>HaSocStore\<close>, writing now and flushing, loading with its migrations, and the move of the syslog
  ring from the main file to its own. Home Assistant's \<open>Store\<close> is not in the repository: what a
  write does (\<open>write_reply\<close>), whether \<open>async_save\<close> reaches the write and what escapes from it
  (\<open>save_reply\<close>) are arguments. A file is the payload last written to it.
\<close>

section \<open>State\<close>

definition RING_FIELD :: string where "RING_FIELD = ''syslog_receiver_entries''"

definition TLS_VERIFY_PAIRS :: "(string \<times> string) list" where
  "TLS_VERIFY_PAIRS =
     [(''unifi_network_host'', ''unifi_network_verify_ssl''),
      (''unifi_protect_host'', ''unifi_protect_verify_ssl''),
      (''pihole_host'', ''pihole_verify_ssl''),
      (''technitium_host'', ''technitium_verify_ssl'')]"

text \<open>
  A write works, fails with one of the errors \<open>_async_write_data\<close> catches, or with another. The
  in-flight fields hold the payload of a write that has begun and not ended.
\<close>

datatype write_reply = Wrote | Write_failed string | Write_other string

record save_reply =
  sr_write :: "write_reply option"
  sr_raises :: "string option"

record store_sys =
  mem :: soc_store
  main_file :: "dict option"
  ring_file :: "dict option"
  save_failures :: nat
  last_save_error :: "string option"
  main_writing :: "dict option"
  ring_writing :: "dict option"

section \<open>Payloads and writes\<close>

definition main_payload :: "soc_store \<Rightarrow> dict" where
  "main_payload s = (if ring_in_main s then sd s else ddel (sd s) RING_FIELD)"

definition ring_payload :: "soc_store \<Rightarrow> soc_store \<times> dict" where
  "ring_payload s =
     (s\<lparr>ring_dirty := False\<rparr>, [(''entries'', or_else (dget_null (sd s) RING_FIELD) (JArr []))])"

definition on_ring_write_result :: "bool \<Rightarrow> soc_store \<Rightarrow> soc_store" where
  "on_ring_write_result ok s =
     (if ok then s\<lparr>ring_in_main := False\<rparr>
      else if ring_flushing s then s\<lparr>ring_dirty := True\<rparr>
      else s\<lparr>ring_dirty := True, ring_scheduled := True\<rparr>)"

text \<open>\<open>_async_write_data\<close> of the main store, which has no result callback, and of the ring store.\<close>

definition write_main :: "write_reply \<Rightarrow> dict \<Rightarrow> store_sys \<Rightarrow> store_sys" where
  "write_main r data x =
     (case r of
        Wrote \<Rightarrow> x\<lparr>main_file := Some data\<rparr>
      | Write_failed e \<Rightarrow> x\<lparr>save_failures := save_failures x + 1, last_save_error := Some e\<rparr>
      | Write_other e \<Rightarrow> x)"

definition write_ring :: "write_reply \<Rightarrow> dict \<Rightarrow> store_sys \<Rightarrow> store_sys" where
  "write_ring r data x =
     (case r of
        Wrote \<Rightarrow> x\<lparr>ring_file := Some data, mem := on_ring_write_result True (mem x)\<rparr>
      | Write_failed e \<Rightarrow> x\<lparr>mem := on_ring_write_result False (mem x)\<rparr>
      | Write_other e \<Rightarrow> x)"

text \<open>\<open>async_save\<close> of the core: the pending save is cleared before the write.\<close>

definition save_main :: "save_reply \<Rightarrow> dict \<Rightarrow> store_sys \<Rightarrow> store_sys" where
  "save_main r data x =
     (let x1 = x\<lparr>mem := (mem x)\<lparr>save_scheduled := False\<rparr>\<rparr>
      in case sr_write r of None \<Rightarrow> x1 | Some w \<Rightarrow> write_main w data x1)"

definition save_ring :: "save_reply \<Rightarrow> dict \<Rightarrow> store_sys \<Rightarrow> store_sys" where
  "save_ring r data x =
     (let x1 = x\<lparr>mem := (mem x)\<lparr>ring_scheduled := False\<rparr>\<rparr>
      in case sr_write r of None \<Rightarrow> x1 | Some w \<Rightarrow> write_ring w data x1)"

definition save_error :: "string \<Rightarrow> string" where
  "save_error e = ''Could not save the HA SOC store: '' @ e"

text \<open>The result is the text of the \<open>StoreSaveError\<close> that is raised, if one is.\<close>

definition async_write_now :: "bool \<Rightarrow> save_reply \<Rightarrow> store_sys \<Rightarrow> store_sys \<times> string option" where
  "async_write_now rearm r x =
     (let x1 = save_main r (main_payload (mem x)) x;
          error = (case sr_raises r of
              Some e \<Rightarrow> Some (save_error e)
            | None \<Rightarrow>
                if save_failures x1 \<noteq> save_failures x
                then Some (save_error (case last_save_error x1 of None \<Rightarrow> ''None'' | Some e \<Rightarrow> e))
                else None)
      in (if error \<noteq> None \<and> rearm then x1\<lparr>mem := schedule_save (mem x1)\<rparr> else x1, error))"

definition async_save_now :: "save_reply \<Rightarrow> store_sys \<Rightarrow> store_sys \<times> string option" where
  "async_save_now r x = async_write_now True r x"

definition async_flush_ring :: "save_reply \<Rightarrow> store_sys \<Rightarrow> store_sys" where
  "async_flush_ring r x =
     (if \<not> ring_dirty (mem x) then x
      else
        (let (m, data) = ring_payload ((mem x)\<lparr>ring_flushing := True\<rparr>);
             x1 = save_ring r data (x\<lparr>mem := m\<rparr>);
             x2 = (if sr_raises r \<noteq> None then x1\<lparr>mem := (mem x1)\<lparr>ring_dirty := True\<rparr>\<rparr> else x1)
         in x2\<lparr>mem := (mem x2)\<lparr>ring_flushing := False\<rparr>\<rparr>))"

text \<open>\<open>async_flush\<close>, with the replies to its two writes; an error is logged.\<close>

definition async_flush_store :: "save_reply \<Rightarrow> save_reply \<Rightarrow> store_sys \<Rightarrow> store_sys" where
  "async_flush_store r1 r2 x = async_flush_ring r2 (fst (async_write_now False r1 x))"

section \<open>Loading\<close>

definition migrate_learning_rule :: "json \<Rightarrow> string \<Rightarrow> dict \<Rightarrow> dict res" where
  "migrate_learning_rule legacy rule th =
     bind_res (as_table AttributeError (dget_default th rule (JObj []))) (\<lambda>r.
       Inr (dset th rule (JObj (dsetdefault r ''learning_days'' legacy))))"

definition migrate_legacy_learning_period :: "dict \<Rightarrow> dict res" where
  "migrate_legacy_learning_period st =
     (let legacy = dget_null st ''risk_learning_period_days'';
          st1 = ddel st ''risk_learning_period_days''
      in if legacy = JNull then Inr st1
         else bind_res (as_table AttributeError (dget_default st1 ''detection_thresholds'' (JObj []))) (\<lambda>th.
           bind_res (migrate_learning_rule legacy ''new_ip_login'' th) (\<lambda>th.
             bind_res (migrate_learning_rule legacy ''off_hours_anomaly'' th) (\<lambda>th.
               Inr (dset st1 ''detection_thresholds'' (JObj th))))))"

definition pin_legacy_tls_verification :: "dict \<Rightarrow> dict \<Rightarrow> dict" where
  "pin_legacy_tls_verification merged stored =
     foldl (\<lambda>m (h, v). if truthy (dget_null stored h) \<and> dget stored v = None then dset m v (JBool False) else m)
       merged TLS_VERIFY_PAIRS"

text \<open>A stored settings value that is neither an object nor empty is no dict to update from.\<close>

definition stored_settings :: "dict \<Rightarrow> dict res" where
  "stored_settings stored = as_table TypeError (or_else (dget_null stored ''settings'') (JObj []))"

definition merge_stored :: "dict \<Rightarrow> dict res" where
  "merge_stored stored =
     bind_res (stored_settings stored) (\<lambda>st.
       bind_res (migrate_legacy_learning_period (dupdate default_settings st)) (\<lambda>merged.
         Inr (dset (dupdate default_store_data stored) ''settings''
                (JObj (pin_legacy_tls_verification merged st)))))"

text \<open>
  The list in the stored ring file, and the legacy list in the main one, if there is a use for
  either.
\<close>

definition list_of :: "json \<Rightarrow> json list option" where
  "list_of v = (case v of JArr xs \<Rightarrow> Some xs | _ \<Rightarrow> None)"

definition async_load_ring :: "save_reply \<Rightarrow> dict option \<Rightarrow> json \<Rightarrow> store_sys \<Rightarrow> store_sys" where
  "async_load_ring r stored legacy x =
     (let set_ring = (\<lambda>xs m. m\<lparr>sd := dset (sd m) RING_FIELD (JArr (keep_newest SYSLOG_RECEIVER_MAX_ENTRIES xs))\<rparr>)
      in case Option.bind stored (\<lambda>d. list_of (dget_null d ''entries'')) of
           Some xs \<Rightarrow> x\<lparr>mem := set_ring xs (mem x)\<rparr>
         | None \<Rightarrow>
             (case list_of legacy of
                Some (y # ys) \<Rightarrow>
                  (let x1 = async_flush_ring r
                     (x\<lparr>mem := (set_ring (y # ys) (mem x))\<lparr>ring_in_main := True, ring_dirty := True\<rparr>\<rparr>)
                   in if ring_in_main (mem x1) then x1 else x1\<lparr>mem := schedule_save (mem x1)\<rparr>)
              | _ \<Rightarrow> x\<lparr>mem := set_ring [] (mem x)\<rparr>))"

text \<open>
  \<open>async_load\<close> on a fresh \<open>HaSocData\<close> over the files as they are; the result says whether there
  was a save.
\<close>

definition store_over :: "dict option \<Rightarrow> dict option \<Rightarrow> store_sys" where
  "store_over main ring =
     \<lparr>mem = new_store, main_file = main, ring_file = ring, save_failures = 0, last_save_error = None,
      main_writing = None, ring_writing = None\<rparr>"

definition async_load :: "save_reply \<Rightarrow> dict option \<Rightarrow> dict option \<Rightarrow> (store_sys \<times> bool) res" where
  "async_load r main ring =
     (case main of
        None \<Rightarrow> Inr (async_load_ring r ring JNull (store_over main ring), False)
      | Some stored \<Rightarrow>
          bind_res (merge_stored stored) (\<lambda>d.
            Inr (async_load_ring r ring (dget_null stored RING_FIELD)
                   ((store_over main ring)\<lparr>mem := new_store\<lparr>sd := d\<rparr>\<rparr>), True)))"

section \<open>Steps\<close>

text \<open>
  A write is two steps: the payload is taken, and later the write ends; commands and the other
  file's write may come between. Delayed and direct writes have the same two steps.
\<close>

definition begin_main :: "store_sys \<Rightarrow> store_sys" where
  "begin_main x = x\<lparr>mem := (mem x)\<lparr>save_scheduled := False\<rparr>, main_writing := Some (main_payload (mem x))\<rparr>"

definition end_main :: "write_reply \<Rightarrow> dict \<Rightarrow> store_sys \<Rightarrow> store_sys" where
  "end_main r data x = (write_main r data x)\<lparr>main_writing := None\<rparr>"

definition begin_ring :: "bool \<Rightarrow> store_sys \<Rightarrow> store_sys" where
  "begin_ring flushing x =
     (let (m, data) = ring_payload ((mem x)\<lparr>ring_scheduled := False, ring_flushing := flushing\<rparr>)
      in x\<lparr>mem := m, ring_writing := Some data\<rparr>)"

definition end_ring :: "write_reply \<Rightarrow> dict \<Rightarrow> store_sys \<Rightarrow> store_sys" where
  "end_ring r data x =
     (let x1 = write_ring r data x in x1\<lparr>mem := (mem x1)\<lparr>ring_flushing := False\<rparr>, ring_writing := None\<rparr>)"

inductive store_step :: "store_sys \<Rightarrow> store_sys \<Rightarrow> bool" where
  command: "cmd_ok c \<Longrightarrow> exec c (mem x) = Inr s \<Longrightarrow> store_step x (x\<lparr>mem := s\<rparr>)"
| begin_main: "main_writing x = None \<Longrightarrow> store_step x (begin_main x)"
| end_main: "main_writing x = Some data \<Longrightarrow> store_step x (end_main r data x)"
| begin_ring: "ring_writing x = None \<Longrightarrow> store_step x (begin_ring flushing x)"
| end_ring: "ring_writing x = Some data \<Longrightarrow> store_step x (end_ring r data x)"

inductive_cases store_stepE: "store_step x y"

section \<open>Writing now\<close>

text \<open>The core swallows the errors the subclass counts; anything else it lets out.\<close>

definition core_save_ok :: "save_reply \<Rightarrow> bool" where
  "core_save_ok r \<longleftrightarrow>
     (case sr_write r of
        None \<Rightarrow> sr_raises r \<noteq> None
      | Some Wrote \<Rightarrow> sr_raises r = None
      | Some (Write_failed e) \<Rightarrow> True
      | Some (Write_other e) \<Rightarrow> sr_raises r \<noteq> None)"

lemma async_save_now_ok:
  assumes "core_save_ok r" "async_save_now r x = (y, None)"
  shows "main_file y = Some (main_payload (mem x))" "sd (mem y) = sd (mem x)" "\<not> save_scheduled (mem y)"
  using assms
  by (auto simp: async_save_now_def async_write_now_def save_main_def write_main_def core_save_ok_def Let_def
      split: option.splits write_reply.splits if_splits)

lemma async_save_now_error:
  assumes "core_save_ok r" "async_save_now r x = (y, Some e)"
  shows "main_file y = main_file x" "sd (mem y) = sd (mem x)" "save_scheduled (mem y)"
  using assms
  by (auto simp: async_save_now_def async_write_now_def save_main_def write_main_def core_save_ok_def Let_def
      schedule_save_def split: option.splits write_reply.splits if_splits)

section \<open>The move of the ring\<close>

text \<open>What a load would find of the ring in the two files.\<close>

definition disk_ring :: "dict option \<Rightarrow> dict option \<Rightarrow> json list" where
  "disk_ring main ring =
     (case Option.bind ring (\<lambda>d. list_of (dget_null d ''entries'')) of
        Some xs \<Rightarrow> keep_newest SYSLOG_RECEIVER_MAX_ENTRIES xs
      | None \<Rightarrow>
          (case Option.bind main (\<lambda>d. list_of (dget_null d RING_FIELD)) of
             Some xs \<Rightarrow> keep_newest SYSLOG_RECEIVER_MAX_ENTRIES xs
           | None \<Rightarrow> []))"

text \<open>A list that holds \<open>L\<close>, but for what newer entries displaced.\<close>

definition holds_ring :: "json list \<Rightarrow> json \<Rightarrow> bool" where
  "holds_ring L v \<longleftrightarrow> (\<exists>xs es. v = JArr xs
     \<and> keep_newest SYSLOG_RECEIVER_MAX_ENTRIES xs = keep_newest SYSLOG_RECEIVER_MAX_ENTRIES (L @ es))"

definition ring_inv :: "json list \<Rightarrow> store_sys \<Rightarrow> bool" where
  "ring_inv L x \<longleftrightarrow> holds_ring L (dget_null (sd (mem x)) RING_FIELD)
     \<and> (\<forall>d. ring_file x = Some d \<longrightarrow> holds_ring L (dget_null d ''entries''))
     \<and> (\<forall>d. ring_writing x = Some d \<longrightarrow> holds_ring L (dget_null d ''entries''))
     \<and> (ring_file x = None \<longrightarrow> ring_in_main (mem x)
          \<and> (\<exists>d. main_file x = Some d \<and> holds_ring L (dget_null d RING_FIELD))
          \<and> (\<forall>d. main_writing x = Some d \<longrightarrow> holds_ring L (dget_null d RING_FIELD)))"

lemma ring_inv_disk: "ring_inv L x \<Longrightarrow>
    \<exists>es. disk_ring (main_file x) (ring_file x) = keep_newest SYSLOG_RECEIVER_MAX_ENTRIES (L @ es)"
  by (cases "ring_file x") (auto simp: ring_inv_def disk_ring_def holds_ring_def list_of_def)

lemma holds_ring_payload: "holds_ring L v \<Longrightarrow> holds_ring L (or_else v (JArr []))"
  by (auto simp: holds_ring_def or_else_def)

lemma holds_ring_append:
  assumes "holds_ring L (JArr b)"
  shows "holds_ring L (JArr (keep_newest SYSLOG_RECEIVER_MAX_ENTRIES (b @ es)))"
proof -
  obtain fs where "keep_newest SYSLOG_RECEIVER_MAX_ENTRIES b = keep_newest SYSLOG_RECEIVER_MAX_ENTRIES (L @ fs)"
    using assms by (auto simp: holds_ring_def)
  then have "keep_newest SYSLOG_RECEIVER_MAX_ENTRIES (b @ es) = keep_newest SYSLOG_RECEIVER_MAX_ENTRIES (L @ fs @ es)"
    by (metis append.assoc keep_newest_append)
  then show ?thesis unfolding holds_ring_def by (metis append_Nil2 keep_newest_append)
qed

lemma ring_exec:
  assumes "holds_ring L (dget_null (sd s) RING_FIELD)" "cmd_ok c" "exec c s = Inr s'"
  shows "holds_ring L (dget_null (sd s') RING_FIELD)"
proof (cases "RING_FIELD \<in> set (touches c)")
  case True
  then obtain es where c: "c = Append_syslog es"
    using assms(2) by (cases c) (auto simp: EVIDENCE_FINDING_TABLES_def RING_FIELD_def)
  from assms(1) obtain b where b: "dget (sd s) RING_FIELD = Some (JArr b)" "holds_ring L (JArr b)"
    by (cases "dget (sd s) RING_FIELD") (auto simp: holds_ring_def dget_default_def)
  have d: "dsetdefault (sd s) RING_FIELD v = sd s" for v using b(1) by (simp add: dsetdefault_def)
  show ?thesis
  proof (cases "es = []")
    case True
    then show ?thesis using assms c by (simp add: async_append_syslog_entries_def)
  next
    case False
    have "dget (sd s') RING_FIELD = Some (JArr (keep_newest SYSLOG_RECEIVER_MAX_ENTRIES (b @ es)))"
      using assms(3) False d b(1) unfolding c exec.simps async_append_syslog_entries_def Let_def
      by (auto simp: RING_FIELD_def dget_default_def dict_simps)
    with holds_ring_append [OF b(2)] show ?thesis by (simp add: dget_default_Some)
  qed
next
  case False
  then have "dget (sd s') RING_FIELD = dget (sd s) RING_FIELD" by (rule exec_frame [OF assms(3)])
  with assms(1) show ?thesis by (simp add: dget_default_def)
qed

lemma ring_flags [simp]:
  "sd (on_ring_write_result ok s) = sd s" "ring_in_main (on_ring_write_result False s) = ring_in_main s"
  by (auto simp: on_ring_write_result_def)

lemma write_ring_inv: "ring_inv L x \<Longrightarrow> holds_ring L (dget_null data ''entries'') \<Longrightarrow> ring_inv L (write_ring r data x)"
  by (cases r) (auto simp: ring_inv_def write_ring_def)

lemma ring_inv_step:
  assumes "store_step x y" "ring_inv L x"
  shows "ring_inv L y"
  using assms(1)
proof cases
  case (command c s)
  then show ?thesis using assms(2) ring_exec [of L "mem x" c s] exec_ring_in_main [of c "mem x" s]
    by (auto simp: ring_inv_def)
next
  case begin_main
  then show ?thesis using assms(2) by (auto simp: ring_inv_def begin_main_def main_payload_def)
next
  case (end_main data r)
  then show ?thesis using assms(2) by (cases r) (auto simp: ring_inv_def end_main_def write_main_def)
next
  case (begin_ring flushing)
  then show ?thesis using assms(2) holds_ring_payload
    by (auto simp: ring_inv_def begin_ring_def ring_payload_def dget_default_def)
next
  case (end_ring data r)
  have "holds_ring L (dget_null data ''entries'')" using assms(2) end_ring(2) unfolding ring_inv_def by blast
  then have "ring_inv L (write_ring r data x)" using assms(2) by (intro write_ring_inv)
  then show ?thesis using end_ring by (auto simp: ring_inv_def end_ring_def Let_def)
qed

lemma ring_inv_steps: "store_step\<^sup>*\<^sup>* x y \<Longrightarrow> ring_inv L x \<Longrightarrow> ring_inv L y"
  by (induction rule: rtranclp_induct) (auto intro: ring_inv_step)

lemma ring_inv_flush:
  assumes "ring_inv L x"
  shows "ring_inv L (async_flush_ring r x)"
proof (cases "ring_dirty (mem x)")
  case True
  define data where "data = [(''entries'', or_else (dget_null (sd (mem x)) RING_FIELD) (JArr []))]"
  have d: "holds_ring L (dget_null data ''entries'')"
    using assms holds_ring_payload by (simp add: data_def dget_default_def ring_inv_def)
  define y where "y = x\<lparr>mem := (mem x)\<lparr>ring_flushing := True, ring_dirty := False, ring_scheduled := False\<rparr>\<rparr>"
  have "ring_inv L y" using assms by (simp add: ring_inv_def y_def)
  then have "ring_inv L (case sr_write r of None \<Rightarrow> y | Some w \<Rightarrow> write_ring w data y)"
    using d by (auto intro: write_ring_inv split: option.split)
  then have "ring_inv L (save_ring r data (x\<lparr>mem := (mem x)\<lparr>ring_flushing := True, ring_dirty := False\<rparr>\<rparr>))"
    by (cases "sr_write r") (simp_all add: save_ring_def Let_def y_def)
  then show ?thesis using True
    by (simp add: async_flush_ring_def ring_payload_def Let_def ring_inv_def data_def)
qed (simp add: async_flush_ring_def assms)

lemma ring_inv_load:
  assumes "async_load r (Some stored) None = Inr (x, ok)" "dget stored RING_FIELD = Some (JArr L)" "L \<noteq> []"
  shows "ring_inv L x"
proof -
  obtain y ys where L: "L = y # ys" using assms(3) by (cases L) auto
  obtain d where d: "merge_stored stored = Inr d"
    "x = async_load_ring r None (JArr L) ((store_over (Some stored) None)\<lparr>mem := new_store\<lparr>sd := d\<rparr>\<rparr>)"
    using assms(1,2) by (auto simp: async_load_def bind_res_Inr dget_default_def)
  define z where "z = (store_over (Some stored) None)\<lparr>mem := new_store
      \<lparr>sd := dset d RING_FIELD (JArr (keep_newest SYSLOG_RECEIVER_MAX_ENTRIES L)), ring_in_main := True, ring_dirty := True\<rparr>\<rparr>"
  have "holds_ring L (JArr L)" "holds_ring L (JArr (keep_newest SYSLOG_RECEIVER_MAX_ENTRIES L))"
    using keep_newest_append [of SYSLOG_RECEIVER_MAX_ENTRIES L "[]"]
    unfolding holds_ring_def by (auto intro!: exI [of _ "[]"])
  then have "ring_inv L z"
    using assms(2) by (simp add: ring_inv_def z_def store_over_def dict_simps dget_default_Some)
  then have f: "ring_inv L (async_flush_ring r z)" by (rule ring_inv_flush)
  have "x = (let x1 = async_flush_ring r z in if ring_in_main (mem x1) then x1 else x1\<lparr>mem := schedule_save (mem x1)\<rparr>)"
    using d(2) L by (simp add: async_load_ring_def list_of_def z_def store_over_def)
  with f show ?thesis by (auto simp: Let_def ring_inv_def)
qed

section \<open>What a load keeps\<close>

text \<open>Fields of the declared shape, possibly not all of them, with thresholds per rule.\<close>

definition stored_ok :: "dict \<Rightarrow> bool" where
  "stored_ok d \<longleftrightarrow> distinct_keys d \<and> list_all (\<lambda>p. field_ok (fst p) (snd p)) d"

definition thresholds_ok :: "dict \<Rightarrow> bool" where
  "thresholds_ok st \<longleftrightarrow> table_of is_obj (dget_default st ''detection_thresholds'' (JObj []))"

lemma migrate_ok:
  assumes "distinct_keys st" "thresholds_ok st"
  shows "\<exists>st'. migrate_legacy_learning_period st = Inr st' \<and> distinct_keys st'
     \<and> (\<forall>k. k \<noteq> ''risk_learning_period_days'' \<longrightarrow> k \<noteq> ''detection_thresholds'' \<longrightarrow> dget st' k = dget st k)
     \<and> (dget_null st ''risk_learning_period_days'' = JNull \<longrightarrow> st' = ddel st ''risk_learning_period_days'')"
proof (cases "dget_null st ''risk_learning_period_days'' = JNull")
  case True
  with assms show ?thesis by (simp add: migrate_legacy_learning_period_def Let_def dict_simps)
next
  case False
  let ?st = "ddel st ''risk_learning_period_days''" and ?l = "dget_null st ''risk_learning_period_days''"
  have m: "\<exists>th'. migrate_learning_rule l rule th = Inr th' \<and> rows_ok is_obj th'"
    if "rows_ok is_obj th" for l rule th
  proof -
    have "is_obj (dget_default th rule (JObj []))"
      using rows_get [OF that] by (simp add: dget_default_def split: option.split)
    then obtain r where "dget_default th rule (JObj []) = JObj r" "distinct_keys r" by (auto elim: is_objE)
    with that show ?thesis by (simp add: migrate_learning_rule_def)
  qed
  obtain th where th: "dget_default ?st ''detection_thresholds'' (JObj []) = JObj th" "rows_ok is_obj th"
    using assms(2) by (auto simp: thresholds_ok_def dict_simps elim: table_ofE)
  obtain th1 where th1: "migrate_learning_rule ?l ''new_ip_login'' th = Inr th1" "rows_ok is_obj th1"
    using m [OF th(2)] by blast
  obtain th2 where th2: "migrate_learning_rule ?l ''off_hours_anomaly'' th1 = Inr th2" "rows_ok is_obj th2"
    using m [OF th1(2)] by blast
  have "migrate_legacy_learning_period st = Inr (dset ?st ''detection_thresholds'' (JObj th2))"
    using False th th1 th2 by (simp add: migrate_legacy_learning_period_def Let_def)
  then show ?thesis using assms(1) False by (simp add: dict_simps)
qed

text \<open>
  Pinning sets a verify flag, to false, exactly for a connection with a host and no saved flag.
\<close>

definition pinned :: "dict \<Rightarrow> string \<Rightarrow> bool" where
  "pinned stored v \<longleftrightarrow> dget stored v = None
     \<and> (\<exists>h. (h, v) \<in> set TLS_VERIFY_PAIRS \<and> truthy (dget_null stored h))"

lemma dget_pin:
  "dget (pin_legacy_tls_verification merged stored) k =
     (if pinned stored k then Some (JBool False) else dget merged k)"
proof -
  have "dget (foldl (\<lambda>m (h, v). if truthy (dget_null stored h) \<and> dget stored v = None then dset m v (JBool False) else m)
          merged ps) k =
        (if dget stored k = None \<and> (\<exists>h. (h, k) \<in> set ps \<and> truthy (dget_null stored h)) then Some (JBool False)
         else dget merged k)" for ps
    by (induction ps arbitrary: merged) (auto simp: dict_simps)
  then show ?thesis by (simp add: pin_legacy_tls_verification_def pinned_def)
qed

lemma distinct_pin: "distinct_keys merged \<Longrightarrow> distinct_keys (pin_legacy_tls_verification merged stored)"
proof -
  have "distinct_keys merged \<Longrightarrow>
    distinct_keys (foldl (\<lambda>m (h, v). if truthy (dget_null stored h) \<and> dget stored v = None then dset m v (JBool False) else m) merged ps)" for ps
    by (induction ps arbitrary: merged) auto
  then show "distinct_keys merged \<Longrightarrow> ?thesis" by (simp add: pin_legacy_tls_verification_def)
qed

lemma stored_field: "stored_ok d \<Longrightarrow> dget d k = Some v \<Longrightarrow> field_ok k v"
  by (auto simp: stored_ok_def list_all_iff dest!: map_of_SomeD)

lemma default_settings_facts: "distinct_keys default_settings" "thresholds_ok default_settings"
  "dget default_settings ''risk_learning_period_days'' = None"
  by code_simp+

lemma merged_shaped: "stored_ok d \<Longrightarrow> store_shaped (dupdate default_store_data d)"
proof -
  assume d: "stored_ok d"
  have "case dget (dupdate default_store_data d) k of None \<Rightarrow> False | Some v \<Rightarrow> field_ok k v"
    if k: "k \<in> set (map fst default_store_data)" for k
  proof (cases "dget d k")
    case None
    obtain v where "dget default_store_data k = Some v" "field_ok k v" using shaped_get [OF default_shaped k] .
    with None d show ?thesis by (simp add: dget_dupdate stored_ok_def)
  next
    case (Some v)
    with d stored_field [OF d Some] show ?thesis by (simp add: dget_dupdate stored_ok_def)
  qed
  moreover have "distinct_keys (dupdate default_store_data d)"
    using shaped_distinct [OF default_shaped] by simp
  ultimately show ?thesis by (simp add: store_shaped_def list_all_iff)
qed

definition settings_in :: "dict \<Rightarrow> dict" where
  "settings_in d = (case dget d ''settings'' of Some (JObj st) \<Rightarrow> st | _ \<Rightarrow> [])"

lemma stored_settings_ok:
  assumes "stored_ok d"
  shows "stored_settings d = Inr (settings_in d)" "distinct_keys (settings_in d)"
proof -
  have "dget d ''settings'' = None \<or> (\<exists>st. dget d ''settings'' = Some (JObj st) \<and> distinct_keys st)"
    using stored_field [OF assms, of "''settings''"] plain_names(1)
    by (cases "dget d ''settings''") (auto elim: is_objE)
  then show "stored_settings d = Inr (settings_in d)" "distinct_keys (settings_in d)"
    by (auto simp: stored_settings_def settings_in_def dget_default_def or_else_def)
qed

text \<open>
  The data after a load: the stored value of every field and setting, the default where none is
  stored, the legacy learning period moved, the unsaved verify flags of configured hosts off.
\<close>

lemma merge_stored_ok:
  assumes "stored_ok d" "thresholds_ok (settings_in d)"
  obtains d' st where "merge_stored d = Inr d'" "store_shaped d'" "dget d' ''settings'' = Some (JObj st)" "distinct_keys st"
    "\<And>k. k \<noteq> ''settings'' \<Longrightarrow> dget d' k = (case dget d k of Some v \<Rightarrow> Some v | None \<Rightarrow> dget default_store_data k)"
    "\<And>k. k \<noteq> ''risk_learning_period_days'' \<Longrightarrow> k \<noteq> ''detection_thresholds'' \<Longrightarrow> dget st k =
       (if pinned (settings_in d) k then Some (JBool False)
        else case dget (settings_in d) k of Some v \<Rightarrow> Some v | None \<Rightarrow> dget default_settings k)"
    "dget_null (settings_in d) ''risk_learning_period_days'' = JNull \<Longrightarrow>
       dget st ''detection_thresholds'' =
         (case dget (settings_in d) ''detection_thresholds'' of Some v \<Rightarrow> Some v | None \<Rightarrow> Some (JObj []))"
    "dget_null (settings_in d) ''risk_learning_period_days'' = JNull \<Longrightarrow> dget st ''risk_learning_period_days'' = None"
proof -
  let ?st = "settings_in d"
  note s = stored_settings_ok [OF assms(1)]
  let ?m = "dupdate default_settings ?st"
  have m: "distinct_keys ?m" "\<And>k. dget ?m k = (case dget ?st k of Some v \<Rightarrow> Some v | None \<Rightarrow> dget default_settings k)"
    using default_settings_facts(1) dget_dupdate [OF s(2)] by simp_all
  have t: "thresholds_ok ?m"
    using assms(2) default_settings_facts(2) m(2) by (auto simp: thresholds_ok_def dget_default_def split: option.splits)
  obtain st' where st': "migrate_legacy_learning_period ?m = Inr st'" "distinct_keys st'"
    "\<forall>k. k \<noteq> ''risk_learning_period_days'' \<longrightarrow> k \<noteq> ''detection_thresholds'' \<longrightarrow> dget st' k = dget ?m k"
    "dget_null ?m ''risk_learning_period_days'' = JNull \<longrightarrow> st' = ddel ?m ''risk_learning_period_days''"
    using migrate_ok [OF m(1) t] by blast
  define st where "st = pin_legacy_tls_verification st' ?st"
  define d' where "d' = dset (dupdate default_store_data d) ''settings'' (JObj st)"
  have dist: "distinct_keys st" unfolding st_def by (rule distinct_pin [OF st'(2)])
  show ?thesis
  proof
    show "merge_stored d = Inr d'" using s(1) st'(1) by (simp add: merge_stored_def d'_def st_def)
    show "store_shaped d'" unfolding d'_def
      by (rule shaped_dset [OF merged_shaped [OF assms(1)]]) (simp add: plain_names dist)
    show "dget d' ''settings'' = Some (JObj st)" by (simp add: d'_def dict_simps)
    show "distinct_keys st" by (rule dist)
    show "dget d' k = (case dget d k of Some v \<Rightarrow> Some v | None \<Rightarrow> dget default_store_data k)" if "k \<noteq> ''settings''" for k
      using that assms(1) by (simp add: d'_def dict_simps dget_dupdate stored_ok_def)
    show "dget st k = (if pinned ?st k then Some (JBool False)
        else case dget ?st k of Some v \<Rightarrow> Some v | None \<Rightarrow> dget default_settings k)"
      if "k \<noteq> ''risk_learning_period_days''" "k \<noteq> ''detection_thresholds''" for k
      using that st'(3) m(2) by (simp add: st_def dget_pin)
    assume "dget_null ?st ''risk_learning_period_days'' = JNull"
    then have "dget_null ?m ''risk_learning_period_days'' = JNull"
      using default_settings_facts(3) m(2) by (simp add: dget_default_def split: option.splits)
    with st'(4) have e: "st' = ddel ?m ''risk_learning_period_days''" by simp
    then show "dget st ''risk_learning_period_days'' = None"
      by (simp add: st_def dget_pin dict_simps pinned_def TLS_VERIFY_PAIRS_def)
    note e
    moreover have "\<not> pinned ?st ''detection_thresholds''" by (simp add: pinned_def TLS_VERIFY_PAIRS_def)
    moreover have "dget default_settings ''detection_thresholds'' = Some (JObj [])" by code_simp
    ultimately show "dget st ''detection_thresholds'' =
        (case dget ?st ''detection_thresholds'' of Some v \<Rightarrow> Some v | None \<Rightarrow> Some (JObj []))"
      by (simp add: st_def dget_pin dict_simps m(2) split: option.split)
  qed
qed

section \<open>A restart\<close>

definition settings_complete :: "dict \<Rightarrow> bool" where
  "settings_complete st \<longleftrightarrow> distinct_keys st \<and> list_all (\<lambda>k. dget st k \<noteq> None) (map fst default_settings)
     \<and> dget st ''risk_learning_period_days'' = None"

lemma settings_complete_get: "settings_complete st \<Longrightarrow> k \<in> set (map fst default_settings) \<Longrightarrow> dget st k \<noteq> None"
  unfolding settings_complete_def list_all_iff by blast

lemma shaped_stored: "store_shaped d \<Longrightarrow> stored_ok (ddel d k)"
proof -
  assume d: "store_shaped d"
  have "field_ok a v" if av: "(a, v) \<in> set d" for a v
  proof (cases "a \<in> set (map fst default_store_data)")
    case True
    obtain w where "dget d a = Some w" "field_ok a w" using shaped_get [OF d True] .
    with av shaped_distinct [OF d] show ?thesis by simp
  next
    case False
    then have "a \<notin> set ROW_TABLES" "a \<notin> set PLAIN_TABLES" "a \<noteq> ''external_audit_heads''"
      "a \<noteq> ''posture_history''" "a \<noteq> ''syslog_receiver_entries''" "a \<noteq> ''audit_head''"
      using field_names by metis+
    then show ?thesis by (simp add: field_ok_def)
  qed
  then show ?thesis using shaped_distinct [OF d] set_ddel_subset [of d k]
    unfolding stored_ok_def list_all_iff by force
qed

lemma settings_complete_pinned:
  assumes "settings_complete st"
  shows "\<not> pinned st k"
proof
  assume p: "pinned st k"
  then have "k \<in> snd ` set TLS_VERIFY_PAIRS" by (force simp: pinned_def)
  moreover have "list_all (\<lambda>p. snd p \<in> set (map fst default_settings)) TLS_VERIFY_PAIRS" by code_simp
  ultimately have "k \<in> set (map fst default_settings)" by (auto simp: list_all_iff)
  with assms p show False by (auto simp: settings_complete_def list_all_iff pinned_def)
qed

lemma ring_payload_entries:
  "dget (sd s) RING_FIELD = Some (JArr xs) \<Longrightarrow> dget_null (snd (ring_payload s)) ''entries'' = JArr xs"
  by (simp add: ring_payload_def dget_default_def or_else_def)

lemma restart:
  assumes "store_shaped (sd s)" "thresholds_ok (settings_in (sd s))" "settings_complete (settings_in (sd s))"
    "\<not> ring_in_main s" "lists_bounded s"
  obtains x where "async_load r (Some (main_payload s)) (Some (snd (ring_payload s))) = Inr (x, True)"
    "\<And>k. k \<noteq> ''settings'' \<Longrightarrow> dget (sd (mem x)) k = dget (sd s) k"
    "\<And>k. dget (settings_in (sd (mem x))) k = dget (settings_in (sd s)) k" "store_shaped (sd (mem x))"
proof -
  let ?d = "ddel (sd s) RING_FIELD" and ?st = "settings_in (sd s)"
  have rs: "RING_FIELD \<noteq> ''settings''" by (simp add: RING_FIELD_def)
  have so: "settings_in ?d = ?st" using rs by (simp add: settings_in_def dict_simps)
  have main: "main_payload s = ?d" using assms(4) by (simp add: main_payload_def)
  obtain xs where xs: "dget (sd s) RING_FIELD = Some (JArr xs)" "length xs \<le> SYSLOG_RECEIVER_MAX_ENTRIES"
    using shaped_list [OF assms(1), of RING_FIELD] assms(5) by (auto simp: RING_FIELD_def lists_bounded_def)
  have th: "thresholds_ok (settings_in ?d)" using assms(2) by (simp only: so)
  obtain d' st where d': "merge_stored ?d = Inr d'" "store_shaped d'" "dget d' ''settings'' = Some (JObj st)"
    "\<And>k. k \<noteq> ''settings'' \<Longrightarrow> dget d' k = (case dget ?d k of Some v \<Rightarrow> Some v | None \<Rightarrow> dget default_store_data k)"
    "\<And>k. k \<noteq> ''risk_learning_period_days'' \<Longrightarrow> k \<noteq> ''detection_thresholds'' \<Longrightarrow> dget st k =
       (if pinned (settings_in ?d) k then Some (JBool False)
        else case dget (settings_in ?d) k of Some v \<Rightarrow> Some v | None \<Rightarrow> dget default_settings k)"
    "dget_null (settings_in ?d) ''risk_learning_period_days'' = JNull \<Longrightarrow>
       dget st ''detection_thresholds'' =
         (case dget (settings_in ?d) ''detection_thresholds'' of Some v \<Rightarrow> Some v | None \<Rightarrow> Some (JObj []))"
    "dget_null (settings_in ?d) ''risk_learning_period_days'' = JNull \<Longrightarrow> dget st ''risk_learning_period_days'' = None"
    by (rule merge_stored_ok [OF shaped_stored [OF assms(1)] th], rule that)
  let ?m = "new_store\<lparr>sd := dset d' RING_FIELD (JArr xs)\<rparr>"
  define x where "x = (store_over (Some ?d) (Some (snd (ring_payload s))))\<lparr>mem := ?m\<rparr>"
  show ?thesis
  proof
    show "async_load r (Some (main_payload s)) (Some (snd (ring_payload s))) = Inr (x, True)"
      using d'(1) xs ring_payload_entries [OF xs(1)]
      by (simp add: main async_load_def async_load_ring_def list_of_def keep_newest_id x_def store_over_def)
    show "store_shaped (sd (mem x))" using d'(2) by (simp add: x_def RING_FIELD_def shaped_dset)
    show "dget (sd (mem x)) k = dget (sd s) k" if k: "k \<noteq> ''settings''" for k
    proof (cases "dget (sd s) k")
      case None
      then have "k \<notin> set (map fst default_store_data)"
        using shaped_get [OF assms(1)] by (metis option.distinct(1))
      then have "dget default_store_data k = None" by (simp add: map_of_eq_None_iff)
      with None k xs(1) show ?thesis by (auto simp: x_def dict_simps d'(4))
    next
      case (Some v)
      with k xs(1) show ?thesis by (auto simp: x_def dict_simps d'(4))
    qed
    show "dget (settings_in (sd (mem x))) k = dget ?st k" for k
    proof -
      have e: "settings_in (sd (mem x)) = st" using rs d'(3) by (simp add: x_def settings_in_def dict_simps)
      have nr: "dget ?st ''risk_learning_period_days'' = None" using assms(3) by (simp add: settings_complete_def)
      then have n: "dget_null (settings_in ?d) ''risk_learning_period_days'' = JNull" by (simp add: so dget_default_def)
      note c = settings_complete_get [OF assms(3)]
      have "''detection_thresholds'' \<in> set (map fst default_settings)" by code_simp
      then have t: "dget st ''detection_thresholds'' = dget ?st ''detection_thresholds''"
        using d'(6) [OF n] c [of "''detection_thresholds''"] by (auto simp: so)
      have o: "dget default_settings k = None" if "dget ?st k = None"
        using that c [of k] by (metis list.set_map map_of_eq_None_iff)
      show ?thesis unfolding e
        using d'(5) [of k] d'(7) [OF n] nr t o settings_complete_pinned [OF assms(3)]
        by (cases "k = ''risk_learning_period_days''"; cases "k = ''detection_thresholds''"; cases "dget ?st k")
          (simp_all add: so)
    qed
  qed
qed

end
