(* ===== verification/SecretStore.thy ===== *)
theory SecretStore
  imports StoreDisk
begin

text \<open>
  \<open>secrets_store.py\<close>: the store of HA SOC's own credentials, one allowed key at a time, and the
  move of the secret values an older release kept among the settings. The file is the data last
  saved; whether a save reached it is an argument (Home Assistant's \<open>Store\<close> swallows a failure).
\<close>

section \<open>The store\<close>

definition PROBE_PAIRING_SECRET_KEY :: string where "PROBE_PAIRING_SECRET_KEY = ''probe_pairing_secret''"

definition EXTERNAL_AUDIT_SECRETS_KEY :: string where "EXTERNAL_AUDIT_SECRETS_KEY = ''external_audit_secrets''"

definition TERMINAL_SECRET_KEY :: string where "TERMINAL_SECRET_KEY = ''terminal_secret''"

definition ALLOWED_SECRET_KEYS :: "string list" where
  "ALLOWED_SECRET_KEYS =
     SECRET_SETTING_KEYS @ [PROBE_PAIRING_SECRET_KEY, EXTERNAL_AUDIT_SECRETS_KEY, TERMINAL_SECRET_KEY]"

record secret_store =
  sec_data :: dict
  sec_loaded :: bool
  sec_file :: "dict option"

definition new_secret_store :: "dict option \<Rightarrow> secret_store" where
  "new_secret_store file = \<lparr>sec_data = [], sec_loaded = False, sec_file = file\<rparr>"

text \<open>\<open>__repr__\<close> names the keys only.\<close>

definition secret_repr :: "secret_store \<Rightarrow> string" where
  "secret_repr s =
     (let names = join '', '' (sort (map fst (sec_data s)))
      in ''<HaSocSecretStore keys set: '' @ (if names = [] then ''none'' else names) @ ''>'')"

definition check_key :: "string \<Rightarrow> unit res" where
  "check_key k = (if k \<in> set ALLOWED_SECRET_KEYS then Inr () else Inl ValueError)"

definition sec_load :: "secret_store \<Rightarrow> secret_store" where
  "sec_load s =
     (if sec_loaded s then s
      else
        (let s1 = (case sec_file s of
             None \<Rightarrow> s
           | Some stored \<Rightarrow>
               if stored = [] then s
               else s\<lparr>sec_data := filter (\<lambda>p. fst p \<in> set ALLOWED_SECRET_KEYS \<and> truthy (snd p)) stored\<rparr>)
         in s1\<lparr>sec_loaded := True\<rparr>))"

definition sec_get :: "string \<Rightarrow> secret_store \<Rightarrow> json option res" where
  "sec_get k s = bind_res (check_key k) (\<lambda>_. Inr (dget (sec_data s) k))"

definition sec_set :: "bool \<Rightarrow> string \<Rightarrow> json \<Rightarrow> secret_store \<Rightarrow> secret_store res" where
  "sec_set saved k v s =
     bind_res (check_key k) (\<lambda>_.
       let s1 = s\<lparr>sec_data := (if truthy v then dset (sec_data s) k v else ddel (sec_data s) k)\<rparr>
       in Inr (if saved then s1\<lparr>sec_file := Some (sec_data s1)\<rparr> else s1))"

section \<open>Migration\<close>

text \<open>The loop over the secret settings: the settings left, the secrets, the keys moved.\<close>

fun move_settings ::
    "(string \<Rightarrow> bool) \<Rightarrow> string list \<Rightarrow> dict \<Rightarrow> secret_store \<Rightarrow> (dict \<times> secret_store \<times> string list) res" where
  "move_settings saved [] st sec = Inr (st, sec, [])"
| "move_settings saved (k # ks) st sec =
     (let v = dget_null st k; st1 = ddel st k
      in if truthy v
         then bind_res (sec_set (saved k) k v sec) (\<lambda>sec1.
                bind_res (move_settings saved ks st1 sec1) (\<lambda>(st2, sec2, m). Inr (st2, sec2, k # m)))
         else move_settings saved ks st1 sec)"

text \<open>\<open>store.data.get("firewall") or {}\<close>: a dict that is not in the store is popped from in vain.\<close>

definition move_pin :: "(string \<Rightarrow> bool) \<Rightarrow> dict \<Rightarrow> secret_store \<Rightarrow> (dict \<times> secret_store \<times> string list) res" where
  "move_pin saved d sec =
     (case dget_null d ''firewall'' of
        JObj fw \<Rightarrow>
          (let v = dget_null fw ''addon_secret''; d1 = dset d ''firewall'' (JObj (ddel fw ''addon_secret''))
           in if fw = [] then Inr (d, sec, [])
              else if truthy v
              then bind_res (sec_set (saved PROBE_PAIRING_SECRET_KEY) PROBE_PAIRING_SECRET_KEY v sec) (\<lambda>sec1.
                     Inr (d1, sec1, [PROBE_PAIRING_SECRET_KEY]))
              else Inr (d1, sec, []))
      | JArr xs \<Rightarrow> if xs = [] then Inr (d, sec, []) else Inl TypeError
      | v \<Rightarrow> if truthy v then Inl AttributeError else Inr (d, sec, []))"

definition async_migrate_legacy_secrets ::
    "(string \<Rightarrow> bool) \<Rightarrow> save_reply \<Rightarrow> secret_store \<Rightarrow> store_sys \<Rightarrow> (secret_store \<times> store_sys \<times> string list) res" where
  "async_migrate_legacy_secrets saved r sec x =
     bind_res (settings (mem x)) (\<lambda>v. bind_res (as_table AttributeError v) (\<lambda>st.
       bind_res (move_settings saved (sort SECRET_SETTING_KEYS) st sec) (\<lambda>(st1, sec1, m1).
         bind_res (move_pin saved (dset (sd (mem x)) ''settings'' (JObj st1)) sec1) (\<lambda>(d, sec2, m2).
           let x1 = x\<lparr>mem := (mem x)\<lparr>sd := d\<rparr>\<rparr>; moved = m1 @ m2
           in Inr (sec2, if moved = [] then x1 else fst (async_save_now r x1), moved)))))"

section \<open>What holds of it\<close>

lemma sec_get_set:
  assumes "sec_set saved k v s = Inr s'" "k' \<in> set ALLOWED_SECRET_KEYS"
  shows "sec_get k' s' = (if k' = k then Inr (if truthy v then Some v else None) else sec_get k' s)"
  using assms by (auto simp: sec_set_def sec_get_def check_key_def dict_simps Let_def split: if_splits)

lemma sec_allowed_only:
  "sec_set saved k v s = Inr s' \<Longrightarrow> k \<in> set ALLOWED_SECRET_KEYS"
  "sec_get k s = Inr r \<Longrightarrow> k \<in> set ALLOWED_SECRET_KEYS"
  by (auto simp: sec_set_def sec_get_def check_key_def split: if_splits)

lemma move_settings_eq:
  assumes "set ks \<subseteq> set ALLOWED_SECRET_KEYS" "distinct ks"
  shows "\<exists>st' sec'. move_settings saved ks st sec = Inr (st', sec', filter (\<lambda>k. truthy (dget_null st k)) ks)
     \<and> (\<forall>k. dget st' k = (if k \<in> set ks then None else dget st k))
     \<and> (\<forall>k. dget (sec_data sec') k =
          (if k \<in> set ks \<and> truthy (dget_null st k) then Some (dget_null st k) else dget (sec_data sec) k))"
  using assms
proof (induction ks arbitrary: st sec)
  case (Cons k ks)
  have n: "k \<notin> set ks" using Cons.prems(2) by simp
  have ks: "set ks \<subseteq> set ALLOWED_SECRET_KEYS" "distinct ks" using Cons.prems by auto
  have f: "filter (\<lambda>j. truthy (dget_null (ddel st k) j)) ks = filter (\<lambda>j. truthy (dget_null st j)) ks"
    using n by (intro filter_cong) (auto simp: dict_simps)
  define sec1 where "sec1 = (if truthy (dget_null st k) then
      (let s1 = sec\<lparr>sec_data := dset (sec_data sec) k (dget_null st k)\<rparr>
       in if saved k then s1\<lparr>sec_file := Some (sec_data s1)\<rparr> else s1) else sec)"
  have d1: "dget (sec_data sec1) j = (if j = k \<and> truthy (dget_null st k) then Some (dget_null st k) else dget (sec_data sec) j)" for j
    by (auto simp: sec1_def Let_def dict_simps)
  obtain st' sec' where i: "move_settings saved ks (ddel st k) sec1 = Inr (st', sec', filter (\<lambda>j. truthy (dget_null st j)) ks)"
    "\<forall>j. dget st' j = (if j \<in> set ks then None else dget (ddel st k) j)"
    "\<forall>j. dget (sec_data sec') j = (if j \<in> set ks \<and> truthy (dget_null (ddel st k) j)
        then Some (dget_null (ddel st k) j) else dget (sec_data sec1) j)"
    using Cons.IH [OF ks, of "ddel st k" sec1] unfolding f by blast
  have st': "dget st' j = (if j \<in> set (k # ks) then None else dget st j)" for j
    using i(2) by (simp add: dict_simps)
  have sec': "dget (sec_data sec') j = (if j \<in> set (k # ks) \<and> truthy (dget_null st j)
        then Some (dget_null st j) else dget (sec_data sec) j)" for j
    using i(3) n by (auto simp: dict_simps d1)
  show ?case
  proof (cases "truthy (dget_null st k)")
    case True
    then have "sec_set (saved k) k (dget_null st k) sec = Inr sec1"
      using Cons.prems(1) by (simp add: sec_set_def check_key_def sec1_def Let_def)
    then have "move_settings saved (k # ks) st sec = Inr (st', sec', k # filter (\<lambda>j. truthy (dget_null st j)) ks)"
      using True i(1) by (simp add: Let_def)
    with True st' sec' show ?thesis by (intro exI [of _ st'] exI [of _ sec'] conjI allI) simp_all
  next
    case False
    then have "sec1 = sec" by (simp add: sec1_def)
    then have "move_settings saved (k # ks) st sec = Inr (st', sec', filter (\<lambda>j. truthy (dget_null st j)) ks)"
      using False i(1) by (simp add: Let_def)
    with False st' sec' show ?thesis by (intro exI [of _ st'] exI [of _ sec'] conjI allI) simp_all
  qed
qed simp

text \<open>A save does not change the data in memory, whatever becomes of it.\<close>

lemma sd_async_save_now [simp]: "sd (mem (fst (async_save_now r x))) = sd (mem x)"
  by (auto simp: async_save_now_def async_write_now_def save_main_def write_main_def schedule_save_def Let_def
      split: option.split write_reply.split)

definition pin_of :: "dict \<Rightarrow> json" where
  "pin_of d = (case dget_null d ''firewall'' of JObj fw \<Rightarrow> dget_null fw ''addon_secret'' | _ \<Rightarrow> JNull)"

lemma move_pin_eq:
  assumes "dget d ''firewall'' = Some (JObj fw)"
  shows "\<exists>d' sec'. move_pin saved d sec =
       Inr (d', sec', if truthy (pin_of d) then [PROBE_PAIRING_SECRET_KEY] else [])
     \<and> pin_of d' = JNull \<and> (\<forall>k. k \<noteq> ''firewall'' \<longrightarrow> dget d' k = dget d k)
     \<and> (\<forall>k. dget (sec_data sec') k =
          (if k = PROBE_PAIRING_SECRET_KEY \<and> truthy (pin_of d) then Some (pin_of d) else dget (sec_data sec) k))"
proof -
  have p: "pin_of d = dget_null fw ''addon_secret''" using assms by (simp add: pin_of_def dget_default_def)
  have k: "PROBE_PAIRING_SECRET_KEY \<in> set ALLOWED_SECRET_KEYS" by (simp add: ALLOWED_SECRET_KEYS_def)
  have f: "dget_null d ''firewall'' = JObj fw" using assms by (simp add: dget_default_def)
  have n: "pin_of (dset d ''firewall'' (JObj (ddel fw ''addon_secret''))) = JNull" by (simp add: pin_of_def dict_simps)
  show ?thesis
  proof (cases "fw = []")
    case True
    then show ?thesis using p f by (simp add: move_pin_def dget_default_def)
  next
    case False
    then show ?thesis using p f k n by (auto simp: move_pin_def sec_set_def check_key_def dict_simps Let_def)
  qed
qed

lemma migrate_secrets:
  assumes "store_shaped (sd (mem x))"
  shows "\<exists>sec' x' m. async_migrate_legacy_secrets saved r sec x = Inr (sec', x', m)
     \<and> (\<forall>k \<in> set SECRET_SETTING_KEYS. dget (settings_in (sd (mem x'))) k = None) \<and> pin_of (sd (mem x')) = JNull
     \<and> (\<forall>k \<in> set SECRET_SETTING_KEYS. truthy (dget_null (settings_in (sd (mem x))) k) \<longrightarrow>
          sec_get k sec' = Inr (Some (dget_null (settings_in (sd (mem x))) k)))
     \<and> (truthy (pin_of (sd (mem x))) \<longrightarrow> sec_get PROBE_PAIRING_SECRET_KEY sec' = Inr (Some (pin_of (sd (mem x)))))
     \<and> (m = [] \<longrightarrow> sec_data sec' = sec_data sec \<or> (\<forall>k. dget (sec_data sec') k = dget (sec_data sec) k))"
proof -
  let ?d = "sd (mem x)" and ?ks = "sort SECRET_SETTING_KEYS"
  obtain st where st: "dget ?d ''settings'' = Some (JObj st)" by (rule shaped_plain_table [OF assms plain_names(1)])
  have "''firewall'' \<in> set PLAIN_TABLES" by (simp add: PLAIN_TABLES_def)
  from shaped_plain_table [OF assms this] obtain fw where fw: "dget ?d ''firewall'' = Some (JObj fw)" by blast
  have "distinct SECRET_SETTING_KEYS" by code_simp
  then have "set ?ks \<subseteq> set ALLOWED_SECRET_KEYS" "distinct ?ks" by (auto simp: ALLOWED_SECRET_KEYS_def)
  from move_settings_eq [OF this, of saved st sec] obtain st1 sec1 where m:
    "move_settings saved ?ks st sec = Inr (st1, sec1, filter (\<lambda>k. truthy (dget_null st k)) ?ks)"
    "\<forall>k. dget st1 k = (if k \<in> set ?ks then None else dget st k)"
    "\<forall>k. dget (sec_data sec1) k = (if k \<in> set ?ks \<and> truthy (dget_null st k) then Some (dget_null st k)
        else dget (sec_data sec) k)" by blast
  let ?d1 = "dset ?d ''settings'' (JObj st1)"
  have fw1: "dget ?d1 ''firewall'' = Some (JObj fw)" using fw by (simp add: dict_simps)
  have p1: "pin_of ?d1 = pin_of ?d" using fw fw1 by (simp add: pin_of_def dget_default_def)
  obtain d2 sec2 where p: "move_pin saved ?d1 sec1 = Inr (d2, sec2, if truthy (pin_of ?d1) then [PROBE_PAIRING_SECRET_KEY] else [])"
    "pin_of d2 = JNull" "\<forall>k. k \<noteq> ''firewall'' \<longrightarrow> dget d2 k = dget ?d1 k"
    "\<forall>k. dget (sec_data sec2) k = (if k = PROBE_PAIRING_SECRET_KEY \<and> truthy (pin_of ?d1) then Some (pin_of ?d1)
        else dget (sec_data sec1) k)"
    using move_pin_eq [OF fw1] by blast
  define ms where "ms = filter (\<lambda>k. truthy (dget_null st k)) ?ks @ (if truthy (pin_of ?d1) then [PROBE_PAIRING_SECRET_KEY] else [])"
  define x' where "x' = (if ms = [] then x\<lparr>mem := (mem x)\<lparr>sd := d2\<rparr>\<rparr>
      else fst (async_save_now r (x\<lparr>mem := (mem x)\<lparr>sd := d2\<rparr>\<rparr>)))"
  have run: "async_migrate_legacy_secrets saved r sec x = Inr (sec2, x', ms)"
    using st m(1) p(1) by (simp add: async_migrate_legacy_secrets_def settings_def item_def x'_def ms_def Let_def)
  have d2: "sd (mem x') = d2" by (simp add: x'_def)
  have s2: "settings_in d2 = st1" using p(3) by (simp add: settings_in_def dict_simps)
  have s0: "settings_in ?d = st" using st by (simp add: settings_in_def)
  have al: "k \<in> set ALLOWED_SECRET_KEYS" "k \<noteq> PROBE_PAIRING_SECRET_KEY" if "k \<in> set SECRET_SETTING_KEYS" for k
  proof -
    show "k \<in> set ALLOWED_SECRET_KEYS" using that by (simp add: ALLOWED_SECRET_KEYS_def)
    have "PROBE_PAIRING_SECRET_KEY \<notin> set SECRET_SETTING_KEYS" by code_simp
    with that show "k \<noteq> PROBE_PAIRING_SECRET_KEY" by blast
  qed
  have pa: "PROBE_PAIRING_SECRET_KEY \<in> set ALLOWED_SECRET_KEYS" by (simp add: ALLOWED_SECRET_KEYS_def)
  show ?thesis
  proof (intro exI conjI)
    show "async_migrate_legacy_secrets saved r sec x = Inr (sec2, x', ms)" by (rule run)
    show "\<forall>k \<in> set SECRET_SETTING_KEYS. dget (settings_in (sd (mem x'))) k = None" using m(2) by (simp add: d2 s2)
    show "pin_of (sd (mem x')) = JNull" using p(2) by (simp add: d2)
    show "\<forall>k \<in> set SECRET_SETTING_KEYS. truthy (dget_null (settings_in ?d) k) \<longrightarrow>
        sec_get k sec2 = Inr (Some (dget_null (settings_in ?d) k))"
      using m(3) p(4) al by (auto simp: s0 sec_get_def check_key_def)
    show "truthy (pin_of ?d) \<longrightarrow> sec_get PROBE_PAIRING_SECRET_KEY sec2 = Inr (Some (pin_of ?d))"
      using p(4) pa by (simp add: p1 sec_get_def check_key_def)
    show "ms = [] \<longrightarrow> sec_data sec2 = sec_data sec \<or> (\<forall>k. dget (sec_data sec2) k = dget (sec_data sec) k)"
      using m(3) p(4) by (auto simp: ms_def filter_empty_conv)
  qed
qed

end
