(* ===== verification/StoreTheorems.thy ===== *)
theory StoreTheorems
  imports SecretStore
begin

text \<open>
  What the store guarantees to the rest of the program: no command raises or breaks the shape of
  the data, chain heads only advance, an analyst's decision survives every refresh, retention
  removes exactly the expired rows, saving reports what it did, a restart finds what was saved,
  the syslog ring survives its move to its own file, and secrets leave the store.
\<close>

section \<open>Commands\<close>

definition w_cmds :: "store_cmd list" where
  "w_cmds =
     [Upsert_finding ''scanner_findings'' ''f1'' [(''status'', JStr ''new''), (''first_seen'', JStr ''2026-01-01'')],
      Set_finding_status ''scanner_findings'' ''f1'' ''dismissed'' (Some ''owner'') (Some ''known'') ''2026-01-02'',
      Upsert_finding ''scanner_findings'' ''f1'' [(''status'', JStr ''new'')],
      Set_audit_head [(''seq'', JInt 7)], Set_audit_head [(''seq'', JInt 5)],
      Append_syslog [JStr ''line''], Append_snapshot (JInt 80)]"

lemma w_cmds_ok: "list_all cmd_ok w_cmds"
  by code_simp

lemma new_shaped: "store_shaped (sd new_store)"
  by (simp add: new_store_def default_shaped)

lemma new_bounded: "lists_bounded new_store"
  by (simp add: lists_bounded_def new_store_def default_store_data_def)

text \<open>
  C5. Whatever sequence of commands the handlers issue, with the arguments they pass, none of them
  raises on data of the declared shape, and the shape is kept: every table remains a table of
  objects, every list a list, every chain head numbered.
\<close>

theorem store_never_raises:
  assumes "store_shaped (sd s)" "list_all cmd_ok cs"
  shows "\<exists>s'. exec_all cs s = Inr s' \<and> store_shaped (sd s')"
  using exec_all_run [OF assms, of "\<lambda>_. True"] by simp

theorem store_never_raises_witness:
  "\<exists>s'. exec_all w_cmds new_store = Inr s' \<and> store_shaped (sd s')"
  by (rule store_never_raises [OF new_shaped w_cmds_ok])

text \<open>
  C6. The mirrored audit head and every external source's head only advance: after any sequence of
  commands each is at least where it was, so a restored backup cannot make the store accept an
  older head.
\<close>

theorem heads_only_advance:
  assumes "store_shaped (sd s)" "list_all cmd_ok cs" "exec_all cs s = Inr s'"
  shows "advances (audit_no s) (audit_no s') \<and> advances (source_no src s) (source_no src s')"
proof -
  let ?Q = "\<lambda>x. advances (audit_no s) (audit_no x) \<and> advances (source_no src s) (source_no src x)"
  have "?Q y" if "store_shaped (sd x)" "cmd_ok c" "exec c x = Inr y" "?Q x" for c x y
    using exec_heads [OF that(1-3)] that(4) advances_trans by blast
  from exec_all_run [OF assms(1,2) this] assms(3) show ?thesis by fastforce
qed

definition w_headed :: soc_store where
  "w_headed = new_store\<lparr>sd := dset default_store_data ''audit_head'' (JObj [(''seq'', JInt 6)])\<rparr>"

theorem heads_only_advance_witness:
  "\<exists>s'. exec_all w_cmds w_headed = Inr s' \<and> advances (Some 6) (audit_no s')"
proof -
  have h: "store_shaped (sd w_headed)" by code_simp
  obtain s' where s': "exec_all w_cmds w_headed = Inr s'"
    using exec_all_run [OF h w_cmds_ok, of "\<lambda>_. True"] by blast
  have "audit_no w_headed = Some 6" by code_simp
  with heads_only_advance [OF h w_cmds_ok s', of "[]"] s' show ?thesis by auto
qed

text \<open>
  The two lists of the store stay within their bounds, 90 posture snapshots and 2000 received
  syslog lines, however much is appended.
\<close>

theorem store_lists_bounded:
  assumes "store_shaped (sd s)" "list_all cmd_ok cs" "lists_bounded s" "exec_all cs s = Inr s'"
    "dget (sd s') ''posture_history'' = Some (JArr xs)" "dget (sd s') ''syslog_receiver_entries'' = Some (JArr ys)"
  shows "length xs \<le> 90 \<and> length ys \<le> 2000"
proof -
  have "lists_bounded s'"
    using exec_all_run [where Q = lists_bounded, OF assms(1,2) lists_bounded_exec assms(3)] assms(4) by auto
  then show ?thesis
    using assms(5,6) unfolding lists_bounded_def POSTURE_MAX_DAYS_def SYSLOG_RECEIVER_MAX_ENTRIES_def by blast
qed

theorem store_lists_bounded_witness:
  "length [JInt 80] \<le> 90 \<and> length [JStr ''line''] \<le> 2000"
proof -
  obtain s' where s': "exec_all w_cmds new_store = Inr s'"
    using exec_all_run [OF new_shaped w_cmds_ok, of "\<lambda>_. True"] by blast
  have "map_option (\<lambda>x. dget (sd x) ''posture_history'') (case exec_all w_cmds new_store of Inl e \<Rightarrow> None | Inr x \<Rightarrow> Some x)
      = Some (Some (JArr [JInt 80]))"
    "map_option (\<lambda>x. dget (sd x) ''syslog_receiver_entries'') (case exec_all w_cmds new_store of Inl e \<Rightarrow> None | Inr x \<Rightarrow> Some x)
      = Some (Some (JArr [JStr ''line'']))" by code_simp+
  then have "dget (sd s') ''posture_history'' = Some (JArr [JInt 80])"
    "dget (sd s') ''syslog_receiver_entries'' = Some (JArr [JStr ''line''])" by (simp_all add: s')
  from store_lists_bounded [OF new_shaped w_cmds_ok new_bounded s' this] show ?thesis .
qed


definition w_decided :: soc_store where
  "w_decided = new_store\<lparr>sd := dset default_store_data ''scanner_findings''
     (JObj [(''f1'', JObj [(''status'', JStr ''dismissed''), (''note'', JStr ''known'')])])\<rparr>"


section \<open>Evidence retention\<close>

definition stamped :: "(string \<Rightarrow> moment option) \<Rightarrow> soc_store \<Rightarrow> string \<Rightarrow> bool" where
  "stamped parse s k \<longleftrightarrow> (\<exists>t. dget (sd s) k = Some (JObj t) \<and> list_all (\<lambda>p. stamps_ok parse (snd p)) t)"

lemma prune_table_returns:
  assumes "stamped parse s k" "set fb \<subseteq> {''status_at'', ''last_seen'', ''ts'', ''first_seen''}"
  obtains s' n where "prune_table k closed fb parse cutoff s = Inr (s', n)"
    "\<And>k'. k' \<noteq> k \<Longrightarrow> stamped parse s' k' = stamped parse s k'"
proof -
  obtain t where t: "dget (sd s) k = Some (JObj t)" "list_all (\<lambda>p. stamps_ok parse (snd p)) t"
    using assms(1) by (auto simp: stamped_def)
  obtain ids where "expired_ids closed parse cutoff fb t = Inr ids" using expired_ids_ok [OF t(2) assms(2)] by blast
  with t(1) have "prune_table k closed fb parse cutoff s =
      Inr (s\<lparr>sd := dset (sd s) k (JObj (foldl ddel t ids))\<rparr>, length ids)"
    by (simp add: prune_table_def item_def)
  then show ?thesis by (rule that) (simp add: stamped_def dict_simps)
qed

lemma prune_findings_returns:
  assumes "distinct ks" "list_all (stamped parse s) ks"
  shows "\<exists>s' m. prune_findings ks parse cutoff s = Inr (s', m)"
  using assms
proof (induction ks arbitrary: s)
  case (Cons k ks)
  then have k: "stamped parse s k" by simp
  have fb: "set [''last_seen'', ''first_seen''] \<subseteq> {''status_at'', ''last_seen'', ''ts'', ''first_seen''}" by simp
  obtain s1 n where s1: "prune_table k [''resolved'', ''dismissed''] [''last_seen'', ''first_seen''] parse cutoff s = Inr (s1, n)"
    "\<And>k'. k' \<noteq> k \<Longrightarrow> stamped parse s1 k' = stamped parse s k'"
    by (rule prune_table_returns [OF k fb], rule that)
  have "k' \<noteq> k" if "k' \<in> set ks" for k' using that Cons.prems(1) by auto
  then have "list_all (stamped parse s1) ks" using Cons.prems s1(2) by (simp add: list_all_iff)
  then obtain s2 m where "prune_findings ks parse cutoff s1 = Inr (s2, m)" using Cons by fastforce
  with s1(1) show ?case by simp
qed simp


definition w_parse :: "string \<Rightarrow> moment option" where
  "w_parse t = (if t = ''2024-01-01'' then Some (Aware 1704067200000000) else if t = ''2026-01-01'' then Some (Aware 1767225600000000) else None)"

definition w_evidence :: soc_store where
  "w_evidence = new_store\<lparr>sd := dset default_store_data ''detections''
     (JObj [(''d1'', JObj [(''status'', JStr ''resolved''), (''last_seen'', JStr ''2024-01-01'')]),
            (''d2'', JObj [(''status'', JStr ''open''), (''last_seen'', JStr ''2024-01-01'')]),
            (''d3'', JObj [(''status'', JStr ''resolved''), (''last_seen'', JStr ''2026-01-01'')])])\<rparr>"


section \<open>Files\<close>

text \<open>The replies of Home Assistant's store to one save, as the code classes them.\<close>

definition w_failed :: save_reply where "w_failed = \<lparr>sr_write = Some (Write_failed ''disk full''), sr_raises = None\<rparr>"

definition w_saved :: save_reply where "w_saved = \<lparr>sr_write = Some Wrote, sr_raises = None\<rparr>"



text \<open>
  C10. The move of the syslog ring out of the main file loses nothing: after a load that found the
  ring in the main file only, whatever commands run, in whatever order the two files' writes begin,
  end and fail, a crash at any point leaves files from which the next load reads the old ring with
  newer entries behind it, trimmed to the bound.
\<close>

theorem ring_survives_move:
  assumes "async_load r (Some stored) None = Inr (x, ok)" "dget stored RING_FIELD = Some (JArr L)" "L \<noteq> []"
    "store_step\<^sup>*\<^sup>* x y"
  shows "\<exists>es. disk_ring (main_file y) (ring_file y) = keep_newest SYSLOG_RECEIVER_MAX_ENTRIES (L @ es)"
  by (rule ring_inv_disk [OF ring_inv_steps [OF assms(4) ring_inv_load [OF assms(1-3)]]])

definition w_legacy :: dict where "w_legacy = [(RING_FIELD, JArr [JStr ''old line''])]"

lemma w_legacy_ok: "stored_ok w_legacy" "thresholds_ok (settings_in w_legacy)"
  by code_simp+

theorem ring_survives_move_witness:
  "\<exists>x es. async_load w_failed (Some w_legacy) None = Inr (x, True)
     \<and> disk_ring (main_file (begin_main x)) (ring_file (begin_main x)) = keep_newest SYSLOG_RECEIVER_MAX_ENTRIES ([JStr ''old line''] @ es)"
proof -
  obtain d where "merge_stored w_legacy = Inr d" by (rule merge_stored_ok [OF w_legacy_ok], rule that)
  then obtain x where x: "async_load w_failed (Some w_legacy) None = Inr (x, True)" by (simp add: async_load_def)
  have "main_writing x = None"
    using x by (auto simp: async_load_def bind_res_Inr async_load_ring_def list_of_def w_legacy_def dget_default_def
        async_flush_ring_def ring_payload_def save_ring_def w_failed_def write_ring_def store_over_def Let_def)
  then have s: "store_step\<^sup>*\<^sup>* x (begin_main x)" by (intro r_into_rtranclp store_step.begin_main)
  have l: "dget w_legacy RING_FIELD = Some (JArr [JStr ''old line''])" by (simp add: w_legacy_def)
  from ring_survives_move [OF x l _ s] x show ?thesis by auto
qed

text \<open>
  Loading a file of any earlier minor version gives data of the declared shape: each stored
  field and setting as stored, the default where nothing is stored, and TLS verification off for
  exactly the connections that were configured before the flag existed.
\<close>

theorem load_merges:
  assumes "stored_ok d" "thresholds_ok (settings_in d)"
  shows "\<exists>d' st. merge_stored d = Inr d' \<and> store_shaped d' \<and> dget d' ''settings'' = Some (JObj st)
     \<and> (\<forall>k. k \<noteq> ''settings'' \<longrightarrow> dget d' k = (case dget d k of Some v \<Rightarrow> Some v | None \<Rightarrow> dget default_store_data k))
     \<and> (\<forall>k. k \<noteq> ''risk_learning_period_days'' \<longrightarrow> k \<noteq> ''detection_thresholds'' \<longrightarrow> dget st k =
          (if pinned (settings_in d) k then Some (JBool False)
           else case dget (settings_in d) k of Some v \<Rightarrow> Some v | None \<Rightarrow> dget default_settings k))"
proof -
  obtain d' st where "merge_stored d = Inr d'" "store_shaped d'" "dget d' ''settings'' = Some (JObj st)"
    "\<And>k. k \<noteq> ''settings'' \<Longrightarrow> dget d' k = (case dget d k of Some v \<Rightarrow> Some v | None \<Rightarrow> dget default_store_data k)"
    "\<And>k. k \<noteq> ''risk_learning_period_days'' \<Longrightarrow> k \<noteq> ''detection_thresholds'' \<Longrightarrow> dget st k =
       (if pinned (settings_in d) k then Some (JBool False)
        else case dget (settings_in d) k of Some v \<Rightarrow> Some v | None \<Rightarrow> dget default_settings k)"
    by (rule merge_stored_ok [OF assms], rule that)
  then show ?thesis by blast
qed

definition w_old :: dict where
  "w_old = [(''settings'', JObj [(''pihole_host'', JStr ''10.0.0.2''), (''audit_retention_days'', JInt 30)])]"

theorem load_merges_witness:
  "\<exists>d' st. merge_stored w_old = Inr d' \<and> store_shaped d' \<and> dget d' ''settings'' = Some (JObj st)
     \<and> dget st ''pihole_verify_ssl'' = Some (JBool False) \<and> dget st ''audit_retention_days'' = Some (JInt 30)
     \<and> dget st ''unifi_protect_verify_ssl'' = Some (JBool True)"
proof -
  have "stored_ok w_old" "thresholds_ok (settings_in w_old)" by code_simp+
  from load_merges [OF this] obtain d' st where d: "merge_stored w_old = Inr d'" "store_shaped d'"
    "dget d' ''settings'' = Some (JObj st)"
    "\<And>k. k \<noteq> ''risk_learning_period_days'' \<Longrightarrow> k \<noteq> ''detection_thresholds'' \<Longrightarrow> dget st k =
       (if pinned (settings_in w_old) k then Some (JBool False)
        else case dget (settings_in w_old) k of Some v \<Rightarrow> Some v | None \<Rightarrow> dget default_settings k)" by blast
  have p: "pinned (settings_in w_old) ''pihole_verify_ssl''" "\<not> pinned (settings_in w_old) ''audit_retention_days''"
    "\<not> pinned (settings_in w_old) ''unifi_protect_verify_ssl''"
    by (simp_all add: pinned_def settings_in_def w_old_def TLS_VERIFY_PAIRS_def dget_default_def)
  have "dget (settings_in w_old) ''audit_retention_days'' = Some (JInt 30)"
    "dget (settings_in w_old) ''unifi_protect_verify_ssl'' = None"
    "dget default_settings ''unifi_protect_verify_ssl'' = Some (JBool True)" by code_simp+
  with d p show ?thesis by simp
qed

text \<open>
  C11. A restart finds what was saved: from the two payloads a load rebuilds every field and every
  setting, for data of the declared shape with all settings present.
\<close>

theorem restart_roundtrip:
  assumes "store_shaped (sd s)" "thresholds_ok (settings_in (sd s))" "settings_complete (settings_in (sd s))"
    "\<not> ring_in_main s" "lists_bounded s"
  shows "\<exists>x. async_load r (Some (main_payload s)) (Some (snd (ring_payload s))) = Inr (x, True)
     \<and> (\<forall>k. k \<noteq> ''settings'' \<longrightarrow> dget (sd (mem x)) k = dget (sd s) k)
     \<and> (\<forall>k. dget (settings_in (sd (mem x))) k = dget (settings_in (sd s)) k) \<and> store_shaped (sd (mem x))"
  using restart [OF assms] by metis

theorem restart_roundtrip_witness:
  "\<exists>x. async_load w_saved (Some (main_payload new_store)) (Some (snd (ring_payload new_store))) = Inr (x, True)
     \<and> (\<forall>k. k \<noteq> ''settings'' \<longrightarrow> dget (sd (mem x)) k = dget (sd new_store) k)
     \<and> (\<forall>k. dget (settings_in (sd (mem x))) k = dget (settings_in (sd new_store)) k) \<and> store_shaped (sd (mem x))"
proof (rule restart_roundtrip)
  show "store_shaped (sd new_store)" by (rule new_shaped)
  show "thresholds_ok (settings_in (sd new_store))" by code_simp
  show "settings_complete (settings_in (sd new_store))" by code_simp
  show "\<not> ring_in_main new_store" by (simp add: new_store_def)
  show "lists_bounded new_store" by (rule new_bounded)
qed

section \<open>Secrets\<close>

text \<open>
  C12. The migration moves every legacy secret, the settings' and the pinned add-on secret, into
  the secret store and leaves none of them in the general store, whatever becomes of the saves.
\<close>

theorem secrets_leave_the_store:
  assumes "store_shaped (sd (mem x))"
  shows "\<exists>sec' x' m. async_migrate_legacy_secrets saved r sec x = Inr (sec', x', m)
     \<and> (\<forall>k. k \<in> set SECRET_SETTING_KEYS \<longrightarrow> dget (settings_in (sd (mem x'))) k = None) \<and> pin_of (sd (mem x')) = JNull
     \<and> (\<forall>k. k \<in> set SECRET_SETTING_KEYS \<longrightarrow> truthy (dget_null (settings_in (sd (mem x))) k) \<longrightarrow>
          sec_get k sec' = Inr (Some (dget_null (settings_in (sd (mem x))) k)))
     \<and> (truthy (pin_of (sd (mem x))) \<longrightarrow> sec_get PROBE_PAIRING_SECRET_KEY sec' = Inr (Some (pin_of (sd (mem x)))))"
  using migrate_secrets [OF assms, of saved r sec] by blast

definition w_secret_key :: string where "w_secret_key = hd SECRET_SETTING_KEYS"

definition w_exposed :: store_sys where
  "w_exposed = (store_over None None)\<lparr>mem := new_store\<lparr>sd := dset default_store_data ''settings''
     (JObj (dset default_settings w_secret_key (JStr ''hunter2'')))\<rparr>\<rparr>"

theorem secrets_leave_the_store_witness:
  "\<exists>sec' x' m. async_migrate_legacy_secrets (\<lambda>_. True) w_saved (new_secret_store None) w_exposed = Inr (sec', x', m)
     \<and> dget (settings_in (sd (mem x'))) w_secret_key = None
     \<and> sec_get w_secret_key sec' = Inr (Some (JStr ''hunter2''))"
proof -
  have s: "store_shaped (sd (mem w_exposed))" by code_simp
  have k: "w_secret_key \<in> set SECRET_SETTING_KEYS" by code_simp
  have v: "dget_null (settings_in (sd (mem w_exposed))) w_secret_key = JStr ''hunter2''" by code_simp
  from secrets_leave_the_store [OF s, of "\<lambda>_. True" w_saved "new_secret_store None"] k v show ?thesis
    by (auto simp: v)
qed

end
