(* ===== verification/ExternalAudit.thy ===== *)
theory ExternalAudit
  imports AuditChain SecretStore
begin

text \<open>
  \<open>external_audit.py\<close>: ingest of the hash-chained records other tools hand over, each source's
  chain checked against the head accepted last. A call has passed the service schema, so its
  fields have their types (\<open>ext_record\<close>); the details are JSON. SHA-256 is \<open>H\<close>, the id that
  Home Assistant resolves for the Supervisor is an argument, and the clock reads \<open>tick n\<close> when
  the record numbered \<open>n\<close> is logged.
\<close>

declare dumps_with.simps [simp del]

declare wf_json.simps(3) [simp del]

section \<open>Records and calls\<close>

definition RECORDS_PER_CALL_MAX :: nat where "RECORDS_PER_CALL_MAX = 200"

definition DETAILS_MAX_BYTES :: nat where "DETAILS_MAX_BYTES = 8192"

record ext_record =
  xr_seq :: int
  xr_time :: string
  xr_event :: string
  xr_user_id :: "string option"
  xr_user_name :: "string option"
  xr_details :: dict
  xr_previous :: string
  xr_hash :: string

record ext_call =
  xc_source :: string
  xc_secret :: string
  xc_records :: "ext_record list"
  xc_user :: "string option"

definition is_hex_digest :: "string \<Rightarrow> bool" where
  "is_hex_digest s \<longleftrightarrow> length s = 64 \<and> list_all (\<lambda>c. is_digit c \<or> (CHR ''a'' \<le> c \<and> c \<le> CHR ''f'')) s"

definition record_schema :: "ext_record \<Rightarrow> bool" where
  "record_schema r \<longleftrightarrow>
     1 \<le> xr_seq r \<and> length (xr_time r) \<le> 64 \<and> 1 \<le> length (xr_event r) \<and> length (xr_event r) \<le> 64
     \<and> (\<forall>u. xr_user_id r = Some u \<longrightarrow> length u \<le> 128) \<and> (\<forall>u. xr_user_name r = Some u \<longrightarrow> length u \<le> 128)
     \<and> (xr_previous r = [] \<or> is_hex_digest (xr_previous r)) \<and> is_hex_digest (xr_hash r)"

definition ingest_schema :: "ext_call \<Rightarrow> bool" where
  "ingest_schema c \<longleftrightarrow>
     1 \<le> length (xc_source c) \<and> length (xc_source c) \<le> 32 \<and> is_lower (hd (xc_source c))
     \<and> list_all (\<lambda>x. is_lower x \<or> is_digit x \<or> x = CHR ''_'') (xc_source c)
     \<and> 16 \<le> length (xc_secret c) \<and> length (xc_secret c) \<le> 256
     \<and> 1 \<le> length (xc_records c) \<and> length (xc_records c) \<le> RECORDS_PER_CALL_MAX
     \<and> list_all record_schema (xc_records c)"

definition record_content :: "ext_record \<Rightarrow> dict" where
  "record_content r =
     [(''time'', JStr (xr_time r)), (''event'', JStr (xr_event r)), (''user_id'', opt_json (xr_user_id r)),
      (''user_name'', opt_json (xr_user_name r)), (''details'', JObj (xr_details r)),
      (''previous'', JStr (xr_previous r))]"

definition record_text :: "ext_record \<Rightarrow> string" where
  "record_text r = dumps_compact (JObj (record_content r)) @ xr_previous r"

definition record_digest :: "(string \<Rightarrow> string) \<Rightarrow> ext_record \<Rightarrow> string" where
  "record_digest H r = H (record_text r)"

section \<open>Who may call\<close>

record ext_sys =
  xs_log :: alog
  xs_store :: soc_store
  xs_secrets :: secret_store
  xs_supervisor :: "string option"

text \<open>\<open>async_supervisor_call_rejection\<close> of \<open>probe.py\<close>; the resolved id is cached.\<close>

definition supervisor_call_rejection ::
    "string option \<Rightarrow> string option \<Rightarrow> string option \<Rightarrow> string option \<times> string option" where
  "supervisor_call_rejection resolved caller cached =
     (let sid = (case cached of None \<Rightarrow> resolved | Some i \<Rightarrow> Some i)
      in (sid, if caller = None \<or> sid = None \<or> caller \<noteq> sid then Some ''not_supervisor'' else None))"

text \<open>\<open>hmac.compare_digest\<close> takes ASCII text only.\<close>

definition compare_digest :: "string \<Rightarrow> json \<Rightarrow> bool res" where
  "compare_digest a b =
     (case b of
        JStr t \<Rightarrow> if list_all (\<lambda>c. of_char c < (128 :: nat)) (a @ t) then Inr (a = t) else Inl TypeError
      | _ \<Rightarrow> Inl TypeError)"

definition secret_table :: "json option \<Rightarrow> json res" where
  "secret_table raw =
     (case raw of
        None \<Rightarrow> Inr (JObj [])
      | Some v \<Rightarrow>
          if truthy v
          then (case v of
                  JStr t \<Rightarrow> Inr (case loads t of Some x \<Rightarrow> x | None \<Rightarrow> JObj [])
                | _ \<Rightarrow> Inl TypeError)
          else Inr (JObj []))"

definition source_secret_ok ::
    "bool \<Rightarrow> string \<Rightarrow> string \<Rightarrow> secret_store \<Rightarrow> (secret_store \<times> bool) res" where
  "source_secret_ok saved source presented sec =
     bind_res (sec_get EXTERNAL_AUDIT_SECRETS_KEY sec) (\<lambda>raw. bind_res (secret_table raw) (\<lambda>v.
       bind_res (as_table AttributeError v) (\<lambda>t.
         case entry t source of
           None \<Rightarrow>
             bind_res (sec_set saved EXTERNAL_AUDIT_SECRETS_KEY
                         (JStr (dumps_sorted (JObj (dset t source (JStr presented))))) sec)
               (\<lambda>sec1. Inr (sec1, True))
         | Some pin \<Rightarrow> bind_res (compare_digest presented pin) (\<lambda>b. Inr (sec, b)))))"

section \<open>The walk over a batch\<close>

record ingest =
  in_log :: alog
  in_seq :: int
  in_hash :: string
  in_accepted :: nat

fun to_py :: "json \<Rightarrow> pyval" where
  "to_py JNull = PNone"
| "to_py (JBool b) = PBool b"
| "to_py (JInt i) = PInt i"
| "to_py (JFloat t) = PFloat (Finite t)"
| "to_py (JStr s) = PStr s"
| "to_py (JArr xs) = PList (map to_py xs)"
| "to_py (JObj d) = PDict (map (\<lambda>p. (KStr (fst p), to_py (snd p))) d)"

definition record_event :: "string \<Rightarrow> ext_record \<Rightarrow> audit_event" where
  "record_event source r =
     (plain_event ''external_audit'')
       \<lparr>ev_user_id := xr_user_id r,
        ev_detail := Some (PDict
          [(KStr ''source'', PStr source), (KStr ''source_seq'', PInt (xr_seq r)),
           (KStr ''source_hash'', PStr (xr_hash r)), (KStr ''source_time'', PStr (xr_time r)),
           (KStr ''event'', PStr (xr_event r)), (KStr ''user_name'', opt_str (xr_user_name r)),
           (KStr ''details'', to_py (JObj (xr_details r)))])\<rparr>"

text \<open>
  What the loop does with one record: skip it, refuse it with a reason, or accept it. The
  order of the tests is the code's.
\<close>

datatype judgement = Skip | Refuse string | Accept

definition judge :: "(string \<Rightarrow> string) \<Rightarrow> int \<Rightarrow> string \<Rightarrow> ext_record \<Rightarrow> judgement" where
  "judge H last_seq last_hash r =
     (if xr_seq r \<le> last_seq then
        (if xr_seq r = last_seq \<and> xr_hash r \<noteq> last_hash then Refuse ''rewritten_history'' else Skip)
      else if last_seq + 1 < xr_seq r then Refuse ''gap''
      else if last_seq \<noteq> 0 \<and> xr_previous r \<noteq> last_hash then Refuse ''previous_hash_mismatch''
      else if record_digest H r \<noteq> xr_hash r then Refuse ''hash_mismatch''
      else if DETAILS_MAX_BYTES < length (dumps_plain (JObj (xr_details r))) then Refuse ''details_too_large''
      else Accept)"

fun ingest_records ::
    "(string \<Rightarrow> string) \<Rightarrow> (int \<Rightarrow> string) \<Rightarrow> string \<Rightarrow> ext_record list \<Rightarrow> ingest \<Rightarrow> ingest \<times> string option" where
  "ingest_records H tick source [] i = (i, None)"
| "ingest_records H tick source (r # rs) i =
     (case judge H (in_seq i) (in_hash i) r of
        Skip \<Rightarrow> ingest_records H tick source rs i
      | Refuse why \<Rightarrow> (i, Some why)
      | Accept \<Rightarrow>
          ingest_records H tick source rs
            \<lparr>in_log = async_log (tick (xr_seq r)) (record_event source r) (in_log i), in_seq = xr_seq r,
             in_hash = xr_hash r, in_accepted = in_accepted i + 1\<rparr>)"

section \<open>The service\<close>

record ingest_reply =
  rp_accepted :: nat
  rp_last_seq :: "int option"
  rp_rejected :: "string option"

definition rejected_event :: "ext_call \<Rightarrow> string \<Rightarrow> audit_event" where
  "rejected_event c reason =
     (plain_event ''external_audit_rejected'')
       \<lparr>ev_user_id := xc_user c,
        ev_detail := Some (PDict [(KStr ''source'', PStr (xc_source c)),
          (KStr ''caller_user_id'', opt_str (xc_user c)), (KStr ''reason'', PStr reason)])\<rparr>"

definition break_event :: "ext_call \<Rightarrow> string \<Rightarrow> ingest \<Rightarrow> audit_event" where
  "break_event c reason i =
     (plain_event ''external_audit_chain_break'')
       \<lparr>ev_user_id := xc_user c,
        ev_detail := Some (PDict [(KStr ''source'', PStr (xc_source c)), (KStr ''reason'', PStr reason),
          (KStr ''accepted_before_break'', PInt (int (in_accepted i))), (KStr ''head_seq'', PInt (in_seq i)),
          (KStr ''expected_seq'', PInt (in_seq i + 1))])\<rparr>"

text \<open>The position of a stored head, which is falsy when empty.\<close>

definition head_position :: "dict option \<Rightarrow> (int \<times> string) res" where
  "head_position h =
     (case h of
        None \<Rightarrow> Inr (0, [])
      | Some d \<Rightarrow>
          if d = [] then Inr (0, [])
          else bind_res (item d ''seq'') (\<lambda>q. bind_res (py_int q) (\<lambda>n.
                 bind_res (item d ''hash'') (\<lambda>h. Inr (n, py_str h)))))"

definition ingest_batch ::
    "(string \<Rightarrow> string) \<Rightarrow> (int \<Rightarrow> string) \<Rightarrow> string \<Rightarrow> ext_call \<Rightarrow> ext_sys \<Rightarrow> (ext_sys \<times> ingest_reply) res" where
  "ingest_batch H tick now c s =
     bind_res (external_audit_head (xc_source c) (xs_store s)) (\<lambda>(st, head).
       bind_res (head_position head) (\<lambda>(q, h).
         let (i, rejected) = ingest_records H tick (xc_source c) (xc_records c)
               \<lparr>in_log = xs_log s, in_seq = q, in_hash = h, in_accepted = 0\<rparr>
         in bind_res
              (if in_accepted i = 0 then Inr st
               else async_set_external_audit_head (xc_source c)
                      [(''seq'', JInt (in_seq i)), (''hash'', JStr (in_hash i)), (''at'', JStr now)] st)
              (\<lambda>st1.
                let log = (case rejected of None \<Rightarrow> in_log i
                           | Some why \<Rightarrow> async_log now (break_event c why i) (in_log i))
                in Inr (s\<lparr>xs_log := log, xs_store := st1\<rparr>,
                        \<lparr>rp_accepted = in_accepted i, rp_last_seq = (if in_seq i = 0 then None else Some (in_seq i)),
                         rp_rejected = rejected\<rparr>))))"

definition handle_ingest ::
    "(string \<Rightarrow> string) \<Rightarrow> (int \<Rightarrow> string) \<Rightarrow> string \<Rightarrow> bool \<Rightarrow> string option \<Rightarrow> ext_call \<Rightarrow> ext_sys
      \<Rightarrow> (ext_sys \<times> ingest_reply) res" where
  "handle_ingest H tick now saved resolved c s =
     (let (sid, reason) = supervisor_call_rejection resolved (xc_user c) (xs_supervisor s);
          s1 = s\<lparr>xs_supervisor := sid\<rparr>
      in bind_res
           (case reason of
              Some why \<Rightarrow> Inr (s1, Some why)
            | None \<Rightarrow>
                bind_res (source_secret_ok saved (xc_source c) (xc_secret c) (xs_secrets s1)) (\<lambda>(sec, ok).
                  Inr (s1\<lparr>xs_secrets := sec\<rparr>, if ok then None else Some ''bad_secret'')))
           (\<lambda>(s2, reason).
             case reason of
               Some why \<Rightarrow>
                 Inr (s2\<lparr>xs_log := async_log now (rejected_event c why) (xs_log s2)\<rparr>,
                      \<lparr>rp_accepted = 0, rp_last_seq = None, rp_rejected = Some why\<rparr>)
             | None \<Rightarrow> ingest_batch H tick now c s2))"

section \<open>Accepted records are a chain\<close>

text \<open>A record that continues the source's chain at \<open>p\<close>, its number and the hash before it.\<close>

definition ext_link :: "(string \<Rightarrow> string) \<Rightarrow> int \<times> string \<Rightarrow> ext_record \<Rightarrow> (int \<times> string) option" where
  "ext_link H p r =
     (if 0 < fst p \<and> wf_json (JObj (record_content r)) \<and> judge H (fst p) (snd p) r = Accept
      then Some (xr_seq r, xr_hash r) else None)"

text \<open>Equal but for the order of keys inside the details and for the number, which is not hashed.\<close>

definition same_content :: "ext_record \<Rightarrow> ext_record \<Rightarrow> bool" where
  "same_content r s \<longleftrightarrow> canon True (JObj (record_content r)) = canon True (JObj (record_content s))"

lemma judge_Accept:
  "judge H q h r = Accept \<longleftrightarrow> xr_seq r = q + 1 \<and> (q \<noteq> 0 \<longrightarrow> xr_previous r = h) \<and> record_digest H r = xr_hash r
     \<and> length (dumps_plain (JObj (xr_details r))) \<le> DETAILS_MAX_BYTES"
  by (auto simp: judge_def)

lemma ext_link_Some:
  "ext_link H p r = Some x \<longleftrightarrow> 0 < fst p \<and> wf_json (JObj (record_content r)) \<and> judge H (fst p) (snd p) r = Accept
     \<and> x = (xr_seq r, xr_hash r)"
  by (auto simp: ext_link_def)

lemma same_content_previous:
  assumes "same_content r s"
  shows "xr_previous r = xr_previous s" "xr_event r = xr_event s" "xr_time r = xr_time s"
    "opt_json (xr_user_id r) = opt_json (xr_user_id s)"
proof -
  have d: "distinct_keys (record_content x)" for x by (simp add: record_content_def)
  have "dget (order_keys True (map (\<lambda>p. (fst p, canon True (snd p))) (record_content r))) k
      = dget (order_keys True (map (\<lambda>p. (fst p, canon True (snd p))) (record_content s))) k" for k
    using assms by (simp add: same_content_def)
  then have k: "map_option (canon True) (dget (record_content r) k) = map_option (canon True) (dget (record_content s) k)" for k
    using dget_canon [OF d, of True r k] dget_canon [OF d, of True s k] by simp
  show "xr_previous r = xr_previous s" using k [of "''previous''"] by (simp add: record_content_def)
  show "xr_event r = xr_event s" using k [of "''event''"] by (simp add: record_content_def)
  show "xr_time r = xr_time s" using k [of "''time''"] by (simp add: record_content_def)
  show "opt_json (xr_user_id r) = opt_json (xr_user_id s)"
    using k [of "''user_id''"] by (cases "xr_user_id r"; cases "xr_user_id s") (auto simp: record_content_def opt_json_def)
qed

interpretation external: digest_chain "ext_link H" "\<lambda>p r. record_text r" H snd same_content for H
proof unfold_locales
  show "ext_link H p r = Some p' \<Longrightarrow> snd p' = H (record_text r)" for p r p'
    by (auto simp: ext_link_def judge_Accept record_digest_def split: if_splits)
  fix p r x q s y
  assume a: "ext_link H p r = Some x" "ext_link H q s = Some y" "record_text r = record_text s"
  then have "wf_json (JObj (record_content r))" "wf_json (JObj (record_content s))"
    by (auto simp: ext_link_def split: if_splits)
  from compact_prefix [OF this] a(3) have s: "same_content r s" by (simp add: record_text_def same_content_def)
  with a(1,2) same_content_previous(1) [OF s] show "snd p = snd q \<and> same_content r s"
    by (auto simp: ext_link_def judge_Accept split: if_splits)
qed

section \<open>What a batch does\<close>

text \<open>The walk without its effects: the records accepted, and why it stopped early, if it did.\<close>

fun accepts :: "(string \<Rightarrow> string) \<Rightarrow> int \<Rightarrow> string \<Rightarrow> ext_record list \<Rightarrow> ext_record list \<times> string option" where
  "accepts H q h [] = ([], None)"
| "accepts H q h (r # rs) =
     (case judge H q h r of
        Skip \<Rightarrow> accepts H q h rs
      | Refuse why \<Rightarrow> ([], Some why)
      | Accept \<Rightarrow> (let (as, w) = accepts H (xr_seq r) (xr_hash r) rs in (r # as, w)))"

definition ext_end :: "int \<times> string \<Rightarrow> ext_record list \<Rightarrow> int \<times> string" where
  "ext_end p rs = (if rs = [] then p else (xr_seq (last rs), xr_hash (last rs)))"

lemma ext_end_simps [simp]: "ext_end p [] = p" "ext_end p (r # rs) = ext_end (xr_seq r, xr_hash r) rs"
  by (simp_all add: ext_end_def)

definition log_records :: "(int \<Rightarrow> string) \<Rightarrow> string \<Rightarrow> ext_record list \<Rightarrow> alog \<Rightarrow> alog" where
  "log_records tick source rs l = fold (\<lambda>r. async_log (tick (xr_seq r)) (record_event source r)) rs l"

lemma ingest_records_eq:
  "ingest_records H tick source rs i =
     (let (as, w) = accepts H (in_seq i) (in_hash i) rs;
          (q, h) = ext_end (in_seq i, in_hash i) as
      in (\<lparr>in_log = log_records tick source as (in_log i), in_seq = q, in_hash = h,
            in_accepted = in_accepted i + length as\<rparr>, w))"
proof (induction rs arbitrary: i)
  case (Cons r rs)
  show ?case
  proof (cases "judge H (in_seq i) (in_hash i) r")
    case Accept
    then show ?thesis
      by (cases "accepts H (xr_seq r) (xr_hash r) rs") (auto simp: Cons.IH Let_def log_records_def split: prod.split)
  qed (simp_all add: Cons.IH Let_def log_records_def split: prod.split)
qed (simp add: log_records_def)

lemma judge_split: "judge H q h r = Accept \<or> (judge H q h r = Skip \<and> xr_seq r \<le> q \<and> (xr_seq r = q \<longrightarrow> xr_hash r = h))
    \<or> (\<exists>why. judge H q h r = Refuse why)"
  by (auto simp: judge_def)

lemma accepts_numbers:
  "accepts H q h rs = (as, w) \<Longrightarrow> subseq as rs \<and> map xr_seq as = map (\<lambda>i. q + 1 + int i) [0..<length as]
     \<and> (\<forall>r \<in> set as. record_digest H r = xr_hash r)"
proof (induction rs arbitrary: q h as)
  case (Cons r rs)
  show ?case
  proof (cases "judge H q h r")
    case Accept
    with Cons.prems obtain bs where bs: "accepts H (xr_seq r) (xr_hash r) rs = (bs, w)" "as = r # bs"
      by (auto split: prod.splits)
    have s: "xr_seq r = q + 1" "record_digest H r = xr_hash r" using Accept by (auto simp: judge_Accept)
    note IH = Cons.IH [OF bs(1)]
    have "[0..<length (r # bs)] = 0 # map Suc [0..<length bs]" by (simp add: map_Suc_upt upt_conv_Cons del: upt_Suc)
    then have "map xr_seq as = map (\<lambda>i. q + 1 + int i) [0..<length as]"
      using IH s bs(2) by (simp add: comp_def add.assoc del: upt_Suc)
    with IH s bs(2) show ?thesis by simp
  qed (use Cons in \<open>auto intro: subseq_Cons'\<close>)
qed simp

text \<open>A link of the chain is accepted, and what is accepted links.\<close>

lemma accepts_run:
  assumes "external.run H p rs = Some p'"
  shows "accepts H (fst p) (snd p) rs = (rs, None) \<and> p' = ext_end p rs"
  using assms
proof (induction rs arbitrary: p)
  case (Cons r rs)
  then have j: "judge H (fst p) (snd p) r = Accept" "external.run H (xr_seq r, xr_hash r) rs = Some p'"
    by (auto simp: ext_link_Some split: bind_splits)
  with Cons.IH [OF j(2)] show ?case by simp
qed simp

lemma run_accepts:
  assumes "accepts H (fst p) (snd p) rs = (as, w)" "0 < fst p" "\<forall>r \<in> set rs. wf_json (JObj (record_content r))"
  shows "external.run H p as = Some (ext_end p as)"
  using assms
proof (induction rs arbitrary: p as)
  case (Cons r rs)
  show ?case
  proof (cases "judge H (fst p) (snd p) r")
    case Accept
    with Cons.prems obtain bs where bs: "accepts H (xr_seq r) (xr_hash r) rs = (bs, w)" "as = r # bs"
      by (auto split: prod.splits)
    have "0 < xr_seq r" using Accept Cons.prems(2) by (auto simp: judge_Accept)
    then have "external.run H (xr_seq r, xr_hash r) bs = Some (ext_end (xr_seq r, xr_hash r) bs)"
      using Cons.IH [of "(xr_seq r, xr_hash r)" bs] bs Cons.prems(3) by simp
    moreover have "ext_link H p r = Some (xr_seq r, xr_hash r)"
      using Accept Cons.prems(2,3) by (simp add: ext_link_Some)
    ultimately show ?thesis using bs by simp
  qed (use Cons in auto)
qed simp

text \<open>A batch taken to its end, sent again, is skipped as a whole.\<close>

lemma accepts_done:
  assumes "accepts H q h rs = (as, None)" "ext_end (q, h) as = (q', h')"
  shows "q \<le> q' \<and> (q = q' \<longrightarrow> h = h') \<and> (\<forall>r \<in> set rs. xr_seq r \<le> q' \<and> (xr_seq r = q' \<longrightarrow> xr_hash r = h'))"
  using assms
proof (induction rs arbitrary: q h as)
  case (Cons r rs)
  from judge_split [of H q h r] show ?case
  proof (elim disjE conjE exE)
    assume j: "judge H q h r = Accept"
    with Cons.prems obtain bs where bs: "accepts H (xr_seq r) (xr_hash r) rs = (bs, None)" "as = r # bs"
      by (auto split: prod.splits)
    with Cons.IH [OF bs(1)] Cons.prems(2) j show ?thesis by (auto simp: judge_Accept)
  next
    assume "judge H q h r = Skip" "xr_seq r \<le> q" "xr_seq r = q \<longrightarrow> xr_hash r = h"
    with Cons.IH [of q h as] Cons.prems show ?thesis by auto
  qed (use Cons.prems in simp)
qed auto

lemma accepts_again:
  assumes "\<forall>r \<in> set rs. xr_seq r \<le> q \<and> (xr_seq r = q \<longrightarrow> xr_hash r = h)"
  shows "accepts H q h rs = ([], None)"
  using assms by (induction rs) (auto simp: judge_def)

section \<open>Secrets pinned at first use\<close>

definition pins :: "secret_store \<Rightarrow> dict \<Rightarrow> bool" where
  "pins sec t \<longleftrightarrow> wf_json (JObj t)
     \<and> (case dget (sec_data sec) EXTERNAL_AUDIT_SECRETS_KEY of
          None \<Rightarrow> t = []
        | Some v \<Rightarrow> v = JStr (dumps_sorted (JObj t)))"

lemma pins_table:
  assumes "pins sec t"
  obtains t' where "sec_get EXTERNAL_AUDIT_SECRETS_KEY sec = Inr r \<Longrightarrow> secret_table r = Inr (JObj t')"
    "wf_json (JObj t')" "\<And>k. dget t' k = map_option (canon True) (dget t k)"
proof -
  let ?t = "order_keys True (map (\<lambda>p. (fst p, canon True (snd p))) t)"
  have c: "canon True (JObj t) = JObj ?t" by simp
  have wf: "wf_json (JObj t)" using assms by (simp add: pins_def)
  show ?thesis
  proof
    show "wf_json (JObj ?t)" using wf wf_json_canon [of True "JObj t"] by (simp only: c)
    show "dget ?t k = map_option (canon True) (dget t k)" for k using wf by (simp add: dget_canon wf_dict_iff)
    assume r: "sec_get EXTERNAL_AUDIT_SECRETS_KEY sec = Inr r"
    show "secret_table r = Inr (JObj ?t)"
    proof (cases "dget (sec_data sec) EXTERNAL_AUDIT_SECRETS_KEY")
      case None
      with r assms show ?thesis by (auto simp: sec_get_def bind_res_Inr pins_def secret_table_def)
    next
      case (Some v)
      have "v = JStr (dumps_sorted (JObj t))" using Some assms by (simp add: pins_def)
      moreover have "r = Some v" using r by (simp add: sec_get_def bind_res_Inr Some)
      ultimately have "r = Some (JStr (dumps_sorted (JObj t)))" by simp
      moreover have "dumps_sorted (JObj t) \<noteq> []" by (simp add: dumps_with.simps)
      ultimately show ?thesis using loads_spaced [OF wf, of True] c by (simp add: secret_table_def)
    qed
  qed
qed

lemma external_key: "check_key EXTERNAL_AUDIT_SECRETS_KEY = Inr ()"
proof -
  have "EXTERNAL_AUDIT_SECRETS_KEY \<in> set ALLOWED_SECRET_KEYS" by (simp add: ALLOWED_SECRET_KEYS_def)
  then show ?thesis by (simp add: check_key_def)
qed

lemma first_call_pins:
  assumes "pins sec t" "dget t source = None"
  shows "\<exists>sec' t'. source_secret_ok saved source presented sec = Inr (sec', True) \<and> pins sec' t'
     \<and> (\<forall>k. dget t' k = (if k = source then Some (JStr presented) else map_option (canon True) (dget t k)))"
proof -
  let ?r = "dget (sec_data sec) EXTERNAL_AUDIT_SECRETS_KEY"
  have g: "sec_get EXTERNAL_AUDIT_SECRETS_KEY sec = Inr ?r" by (simp add: sec_get_def external_key)
  obtain t1 where t1: "secret_table ?r = Inr (JObj t1)" "wf_json (JObj t1)" "\<And>k. dget t1 k = map_option (canon True) (dget t k)"
    using pins_table [OF assms(1)] g by metis
  let ?t = "dset t1 source (JStr presented)" 
  let ?s = "sec\<lparr>sec_data := dset (sec_data sec) EXTERNAL_AUDIT_SECRETS_KEY (JStr (dumps_sorted (JObj ?t)))\<rparr>"
  have wf: "wf_json (JObj ?t)" using t1(2) wf_dict_dset [of t1 "JStr presented" source] by (simp add: wf_dict_iff)
  have "dumps_sorted (JObj ?t) \<noteq> []" by (simp add: dumps_with.simps)
  then have "source_secret_ok saved source presented sec =
      Inr (if saved then ?s\<lparr>sec_file := Some (sec_data ?s)\<rparr> else ?s, True)"
    using g t1 assms(2) by (simp add: source_secret_ok_def entry_def sec_set_def external_key)
  moreover have "pins s' ?t" if "sec_data s' = sec_data ?s" for s' using that wf by (simp add: pins_def dict_simps)
  ultimately show ?thesis using t1(3) by (intro exI [of _ "if saved then ?s\<lparr>sec_file := Some (sec_data ?s)\<rparr> else ?s"]
        exI [of _ ?t]) (simp add: dict_simps)
qed

lemma later_call_compares:
  assumes "pins sec t" "dget t source = Some (JStr pin)"
    "list_all (\<lambda>c. of_char c < (128 :: nat)) (presented @ pin)"
  shows "source_secret_ok saved source presented sec = Inr (sec, presented = pin)"
proof -
  let ?r = "dget (sec_data sec) EXTERNAL_AUDIT_SECRETS_KEY"
  have g: "sec_get EXTERNAL_AUDIT_SECRETS_KEY sec = Inr ?r" by (simp add: sec_get_def external_key)
  obtain t1 where t1: "secret_table ?r = Inr (JObj t1)" "\<And>k. dget t1 k = map_option (canon True) (dget t k)"
    using pins_table [OF assms(1)] g by metis
  then show ?thesis using g assms(2,3) by (simp add: source_secret_ok_def entry_def compare_digest_def)
qed

section \<open>The service\<close>

text \<open>A refused caller: one record of the refusal, and nothing of the store or the secrets.\<close>

lemma refused_not_supervisor:
  assumes "fst (supervisor_call_rejection resolved (xc_user c) (xs_supervisor s)) = sid" "xc_user c \<noteq> sid \<or> sid = None"
  shows "handle_ingest H tick now saved resolved c s =
     Inr (s\<lparr>xs_supervisor := sid, xs_log := async_log now (rejected_event c ''not_supervisor'') (xs_log s)\<rparr>,
          \<lparr>rp_accepted = 0, rp_last_seq = None, rp_rejected = Some ''not_supervisor''\<rparr>)"
  using assms by (auto simp: handle_ingest_def supervisor_call_rejection_def Let_def)

definition ext_position :: "string \<Rightarrow> soc_store \<Rightarrow> (int \<times> string) res" where
  "ext_position source st = bind_res (external_audit_head source st) (\<lambda>(_, h). head_position h)"

definition ext_head_entry :: "int \<times> string \<Rightarrow> string \<Rightarrow> dict" where
  "ext_head_entry p now = [(''seq'', JInt (fst p)), (''hash'', JStr (snd p)), (''at'', JStr now)]"

lemma head_position_entry: "head_position (Some (ext_head_entry p now)) = Inr p"
  by (simp add: head_position_def ext_head_entry_def item_def py_str_cases)

lemma external_head_shaped:
  assumes "store_shaped (sd st)"
  obtains t where "dget (sd st) ''external_audit_heads'' = Some (JObj t)" "rows_ok seq_head t"
    "external_audit_head source st = Inr (st, Option.bind (dget t source) as_obj)"
proof -
  obtain t where t: "dget (sd st) ''external_audit_heads'' = Some (JObj t)" "rows_ok seq_head t" by (rule shaped_heads [OF assms])
  then have "dsetdefault (sd st) ''external_audit_heads'' (JObj []) = sd st" by (simp add: dsetdefault_def)
  with t have "external_audit_head source st = Inr (st, Option.bind (dget t source) as_obj)"
    by (simp add: external_audit_head_def dget_default_def Let_def)
  with t that show ?thesis by blast
qed

text \<open>
  What a trusted batch does: the records of \<^const>\<open>accepts\<close> are logged in order, the head moves to
  the last of them, and a break is logged after them.
\<close>

lemma ingest_batch_eq:
  assumes "store_shaped (sd (xs_store s))" "ext_position (xc_source c) (xs_store s) = Inr (q, h)" "0 \<le> q"
    "accepts H q h (xc_records c) = (as, w)"
  shows "\<exists>st'. ingest_batch H tick now c s =
       Inr (s\<lparr>xs_store := st', xs_log := (let l = log_records tick (xc_source c) as (xs_log s)
              in case w of None \<Rightarrow> l | Some why \<Rightarrow> async_log now (break_event c why
                   \<lparr>in_log = l, in_seq = fst (ext_end (q, h) as), in_hash = snd (ext_end (q, h) as), in_accepted = length as\<rparr>) l)\<rparr>,
            \<lparr>rp_accepted = length as,
             rp_last_seq = (if fst (ext_end (q, h) as) = 0 then None else Some (fst (ext_end (q, h) as))),
             rp_rejected = w\<rparr>)
     \<and> ext_position (xc_source c) st' = Inr (ext_end (q, h) as) \<and> store_shaped (sd st')
     \<and> (as = [] \<longrightarrow> st' = xs_store s)"
proof -
  let ?st = "xs_store s" and ?src = "xc_source c" and ?e = "ext_end (q, h) as"
  obtain t where t: "dget (sd ?st) ''external_audit_heads'' = Some (JObj t)" "rows_ok seq_head t"
    "external_audit_head ?src ?st = Inr (?st, Option.bind (dget t ?src) as_obj)"
    by (rule external_head_shaped [OF assms(1)])
  have hp: "head_position (Option.bind (dget t ?src) as_obj) = Inr (q, h)"
    using assms(2) t(3) by (simp add: ext_position_def)
  obtain st' where st': "(if as = [] then Inr ?st else async_set_external_audit_head ?src (ext_head_entry ?e now) ?st) = Inr st'"
    "store_shaped (sd st')" "ext_position ?src st' = Inr ?e" "as = [] \<longrightarrow> st' = ?st"
  proof (cases "as = []")
    case True
    then show ?thesis using that [of ?st] assms(1,2) by simp
  next
    case False
    have n: "fst ?e = q + int (length as)"
    proof -
      note a = accepts_numbers [OF assms(4)]
      have "last (map xr_seq as) = last (map (\<lambda>i. q + 1 + int i) [0..<length as])" using a by simp
      then have "xr_seq (last as) = q + 1 + int (length as - 1)" using False by (simp add: last_map del: upt_Suc)
      with False show ?thesis by (cases as) (simp_all add: ext_end_def)
    qed
    have lt: "q < fst ?e" using n False by simp
    have sh: "seq_head (JObj (ext_head_entry ?e now))" by (simp add: seq_head_JObj ext_head_entry_def)
    have nr: "(case Option.bind (dget t ?src) as_obj of None \<Rightarrow> Inr False
        | Some cur \<Rightarrow> seq_regresses cur (ext_head_entry ?e now)) = Inr False"
    proof (cases "dget t ?src")
      case (Some v)
      then have "seq_head v" by (rule rows_get [OF t(2)])
      then obtain d m where d: "v = JObj d" "dget d ''seq'' = Some (JInt m)" by (auto elim: seq_headE)
      then have "m = q" using hp Some by (auto simp: head_position_def item_def bind_res_Inr split: if_splits)
      with d Some lt show ?thesis by (simp add: seq_regresses_ok ext_head_entry_def)
    qed simp
    let ?t = "dset t ?src (JObj (ext_head_entry ?e now))"
    let ?st' = "schedule_save (?st\<lparr>sd := dset (sd ?st) ''external_audit_heads'' (JObj ?t)\<rparr>)"
    have ds: "dsetdefault (sd ?st) ''external_audit_heads'' (JObj []) = sd ?st" using t(1) by (simp add: dsetdefault_def)
    have w: "async_set_external_audit_head ?src (ext_head_entry ?e now) ?st = Inr ?st'"
      using t(1) nr by (simp add: async_set_external_audit_head_def ds dget_default_def Let_def)
    have s': "store_shaped (sd ?st')" using assms(1) t(2) sh by (simp add: shaped_dset)
    have "dsetdefault (sd ?st') ''external_audit_heads'' (JObj []) = sd ?st'" by (simp add: dsetdefault_def dict_simps)
    then have "ext_position ?src ?st' = Inr ?e" using head_position_entry
      by (simp add: ext_position_def external_audit_head_def dget_default_def Let_def dict_simps)
    with w s' False show ?thesis using that [of ?st'] by simp
  qed
  obtain q' h' where e: "?e = (q', h')" by fastforce
  show ?thesis
    using st' hp assms(4) unfolding e
    by (intro exI [of _ st'])
      (cases w; auto simp: ingest_batch_def t(3) ingest_records_eq e Let_def ext_head_entry_def split: if_splits)
qed

end
