(* ===== verification/PyText.thy ===== *)
theory PyText
  imports PyDict AuditRedact
begin

text \<open>
  Text the components share: \<open>str.partition\<close>, and what
  \<open>ipaddress.ip_network(text, strict=False)\<close> makes of a text, which is the version of the network
  or a ValueError.
\<close>

definition before :: "char \<Rightarrow> string \<Rightarrow> string" where
  "before c s = takeWhile (\<lambda>x. x \<noteq> c) s"

definition behind :: "char \<Rightarrow> string \<Rightarrow> string" where
  "behind c s = tl (dropWhile (\<lambda>x. x \<noteq> c) s)"

definition all_digits :: "string \<Rightarrow> bool" where
  "all_digits s \<longleftrightarrow> s \<noteq> [] \<and> list_all is_digit s"

text \<open>The value of decimal digits, as an integer.\<close>

definition decimal :: "string \<Rightarrow> int" where
  "decimal s = foldl (\<lambda>n c. 10 * n + int (digit_val c)) 0 s"

lemma decimal_eq: "decimal s = int (digits_val s)"
proof -
  have "foldl (\<lambda>n c. 10 * n + int (digit_val c)) (int m) s = int (foldl (\<lambda>n c. 10 * n + digit_val c) m s)" for m
  proof (induction s arbitrary: m)
    case (Cons c s)
    from Cons.IH [of "10 * m + digit_val c"] show ?case by simp
  qed simp
  from this [of 0] show ?thesis by (simp add: decimal_def digits_val_def)
qed

lemma decimal_nonneg [simp]: "0 \<le> decimal s"
  by (simp add: decimal_eq)

section \<open>Addresses\<close>

definition ipv4_octet :: "string \<Rightarrow> int option" where
  "ipv4_octet s =
     (if all_digits s \<and> length s \<le> 3 \<and> (hd s \<noteq> CHR ''0'' \<or> length s = 1) \<and> decimal s \<le> 255
      then Some (decimal s) else None)"

fun ipv4_join :: "int \<Rightarrow> string list \<Rightarrow> int option" where
  "ipv4_join n [] = Some n"
| "ipv4_join n (p # ps) = Option.bind (ipv4_octet p) (\<lambda>b. ipv4_join (256 * n + b) ps)"

definition ipv4_int :: "string \<Rightarrow> int option" where
  "ipv4_int s = (let ps = split_on (CHR ''.'') s in if length ps = 4 then ipv4_join 0 ps else None)"

text \<open>A mask is a run of ones and then zeros, or (a host mask) the complement of one.\<close>

definition is_netmask :: "int \<Rightarrow> bool" where
  "is_netmask m \<longleftrightarrow> m \<in> set (map (\<lambda>k. 2 ^ 32 - 2 ^ k) [0..<33])"

definition ipv4_mask_ok :: "string \<Rightarrow> bool" where
  "ipv4_mask_ok s \<longleftrightarrow>
     (all_digits s \<and> length s \<le> 4300 \<and> decimal s \<le> 32)
     \<or> (case ipv4_int s of None \<Rightarrow> False | Some m \<Rightarrow> is_netmask m \<or> is_netmask (2 ^ 32 - 1 - m))"

definition ipv6_hextet :: "string \<Rightarrow> bool" where
  "ipv6_hextet s \<longleftrightarrow> s \<noteq> [] \<and> length s \<le> 4 \<and> list_all (\<lambda>c. hex_val c \<noteq> None) s"

text \<open>The last part may be an IPv4 address, which stands for two hextets.\<close>

definition ipv6_parts :: "string \<Rightarrow> string list option" where
  "ipv6_parts s =
     (let ps = split_on (CHR '':'') s
      in if length ps < 3 then None
         else if CHR ''.'' \<in> set (last ps)
         then (if ipv4_int (last ps) = None then None else Some (butlast ps @ [''0'', ''0'']))
         else Some ps)"

definition inner_gaps :: "string list \<Rightarrow> nat list" where
  "inner_gaps ps = filter (\<lambda>i. ps ! i = []) [1..<length ps - 1]"

definition ipv6_address :: "string \<Rightarrow> bool" where
  "ipv6_address s \<longleftrightarrow>
     (case ipv6_parts s of
        None \<Rightarrow> False
      | Some ps \<Rightarrow>
          length ps \<le> 9 \<and>
          (case inner_gaps ps of
             [] \<Rightarrow> length ps = 8 \<and> list_all ipv6_hextet ps
           | [i] \<Rightarrow>
               (let hi = (if hd ps = [] then [] else take i ps);
                    lo = (if last ps = [] then [] else drop (i + 1) ps)
                in (hd ps = [] \<longrightarrow> i = 1) \<and> (last ps = [] \<longrightarrow> i = length ps - 2)
                   \<and> length hi + length lo < 8 \<and> list_all ipv6_hextet hi \<and> list_all ipv6_hextet lo)
           | _ \<Rightarrow> False))"

text \<open>An IPv6 address may carry a scope after a percent sign.\<close>

definition ipv6_scoped :: "string \<Rightarrow> bool" where
  "ipv6_scoped s \<longleftrightarrow>
     ipv6_address (before (CHR ''%'') s)
     \<and> (CHR ''%'' \<in> set s \<longrightarrow> behind (CHR ''%'') s \<noteq> [] \<and> CHR ''%'' \<notin> set (behind (CHR ''%'') s))"

definition ip_version :: "string \<Rightarrow> nat option" where
  "ip_version s =
     (case split_on (CHR ''/'') s of
        [a] \<Rightarrow> if ipv4_int a \<noteq> None then Some 4 else if ipv6_scoped a then Some 6 else None
      | [a, m] \<Rightarrow>
          if ipv4_int a \<noteq> None \<and> ipv4_mask_ok m then Some 4
          else if ipv6_scoped a \<and> all_digits m \<and> length m \<le> 4300 \<and> decimal m \<le> 128 then Some 6
          else None
      | _ \<Rightarrow> None)"

lemma ip_version_range: "ip_version s = Some v \<Longrightarrow> v = 4 \<or> v = 6"
  by (auto simp: ip_version_def split: list.splits if_splits)

end
