(* ===== verification/FirewallRules.thy ===== *)
theory FirewallRules
  imports PyText
begin

text \<open>
  Firewall rules (\<open>firewall.py\<close>): the field validators, the schema that settles a rule's shape and
  address family, the wire form for the add-on, rules read back, and the optional extensions a
  rule needs. A rule is the JSON dict the code has. \<^const>\<open>None\<close> is \<open>vol.Invalid\<close>; voluptuous is
  not in the repository, and of its error only that it is raised is modelled.
\<close>

section \<open>Field validators\<close>

definition FIREWALL_RULE_ACTIONS :: "string list" where
  "FIREWALL_RULE_ACTIONS = [''allow'', ''deny'', ''reject'']"

definition FIREWALL_RULE_PROTOS :: "string list" where
  "FIREWALL_RULE_PROTOS = [''tcp'', ''udp'', ''icmp'']"

definition FIREWALL_RULE_FAMILIES :: "string list" where
  "FIREWALL_RULE_FAMILIES = [''4'', ''6'', ''both'']"

definition FIREWALL_PORTS_MAX_ENTRIES :: nat where "FIREWALL_PORTS_MAX_ENTRIES = 15"

definition FIREWALL_ICMP_TYPES :: "(string \<times> int option \<times> int option) list" where
  "FIREWALL_ICMP_TYPES =
     [(''any'', None, None),
      (''echo-request'', Some 8, Some 128),
      (''echo-reply'', Some 0, Some 129),
      (''destination-unreachable'', Some 3, Some 1),
      (''time-exceeded'', Some 11, Some 3),
      (''parameter-problem'', Some 12, Some 4),
      (''packet-too-big'', None, Some 2),
      (''router-solicitation'', None, Some 133),
      (''router-advertisement'', None, Some 134),
      (''neighbour-solicitation'', None, Some 135),
      (''neighbour-advertisement'', None, Some 136)]"

definition is_alnum :: "char \<Rightarrow> bool" where
  "is_alnum c \<longleftrightarrow> is_lower c \<or> is_upper c \<or> is_digit c"

text \<open>\<open>_PORTS_RE\<close>, \<open>_INTERFACE_RE\<close> and \<open>_COMMENT_RE\<close> on a stripped text.\<close>

definition port_number :: "string \<Rightarrow> bool" where
  "port_number s \<longleftrightarrow> all_digits s \<and> length s \<le> 5"

definition ports_re :: "string \<Rightarrow> bool" where
  "ports_re s \<longleftrightarrow>
     list_all (\<lambda>e. case split_on (CHR '':'') e of
        [a] \<Rightarrow> port_number a | [a, b] \<Rightarrow> port_number a \<and> port_number b | _ \<Rightarrow> False)
       (split_on (CHR '','') s)"

definition interface_re :: "string \<Rightarrow> bool" where
  "interface_re s \<longleftrightarrow> 1 \<le> length s \<and> length s \<le> 15
     \<and> list_all (\<lambda>c. is_alnum c \<or> c \<in> set ''_.:@-'') s"

definition comment_re :: "string \<Rightarrow> bool" where
  "comment_re s \<longleftrightarrow> 1 \<le> length s \<and> length s \<le> 22 \<and> list_all (\<lambda>c. is_alnum c \<or> c \<in> set ''_.-'') s"

definition valid_source :: "json \<Rightarrow> json option" where
  "valid_source v =
     (case v of
        JNull \<Rightarrow> Some JNull
      | JStr s \<Rightarrow> if s = [] then Some JNull else if ip_version s \<noteq> None then Some v else None
      | _ \<Rightarrow> None)"

definition port_entry_ok :: "string \<Rightarrow> bool" where
  "port_entry_ok e =
     (let low = decimal (before (CHR '':'') e); h = behind (CHR '':'') e;
          high = (if h = [] then low else decimal h)
      in 1 \<le> low \<and> low \<le> 65535 \<and> 1 \<le> high \<and> high \<le> 65535 \<and> (h \<noteq> [] \<longrightarrow> low < high))"

definition valid_ports :: "json \<Rightarrow> json option" where
  "valid_ports v =
     (if v = JNull \<or> v = JStr [] then Some JNull
      else
        (let s = strip (py_str v); es = split_on (CHR '','') s
         in if \<not> ports_re s then None
            else if FIREWALL_PORTS_MAX_ENTRIES < length es then None
            else if list_all port_entry_ok es then Some (JStr s) else None))"

definition valid_interface :: "json \<Rightarrow> json option" where
  "valid_interface v =
     (if v = JNull \<or> v = JStr [] then Some JNull
      else let s = strip (py_str v) in if interface_re s then Some (JStr s) else None)"

definition valid_comment :: "json \<Rightarrow> json option" where
  "valid_comment v =
     (if v = JNull \<or> v = JStr [] then Some JNull
      else let s = strip (py_str v) in if comment_re s then Some (JStr s) else None)"

definition one_of :: "string list \<Rightarrow> json \<Rightarrow> json option" where
  "one_of xs v = (if v \<in> JStr ` set xs then Some v else None)"

definition icmp_codes :: "string \<Rightarrow> (int option \<times> int option) option" where
  "icmp_codes t = map_of FIREWALL_ICMP_TYPES t"

text \<open>The schema of one key; an unknown key is refused. \<open>vol.Coerce(int)\<close> refuses what \<open>int\<close> does.\<close>

definition field_value :: "string \<Rightarrow> json \<Rightarrow> json option" where
  "field_value k v =
     (if k = ''action'' then one_of FIREWALL_RULE_ACTIONS v
      else if k = ''proto'' then one_of FIREWALL_RULE_PROTOS v
      else if k = ''port'' then
        (if v = JNull then Some JNull
         else case py_int v of Inr n \<Rightarrow> if 1 \<le> n \<and> n \<le> 65535 then Some (JInt n) else None | Inl e \<Rightarrow> None)
      else if k = ''ports'' then valid_ports v
      else if k = ''icmp_type'' then (if v = JNull then Some JNull else one_of (map fst FIREWALL_ICMP_TYPES) v)
      else if k = ''source'' \<or> k = ''destination'' then valid_source v
      else if k = ''interface'' then valid_interface v
      else if k = ''log'' then (if is_bool v then Some v else None)
      else if k = ''comment'' then valid_comment v
      else if k = ''family'' then one_of FIREWALL_RULE_FAMILIES v
      else None)"

fun rule_fields :: "dict \<Rightarrow> dict option" where
  "rule_fields [] = Some []"
| "rule_fields ((k, v) # d) =
     (case (field_value k v, rule_fields d) of
        (Some v', Some d') \<Rightarrow> Some ((k, v') # d')
      | _ \<Rightarrow> None)"

section \<open>The shape and the family of a rule\<close>

definition port_to_ports :: "dict \<Rightarrow> dict" where
  "port_to_ports r =
     (let legacy = dget_null r ''port''; r1 = ddel r ''port''
      in if dget_null r1 ''ports'' = JNull \<and> legacy \<noteq> JNull then dset r1 ''ports'' (JStr (py_str legacy)) else r1)"

definition set_defaults :: "dict \<Rightarrow> dict" where
  "set_defaults r =
     (let r = dsetdefault r ''source'' JNull;
          r = dsetdefault r ''destination'' JNull;
          r = dsetdefault r ''interface'' JNull;
          r = dsetdefault r ''log'' (JBool False)
      in dsetdefault r ''comment'' JNull)"

definition normalize_rule :: "dict \<Rightarrow> dict option" where
  "normalize_rule rule =
     (let r = port_to_ports rule; ports = truthy (dget_null r ''ports'')
      in if dget_null r ''proto'' = JStr ''icmp'' then
           (if ports then None
            else
              (let r = dsetdefault (dset r ''ports'' JNull) ''icmp_type'' (JStr ''any'')
               in Some (set_defaults (if dget_null r ''icmp_type'' = JNull then dset r ''icmp_type'' (JStr ''any'') else r))))
         else if \<not> ports then None
         else if dget_null r ''icmp_type'' \<notin> {JNull, JStr ''any''} then None
         else Some (set_defaults (dset r ''icmp_type'' JNull)))"

definition family_of :: "nat \<Rightarrow> string" where
  "family_of version = (if version = 6 then ''6'' else ''4'')"

text \<open>The loop over source and destination: the family they derive, or a contradiction.\<close>

fun derive_addresses :: "dict \<Rightarrow> string list \<Rightarrow> string option \<Rightarrow> string option option" where
  "derive_addresses r [] derived = Some derived"
| "derive_addresses r (f # fs) derived =
     (case dget_null r f of
        JStr a \<Rightarrow>
          (case ip_version a of
             None \<Rightarrow> None
           | Some v \<Rightarrow>
               (let this = family_of v
                in if derived \<noteq> None \<and> derived \<noteq> Some this then None
                   else if dget_null r ''family'' \<noteq> JNull \<and> dget_null r ''family'' \<noteq> JStr this then None
                   else derive_addresses r fs (Some this)))
      | _ \<Rightarrow> derive_addresses r fs derived)"

text \<open>An ICMP type that exists in one family only pins the rule to it.\<close>

definition pin_icmp_family :: "dict \<Rightarrow> dict option" where
  "pin_icmp_family r =
     (case dget_null r ''icmp_type'' of
        JStr t \<Rightarrow>
          if dget_null r ''proto'' = JStr ''icmp'' \<and> t \<noteq> [] \<and> t \<noteq> ''any'' then
            (case icmp_codes t of
               None \<Rightarrow> None
             | Some (v4, v6) \<Rightarrow>
                 (let fam = dget_null r ''family''
                  in if v4 = None \<and> fam \<noteq> JStr ''6'' \<and> fam = JStr ''4'' then None
                     else
                       (let r1 = (if v4 = None \<and> fam \<noteq> JStr ''6'' then dset r ''family'' (JStr ''6'') else r);
                            fam1 = dget_null r1 ''family''
                        in if v6 = None \<and> fam1 \<noteq> JStr ''4'' \<and> fam1 = JStr ''6'' then None
                           else Some (if v6 = None \<and> fam1 \<noteq> JStr ''4'' then dset r1 ''family'' (JStr ''4'') else r1))))
          else Some r
      | _ \<Rightarrow> Some r)"

definition derive_rule_family :: "dict \<Rightarrow> dict option" where
  "derive_rule_family r =
     Option.bind (derive_addresses r [''source'', ''destination''] None) (\<lambda>derived.
       pin_icmp_family
         (case derived of
            Some f \<Rightarrow> dset r ''family'' (JStr f)
          | None \<Rightarrow> dsetdefault r ''family'' (JStr ''both'')))"

definition RULE_SCHEMA :: "json \<Rightarrow> dict option" where
  "RULE_SCHEMA v =
     (case v of
        JObj d \<Rightarrow>
          if dget d ''action'' = None \<or> dget d ''proto'' = None then None
          else Option.bind (rule_fields d) (\<lambda>r. Option.bind (normalize_rule r) derive_rule_family)
      | _ \<Rightarrow> None)"

fun map_rules :: "json list \<Rightarrow> dict list option" where
  "map_rules [] = Some []"
| "map_rules (v # vs) =
     (case (RULE_SCHEMA v, map_rules vs) of (Some r, Some rs) \<Rightarrow> Some (r # rs) | _ \<Rightarrow> None)"

definition RULES_SCHEMA :: "json list \<Rightarrow> dict list option" where
  "RULES_SCHEMA vs = (if length vs \<le> 200 then map_rules vs else None)"

section \<open>To and from the add-on\<close>

definition opt_int :: "int option \<Rightarrow> json" where
  "opt_int x = (case x of None \<Rightarrow> JNull | Some i \<Rightarrow> JInt i)"

definition rule_for_addon :: "dict \<Rightarrow> dict" where
  "rule_for_addon r =
     (if dget_null r ''proto'' = JStr ''icmp'' then
        (let t = or_else (dget_null r ''icmp_type'') (JStr ''any'');
             (v4, v6) = (case t of JStr s \<Rightarrow> (case icmp_codes s of Some p \<Rightarrow> p | None \<Rightarrow> (None, None)) | _ \<Rightarrow> (None, None))
         in dset r ''icmp_codes''
              (if t = JStr ''any'' then JObj [(''4'', JStr ''any''), (''6'', JStr ''any'')]
               else JObj [(''4'', opt_int v4), (''6'', opt_int v6)]))
      else r)"

text \<open>The last name of a code in a family, as the table is filled in order.\<close>

definition icmp_name :: "string \<Rightarrow> int \<Rightarrow> string option" where
  "icmp_name family n =
     map_of (rev (concat (map (\<lambda>(name, v4, v6).
        (case v4 of Some c \<Rightarrow> [((''4'', c), name)] | None \<Rightarrow> []) @
        (case v6 of Some c \<Rightarrow> [((''6'', c), name)] | None \<Rightarrow> [])) FIREWALL_ICMP_TYPES))) (family, n)"

definition known_icmp_type :: "json \<Rightarrow> json \<Rightarrow> json res" where
  "known_icmp_type family code =
     (if code = JNull \<or> code = JStr ''any'' then Inr (JStr ''any'')
      else bind_res (int_or_none code) (\<lambda>n.
        Inr (JStr (case n of
          None \<Rightarrow> py_str code
        | Some i \<Rightarrow>
            (case family of
               JStr f \<Rightarrow> (case icmp_name f i of Some name \<Rightarrow> name | None \<Rightarrow> py_str code)
             | _ \<Rightarrow> py_str code)))))"

fun known_family :: "dict \<Rightarrow> string list \<Rightarrow> string" where
  "known_family r [] = ''both''"
| "known_family r (f # fs) =
     (case dget_null r f of
        JStr a \<Rightarrow>
          if a = [] then known_family r fs
          else (case ip_version a of Some v \<Rightarrow> family_of v | None \<Rightarrow> known_family r fs)
      | _ \<Rightarrow> known_family r fs)"

definition normalize_known_rule :: "dict \<Rightarrow> dict res" where
  "normalize_known_rule rule =
     (let r = port_to_ports rule; code = dget_null r ''icmp_code''; r = ddel r ''icmp_code''
      in bind_res
           (if dget_null r ''proto'' = JStr ''icmp''
            then known_icmp_type (dget_default r ''family'' (JStr ''4'')) code else Inr JNull)
           (\<lambda>t.
             let r = dset r ''icmp_type'' t;
                 r = dsetdefault (dsetdefault (dsetdefault (dsetdefault r ''source'' JNull) ''destination'' JNull)
                       ''interface'' JNull) ''comment'' JNull;
                 r = dset r ''log'' (JBool (truthy (dget_default r ''log'' (JBool False))))
             in Inr (if dget_null r ''family'' = JNull
                     then dset r ''family'' (JStr (known_family r [''source'', ''destination''])) else r)))"

section \<open>Capabilities\<close>

definition rule_required_capabilities :: "dict \<Rightarrow> string list" where
  "rule_required_capabilities r =
     (if (case dget_null r ''ports'' of JStr s \<Rightarrow> CHR '','' \<in> set s | _ \<Rightarrow> False) then [''multiport''] else [])
     @ (if truthy (dget_null r ''comment'') then [''comment''] else [])
     @ (if truthy (dget_null r ''log'') then [''log'', ''limit''] else [])
     @ (if dget_null r ''action'' = JStr ''reject'' then [''reject''] else [])
     @ (if dget_null r ''proto'' = JStr ''icmp'' then [''icmp''] else [])"

text \<open>The refused capabilities as a sorted list without repetition; no report refuses nothing.\<close>

definition unsupported_capabilities :: "dict list \<Rightarrow> (string \<times> bool) list option \<Rightarrow> string list" where
  "unsupported_capabilities rules caps =
     (case caps of
        None \<Rightarrow> []
      | Some c \<Rightarrow> sort (remdups (filter (\<lambda>k. dget c k = Some False) (concat (map rule_required_capabilities rules)))))"

definition mark_rules_partial_ipv6 :: "dict list \<Rightarrow> dict list" where
  "mark_rules_partial_ipv6 rules =
     map (\<lambda>r. if dget_default r ''family'' (JStr ''both'') \<in> {JStr ''6'', JStr ''both''}
              then dset r ''partially_applied'' (JBool True) else r) rules"

section \<open>Validated values are stable\<close>

lemma dset_same: "dget r k = Some v \<Longrightarrow> dset r k v = r"
  by (induction r) (auto split: if_splits)

lemma dsetdefault_present: "dget r k \<noteq> None \<Longrightarrow> dsetdefault r k v = r"
  by (metis dsetdefault_def)

lemma strip_by_idem [simp]: "strip_by P (strip_by P s) = strip_by P s"
proof (cases "strip_by P s = []")
  case False
  define u where "u = dropWhile P s"
  have u: "u \<noteq> []" "\<not> P (hd u)" using False hd_dropWhile [of P s] by (auto simp: strip_by_def u_def dest: set_dropWhileD)
  have t: "strip_by P s = rev (dropWhile P (rev u))" by (simp add: strip_by_def u_def)
  obtain w where w: "rev u = w @ dropWhile P (rev u)" by (metis takeWhile_dropWhile_id)
  then have "u = rev (dropWhile P (rev u)) @ rev w" by (metis rev_append rev_rev_ident)
  then have "hd (strip_by P s) = hd u" using False t by (metis hd_append2)
  moreover have "\<not> P (last (strip_by P s))"
    using False hd_dropWhile [of P "rev u"] unfolding t by (simp add: last_rev)
  ultimately show ?thesis using False u by (intro strip_by_id) auto
qed simp

lemma ports_re_nonempty: "ports_re s \<Longrightarrow> s \<noteq> []"
  by (auto simp: ports_re_def port_number_def all_digits_def)

lemma field_value_idem: "field_value k w = Some v \<Longrightarrow> field_value k v = Some v"
proof -
  assume a: "field_value k w = Some v"
  have ports: "valid_ports v = Some v" if "valid_ports w = Some v" for v w
    using that ports_re_nonempty by (auto simp: valid_ports_def Let_def py_str_cases split: if_splits)
  have src: "valid_source v = Some v" if "valid_source w = Some v" for v w
    using that by (auto simp: valid_source_def split: json.splits if_splits)
  have iface: "valid_interface v = Some v" if "valid_interface w = Some v" for v w
    using that by (auto simp: valid_interface_def Let_def py_str_cases interface_re_def split: if_splits)
  have com: "valid_comment v = Some v" if "valid_comment w = Some v" for v w
    using that by (auto simp: valid_comment_def Let_def py_str_cases comment_re_def split: if_splits)
  show "field_value k v = Some v"
  proof (cases "k = ''ports'' \<or> k = ''source'' \<or> k = ''destination'' \<or> k = ''interface'' \<or> k = ''comment''")
    case True
    then show ?thesis using a ports [of w v] src [of w v] iface [of w v] com [of w v]
      by (elim disjE) (simp_all add: field_value_def)
  next
    case False
    then show ?thesis using a by (auto simp: field_value_def one_of_def split: if_splits sum.splits)
  qed
qed

definition stable :: "dict \<Rightarrow> bool" where
  "stable r \<longleftrightarrow> (\<forall>k v. (k, v) \<in> set r \<longrightarrow> field_value k v = Some v)"

lemma rule_fields_stable: "rule_fields d = Some r \<Longrightarrow> stable r \<and> map fst r = map fst d"
  by (induction d arbitrary: r rule: rule_fields.induct)
    (auto simp: stable_def intro: field_value_idem split: option.splits)

lemma stable_rule_fields: "stable r \<Longrightarrow> rule_fields r = Some r"
  by (induction r rule: rule_fields.induct) (auto simp: stable_def)

lemma stable_get: "stable r \<Longrightarrow> dget r k = Some v \<Longrightarrow> field_value k v = Some v"
  by (auto simp: stable_def dest: map_of_SomeD)

lemma stable_dset: "stable r \<Longrightarrow> field_value k v = Some v \<Longrightarrow> stable (dset r k v)"
  using set_dset_subset [of k v r] by (fastforce simp: stable_def)

lemma stable_ddel: "stable r \<Longrightarrow> stable (ddel r k)"
  using set_ddel_subset [of r k] by (auto simp: stable_def)

lemma stable_dsetdefault: "stable r \<Longrightarrow> field_value k v = Some v \<Longrightarrow> stable (dsetdefault r k v)"
  by (simp add: dsetdefault_def stable_dset)

lemma field_value_consts [simp]:
  "field_value ''ports'' JNull = Some JNull" "field_value ''icmp_type'' JNull = Some JNull"
  "field_value ''icmp_type'' (JStr ''any'') = Some (JStr ''any'')" "field_value ''source'' JNull = Some JNull"
  "field_value ''destination'' JNull = Some JNull" "field_value ''interface'' JNull = Some JNull"
  "field_value ''log'' (JBool b) = Some (JBool b)" "field_value ''comment'' JNull = Some JNull"
  "field_value ''family'' (JStr ''4'') = Some (JStr ''4'')" "field_value ''family'' (JStr ''6'') = Some (JStr ''6'')"
  "field_value ''family'' (JStr ''both'') = Some (JStr ''both'')"
  by (simp_all add: field_value_def valid_ports_def valid_source_def valid_interface_def valid_comment_def
      one_of_def FIREWALL_ICMP_TYPES_def FIREWALL_RULE_FAMILIES_def)

lemma nat_text_short: "n < 10 ^ Suc k \<Longrightarrow> length (nat_text n) \<le> Suc k"
proof (induction k arbitrary: n)
  case 0
  then show ?case by (subst nat_text.simps) simp
next
  case (Suc k)
  show ?case
  proof (cases "n < 10")
    case True
    then show ?thesis by (subst nat_text.simps) simp
  next
    case False
    have "n div 10 < 10 ^ Suc k" using Suc.prems by (simp add: less_mult_imp_div_less)
    from Suc.IH [OF this] False show ?thesis by (subst nat_text.simps) simp
  qed
qed

text \<open>A legacy integer port becomes a valid port text.\<close>

lemma legacy_port_text:
  assumes "field_value ''port'' v = Some v" "v \<noteq> JNull"
  shows "field_value ''ports'' (JStr (py_str v)) = Some (JStr (py_str v))" "py_str v \<noteq> []"
proof -
  obtain n where n: "v = JInt n" "1 \<le> n" "n \<le> 65535"
    using assms by (auto simp: field_value_def split: sum.splits if_splits)
  define s where "s = nat_text (nat n)"
  have s: "py_str v = s" using n by (simp add: py_str_cases int_text_def s_def)
  have dig: "\<forall>c \<in> set s. is_digit c" "s \<noteq> []" using nat_text_digits by (auto simp: s_def)
  have len: "length s \<le> 5" using nat_text_short [of "nat n" 4] n by (simp add: s_def)
  have nd: "\<not> is_digit (CHR '','')" "\<not> is_digit (CHR '':'')" by (simp_all add: is_digit_iff)
  have sep: "CHR '','' \<notin> set s" "CHR '':'' \<notin> set s" using dig nd by blast+
  have sp: "is_digit c \<Longrightarrow> \<not> is_space c" for c
    by (auto simp: is_space_def is_bspace_def is_digit_iff)
  have st: "strip s = s" using dig sp by (intro strip_by_id) auto
  have "port_number s" using dig len by (simp add: port_number_def all_digits_def list_all_iff)
  then have re: "ports_re s" by (simp add: ports_re_def split_on_no_sep [OF sep(1)] split_on_no_sep [OF sep(2)])
  have be: "before (CHR '':'') s = s" "behind (CHR '':'') s = []"
  proof -
    have "dropWhile (\<lambda>x. x \<noteq> CHR '':'') s = []" using sep(2) by (auto simp: dropWhile_eq_Nil_conv)
    then show "behind (CHR '':'') s = []" by (simp only: behind_def list.sel)
    show "before (CHR '':'') s = s" using sep(2) by (auto simp: before_def takeWhile_eq_all_conv)
  qed
  have "decimal s = n" using n by (simp add: decimal_eq s_def)
  then have "port_entry_ok s" using n be by (simp add: port_entry_ok_def Let_def)
  then show "field_value ''ports'' (JStr (py_str v)) = Some (JStr (py_str v))" "py_str v \<noteq> []"
    using re st dig(2) unfolding s
    by (simp_all add: field_value_def valid_ports_def py_str_cases split_on_no_sep [OF sep(1)] FIREWALL_PORTS_MAX_ENTRIES_def)
qed

section \<open>Settled rules\<close>

definition SETTLED_KEYS :: "string list" where
  "SETTLED_KEYS = [''action'', ''proto'', ''ports'', ''icmp_type'', ''source'', ''destination'', ''interface'',
     ''log'', ''comment'']"

definition shaped :: "dict \<Rightarrow> bool" where
  "shaped r \<longleftrightarrow> dget r ''port'' = None \<and> list_all (\<lambda>k. dget r k \<noteq> None) SETTLED_KEYS
     \<and> (if dget_null r ''proto'' = JStr ''icmp''
        then dget_null r ''ports'' = JNull \<and> dget_null r ''icmp_type'' \<noteq> JNull
        else truthy (dget_null r ''ports'') \<and> dget_null r ''icmp_type'' = JNull)"

definition settled_rule :: "dict \<Rightarrow> bool" where
  "settled_rule r \<longleftrightarrow> stable r \<and> shaped r \<and> dget r ''family'' \<noteq> None
     \<and> (case derive_addresses r [''source'', ''destination''] None of
          None \<Rightarrow> False | Some None \<Rightarrow> True | Some (Some f) \<Rightarrow> dget_null r ''family'' = JStr f)
     \<and> pin_icmp_family r = Some r"

lemma dget_set_defaults:
  "dget (set_defaults r) k =
     (if dget r k \<noteq> None then dget r k
      else if k = ''log'' then Some (JBool False)
      else if k \<in> {''source'', ''destination'', ''interface'', ''comment''} then Some JNull else None)"
  unfolding set_defaults_def Let_def dget_dsetdefault by auto

lemma stable_set_defaults: "stable r \<Longrightarrow> stable (set_defaults r)"
  by (simp add: set_defaults_def Let_def stable_dsetdefault)

lemma port_to_ports_ok:
  assumes "stable d"
  shows "stable (port_to_ports d)" "dget (port_to_ports d) ''port'' = None"
    "k \<noteq> ''port'' \<Longrightarrow> k \<noteq> ''ports'' \<Longrightarrow> dget (port_to_ports d) k = dget d k"
proof -
  show "dget (port_to_ports d) ''port'' = None" by (simp add: port_to_ports_def Let_def dict_simps)
  show "k \<noteq> ''port'' \<Longrightarrow> k \<noteq> ''ports'' \<Longrightarrow> dget (port_to_ports d) k = dget d k"
    by (simp add: port_to_ports_def Let_def dict_simps)
  show "stable (port_to_ports d)"
  proof (cases "dget_null d ''port'' = JNull")
    case False
    then obtain v where v: "dget d ''port'' = Some v" "dget_null d ''port'' = v" by (auto simp: dget_default_def split: option.splits)
    with legacy_port_text(1) [of v] stable_get [OF assms v(1)] False assms show ?thesis
      by (simp add: port_to_ports_def Let_def stable_dset stable_ddel)
  qed (simp add: port_to_ports_def Let_def stable_ddel assms)
qed

lemma normalize_shaped:
  assumes "stable d" "dget d ''action'' \<noteq> None" "dget d ''proto'' \<noteq> None" "normalize_rule d = Some r"
  shows "stable r \<and> shaped r"
proof -
  define p where "p = port_to_ports d"
  note pp = port_to_ports_ok [OF assms(1), folded p_def]
  have ap: "dget p ''action'' \<noteq> None" "dget p ''proto'' \<noteq> None" using assms(2,3) pp(3) by simp_all
  show ?thesis
  proof (cases "dget_null p ''proto'' = JStr ''icmp''")
    case True
    define q where "q = dsetdefault (dset p ''ports'' JNull) ''icmp_type'' (JStr ''any'')"
    define q' where "q' = (if dget_null q ''icmp_type'' = JNull then dset q ''icmp_type'' (JStr ''any'') else q)"
    have r: "r = set_defaults q'" using assms(4) True
      by (auto simp: normalize_rule_def Let_def p_def q_def q'_def split: if_splits)
    have "stable q'" using pp(1) by (simp add: q'_def q_def stable_dset stable_dsetdefault)
    moreover have "dget q' ''port'' = None" "dget q' ''ports'' = Some JNull" "dget q' ''proto'' = dget p ''proto''"
      "dget q' ''action'' = dget p ''action''" using pp(2) by (simp_all add: q'_def q_def dict_simps)
    moreover have "dget q' ''icmp_type'' \<noteq> None" "dget_null q' ''icmp_type'' \<noteq> JNull"
      by (auto simp: q'_def q_def dict_simps dget_default_def)
    ultimately show ?thesis using True ap unfolding r
      by (auto simp: shaped_def SETTLED_KEYS_def dget_default_def dget_set_defaults stable_set_defaults)
  next
    case False
    have t: "truthy (dget_null p ''ports'')" and r: "r = set_defaults (dset p ''icmp_type'' JNull)"
      using assms(4) False by (auto simp: normalize_rule_def Let_def p_def split: if_splits)
    have "dget p ''ports'' \<noteq> None" using t by (auto simp: dget_default_def split: option.splits)
    with t False ap pp(1,2) show ?thesis unfolding r
      by (auto simp: shaped_def SETTLED_KEYS_def dget_default_def dget_set_defaults dict_simps stable_set_defaults stable_dset)
  qed
qed

lemma rule_shaped_get: "shaped r \<Longrightarrow> k \<in> set SETTLED_KEYS \<Longrightarrow> dget r k \<noteq> None"
  unfolding shaped_def list_all_iff by blast

lemma shaped_normalize:
  assumes "shaped r"
  shows "normalize_rule r = Some r"
proof -
  have k: "dget r k \<noteq> None" if "k \<in> {''ports'', ''icmp_type'', ''source'', ''destination'', ''interface'', ''log'', ''comment''}" for k
    using that by (intro rule_shaped_get [OF assms]) (auto simp: SETTLED_KEYS_def)
  have sd: "set_defaults r = r" using k by (simp add: set_defaults_def Let_def dsetdefault_present)
  have p: "dget r ''port'' = None" using assms by (simp add: shaped_def)
  then have "ddel r ''port'' = r" by (intro ddel_absent) (simp add: map_of_eq_None_iff)
  with p have pp: "port_to_ports r = r" by (simp add: port_to_ports_def Let_def dget_default_def)
  show ?thesis
  proof (cases "dget_null r ''proto'' = JStr ''icmp''")
    case True
    then have "dget_null r ''ports'' = JNull" "dget_null r ''icmp_type'' \<noteq> JNull" using assms by (simp_all add: shaped_def)
    moreover from this k [of "''ports''"] have "dset r ''ports'' JNull = r"
      by (intro dset_same) (auto simp: dget_default_def split: option.splits)
    ultimately show ?thesis using True k pp sd by (simp add: normalize_rule_def Let_def dsetdefault_present)
  next
    case False
    then have "truthy (dget_null r ''ports'')" "dget_null r ''icmp_type'' = JNull" using assms by (simp_all add: shaped_def)
    moreover from this k [of "''icmp_type''"] have "dset r ''icmp_type'' JNull = r"
      by (intro dset_same) (auto simp: dget_default_def split: option.splits)
    ultimately show ?thesis using False pp sd by (simp add: normalize_rule_def Let_def)
  qed
qed

text \<open>
  What the loop over the addresses derives is checked against an explicit family, so a family
  that is set to it, or to anything when there is no address, gives the same.
\<close>

lemma derive_family:
  assumes "derive_addresses r fs d = Some x" "''family'' \<notin> set fs" "\<forall>f. d = Some f \<longrightarrow> f = ''4'' \<or> f = ''6''"
  shows "(d \<noteq> None \<longrightarrow> x = d) \<and> (\<forall>f. x = Some f \<longrightarrow> f = ''4'' \<or> f = ''6'')
     \<and> (\<forall>g. x = None \<or> x = Some g \<longrightarrow> derive_addresses (dset r ''family'' (JStr g)) fs d = Some x)"
  using assms
proof (induction fs arbitrary: d)
  case (Cons f fs)
  have f: "dget_null (dset r ''family'' (JStr g)) f = dget_null r f" for g using Cons.prems(2) by (auto simp: dict_simps)
  show ?case
  proof (cases "\<exists>a. dget_null r f = JStr a")
    case True
    then obtain a where a: "dget_null r f = JStr a" by blast
    with Cons.prems(1) obtain v where v: "ip_version a = Some v" by (auto split: option.splits)
    define this where "this = family_of v"
    have t46: "this = ''4'' \<or> this = ''6''" by (simp add: this_def family_of_def)
    have n: "d = None \<or> d = Some this" "dget_null r ''family'' = JNull \<or> dget_null r ''family'' = JStr this"
      "derive_addresses r fs (Some this) = Some x"
      using Cons.prems(1) a v by (auto simp: this_def Let_def split: if_splits)
    have nf: "''family'' \<notin> set fs" using Cons.prems(2) by simp
    have "\<forall>g. Some this = Some g \<longrightarrow> g = ''4'' \<or> g = ''6''" using t46 by simp
    from Cons.IH [OF n(3) nf this] have x: "x = Some this"
      and IH: "derive_addresses (dset r ''family'' (JStr this)) fs (Some this) = Some x" by auto
    have "derive_addresses (dset r ''family'' (JStr this)) (f # fs) d = Some x"
    proof -
      have e: "dget_null (dset r ''family'' (JStr this)) f = JStr a" "dget_null (dset r ''family'' (JStr this)) ''family'' = JStr this"
        using f a by (simp_all add: dict_simps)
      show ?thesis using n(1) IH by (elim disjE) (simp_all add: e v this_def [symmetric] Let_def)
    qed
    with x n(1) t46 show ?thesis by auto
  next
    case False
    then have s: "derive_addresses r' (f # fs) d = derive_addresses r' fs d" if "dget_null r' f = dget_null r f" for r'
      using that by (cases "dget_null r f") auto
    with Cons.IH [of d] Cons.prems f show ?thesis by simp
  qed
qed simp

lemma pin_icmp_family_ok:
  assumes "pin_icmp_family r = Some r'" "stable r" "dget_null r ''family'' = JStr fam" "fam \<in> set FIREWALL_RULE_FAMILIES"
  shows "pin_icmp_family r' = Some r'" "stable r'" "\<exists>g. r' = dset r ''family'' (JStr g)"
    "fam \<noteq> ''both'' \<Longrightarrow> r' = r"
proof -
  have same: "r = dset r ''family'' (JStr fam)"
    using assms(3) by (intro dset_same [symmetric]) (auto simp: dget_default_def split: option.splits)
  have fam: "fam = ''4'' \<or> fam = ''6'' \<or> fam = ''both''" using assms(4) by (simp add: FIREWALL_RULE_FAMILIES_def)
  have "pin_icmp_family r' = Some r' \<and> stable r' \<and> (\<exists>g. r' = dset r ''family'' (JStr g)) \<and> (fam \<noteq> ''both'' \<longrightarrow> r' = r)"
  proof (cases "\<exists>t. dget_null r ''icmp_type'' = JStr t \<and> dget_null r ''proto'' = JStr ''icmp'' \<and> t \<noteq> [] \<and> t \<noteq> ''any''")
    case False
    then have "pin_icmp_family r = Some r"
      by (cases "dget_null r ''icmp_type''") (auto simp: pin_icmp_family_def)
    with assms same show ?thesis by auto
  next
    case True
    then obtain t v4 v6 where t: "dget_null r ''icmp_type'' = JStr t" "dget_null r ''proto'' = JStr ''icmp''"
      "t \<noteq> []" "t \<noteq> ''any''" "icmp_codes t = Some (v4, v6)"
      using assms(1) by (auto simp: pin_icmp_family_def split: option.splits)
    have p: "pin_icmp_family r1 =
        (if v4 = None \<and> g \<noteq> ''6'' \<and> g = ''4'' then None
         else (let r2 = (if v4 = None \<and> g \<noteq> ''6'' then dset r1 ''family'' (JStr ''6'') else r1);
                   fam1 = dget_null r2 ''family''
               in if v6 = None \<and> fam1 \<noteq> JStr ''4'' \<and> fam1 = JStr ''6'' then None
                  else Some (if v6 = None \<and> fam1 \<noteq> JStr ''4'' then dset r2 ''family'' (JStr ''4'') else r2)))"
      if "r1 = dset r ''family'' (JStr g)" for r1 g
      using t unfolding that by (simp add: pin_icmp_family_def dict_simps Let_def)
    note p0 = p [OF same]
    have st: "stable (dset r ''family'' (JStr g))" if "g \<in> {''4'', ''6''}" for g
      using that assms(2) by (auto intro: stable_dset)
    note p4 = p [OF refl, of "''4''"] and p6 = p [OF refl, of "''6''"]
    show ?thesis
    proof (cases v4)
      case v4: None
      show ?thesis
      proof (cases v6)
        case None
        with v4 p0 assms(1,3) fam show ?thesis by (auto simp: dict_simps Let_def split: if_splits)
      next
        case (Some c)
        with v4 p0 p6 assms(1-3) fam st same show ?thesis by (auto simp: dict_simps Let_def split: if_splits)
      qed
    next
      case v4: (Some b)
      show ?thesis
      proof (cases v6)
        case None
        with v4 p0 p4 assms(1-3) fam st same show ?thesis by (auto simp: dict_simps Let_def split: if_splits)
      next
        case (Some c)
        with v4 p0 assms(1,2) same show ?thesis by (auto simp: Let_def)
      qed
    qed
  qed
  then show "pin_icmp_family r' = Some r'" "stable r'" "\<exists>g. r' = dset r ''family'' (JStr g)"
    "fam \<noteq> ''both'' \<Longrightarrow> r' = r" by auto
qed

text \<open>Every rule the schema returns is settled, and a settled rule is what the schema makes of it.\<close>

lemma settled_family:
  assumes "stable r" "shaped r" "derive_rule_family r = Some r'"
  shows "settled_rule r'"
proof -
  obtain x where x: "derive_addresses r [''source'', ''destination''] None = Some x"
    using assms(3) by (auto simp: derive_rule_family_def split: bind_splits)
  define q where "q = (case x of Some f \<Rightarrow> dset r ''family'' (JStr f) | None \<Rightarrow> dsetdefault r ''family'' (JStr ''both''))"
  have pin: "pin_icmp_family q = Some r'" using assms(3) x by (simp add: derive_rule_family_def q_def)
  have d1: "''family'' \<notin> set [''source'', ''destination'']" by simp
  have d2: "\<forall>f. (None :: string option) = Some f \<longrightarrow> f = ''4'' \<or> f = ''6''" by simp
  note d = derive_family [OF x d1 d2]
  have x46: "f = ''4'' \<or> f = ''6''" if "x = Some f" for f using d that by blast
  have st: "stable q"
  proof (cases x)
    case (Some f)
    from x46 [OF Some] have "field_value ''family'' (JStr f) = Some (JStr f)" by (elim disjE) simp_all
    with assms(1) Some show ?thesis by (simp add: q_def stable_dset)
  qed (simp add: q_def stable_dsetdefault assms(1))
  obtain fam where fam: "dget_null q ''family'' = JStr fam" "fam \<in> set FIREWALL_RULE_FAMILIES" "x = None \<or> x = Some fam"
    "q = dset r ''family'' (JStr fam)"
  proof (cases x)
    case (Some f)
    have "dget_null q ''family'' = JStr f" "q = dset r ''family'' (JStr f)" using Some by (simp_all add: q_def dict_simps)
    moreover have "f \<in> set FIREWALL_RULE_FAMILIES" using x46 [OF Some] by (auto simp: FIREWALL_RULE_FAMILIES_def)
    ultimately show ?thesis using Some that [of f] by simp
  next
    case None
    show ?thesis
    proof (cases "dget r ''family''")
      case N: None
      have "q = dset r ''family'' (JStr ''both'')" using None N by (simp add: q_def dsetdefault_def)
      then show ?thesis using None that [of "''both''"] by (simp add: dict_simps FIREWALL_RULE_FAMILIES_def)
    next
      case (Some v)
      then obtain f where f: "v = JStr f" "f \<in> set FIREWALL_RULE_FAMILIES"
        using stable_get [OF assms(1) Some] by (auto simp: field_value_def one_of_def split: if_splits)
      have "q = r" using None Some by (simp add: q_def dsetdefault_def)
      then show ?thesis using None Some f that [of f] by (simp add: dget_default_def dset_same)
    qed
  qed
  note pk = pin_icmp_family_ok [OF pin st fam(1,2)]
  obtain g where g: "r' = dset q ''family'' (JStr g)" using pk(3) by blast
  then have g': "r' = dset r ''family'' (JStr g)" unfolding fam(4) by simp
  have xg: "x = None \<or> x = Some g"
  proof (cases x)
    case (Some f)
    then have "fam = f" "f \<noteq> ''both''" using fam(3) x46 [OF Some] by auto
    then have "r' = q" using pk(4) by simp
    with g' fam(4) have "dset r ''family'' (JStr fam) = dset r ''family'' (JStr g)" by simp
    then have "JStr fam = JStr g" by (rule update_eqD)
    with Some \<open>fam = f\<close> show ?thesis by simp
  qed simp
  then have dr: "derive_addresses r' [''source'', ''destination''] None = Some x"
    using d unfolding g' by blast
  have "shaped r'" using assms(2) unfolding g' shaped_def SETTLED_KEYS_def by (simp add: dict_simps)
  moreover have "dget r' ''family'' = Some (JStr g)" by (simp add: g' dict_simps)
  ultimately show ?thesis using pk(1,2) xg unfolding settled_rule_def dr
    by (auto simp: dget_default_def split: option.split)
qed

theorem RULE_SCHEMA_settled:
  assumes "RULE_SCHEMA v = Some r"
  shows "settled_rule r"
proof -
  obtain d where v: "v = JObj d" using assms by (cases v) (simp_all add: RULE_SCHEMA_def)
  have ap: "dget d ''action'' \<noteq> None" "dget d ''proto'' \<noteq> None"
    using assms by (auto simp: RULE_SCHEMA_def v simp del: not_None_eq split: if_split_asm)
  then have "Option.bind (rule_fields d) (\<lambda>r. Option.bind (normalize_rule r) derive_rule_family) = Some r"
    using assms by (auto simp: RULE_SCHEMA_def v)
  then obtain f n where d: "rule_fields d = Some f" "normalize_rule f = Some n" "derive_rule_family n = Some r"
    unfolding bind_eq_Some_conv by blast
  note s = rule_fields_stable [OF d(1)]
  have "dget f k = None \<longleftrightarrow> dget d k = None" for k using s by (metis list.set_map map_of_eq_None_iff)
  then have "dget f ''action'' \<noteq> None" "dget f ''proto'' \<noteq> None" using ap by simp_all
  with normalize_shaped [OF _ _ _ d(2)] s have "stable n" "shaped n" by auto
  then show ?thesis by (rule settled_family [OF _ _ d(3)])
qed

theorem settled_RULE_SCHEMA:
  assumes "settled_rule r"
  shows "RULE_SCHEMA (JObj r) = Some r"
proof -
  have s: "stable r" "shaped r" "pin_icmp_family r = Some r" using assms by (auto simp: settled_rule_def)
  obtain x where x: "derive_addresses r [''source'', ''destination''] None = Some x"
    "x = None \<or> (\<exists>f. x = Some f \<and> dget_null r ''family'' = JStr f)"
    using assms by (auto simp: settled_rule_def split: option.splits)
  have "dget r ''family'' \<noteq> None" using assms by (simp add: settled_rule_def)
  then have fam: "(case x of Some f \<Rightarrow> dset r ''family'' (JStr f) | None \<Rightarrow> dsetdefault r ''family'' (JStr ''both'')) = r"
    using x(2) by (auto simp: dsetdefault_present dget_default_def intro: dset_same split: option.splits)
  have "derive_rule_family r = Some r" using x(1) s(3) by (simp add: derive_rule_family_def fam)
  moreover have "dget r ''action'' \<noteq> None" "dget r ''proto'' \<noteq> None"
    using rule_shaped_get [OF s(2)] by (simp_all add: SETTLED_KEYS_def)
  ultimately show ?thesis
    using stable_rule_fields [OF s(1)] shaped_normalize [OF s(2)] by (auto simp: RULE_SCHEMA_def)
qed

end
