(* ===== verification/Firewall.thy ===== *)
theory Firewall
  imports FirewallRules AuditLog
begin

text \<open>
  The firewall test of \<open>firewall.py\<close>: a ruleset the owner proposes is handed to the add-on once,
  tested for a window, and confirmed, reverted or given up. The operations are the functions of
  the file over the \<open>firewall\<close> part of the store; the audit records they write are returned. The
  clock stands still during a handler (none awaits between two readings); how a time is
  formatted and parsed is part of it. A test id is an argument (\<open>uuid4\<close>).
\<close>

section \<open>State\<close>

datatype test_status = Testing | Confirmed | Reverted | Expired_unreported | Discarded_unreported

fun status_text :: "test_status \<Rightarrow> string" where
  "status_text Testing = ''testing''"
| "status_text Confirmed = ''confirmed''"
| "status_text Reverted = ''reverted''"
| "status_text Expired_unreported = ''expired_unreported''"
| "status_text Discarded_unreported = ''discarded_unreported''"

record fw_test =
  ft_id :: string
  ft_rules :: "dict list"
  ft_status :: test_status
  ft_requested_by :: string
  ft_requested_at :: string
  ft_applied_at :: "string option"
  ft_expires_at :: string
  ft_window :: int
  ft_resolved_at :: "string option"
  ft_resolved_by :: "string option"
  ft_reason :: "string option"

record firewall =
  fw_known :: "dict list option"
  fw_reported_at :: "string option"
  fw_ipv6 :: "bool option"
  fw_caps :: "(string \<times> bool) list option"
  fw_pending :: "fw_test option"
  fw_history :: "fw_test list"
  fw_save :: bool

definition new_firewall :: firewall where
  "new_firewall =
     \<lparr>fw_known = None, fw_reported_at = None, fw_ipv6 = None, fw_caps = None, fw_pending = None,
      fw_history = [], fw_save = False\<rparr>"

record clock =
  cl_now :: int
  cl_iso :: "int \<Rightarrow> string"
  cl_parse :: "string \<Rightarrow> moment option"

definition iso_now :: "clock \<Rightarrow> string" where
  "iso_now c = cl_iso c (cl_now c)"

definition MAX_HISTORY :: nat where "MAX_HISTORY = 50"

definition DEFAULT_FIREWALL_TEST_WINDOW_SECONDS :: int where "DEFAULT_FIREWALL_TEST_WINDOW_SECONDS = 45"

text \<open>\<open>(dt_util.utcnow() + timedelta(seconds=window_seconds)).isoformat()\<close>.\<close>

definition expiry :: "clock \<Rightarrow> int \<Rightarrow> string" where
  "expiry c window = cl_iso c (cl_now c + window * us_second)"

definition saved :: "firewall \<Rightarrow> firewall" where
  "saved fw = fw\<lparr>fw_save := True\<rparr>"

definition archive :: "fw_test \<Rightarrow> firewall \<Rightarrow> firewall" where
  "archive p fw = fw\<lparr>fw_history := keep_newest MAX_HISTORY (fw_history fw @ [p]), fw_pending := None\<rparr>"

section \<open>Owner operations\<close>

definition lazily_expire_if_stale :: "clock \<Rightarrow> firewall \<Rightarrow> firewall res" where
  "lazily_expire_if_stale c fw =
     (case fw_pending fw of
        None \<Rightarrow> Inr fw
      | Some p \<Rightarrow>
          if ft_status p \<noteq> Testing then Inr fw
          else (case cl_parse c (ft_expires_at p) of
                  None \<Rightarrow> Inr fw
                | Some e \<Rightarrow>
                    bind_res (moment_less (Aware (cl_now c)) e) (\<lambda>early.
                      Inr (if early then fw else fw\<lparr>fw_pending := Some (p\<lparr>ft_status := Expired_unreported\<rparr>)\<rparr>))))"

record status_view =
  sv_known :: "dict list option"
  sv_reported_at :: "string option"
  sv_ipv6 :: "bool option"
  sv_caps :: "(string \<times> bool) list option"
  sv_pending :: "fw_test option"
  sv_history :: "fw_test list"

definition get_status :: "clock \<Rightarrow> firewall \<Rightarrow> (firewall \<times> status_view) res" where
  "get_status c fw =
     bind_res (lazily_expire_if_stale c fw) (\<lambda>fw.
       Inr (fw,
         \<lparr>sv_known = (if fw_ipv6 fw = Some False then map_option mark_rules_partial_ipv6 (fw_known fw) else fw_known fw),
          sv_reported_at = fw_reported_at fw, sv_ipv6 = fw_ipv6 fw, sv_caps = fw_caps fw,
          sv_pending = (if fw_ipv6 fw = Some False
             then map_option (\<lambda>p. p\<lparr>ft_rules := mark_rules_partial_ipv6 (ft_rules p)\<rparr>) (fw_pending fw)
             else fw_pending fw),
          sv_history = keep_newest 10 (fw_history fw)\<rparr>))"

datatype propose_error =
    Backup_not_acknowledged
  | Invalid_rules
  | Unsupported_capabilities "string list"
  | Test_pending_unreported

definition propose_test ::
    "clock \<Rightarrow> string \<Rightarrow> json list \<Rightarrow> bool \<Rightarrow> string \<Rightarrow> int \<Rightarrow> firewall \<Rightarrow> firewall \<times> (propose_error + fw_test)" where
  "propose_test c test_id rules backup_acknowledged user window fw =
     (if \<not> backup_acknowledged then (fw, Inl Backup_not_acknowledged)
      else case RULES_SCHEMA rules of
        None \<Rightarrow> (fw, Inl Invalid_rules)
      | Some rs \<Rightarrow>
          (let unsupported = unsupported_capabilities rs (fw_caps fw)
           in if unsupported \<noteq> [] then (fw, Inl (Unsupported_capabilities unsupported))
              else if fw_pending fw \<noteq> None then (fw, Inl Test_pending_unreported)
              else
                (let p = \<lparr>ft_id = test_id, ft_rules = rs, ft_status = Testing, ft_requested_by = user,
                          ft_requested_at = iso_now c, ft_applied_at = None, ft_expires_at = expiry c window,
                          ft_window = window, ft_resolved_at = None, ft_resolved_by = None, ft_reason = None\<rparr>
                 in (saved (fw\<lparr>fw_pending := Some p\<rparr>), Inr p))))"

datatype intent_error = No_matching_test | Test_not_pending test_status

definition resolve_intent ::
    "test_status \<Rightarrow> clock \<Rightarrow> string \<Rightarrow> string \<Rightarrow> firewall \<Rightarrow> firewall \<times> intent_error option" where
  "resolve_intent st c test_id user fw =
     (case fw_pending fw of
        None \<Rightarrow> (fw, Some No_matching_test)
      | Some p \<Rightarrow>
          if ft_id p \<noteq> test_id then (fw, Some No_matching_test)
          else if ft_status p \<notin> {Testing, Expired_unreported} then (fw, Some (Test_not_pending (ft_status p)))
          else (saved (fw\<lparr>fw_pending := Some (p\<lparr>ft_status := st, ft_resolved_at := Some (iso_now c),
                                                 ft_resolved_by := Some user\<rparr>)\<rparr>), None))"

definition confirm_test :: "clock \<Rightarrow> string \<Rightarrow> string \<Rightarrow> firewall \<Rightarrow> firewall \<times> intent_error option" where
  "confirm_test = resolve_intent Confirmed"

definition cancel_test :: "clock \<Rightarrow> string \<Rightarrow> string \<Rightarrow> firewall \<Rightarrow> firewall \<times> intent_error option" where
  "cancel_test = resolve_intent Reverted"

datatype discard_error = No_pending_test | Window_not_lapsed

definition discard_event :: "string \<Rightarrow> fw_test \<Rightarrow> test_status \<Rightarrow> audit_event" where
  "discard_event user p previous =
     (plain_event ''firewall_pending_discarded'')
       \<lparr>ev_user_id := Some user,
        ev_detail := Some (PDict [(KStr ''test_id'', PStr (ft_id p)),
          (KStr ''previous_status'', PStr (status_text previous)),
          (KStr ''requested_by'', PStr (ft_requested_by p))])\<rparr>"

definition discard_pending ::
    "clock \<Rightarrow> string \<Rightarrow> firewall \<Rightarrow> (firewall \<times> discard_error option \<times> audit_event list) res" where
  "discard_pending c user fw =
     bind_res (lazily_expire_if_stale c fw) (\<lambda>fw.
       case fw_pending fw of
         None \<Rightarrow> Inr (fw, Some No_pending_test, [])
       | Some p \<Rightarrow>
           bind_res (case cl_parse c (ft_expires_at p) of
                       None \<Rightarrow> Inr False | Some e \<Rightarrow> moment_less (Aware (cl_now c)) e) (\<lambda>early.
             if early then Inr (fw, Some Window_not_lapsed, [])
             else
               (let q = p\<lparr>ft_status := Discarded_unreported, ft_resolved_at := Some (iso_now c),
                          ft_resolved_by := Some user\<rparr>
                in Inr (saved (archive q fw), None, [discard_event user q (ft_status p)]))))"

section \<open>The add-on's side\<close>

record fw_report =
  fr_known :: "dict list option"
  fr_test_id :: "string option"
  fr_status :: "string option"
  fr_reason :: "string option"
  fr_ipv6 :: "bool option"
  fr_caps :: "(string \<times> bool) list option"
  fr_no_current :: bool

definition empty_report :: fw_report where
  "empty_report =
     \<lparr>fr_known = None, fr_test_id = None, fr_status = None, fr_reason = None, fr_ipv6 = None, fr_caps = None,
      fr_no_current = True\<rparr>"

fun normalize_known :: "dict list \<Rightarrow> dict list res" where
  "normalize_known [] = Inr []"
| "normalize_known (r # rs) =
     bind_res (normalize_known_rule r) (\<lambda>r'. bind_res (normalize_known rs) (\<lambda>rs'. Inr (r' # rs')))"

text \<open>What the report says of the active rules.\<close>

definition note_report :: "clock \<Rightarrow> fw_report \<Rightarrow> firewall \<Rightarrow> firewall res" where
  "note_report c r fw =
     bind_res (case fr_known r of
                 None \<Rightarrow> Inr fw
               | Some ks \<Rightarrow> bind_res (normalize_known ks) (\<lambda>ks'.
                   Inr (fw\<lparr>fw_known := Some ks', fw_reported_at := Some (iso_now c)\<rparr>))) (\<lambda>fw.
       let fw = (case fr_ipv6 r of None \<Rightarrow> fw | Some b \<Rightarrow> fw\<lparr>fw_ipv6 := Some b\<rparr>)
       in Inr (case fr_caps r of None \<Rightarrow> fw | Some cs \<Rightarrow> fw\<lparr>fw_caps := Some cs\<rparr>))"

definition set_resolved_at :: "clock \<Rightarrow> fw_test \<Rightarrow> fw_test" where
  "set_resolved_at c p = (case ft_resolved_at p of None \<Rightarrow> p\<lparr>ft_resolved_at := Some (iso_now c)\<rparr> | Some t \<Rightarrow> p)"

definition reported_status :: "fw_report \<Rightarrow> test_status option" where
  "reported_status r =
     (if fr_status r = Some (status_text Confirmed) then Some Confirmed
      else if fr_status r = Some (status_text Reverted) then Some Reverted else None)"

text \<open>The record that leaves the pending slot, if the report resolves it.\<close>

definition resolved_by_report :: "clock \<Rightarrow> fw_report \<Rightarrow> fw_test \<Rightarrow> fw_test option" where
  "resolved_by_report c r p =
     (if fr_test_id r = Some (ft_id p) \<and> reported_status r \<noteq> None then
        (let q = set_resolved_at c (p\<lparr>ft_status := the (reported_status r)\<rparr>)
         in Some (case fr_reason r of
                    Some why \<Rightarrow> if why \<noteq> [] then q\<lparr>ft_reason := Some why\<rparr> else q
                  | None \<Rightarrow> q))
      else if fr_no_current r \<and> ft_status p = Expired_unreported then
        Some ((set_resolved_at c (p\<lparr>ft_status := Reverted\<rparr>))\<lparr>ft_resolved_by := Some ''addon_timer''\<rparr>)
      else None)"

definition resolved_event :: "fw_report \<Rightarrow> fw_test \<Rightarrow> audit_event" where
  "resolved_event r q =
     (plain_event ''firewall_resolved'')
       \<lparr>ev_detail := Some (PDict [(KStr ''actor_source'', PStr ''addon''), (KStr ''test_id'', PStr (ft_id q)),
          (KStr ''status'', PStr (status_text (ft_status q))), (KStr ''reason'', opt_str (ft_reason q)),
          (KStr ''reported_rule_count'',
            case fr_known r of None \<Rightarrow> PNone | Some ks \<Rightarrow> PInt (int (length ks)))])\<rparr>"

definition report_from_addon ::
    "clock \<Rightarrow> fw_report \<Rightarrow> firewall \<Rightarrow> (firewall \<times> audit_event list) res" where
  "report_from_addon c r fw =
     bind_res (note_report c r fw) (\<lambda>fw.
       case Option.bind (fw_pending fw) (resolved_by_report c r) of
         None \<Rightarrow> Inr (saved fw, [])
       | Some q \<Rightarrow> Inr (saved (archive q fw), [resolved_event r q]))"

datatype command =
    No_command
  | Other_test_held
  | Apply string "dict list" int
  | Confirm_command string
  | Revert_command string

definition next_addon_command ::
    "clock \<Rightarrow> string option \<Rightarrow> firewall \<Rightarrow> (firewall \<times> command \<times> audit_event list) res" where
  "next_addon_command c current fw =
     (case fw_pending fw of
        None \<Rightarrow> Inr (fw, No_command, [])
      | Some p \<Rightarrow>
          (let holds = (current \<noteq> None \<and> current \<noteq> Some [])
           in if holds \<and> current \<noteq> Some (ft_id p) then Inr (fw, Other_test_held, [])
              else if \<not> holds \<and> ft_status p = Expired_unreported then
                bind_res (report_from_addon c empty_report fw) (\<lambda>(fw, es). Inr (fw, No_command, es))
              else if ft_status p = Testing \<and> ft_applied_at p = None then
                Inr (saved (fw\<lparr>fw_pending := Some (p\<lparr>ft_applied_at := Some (iso_now c),
                                                      ft_expires_at := expiry c (ft_window p)\<rparr>)\<rparr>),
                     Apply (ft_id p) (map rule_for_addon (ft_rules p)) (ft_window p), [])
              else if current \<noteq> Some (ft_id p) then Inr (fw, No_command, [])
              else if ft_status p = Confirmed then Inr (fw, Confirm_command (ft_id p), [])
              else if ft_status p = Reverted then Inr (fw, Revert_command (ft_id p), [])
              else Inr (fw, No_command, [])))"

end
