(* ===== verification/FirewallSys.thy ===== *)
theory FirewallSys
  imports Firewall
begin

text \<open>
  The firewall test as a state machine: the few changes the pending slot can undergo
  (\<open>slot_step\<close>, the specification), that every operation is one of them, and what follows for a
  run: no test is lost or duplicated, history is frozen, a ruleset is handed out at most once
  and only as it was validated.
\<close>

section \<open>What can happen to the slot\<close>

definition terminal :: "fw_test \<Rightarrow> bool" where
  "terminal p \<longleftrightarrow> ft_status p \<in> {Confirmed, Reverted, Discarded_unreported} \<and> ft_resolved_at p \<noteq> None"

definition same_test :: "fw_test \<Rightarrow> fw_test \<Rightarrow> bool" where
  "same_test p q \<longleftrightarrow> ft_id q = ft_id p \<and> ft_rules q = ft_rules p \<and> ft_requested_by q = ft_requested_by p
     \<and> ft_requested_at q = ft_requested_at p \<and> ft_window q = ft_window p \<and> ft_applied_at q = ft_applied_at p"

text \<open>\<open>slot_step fw fw' qs\<close>: \<open>qs\<close> are the records archived in the step.\<close>

inductive slot_step :: "firewall \<Rightarrow> firewall \<Rightarrow> fw_test list \<Rightarrow> bool" where
  keep: "fw_pending fw' = fw_pending fw \<Longrightarrow> fw_history fw' = fw_history fw \<Longrightarrow> slot_step fw fw' []"
| queue: "fw_pending fw = None \<Longrightarrow> fw_pending fw' = Some p \<Longrightarrow> fw_history fw' = fw_history fw \<Longrightarrow>
    ft_status p = Testing \<Longrightarrow> ft_applied_at p = None \<Longrightarrow> list_all settled_rule (ft_rules p) \<Longrightarrow> slot_step fw fw' []"
| expire: "fw_pending fw = Some p \<Longrightarrow> ft_status p = Testing \<Longrightarrow> fw_history fw' = fw_history fw \<Longrightarrow>
    fw_pending fw' = Some (p\<lparr>ft_status := Expired_unreported\<rparr>) \<Longrightarrow> slot_step fw fw' []"
| decide: "fw_pending fw = Some p \<Longrightarrow> ft_status p \<in> {Testing, Expired_unreported} \<Longrightarrow> fw_history fw' = fw_history fw \<Longrightarrow>
    fw_pending fw' = Some q \<Longrightarrow> same_test p q \<Longrightarrow> ft_status q \<in> {Confirmed, Reverted} \<Longrightarrow>
    ft_resolved_at q \<noteq> None \<Longrightarrow> slot_step fw fw' []"
| hand_out: "fw_pending fw = Some p \<Longrightarrow> ft_status p = Testing \<Longrightarrow> ft_applied_at p = None \<Longrightarrow>
    fw_history fw' = fw_history fw \<Longrightarrow>
    fw_pending fw' = Some (p\<lparr>ft_applied_at := Some t, ft_expires_at := e\<rparr>) \<Longrightarrow> slot_step fw fw' []"
| free: "fw_pending fw = Some p \<Longrightarrow> same_test p q \<Longrightarrow> terminal q \<Longrightarrow> fw_pending fw' = None \<Longrightarrow>
    fw_history fw' = keep_newest MAX_HISTORY (fw_history fw @ [q]) \<Longrightarrow> slot_step fw fw' [q]"

inductive_cases slot_stepE: "slot_step fw fw' qs"

inductive_simps slot_step_free: "slot_step fw fw' [q]"

lemma saved_simps [simp]:
  "fw_pending (saved fw) = fw_pending fw" "fw_history (saved fw) = fw_history fw" "fw_caps (saved fw) = fw_caps fw"
  by (simp_all add: saved_def)

lemma archive_simps [simp]:
  "fw_pending (archive p fw) = None" "fw_history (archive p fw) = keep_newest MAX_HISTORY (fw_history fw @ [p])"
  by (simp_all add: archive_def)

section \<open>Every operation is such a step\<close>

lemma expire_slot:
  assumes "lazily_expire_if_stale c fw = Inr fw'"
  shows "slot_step fw fw' []" "fw_history fw' = fw_history fw"
    "fw_pending fw' = fw_pending fw \<or> (\<exists>p. fw_pending fw = Some p \<and> fw_pending fw' = Some (p\<lparr>ft_status := Expired_unreported\<rparr>))"
proof -
  consider "fw' = fw" | p where "fw_pending fw = Some p" "ft_status p = Testing"
      "fw' = fw\<lparr>fw_pending := Some (p\<lparr>ft_status := Expired_unreported\<rparr>)\<rparr>"
    using assms by (auto simp: lazily_expire_if_stale_def bind_res_Inr split: option.splits if_splits)
  then have "slot_step fw fw' [] \<and> fw_history fw' = fw_history fw \<and> (fw_pending fw' = fw_pending fw
      \<or> (\<exists>p. fw_pending fw = Some p \<and> fw_pending fw' = Some (p\<lparr>ft_status := Expired_unreported\<rparr>)))"
    by cases (auto intro: slot_step.keep slot_step.expire)
  then show "slot_step fw fw' []" "fw_history fw' = fw_history fw"
    "fw_pending fw' = fw_pending fw \<or> (\<exists>p. fw_pending fw = Some p \<and> fw_pending fw' = Some (p\<lparr>ft_status := Expired_unreported\<rparr>))"
    by auto
qed

lemma rules_settled: "RULES_SCHEMA vs = Some rs \<Longrightarrow> list_all settled_rule rs"
proof -
  have "map_rules vs = Some rs \<Longrightarrow> list_all settled_rule rs" for vs rs
    by (induction vs arbitrary: rs) (auto intro: RULE_SCHEMA_settled split: option.splits)
  then show "RULES_SCHEMA vs = Some rs \<Longrightarrow> ?thesis" by (simp add: RULES_SCHEMA_def split: if_splits)
qed

lemma propose_slot:
  assumes "propose_test c i rules ack user window fw = (fw', r)"
  shows "slot_step fw fw' []"
    "case r of Inl e \<Rightarrow> fw' = fw | Inr p \<Rightarrow> fw_pending fw = None \<and> fw_pending fw' = Some p \<and> ft_id p = i"
  using assms rules_settled
  by (auto simp: propose_test_def Let_def split: if_splits option.splits
      intro: slot_step.keep slot_step.queue)

lemma intent_slot:
  assumes "resolve_intent st c i user fw = (fw', e)" "st \<in> {Confirmed, Reverted}"
  shows "slot_step fw fw' []"
proof -
  consider "fw' = fw" | p where "fw_pending fw = Some p" "ft_status p \<in> {Testing, Expired_unreported}"
      "fw' = saved (fw\<lparr>fw_pending := Some (p\<lparr>ft_status := st, ft_resolved_at := Some (iso_now c), ft_resolved_by := Some user\<rparr>)\<rparr>)"
    using assms(1) by (auto simp: resolve_intent_def split: option.splits if_splits)
  then show ?thesis
    by cases (use assms(2) in \<open>auto simp: same_test_def intro: slot_step.keep slot_step.decide\<close>)
qed

lemma slot_free_after_expire:
  assumes "slot_step fw fw1 []" "fw_history fw1 = fw_history fw"
    "fw_pending fw1 = fw_pending fw \<or> (\<exists>p. fw_pending fw = Some p \<and> fw_pending fw1 = Some (p\<lparr>ft_status := Expired_unreported\<rparr>))"
    "slot_step fw1 fw' [q]"
  shows "slot_step fw fw' [q]"
  using assms(2-4) by (auto simp: slot_step_free same_test_def)

lemma discard_slot:
  assumes "discard_pending c user fw = Inr (fw', e, es)"
  shows "(\<exists>qs. slot_step fw fw' qs \<and> length es = length qs)
    \<and> (fw_pending fw' = None \<or> lazily_expire_if_stale c fw = Inr fw')"
proof -
  obtain fw1 where fw1: "lazily_expire_if_stale c fw = Inr fw1"
    and rest: "(case fw_pending fw1 of
         None \<Rightarrow> Inr (fw1, Some No_pending_test, [])
       | Some p \<Rightarrow>
           bind_res (case cl_parse c (ft_expires_at p) of
                       None \<Rightarrow> Inr False | Some e \<Rightarrow> moment_less (Aware (cl_now c)) e) (\<lambda>early.
             if early then Inr (fw1, Some Window_not_lapsed, [])
             else
               (let q = p\<lparr>ft_status := Discarded_unreported, ft_resolved_at := Some (iso_now c),
                          ft_resolved_by := Some user\<rparr>
                in Inr (saved (archive q fw1), None, [discard_event user q (ft_status p)])))) = Inr (fw', e, es)"
    using assms unfolding discard_pending_def bind_res_Inr by blast
  note ex = expire_slot [OF fw1]
  consider "fw' = fw1" "es = []" | p where "fw_pending fw1 = Some p" "length es = 1"
      "fw' = saved (archive (p\<lparr>ft_status := Discarded_unreported, ft_resolved_at := Some (iso_now c),
                              ft_resolved_by := Some user\<rparr>) fw1)"
    using rest by (auto simp: bind_res_Inr Let_def split: option.splits if_splits)
  then show ?thesis
  proof cases
    case 1
    with ex(1) fw1 show ?thesis by auto
  next
    case (2 p)
    let ?q = "p\<lparr>ft_status := Discarded_unreported, ft_resolved_at := Some (iso_now c), ft_resolved_by := Some user\<rparr>"
    have "slot_step fw1 fw' [?q]"
      by (rule slot_step.free [OF 2(1)]) (simp_all add: 2(3) same_test_def terminal_def)
    from slot_free_after_expire [OF ex this] 2 show ?thesis by (intro conjI exI [of _ "[?q]"]) simp_all
  qed
qed

lemma note_report_slot: "note_report c r fw = Inr fw' \<Longrightarrow> fw_pending fw' = fw_pending fw \<and> fw_history fw' = fw_history fw"
  by (auto simp: note_report_def bind_res_Inr Let_def split: option.splits)

lemma resolved_by_report_ok:
  assumes "resolved_by_report c r p = Some q"
  shows "same_test p q \<and> terminal q \<and> ft_status q \<in> {Confirmed, Reverted}"
proof -
  have s: "reported_status r = Some st \<Longrightarrow> st \<in> {Confirmed, Reverted}" for st
    by (auto simp: reported_status_def split: if_splits)
  have t: "ft_resolved_at (set_resolved_at c x) \<noteq> None" "same_test x (set_resolved_at c x)"
    "ft_status (set_resolved_at c x) = ft_status x" for x
    by (auto simp: set_resolved_at_def same_test_def split: option.splits)
  from assms consider st where "reported_status r = Some st"
      "same_test (set_resolved_at c (p\<lparr>ft_status := st\<rparr>)) q" "ft_status q = st"
      "ft_resolved_at q = ft_resolved_at (set_resolved_at c (p\<lparr>ft_status := st\<rparr>))"
    | "q = (set_resolved_at c (p\<lparr>ft_status := Reverted\<rparr>))\<lparr>ft_resolved_by := Some ''addon_timer''\<rparr>"
    using t by (auto simp: resolved_by_report_def Let_def same_test_def split: option.splits if_splits)
  then show ?thesis
    by cases (use s t in \<open>auto simp: same_test_def terminal_def\<close>)
qed

lemma report_slot:
  assumes "report_from_addon c r fw = Inr (fw', es)"
  shows "(\<exists>qs. slot_step fw fw' qs \<and> length es = length qs) \<and> (fw_pending fw' = None \<or> fw_pending fw' = fw_pending fw)"
proof -
  obtain fw1 where fw1: "note_report c r fw = Inr fw1"
    using assms by (cases "note_report c r fw") (simp_all add: report_from_addon_def)
  have rest: "(case Option.bind (fw_pending fw1) (resolved_by_report c r) of
         None \<Rightarrow> Inr (saved fw1, [])
       | Some q \<Rightarrow> Inr (saved (archive q fw1), [resolved_event r q])) = (Inr (fw', es) :: (firewall \<times> audit_event list) res)"
    using assms by (simp add: report_from_addon_def fw1)
  note n = note_report_slot [OF fw1]
  show ?thesis
  proof (cases "Option.bind (fw_pending fw1) (resolved_by_report c r)")
    case None
    with rest n show ?thesis by (auto intro!: exI [of _ "[]"] slot_step.keep)
  next
    case (Some q)
    then obtain p where "fw_pending fw = Some p" "resolved_by_report c r p = Some q"
      using n by (auto simp: bind_eq_Some_conv)
    with rest n Some resolved_by_report_ok show ?thesis
      by (auto intro!: exI [of _ "[q]"] slot_step.free)
  qed
qed

lemma command_slot:
  assumes "next_addon_command c current fw = Inr (fw', cmd, es)"
  shows "\<exists>qs. slot_step fw fw' qs \<and> length es = length qs"
    "\<And>i rules w. cmd = Apply i rules w \<Longrightarrow> \<exists>p t e. fw_pending fw = Some p \<and> ft_id p = i \<and> ft_status p = Testing
        \<and> ft_applied_at p = None \<and> rules = map rule_for_addon (ft_rules p)
        \<and> fw_pending fw' = Some (p\<lparr>ft_applied_at := Some t, ft_expires_at := e\<rparr>)
        \<and> (current = None \<or> current = Some [] \<or> current = Some i)"
    "(\<forall>i rules w. cmd \<noteq> Apply i rules w) \<Longrightarrow> fw' = fw \<or> fw_pending fw' = None"
proof -
  consider (same) "fw' = fw" "es = []" "\<forall>i rules w. cmd \<noteq> Apply i rules w"
    | (report) "report_from_addon c empty_report fw = Inr (fw', es)" "cmd = No_command"
        "\<exists>p. fw_pending fw = Some p \<and> ft_status p = Expired_unreported"
    | (handed) p where "fw_pending fw = Some p" "ft_status p = Testing" "ft_applied_at p = None" "es = []"
        "fw' = saved (fw\<lparr>fw_pending := Some (p\<lparr>ft_applied_at := Some (iso_now c), ft_expires_at := expiry c (ft_window p)\<rparr>)\<rparr>)"
        "cmd = Apply (ft_id p) (map rule_for_addon (ft_rules p)) (ft_window p)"
        "current = None \<or> current = Some [] \<or> current = Some (ft_id p)"
    using assms
    by (auto simp: next_addon_command_def bind_res_Inr Let_def split: option.splits if_splits)
  note cs = this
  show "\<exists>qs. slot_step fw fw' qs \<and> length es = length qs" using cs
  proof cases
    case same
    then show ?thesis by (auto intro!: exI [of _ "[]"] slot_step.keep)
  next
    case report
    then show ?thesis using report_slot by blast
  next
    case (handed p)
    then show ?thesis by (auto intro!: exI [of _ "[]"] slot_step.hand_out)
  qed
  show "\<exists>p t e. fw_pending fw = Some p \<and> ft_id p = i \<and> ft_status p = Testing
        \<and> ft_applied_at p = None \<and> rules = map rule_for_addon (ft_rules p)
        \<and> fw_pending fw' = Some (p\<lparr>ft_applied_at := Some t, ft_expires_at := e\<rparr>)
        \<and> (current = None \<or> current = Some [] \<or> current = Some i)" if "cmd = Apply i rules w" for i rules w
    using cs that by cases auto
  assume na: "\<forall>i rules w. cmd \<noteq> Apply i rules w"
  show "fw' = fw \<or> fw_pending fw' = None" using cs
  proof cases
    case report
    then obtain p where p: "fw_pending fw = Some p" "ft_status p = Expired_unreported" by blast
    then have "resolved_by_report c empty_report p \<noteq> None" by (simp add: resolved_by_report_def empty_report_def)
    then obtain q where q: "resolved_by_report c empty_report p = Some q" by blast
    have "note_report c empty_report fw = Inr fw" by (simp add: note_report_def empty_report_def Let_def)
    with report(1) p q show ?thesis by (auto simp: report_from_addon_def)
  qed (use na in auto)
qed

section \<open>Runs\<close>

text \<open>
  Beside the state: the ids of the tests queued so far, the records archived so far (the history
  keeps the newest 50), the rulesets handed out, and the audit records written.
\<close>

record fw_sys =
  fs_fw :: firewall
  fs_queued :: "string list"
  fs_archived :: "fw_test list"
  fs_applied :: "(string \<times> dict list) list"
  fs_audit :: "audit_event list"

definition fresh_fw :: fw_sys where
  "fresh_fw = \<lparr>fs_fw = new_firewall, fs_queued = [], fs_archived = [], fs_applied = [], fs_audit = []\<rparr>"

definition freed :: "firewall \<Rightarrow> firewall \<Rightarrow> fw_test list" where
  "freed fw fw' = (if fw_pending fw \<noteq> None \<and> fw_pending fw' = None then [last (fw_history fw')] else [])"

definition moved :: "firewall \<Rightarrow> audit_event list \<Rightarrow> fw_sys \<Rightarrow> fw_sys" where
  "moved fw' es s =
     s\<lparr>fs_fw := fw', fs_archived := fs_archived s @ freed (fs_fw s) fw', fs_audit := fs_audit s @ es\<rparr>"

definition note_command :: "command \<Rightarrow> fw_sys \<Rightarrow> fw_sys" where
  "note_command cmd s = (case cmd of Apply i rules w \<Rightarrow> s\<lparr>fs_applied := fs_applied s @ [(i, rules)]\<rparr> | _ \<Rightarrow> s)"

inductive fw_step :: "fw_sys \<Rightarrow> fw_sys \<Rightarrow> bool" where
  propose: "i \<notin> set (fs_queued s) \<Longrightarrow> propose_test c i rules ack user w (fs_fw s) = (fw', r) \<Longrightarrow>
    fw_step s ((moved fw' [] s)\<lparr>fs_queued := fs_queued s @ (case r of Inl e \<Rightarrow> [] | Inr p \<Rightarrow> [i])\<rparr>)"
| confirm: "confirm_test c i user (fs_fw s) = (fw', e) \<Longrightarrow> fw_step s (moved fw' [] s)"
| cancel: "cancel_test c i user (fs_fw s) = (fw', e) \<Longrightarrow> fw_step s (moved fw' [] s)"
| discard: "discard_pending c user (fs_fw s) = Inr (fw', e, es) \<Longrightarrow> fw_step s (moved fw' es s)"
| status: "get_status c (fs_fw s) = Inr (fw', v) \<Longrightarrow> fw_step s (moved fw' [] s)"
| poll: "next_addon_command c current (fs_fw s) = Inr (fw', cmd, es) \<Longrightarrow> fw_step s (note_command cmd (moved fw' es s))"
| report: "report_from_addon c r (fs_fw s) = Inr (fw', es) \<Longrightarrow> fw_step s (moved fw' es s)"

inductive fw_reachable :: "fw_sys \<Rightarrow> bool" where
  start: "fw_reachable fresh_fw"
| step: "fw_reachable s \<Longrightarrow> fw_step s s' \<Longrightarrow> fw_reachable s'"

definition in_slot :: "firewall \<Rightarrow> fw_test list" where
  "in_slot fw = (case fw_pending fw of None \<Rightarrow> [] | Some p \<Rightarrow> [p])"

definition pending_ok :: "string set \<Rightarrow> fw_test \<Rightarrow> bool" where
  "pending_ok applied p \<longleftrightarrow> list_all settled_rule (ft_rules p) \<and> ft_status p \<noteq> Discarded_unreported
     \<and> (ft_applied_at p \<noteq> None \<longleftrightarrow> ft_id p \<in> applied)"

definition handed :: "fw_sys \<Rightarrow> string set" where
  "handed s = fst ` set (fs_applied s)"

definition fw_inv :: "fw_sys \<Rightarrow> bool" where
  "fw_inv s \<longleftrightarrow> fw_history (fs_fw s) = keep_newest MAX_HISTORY (fs_archived s)
     \<and> map ft_id (fs_archived s @ in_slot (fs_fw s)) = fs_queued s \<and> distinct (fs_queued s)
     \<and> list_all terminal (fs_archived s)
     \<and> (\<forall>p. fw_pending (fs_fw s) = Some p \<longrightarrow> pending_ok (handed s) p)
     \<and> distinct (map fst (fs_applied s)) \<and> handed s \<subseteq> set (fs_queued s)
     \<and> (\<forall>(i, rs) \<in> set (fs_applied s). \<exists>p \<in> set (fs_archived s @ in_slot (fs_fw s)).
          ft_id p = i \<and> rs = map rule_for_addon (ft_rules p))"

lemma keep_newest_last: "0 < n \<Longrightarrow> last (keep_newest n (xs @ [q])) = q"
  by (simp add: keep_newest_def last_drop)

text \<open>A step that hands nothing out keeps the invariant, given how the slot changed.\<close>

lemma moved_inv:
  assumes i: "fw_inv s" and st: "slot_step (fs_fw s) fw' qs"
    and nh: "\<And>p. fw_pending (fs_fw s) = Some p \<Longrightarrow> \<exists>q. fw_pending fw' = Some q \<Longrightarrow> ft_applied_at (the (fw_pending fw')) = ft_applied_at p"
    and nq: "fw_pending (fs_fw s) = None \<Longrightarrow> fw_pending fw' = None"
  shows "fw_inv (moved fw' es s)"
proof -
  let ?a = "fs_archived s"
  have h: "handed (moved fw' es s) = handed s" by (simp add: handed_def moved_def)
  show ?thesis using st
  proof cases
    case keep
    then show ?thesis using i by (auto simp: fw_inv_def moved_def freed_def in_slot_def handed_def)
  next
    case (queue p)
    then show ?thesis using nq by simp
  next
    case (free p q)
    have l: "last (fw_history fw') = q" using free by (simp add: keep_newest_last MAX_HISTORY_def)
    have "fw_history fw' = keep_newest MAX_HISTORY (?a @ [q])"
      using i free by (simp add: fw_inv_def keep_newest_append)
    then show ?thesis using i free l
      by (auto simp: fw_inv_def moved_def freed_def in_slot_def same_test_def handed_def)
  next
    case (hand_out p t e)
    then show ?thesis using nh [of p] by auto
  qed (use i nh in \<open>auto simp: fw_inv_def moved_def freed_def in_slot_def same_test_def handed_def pending_ok_def\<close>)
qed

lemma moved_refl: "fw_pending fw' = fw_pending (fs_fw s) \<Longrightarrow> fw_history fw' = fw_history (fs_fw s) \<Longrightarrow> fw_inv s \<Longrightarrow>
    fw_inv (moved fw' es s)"
  by (rule moved_inv) (auto intro: slot_step.keep)

lemma propose_inv:
  assumes i: "fw_inv s" and fresh: "i \<notin> set (fs_queued s)"
    and p: "propose_test c i rules ack user w (fs_fw s) = (fw', r)"
  shows "fw_inv ((moved fw' [] s)\<lparr>fs_queued := fs_queued s @ (case r of Inl e \<Rightarrow> [] | Inr p \<Rightarrow> [i])\<rparr>)"
proof (cases r)
  case (Inl e)
  with propose_slot [OF p] have "fw' = fs_fw s" by simp
  then have "fw_inv (moved fw' [] s)" using i by (intro moved_refl) simp_all
  with Inl show ?thesis by (simp add: moved_def)
next
  case (Inr q)
  note ps = propose_slot [OF p, unfolded Inr sum.case]
  from ps(1) obtain q' where q: "fw_pending fw' = Some q'" "fw_history fw' = fw_history (fs_fw s)" "ft_status q' = Testing"
    "ft_applied_at q' = None" "list_all settled_rule (ft_rules q')"
    using ps(2) by (cases rule: slot_step.cases) auto
  then have qq: "q' = q" "ft_id q = i" using ps(2) by auto
  have "i \<notin> handed s" using i fresh by (auto simp: fw_inv_def)
  then have "pending_ok (handed s) q" using q qq by (simp add: pending_ok_def)
  then show ?thesis using i fresh ps(2) q qq Inr
    by (auto simp: fw_inv_def moved_def freed_def in_slot_def handed_def split: prod.splits)
qed

lemma apply_inv:
  assumes i: "fw_inv s" and p: "fw_pending (fs_fw s) = Some p" "ft_applied_at p = None" "ft_status p = Testing"
    and f: "fw_pending fw' = Some (p\<lparr>ft_applied_at := Some t, ft_expires_at := e\<rparr>)" "fw_history fw' = fw_history (fs_fw s)"
  shows "fw_inv (note_command (Apply (ft_id p) (map rule_for_addon (ft_rules p)) w) (moved fw' es s))"
proof -
  have n: "ft_id p \<notin> handed s" "list_all settled_rule (ft_rules p)" using i p by (auto simp: fw_inv_def pending_ok_def)
  moreover have "ft_id p \<in> set (fs_queued s)"
  proof -
    have "fs_queued s = map ft_id (fs_archived s @ in_slot (fs_fw s))" using i by (simp add: fw_inv_def)
    then show ?thesis by (simp add: in_slot_def p(1))
  qed
  moreover have "\<exists>q \<in> set (fs_archived s) \<union> {p\<lparr>ft_applied_at := Some t, ft_expires_at := e\<rparr>}.
      ft_id q = j \<and> rs = map rule_for_addon (ft_rules q)"
    if "(j, rs) \<in> set (fs_applied s)" for j rs
    using i p(1) that unfolding fw_inv_def in_slot_def by fastforce
  ultimately show ?thesis using i p f
    by (auto simp: fw_inv_def moved_def note_command_def freed_def in_slot_def handed_def pending_ok_def)
qed

lemma fw_inv_step:
  assumes "fw_step s s'" "fw_inv s"
  shows "fw_inv s'"
  using assms(1)
proof cases
  case (propose i c rules ack user w fw' r)
  then show ?thesis using propose_inv [OF assms(2)] by simp
next
  case (confirm c i user fw' e)
  have st: "slot_step (fs_fw s) fw' []" using intent_slot [of Confirmed] confirm(2) by (simp add: confirm_test_def)
  have "fw_inv (moved fw' [] s)"
    by (rule moved_inv [OF assms(2) st])
      (use confirm(2) in \<open>auto simp: confirm_test_def resolve_intent_def split: option.splits if_splits\<close>)
  with confirm show ?thesis by simp
next
  case (cancel c i user fw' e)
  have st: "slot_step (fs_fw s) fw' []" using intent_slot [of Reverted] cancel(2) by (simp add: cancel_test_def)
  have "fw_inv (moved fw' [] s)"
    by (rule moved_inv [OF assms(2) st])
      (use cancel(2) in \<open>auto simp: cancel_test_def resolve_intent_def split: option.splits if_splits\<close>)
  with cancel show ?thesis by simp
next
  case (status c fw' v)
  then have l: "lazily_expire_if_stale c (fs_fw s) = Inr fw'" by (auto simp: get_status_def bind_res_Inr)
  have "fw_inv (moved fw' [] s)"
    by (rule moved_inv [OF assms(2) expire_slot(1) [OF l]]) (use expire_slot(3) [OF l] in auto)
  with status show ?thesis by simp
next
  case (discard c user fw' e es)
  then obtain qs where st: "slot_step (fs_fw s) fw' qs" using discard_slot by blast
  have "fw_pending fw' = None \<or> lazily_expire_if_stale c (fs_fw s) = Inr fw'" using discard_slot [OF discard(2)] by blast
  then have "fw_pending fw' = None \<or> fw_pending fw' = fw_pending (fs_fw s)
      \<or> (\<exists>p. fw_pending (fs_fw s) = Some p \<and> fw_pending fw' = Some (p\<lparr>ft_status := Expired_unreported\<rparr>))"
    using expire_slot(3) by blast
  then have "fw_inv (moved fw' es s)" by (intro moved_inv [OF assms(2) st]) auto
  with discard show ?thesis by simp
next
  case (report c r fw' es)
  then obtain qs where st: "slot_step (fs_fw s) fw' qs" using report_slot by blast
  have "fw_pending fw' = None \<or> fw_pending fw' = fw_pending (fs_fw s)" using report_slot [OF report(2)] by blast
  then have "fw_inv (moved fw' es s)" by (intro moved_inv [OF assms(2) st]) auto
  with report show ?thesis by simp
next
  case (poll c current fw' cmd es)
  obtain qs where st: "slot_step (fs_fw s) fw' qs" using command_slot(1) [OF poll(2)] by blast
  show ?thesis
  proof (cases "\<exists>i rules w. cmd = Apply i rules w")
    case True
    then obtain i rules w where c: "cmd = Apply i rules w" by blast
    obtain p t e where p: "fw_pending (fs_fw s) = Some p" "ft_id p = i" "ft_status p = Testing" "ft_applied_at p = None"
      "rules = map rule_for_addon (ft_rules p)" "fw_pending fw' = Some (p\<lparr>ft_applied_at := Some t, ft_expires_at := e\<rparr>)"
      using command_slot(2) [OF poll(2) c] by blast
    have "fw_history fw' = fw_history (fs_fw s)" using st p(6) by cases auto
    from apply_inv [OF assms(2) p(1,4,3,6) this] show ?thesis unfolding poll(1) c p(5) p(2) [symmetric] .
  next
    case False
    then have "note_command cmd x = x" for x by (cases cmd) (auto simp: note_command_def)
    moreover have "fw' = fs_fw s \<or> fw_pending fw' = None" using command_slot(3) [OF poll(2)] False by metis
    then have "fw_inv (moved fw' es s)" by (intro moved_inv [OF assms(2) st]) auto
    ultimately show ?thesis using poll(1) by simp
  qed
qed

lemma fw_reachable_inv: "fw_reachable s \<Longrightarrow> fw_inv s"
proof (induction rule: fw_reachable.induct)
  case start
  show ?case by (simp add: fw_inv_def fresh_fw_def new_firewall_def in_slot_def handed_def keep_newest_def)
qed (rule fw_inv_step)

section \<open>Giving up and getting stuck\<close>

definition clock_ok :: "clock \<Rightarrow> bool" where
  "clock_ok c \<longleftrightarrow> (\<forall>t. cl_parse c (cl_iso c t) = Some (Aware t))"

text \<open>Once its window has passed, a test can always be discarded, whatever became of it.\<close>

lemma discard_frees:
  assumes "fw_pending fw = Some p" "cl_parse c (ft_expires_at p) = Some (Aware e)" "e \<le> cl_now c"
  shows "\<exists>fw' es. discard_pending c user fw = Inr (fw', None, es) \<and> fw_pending fw' = None \<and> length es = 1"
  using assms by (cases "ft_status p = Testing")
    (auto simp: discard_pending_def lazily_expire_if_stale_def Let_def)

text \<open>A test decided before the add-on was handed it is never handed out.\<close>

lemma undelivered_stuck:
  assumes "fw_pending fw = Some p" "ft_applied_at p = None" "ft_status p \<in> {Confirmed, Reverted}"
    "current \<noteq> Some (ft_id p)"
  shows "\<exists>cmd. next_addon_command c current fw = Inr (fw, cmd, []) \<and> cmd \<in> {No_command, Other_test_held}"
  using assms by (auto simp: next_addon_command_def Let_def)

end
