(* ===== verification/FirewallTheorems.thy ===== *)
theory FirewallTheorems
  imports FirewallSys
begin

text \<open>
  What the firewall test guarantees: no proposed test is lost or archived twice, a ruleset reaches
  the add-on at most once and only as it was validated, validation is idempotent, a silent add-on
  cannot block the owner past the test window, and one way in which a test can get stuck.
\<close>

definition w_clock :: "int \<Rightarrow> clock" where
  "w_clock n = \<lparr>cl_now = n, cl_iso = (\<lambda>t. if t = 0 then ''0'' else ''45000000''), cl_parse = (\<lambda>t. if t = ''45000000'' then Some (Aware 45000000) else None)\<rparr>"

definition w_rule :: json where
  "w_rule = JObj [(''action'', JStr ''allow''), (''proto'', JStr ''tcp''), (''ports'', JStr ''22,8000:8100''),
     (''source'', JStr ''10.0.0.0/24'')]"

definition w_settled :: dict where
  "w_settled = [(''action'', JStr ''allow''), (''proto'', JStr ''tcp''), (''ports'', JStr ''22,8000:8100''),
     (''source'', JStr ''10.0.0.0/24''), (''icmp_type'', JNull), (''destination'', JNull), (''interface'', JNull),
     (''log'', JBool False), (''comment'', JNull), (''family'', JStr ''4'')]"

definition w_test :: fw_test where
  "w_test = \<lparr>ft_id = ''t1'', ft_rules = [w_settled], ft_status = Testing, ft_requested_by = ''owner'',
     ft_requested_at = ''0'', ft_applied_at = None, ft_expires_at = ''45000000'', ft_window = 45,
     ft_resolved_at = None, ft_resolved_by = None, ft_reason = None\<rparr>"

definition w_propose :: "firewall \<times> (propose_error + fw_test)" where
  "w_propose = propose_test (w_clock 0) ''t1'' [w_rule] True ''owner'' 45 new_firewall"

definition w_fw :: fw_sys where
  "w_fw = (moved (fst w_propose) [] fresh_fw)\<lparr>fs_queued := fs_queued fresh_fw @ (case snd w_propose of Inl e \<Rightarrow> [] | Inr p \<Rightarrow> [''t1''])\<rparr>"

lemma w_fw_reachable: "fw_reachable w_fw"
  unfolding w_fw_def
  by (rule fw_reachable.step [OF fw_reachable.start fw_step.propose [of "''t1''" fresh_fw "w_clock 0" "[w_rule]" True "''owner''" 45]])
    (simp_all add: fresh_fw_def w_propose_def)

text \<open>
  C17. No test is lost and none is archived twice: in every reachable state the tests proposed so
  far are, in order, those archived and then the one in the slot; what is archived is resolved, and
  the history the store keeps is the newest fifty of them, unchanged since.
\<close>

theorem tests_are_conserved:
  assumes "fw_reachable s"
  shows "map ft_id (fs_archived s @ in_slot (fs_fw s)) = fs_queued s \<and> distinct (fs_queued s)
     \<and> list_all terminal (fs_archived s) \<and> fw_history (fs_fw s) = keep_newest 50 (fs_archived s)"
  using fw_reachable_inv [OF assms] by (simp add: fw_inv_def MAX_HISTORY_def)

theorem tests_are_conserved_witness:
  "map ft_id (fs_archived w_fw @ in_slot (fs_fw w_fw)) = fs_queued w_fw \<and> distinct (fs_queued w_fw)
     \<and> list_all terminal (fs_archived w_fw) \<and> fw_history (fs_fw w_fw) = keep_newest 50 (fs_archived w_fw)"
  by (rule tests_are_conserved [OF w_fw_reachable])

text \<open>
  C18. The add-on is handed each ruleset at most once, only for a test the owner proposed, and what
  it gets is the wire form of rules that passed validation and have not changed since.
\<close>

theorem applied_once_as_validated:
  assumes "fw_reachable s"
  shows "distinct (map fst (fs_applied s)) \<and> fst ` set (fs_applied s) \<subseteq> set (fs_queued s)
     \<and> (\<forall>i rules. (i, rules) \<in> set (fs_applied s) \<longrightarrow> (\<exists>p \<in> set (fs_archived s @ in_slot (fs_fw s)).
          ft_id p = i \<and> rules = map rule_for_addon (ft_rules p)))
     \<and> (\<forall>p. fw_pending (fs_fw s) = Some p \<longrightarrow> list_all settled_rule (ft_rules p))"
  using fw_reachable_inv [OF assms] unfolding fw_inv_def handed_def pending_ok_def by blast

lemma w_propose_eq: "w_propose = (saved (new_firewall\<lparr>fw_pending := Some w_test\<rparr>), Inr w_test)"
proof -
  have "RULES_SCHEMA [w_rule] = Some [w_settled]" "expiry (w_clock 0) 45 = ''45000000''" "iso_now (w_clock 0) = ''0''"
    by code_simp+
  then show ?thesis
    by (simp add: w_propose_def propose_test_def Let_def unsupported_capabilities_def new_firewall_def w_test_def)
qed

lemma w_fw_pending: "fw_pending (fs_fw w_fw) = Some w_test" "fs_applied w_fw = []"
  by (simp_all add: w_fw_def moved_def w_propose_eq saved_def fresh_fw_def)

definition w_handed :: fw_sys where
  "w_handed =
     (case next_addon_command (w_clock 1) None (fs_fw w_fw) of
        Inl e \<Rightarrow> w_fw | Inr (fw, cmd, es) \<Rightarrow> note_command cmd (moved fw es w_fw))"

lemma w_handed_command: "\<exists>fw. next_addon_command (w_clock 1) None (fs_fw w_fw)
    = Inr (fw, Apply ''t1'' (map rule_for_addon [w_settled]) 45, [])"
  using w_fw_pending(1) by (simp add: next_addon_command_def Let_def w_test_def)

lemma w_handed_facts: "fs_applied w_handed = [(''t1'', map rule_for_addon [w_settled])]"
  using w_handed_command by (auto simp: w_handed_def note_command_def moved_def w_fw_pending(2))

lemma w_handed_reachable: "fw_reachable w_handed"
proof -
  obtain fw cmd es where n: "next_addon_command (w_clock 1) None (fs_fw w_fw) = Inr (fw, cmd, es)"
    using w_handed_command by blast
  then have "w_handed = note_command cmd (moved fw es w_fw)" by (simp add: w_handed_def)
  then show ?thesis using fw_reachable.step [OF w_fw_reachable fw_step.poll [OF n]] by simp
qed

theorem applied_once_as_validated_witness:
  "distinct (map fst (fs_applied w_handed)) \<and> fst ` set (fs_applied w_handed) = {''t1''}
     \<and> (\<exists>rules p. (''t1'', rules) \<in> set (fs_applied w_handed)
          \<and> p \<in> set (fs_archived w_handed @ in_slot (fs_fw w_handed))
          \<and> ft_id p = ''t1'' \<and> rules = map rule_for_addon (ft_rules p))"
proof -
  have r: "(''t1'', map rule_for_addon [w_settled]) \<in> set (fs_applied w_handed)"
    "fst ` set (fs_applied w_handed) = {''t1''}" by (simp_all add: w_handed_facts)
  with applied_once_as_validated [OF w_handed_reachable] show ?thesis by blast
qed

text \<open>
  C19. Validation is idempotent: what the rule schema returns is settled (every field valid on its
  own, ports exactly on TCP and UDP rules, an ICMP type exactly on ICMP rules, the family that of
  the addresses), and validating it again returns it unchanged.
\<close>

theorem rule_validation_idempotent:
  assumes "RULE_SCHEMA v = Some r"
  shows "settled_rule r \<and> RULE_SCHEMA (JObj r) = Some r"
  using RULE_SCHEMA_settled [OF assms] settled_RULE_SCHEMA by blast

theorem rule_validation_idempotent_witness:
  "settled_rule w_settled \<and> RULE_SCHEMA (JObj w_settled) = Some w_settled"
proof -
  have "RULE_SCHEMA w_rule = Some w_settled" by code_simp
  from rule_validation_idempotent [OF this] show ?thesis .
qed

text \<open>
  A silent add-on cannot hold the slot: once the window of a pending test has passed, whatever
  its state, the owner's discard succeeds, frees the slot and is logged.
\<close>

theorem discard_always_possible:
  assumes "fw_pending fw = Some p" "cl_parse c (ft_expires_at p) = Some (Aware e)" "e \<le> cl_now c"
  shows "\<exists>fw' es. discard_pending c user fw = Inr (fw', None, es) \<and> fw_pending fw' = None \<and> length es = 1"
  by (rule discard_frees [OF assms])

theorem discard_always_possible_witness:
  "\<exists>fw' es. discard_pending (w_clock 46000000) ''owner'' (new_firewall\<lparr>fw_pending := Some w_test\<rparr>) = Inr (fw', None, es)
     \<and> fw_pending fw' = None \<and> length es = 1"
  by (rule discard_always_possible [of _ w_test _ 45000000]) (simp_all add: w_clock_def w_test_def)

text \<open>
  A decision taken before the add-on's first poll is never delivered: if the owner confirms or
  cancels a test that was not handed out yet, every later poll of an add-on that does not hold it
  answers with no command and leaves the test in the slot, so its rules are never applied and only
  the owner's discard frees the slot.
\<close>

theorem undelivered_test_stays:
  assumes "fw_pending fw = Some p" "ft_applied_at p = None" "ft_status p \<in> {Confirmed, Reverted}"
    "current \<noteq> Some (ft_id p)"
  shows "\<exists>cmd. next_addon_command c current fw = Inr (fw, cmd, []) \<and> cmd \<in> {No_command, Other_test_held}"
  by (rule undelivered_stuck [OF assms])

theorem undelivered_test_stays_witness:
  "\<exists>fw cmd. confirm_test (w_clock 1) ''t1'' ''owner'' (new_firewall\<lparr>fw_pending := Some w_test\<rparr>) = (fw, None)
     \<and> next_addon_command (w_clock 2) None fw = Inr (fw, cmd, []) \<and> cmd \<in> {No_command, Other_test_held}"
proof -
  let ?fw = "saved (new_firewall\<lparr>fw_pending := Some (w_test\<lparr>ft_status := Confirmed, ft_resolved_at := Some (iso_now (w_clock 1)),
     ft_resolved_by := Some ''owner''\<rparr>)\<rparr>)"
  have "confirm_test (w_clock 1) ''t1'' ''owner'' (new_firewall\<lparr>fw_pending := Some w_test\<rparr>) = (?fw, None)"
    by (simp add: confirm_test_def resolve_intent_def w_test_def)
  moreover have "\<exists>cmd. next_addon_command (w_clock 2) None ?fw = Inr (?fw, cmd, []) \<and> cmd \<in> {No_command, Other_test_held}"
    by (rule undelivered_test_stays [of _ "w_test\<lparr>ft_status := Confirmed, ft_resolved_at := Some (iso_now (w_clock 1)),
          ft_resolved_by := Some ''owner''\<rparr>"]) (simp_all add: saved_def w_test_def)
  ultimately show ?thesis by blast
qed

text \<open>
  An address field accepts more than an address: the validator admits an IPv6 scope of any
  text, blanks and semicolons included, so the claim that no malformed value reaches iptables does
  not hold of it alone.
\<close>

theorem scope_text_is_accepted:
  "valid_source (JStr ''fe80::1%; reboot'') = Some (JStr ''fe80::1%; reboot'')"
  by code_simp

end
