(* ===== verification/SyslogFormat.thy ===== *)
theory SyslogFormat
  imports PyText AuditLog
begin

text \<open>
  The message formats of \<open>syslog_export.py\<close>: RFC 5424 with a JSON payload, bare JSON, and CEF 0, with
  the framing of TCP and TLS. A record is the JSON object of the audit log. Three things of Python's
  library are arguments: the current time as text, \<open>datetime.fromisoformat\<close>, and the text of an
  IPv6 address (\<open>Lib\<close> below), whose grammars depend on the Python release.
\<close>

declare dumps_with.simps [simp del]

section \<open>Constants\<close>

definition QUEUE_MAX :: nat where "QUEUE_MAX = 2000"

definition MESSAGE_MAX_BYTES :: nat where "MESSAGE_MAX_BYTES = 32 * 1024"

definition SD_ID :: string where "SD_ID = ''ha_soc@32473''"

definition SYSLOG_FORMATS :: "string list" where
  "SYSLOG_FORMATS = [''rfc5424_json'', ''cef'', ''raw_json'']"

definition CEF_EVENT_NAMES :: "(string \<times> string) list" where
  "CEF_EVENT_NAMES =
     [(''dashboard_file_write'', ''Dashboard File Written''),
      (''unifi_config_drift'', ''UniFi Configuration Drift''),
      (''ssh_device_command'', ''Device SSH Command Run''),
      (''ssh_key_change'', ''Device SSH Key Changed''),
      (''ssh_host_key_changed'', ''Device SSH Host Key Mismatch''),
      (''terminal_session_open'', ''Terminal Session Opened''),
      (''terminal_session_close'', ''Terminal Session Closed''),
      (''terminal_pairing_rejected'', ''Terminal Pairing Rejected''),
      (''hacs_refresh_all'', ''HACS Repositories Refreshed''),
      (''hacs_update_all'', ''HACS Updates Installed''),
      (''unifi_baseline_accepted'', ''UniFi Baseline Accepted''),
      (''dashboard_file_denied'', ''Dashboard File Access Denied''),
      (''area_registry_change'', ''Area Registry Change''),
      (''audit_chain_reset'', ''Audit Chain Reset''),
      (''audit_head_rebuilt'', ''Audit Chain Head Rebuilt''),
      (''audit_tail_repaired'', ''Audit Torn Tail Repaired''),
      (''category_registry_change'', ''Category Registry Change''),
      (''config_entry_change'', ''Configuration Entry Change''),
      (''core_config_change'', ''Core Configuration Change''),
      (''dashboard_panels_change'', ''Dashboard Panel Set Change''),
      (''detection_status_changed'', ''Detection Status Change''),
      (''device_registry_change'', ''Device Registry Change''),
      (''entity_registry_change'', ''Entity Registry Change''),
      (''external_audit'', ''External Audit Record''),
      (''external_audit_chain_break'', ''External Audit Chain Break''),
      (''external_audit_rejected'', ''External Audit Ingest Rejected''),
      (''firewall_pending_discarded'', ''Pending Firewall Change Discarded''),
      (''firewall_resolved'', ''Firewall Change Resolved''),
      (''floor_registry_change'', ''Floor Registry Change''),
      (''label_registry_change'', ''Label Registry Change''),
      (''login_fail'', ''Failed Login''),
      (''login_ok'', ''Successful Login''),
      (''lovelace_change'', ''Dashboard Change''),
      (''privileged_read'', ''Privileged Read''),
      (''programming_session'', ''Panel Programming Session''),
      (''probe_auth_rejected'', ''Probe Authentication Rejected''),
      (''service_call'', ''Service Call Attempted''),
      (''session_seen'', ''Session Observed''),
      (''soc_config_change'', ''HA SOC Configuration Change''),
      (''token_created'', ''Access Token Created''),
      (''user_added'', ''User Added''),
      (''user_removed'', ''User Removed''),
      (''user_updated'', ''User Updated''),
      (''watchdog_triggered'', ''Resource Watchdog Triggered'')]"

definition CEF_VERY_HIGH_10 :: "string list" where
  "CEF_VERY_HIGH_10 = [''audit_chain_reset'']"

definition CEF_VERY_HIGH_9 :: "string list" where
  "CEF_VERY_HIGH_9 =
     [''probe_auth_rejected'', ''external_audit_chain_break'', ''external_audit_rejected'',
      ''terminal_pairing_rejected'']"

definition CEF_HIGH_7 :: "string list" where
  "CEF_HIGH_7 =
     [''audit_tail_repaired'', ''dashboard_file_denied'', ''ssh_host_key_changed'',
      ''firewall_pending_discarded'', ''login_fail'', ''user_deactivated'', ''user_removed'']"

definition CEF_MEDIUM_5 :: "string list" where
  "CEF_MEDIUM_5 =
     [''audit_head_rebuilt'', ''dashboard_file_write'', ''ssh_device_command'', ''ssh_key_change'',
      ''terminal_session_open'', ''terminal_session_close'', ''hacs_refresh_all'', ''hacs_update_all'',
      ''unifi_config_drift'', ''unifi_baseline_accepted'', ''detection_status_changed'',
      ''external_audit'', ''programming_session'', ''firewall_resolved'', ''privileged_read'',
      ''token_created'', ''user_added'', ''user_updated'', ''watchdog_triggered'']"

section \<open>The RFC 5424 envelope\<close>

text \<open>\<open>str(record.get(k) or fallback)\<close>.\<close>

definition field_text :: "dict \<Rightarrow> string \<Rightarrow> string \<Rightarrow> string" where
  "field_text r k fallback = py_str (or_else (dget_null r k) (JStr fallback))"

definition is_graphic :: "char \<Rightarrow> bool" where
  "is_graphic c \<longleftrightarrow> CHR 0x21 \<le> c \<and> c \<le> CHR 0x7E"

definition substitute :: "(char \<Rightarrow> bool) \<Rightarrow> string \<Rightarrow> string" where
  "substitute ok s = map (\<lambda>c. if ok c then c else CHR ''_'') s"

definition header_token :: "json \<Rightarrow> string \<Rightarrow> string" where
  "header_token v fallback =
     (let t = take 48 (map (\<lambda>c. if c = CHR '' '' then CHR ''_'' else c)
                 (substitute is_graphic (py_str (or_else v (JStr []))))
      ) in if t = [] then fallback else t)"

text \<open>The three replacements of \<open>_sd_value\<close>, one after the other.\<close>

definition replace_char :: "char \<Rightarrow> string \<Rightarrow> string \<Rightarrow> string" where
  "replace_char c t s = concat (map (\<lambda>x. if x = c then t else [x]) s)"

definition sd_value :: "json \<Rightarrow> string" where
  "sd_value v =
     (let t = (if v = JNull then ''-'' else py_str v)
      in replace_char (CHR '']'') [CHR 92, CHR '']'']
           (replace_char (CHR 34) [CHR 92, CHR 34] (replace_char (CHR 92) [CHR 92, CHR 92] t)))"

definition severity :: "dict \<Rightarrow> int" where
  "severity r =
     (let c = field_text r ''category'' []
      in if c \<in> set [''audit_chain_reset'', ''probe_auth_rejected'', ''external_audit_chain_break'',
                     ''external_audit_rejected''] then 3
         else if c \<in> set [''login_fail'', ''user_removed'', ''user_deactivated'', ''audit_tail_repaired''] then 4
         else if suffix ''_change'' c \<or> c = ''soc_config_change'' then 5
         else 6)"

definition rfc5424_prefix :: "string \<Rightarrow> dict \<Rightarrow> int \<Rightarrow> string" where
  "rfc5424_prefix now r facility =
     ''<'' @ int_text (facility * 8 + severity r) @ ''>1 '' @ field_text r ''ts'' now
     @ '' homeassistant ha-soc - '' @ header_token (dget_null r ''category'') ''ha_soc'' @ '' ''
     @ ''['' @ SD_ID @ '' seq='' @ [CHR 34] @ sd_value (dget_null r ''seq'') @ [CHR 34]
     @ '' hash='' @ [CHR 34] @ sd_value (dget_null r ''hash'') @ [CHR 34]
     @ '' category='' @ [CHR 34] @ sd_value (dget_null r ''category'') @ [CHR 34] @ ''] ''"

section \<open>JSON payloads\<close>

definition COMPACT_KEYS :: "string list" where
  "COMPACT_KEYS =
     [''ts'', ''seq'', ''hash'', ''prev_hash'', ''category'', ''user_id'', ''domain'', ''service'', ''ip'']"

definition compact_record :: "dict \<Rightarrow> nat \<Rightarrow> dict" where
  "compact_record r original_bytes =
     map (\<lambda>k. (k, dget_null r k)) COMPACT_KEYS
     @ [(''detail'', JObj [(''truncated'', JBool True), (''original_bytes'', JInt (int original_bytes))])]"

text \<open>UTF-8 of text; the characters of the model are those below 256.\<close>

definition utf8_char :: "char \<Rightarrow> string" where
  "utf8_char c =
     (let n = of_char c :: nat
      in if n < 128 then [c] else [char_of (192 + n div 64), char_of (128 + n mod 64)])"

definition utf8 :: "string \<Rightarrow> string" where
  "utf8 s = concat (map utf8_char s)"

definition format_rfc5424 :: "string \<Rightarrow> dict \<Rightarrow> int \<Rightarrow> string" where
  "format_rfc5424 now r facility =
     (let prefix = rfc5424_prefix now r facility;
          encoded = utf8 (prefix @ dumps_compact (JObj r))
      in if length encoded \<le> MESSAGE_MAX_BYTES then encoded
         else utf8 (prefix @ dumps_compact (JObj (compact_record r (length encoded)))))"

definition format_raw_json :: "dict \<Rightarrow> string" where
  "format_raw_json r =
     (let encoded = utf8 (dumps_compact (JObj r))
      in if length encoded \<le> MESSAGE_MAX_BYTES then encoded
         else utf8 (dumps_compact (JObj (compact_record r (length encoded)))))"

section \<open>CEF\<close>

text \<open>One character of \<open>_cef_escape\<close>.\<close>

definition cef_char :: "bool \<Rightarrow> char \<Rightarrow> string" where
  "cef_char header c =
     (if c = CHR 92 then [CHR 92, CHR 92]
      else if header \<and> c = CHR ''|'' then [CHR 92, CHR ''|'']
      else if \<not> header \<and> c = CHR ''='' then [CHR 92, CHR ''='']
      else if c = CHR 13 then [CHR 92, CHR ''r'']
      else if c = CHR 10 then [CHR 92, CHR ''n'']
      else if c < CHR 0x20 \<or> c = CHR 0x7F then '' ''
      else [c])"

fun cef_loop :: "bool \<Rightarrow> nat \<Rightarrow> nat \<Rightarrow> string \<Rightarrow> string" where
  "cef_loop header max_length n [] = []"
| "cef_loop header max_length n (c # s) =
     (let e = cef_char header c
      in if max_length < n + length e then [] else e @ cef_loop header max_length (n + length e) s)"

definition cef_escape :: "bool \<Rightarrow> nat \<Rightarrow> json \<Rightarrow> string" where
  "cef_escape header max_length v =
     cef_loop header max_length 0 (if v = JNull then [] else py_str v)"

definition cef_header_value :: "nat \<Rightarrow> json \<Rightarrow> string" where
  "cef_header_value max_length v =
     (let t = cef_escape True max_length v in if t = [] then ''-'' else t)"

definition cef_extension_value :: "nat \<Rightarrow> json \<Rightarrow> string" where
  "cef_extension_value max_length v = cef_escape False max_length v"

definition event_id_safe :: "char \<Rightarrow> bool" where
  "event_id_safe c \<longleftrightarrow> is_lower c \<or> is_upper c \<or> is_digit c \<or> c \<in> set ''_.:-''"

definition cef_event_class_id :: "dict \<Rightarrow> string" where
  "cef_event_class_id r =
     (let safe = strip_by (\<lambda>c. c \<in> set ''._:-'') (substitute event_id_safe (field_text r ''category'' ''unknown''))
      in ''ha_soc.'' @ (if take 240 safe = [] then ''unknown'' else take 240 safe))"

text \<open>\<open>str.title()\<close> of ASCII text.\<close>

definition char_upper :: "char \<Rightarrow> char" where
  "char_upper c = (if is_lower c then char_of (of_char c - 32 :: nat) else c)"

fun title_from :: "bool \<Rightarrow> string \<Rightarrow> string" where
  "title_from inside [] = []"
| "title_from inside (c # s) =
     (if is_lower c \<or> is_upper c then (if inside then char_lower c else char_upper c) # title_from True s
      else c # title_from False s)"

definition cef_event_name :: "dict \<Rightarrow> string" where
  "cef_event_name r =
     (let category = field_text r ''category'' ''unknown''
      in case dget CEF_EVENT_NAMES category of
           Some name \<Rightarrow> name
         | None \<Rightarrow>
             (let t = title_from False (strip (replace_char (CHR ''_'') '' '' (substitute event_id_safe category)))
              in if t = [] then ''Unknown HA SOC Event'' else t))"

definition cef_severity :: "dict \<Rightarrow> int" where
  "cef_severity r =
     (let c = field_text r ''category'' []
      in if c \<in> set CEF_VERY_HIGH_10 then 10
         else if c \<in> set CEF_VERY_HIGH_9 then 9
         else if c \<in> set CEF_HIGH_7 then 7
         else if c \<in> set CEF_MEDIUM_5 \<or> suffix ''_change'' c then 5
         else if c \<in> set [''login_ok'', ''service_call'', ''session_seen''] then 3
         else 4)"

text \<open>
  \<open>int(parsed.timestamp() * 1000)\<close> in binary64: the seconds are the double nearest to the
  microseconds over a million, their thousandfold is rounded again and truncated. \<^term>\<open>nearest n d\<close>
  is the double nearest to \<open>n / d\<close> as a fraction; both operands stay far above the subnormal range.
\<close>

definition nearest :: "nat \<Rightarrow> nat \<Rightarrow> nat \<times> nat" where
  "nearest n d =
     (if n = 0 then (0, 1)
      else
        (let m = n * 2 ^ 64; e = bit_len (m div d) - 1
         in if 52 \<le> e then (round_half_even m (d * 2 ^ (e - 52)) * 2 ^ (e - 52), 2 ^ 64)
            else (round_half_even (m * 2 ^ (52 - e)) d, 2 ^ (52 - e) * 2 ^ 64)))"

definition timestamp_ms :: "int \<Rightarrow> int" where
  "timestamp_ms us =
     (let (a, b) = nearest (nat \<bar>us\<bar>) 1000000; (p, q) = nearest (a * 1000) b
      in (if us < 0 then - int (p div q) else int (p div q)))"

record lib =
  fromisoformat :: "string \<Rightarrow> moment option"
  ipv6_text :: "string \<Rightarrow> string"

definition z_offset :: "string \<Rightarrow> string" where
  "z_offset s = replace_char (CHR ''Z'') ''+00:00'' s"

definition epoch_milliseconds :: "lib \<Rightarrow> json \<Rightarrow> string option" where
  "epoch_milliseconds L v =
     (if v = JNull \<or> v = JStr [] then None
      else case fromisoformat L (z_offset (py_str v)) of
        None \<Rightarrow> None
      | Some (Naive us) \<Rightarrow> Some (int_text (timestamp_ms us))
      | Some (Aware us) \<Rightarrow> Some (int_text (timestamp_ms us)))"

definition cef_detail :: "dict \<Rightarrow> nat option \<Rightarrow> string" where
  "cef_detail r truncated_bytes =
     (let detail = (case truncated_bytes of
             Some n \<Rightarrow> JObj [(''original_bytes'', JInt (int n)), (''truncated'', JBool True)]
           | None \<Rightarrow> or_else (dget_null r ''detail'') (JObj []));
          serialized = (case detail of JObj d \<Rightarrow> dumps_compact detail | _ \<Rightarrow> py_str detail)
      in if length (cef_extension_value 1023 (JStr serialized))
            = length (cef_extension_value (length serialized * 2 + 1) (JStr serialized))
         then serialized
         else dumps_compact (JObj [(''original_characters'', JInt (int (length serialized))), (''truncated'', JBool True)]))"

text \<open>The fields in order: the key, the value and its bound.\<close>

type_synonym cef_field = "string \<times> json \<times> nat"

definition labelled :: "string \<Rightarrow> string \<Rightarrow> json \<Rightarrow> nat \<Rightarrow> cef_field list" where
  "labelled key label v n = (if v = JNull then [] else [(key @ ''Label'', JStr label, 1023), (key, v, n)])"

definition time_fields :: "lib \<Rightarrow> dict \<Rightarrow> cef_field list" where
  "time_fields L r =
     (case epoch_milliseconds L (dget_null r ''ts'') of
        None \<Rightarrow> [] | Some t \<Rightarrow> [(''rt'', JStr t, 32), (''start'', JStr t, 32)])"

definition action_fields :: "dict \<Rightarrow> cef_field list" where
  "action_fields r =
     (let vs = filter truthy [dget_null r ''domain'', dget_null r ''service'']
      in if vs = [] then [] else [(''act'', JStr (join ''.'' (map py_str vs)), 63)])"

definition outcome_fields :: "string \<Rightarrow> cef_field list" where
  "outcome_fields category =
     (if category = ''login_ok'' then [(''outcome'', JStr ''success'', 63)]
      else if category \<in> set [''login_fail'', ''probe_auth_rejected''] then [(''outcome'', JStr ''failure'', 63)]
      else [])"

text \<open>\<open>ipaddress.ip_address\<close> takes an address without a prefix length.\<close>

definition source_fields :: "lib \<Rightarrow> dict \<Rightarrow> cef_field list" where
  "source_fields L r =
     (let raw = dget_null r ''ip''; t = py_str raw
      in if \<not> truthy raw \<or> CHR ''/'' \<in> set t then []
         else case ip_version t of
             None \<Rightarrow> []
           | Some v \<Rightarrow>
               if v = 4 then [(''src'', JStr t, 45)]
               else [(''c6a1Label'', JStr ''Source IPv6'', 1023), (''c6a1'', JStr (ipv6_text L t), 45)])"

definition detail_item :: "dict \<Rightarrow> string \<Rightarrow> json" where
  "detail_item r k = (case dget_null r ''detail'' of JObj d \<Rightarrow> dget_null d k | _ \<Rightarrow> JNull)"

definition present :: "string \<Rightarrow> json \<Rightarrow> nat \<Rightarrow> cef_field list" where
  "present key v n = (if v = JNull then [] else [(key, v, n)])"

definition user_fields :: "dict \<Rightarrow> cef_field list" where
  "user_fields r =
     present ''suid'' (dget_null r ''user_id'') 1023
     @ present ''duid'' (detail_item r ''target_user_id'') 1023
     @ (if dget_null r ''attempted_user'' \<noteq> JNull then [(''duser'', dget_null r ''attempted_user'', 1023)]
        else present ''duser'' (detail_item r ''target_name'') 1023)"

definition chain_fields :: "dict \<Rightarrow> cef_field list" where
  "chain_fields r =
     labelled ''cn1'' ''Audit Sequence'' (dget_null r ''seq'') 32
     @ labelled ''cs1'' ''Audit Hash'' (dget_null r ''hash'') 4000
     @ labelled ''cs2'' ''Previous Audit Hash'' (dget_null r ''prev_hash'') 4000
     @ labelled ''cs3'' ''HA Context ID'' (dget_null r ''context_id'') 4000
     @ labelled ''cs4'' ''HA Parent Context ID'' (dget_null r ''context_parent_id'') 4000
     @ (if truthy (dget_null r ''entity_ids'')
        then labelled ''cs5'' ''Entity IDs'' (JStr (dumps_with False '','' '':'' (dget_null r ''entity_ids''))) 4000
        else [])"

definition cef_fields :: "lib \<Rightarrow> dict \<Rightarrow> nat option \<Rightarrow> cef_field list" where
  "cef_fields L r truncated_bytes =
     (let category = field_text r ''category'' ''unknown''
      in time_fields L r @ [(''cat'', JStr category, 1023)] @ action_fields r @ outcome_fields category
         @ source_fields L r @ user_fields r @ chain_fields r
         @ [(''msg'', JStr (cef_detail r truncated_bytes), 1023)])"

definition cef_extension :: "lib \<Rightarrow> dict \<Rightarrow> nat option \<Rightarrow> string" where
  "cef_extension L r truncated_bytes =
     join '' '' (map (\<lambda>(k, v, n). k @ ''='' @ cef_extension_value n v) (cef_fields L r truncated_bytes))"

definition format_cef_payload :: "lib \<Rightarrow> string \<Rightarrow> dict \<Rightarrow> nat option \<Rightarrow> string" where
  "format_cef_payload L version r truncated_bytes =
     ''CEF:0|Home Assistant|HA SOC|'' @ cef_header_value 31 (JStr version) @ ''|''
     @ cef_header_value 1023 (JStr (cef_event_class_id r)) @ ''|''
     @ cef_header_value 512 (JStr (cef_event_name r)) @ ''|''
     @ int_text (cef_severity r) @ ''|'' @ cef_extension L r truncated_bytes"

definition format_rfc5424_cef :: "lib \<Rightarrow> string \<Rightarrow> string \<Rightarrow> dict \<Rightarrow> int \<Rightarrow> string" where
  "format_rfc5424_cef L version now r facility =
     (let prefix = rfc5424_prefix now r facility;
          encoded = utf8 (prefix @ format_cef_payload L version r None)
      in if length encoded \<le> MESSAGE_MAX_BYTES then encoded
         else utf8 (prefix @ format_cef_payload L version r (Some (length encoded))))"

definition format_syslog_message :: "lib \<Rightarrow> string \<Rightarrow> string \<Rightarrow> dict \<Rightarrow> int \<Rightarrow> string \<Rightarrow> string" where
  "format_syslog_message L version now r facility payload_format =
     (if payload_format = ''cef'' then format_rfc5424_cef L version now r facility
      else if payload_format = ''raw_json'' then format_raw_json r
      else format_rfc5424 now r facility)"

definition frame_rfc6587 :: "string \<Rightarrow> string" where
  "frame_rfc6587 message = nat_text (length message) @ '' '' @ message"

end
