(* ===== verification/SyslogExport.thy ===== *)
theory SyslogExport
  imports SyslogFormat
begin

text \<open>
  The delivery worker of \<open>syslog_export.py\<close>: a bounded queue that the event loop fills and one task
  empties, with retries, restarts and counted losses. The settings are read at each use, so they
  are arguments of the operations. What the network does to a send is the choice of the step taken.
\<close>

declare dumps_with.simps [simp del]

section \<open>State\<close>

record queued =
  qm_record :: dict
  qm_format :: string

text \<open>
  The task field: none, a live worker, or a worker that ended with an exception nobody expected
  (the field then still holds the finished task, and awaiting it raises that exception).
\<close>

datatype worker = No_task | Running | Dead py_exc

record exporter =
  ex_queue :: "queued list"
  ex_inflight :: "queued option"
  ex_entry :: bool
  ex_task :: worker
  ex_retry_delay :: nat
  ex_connected :: bool
  ex_sent :: nat
  ex_dropped :: nat
  ex_last_sent_at :: "string option"
  ex_last_error :: "string option"

definition new_exporter :: exporter where
  "new_exporter =
     \<lparr>ex_queue = [], ex_inflight = None, ex_entry = False, ex_task = No_task, ex_retry_delay = 1, ex_connected = False,
      ex_sent = 0, ex_dropped = 0, ex_last_sent_at = None, ex_last_error = None\<rparr>"

section \<open>Settings\<close>

definition transport :: "dict \<Rightarrow> json" where
  "transport st = dget_default st ''syslog_transport'' (JStr ''disabled'')"

definition enabled :: "dict \<Rightarrow> bool" where
  "enabled st \<longleftrightarrow> transport st \<noteq> JStr ''disabled''"

text \<open>\<open>(settings.get("syslog_host") or "").strip()\<close>\<close>

definition host_of :: "dict \<Rightarrow> string res" where
  "host_of st = (case or_else (dget_null st ''syslog_host'') (JStr []) of JStr s \<Rightarrow> Inr (strip s) | _ \<Rightarrow> Inl AttributeError)"

definition ready :: "dict \<Rightarrow> bool res" where
  "ready st = (if enabled st then bind_res (host_of st) (\<lambda>h. Inr (h \<noteq> [])) else Inr False)"

definition payload_format :: "dict \<Rightarrow> string" where
  "payload_format st =
     (case dget_default st ''syslog_format'' (JStr ''rfc5424_json'') of
        JStr t \<Rightarrow> if t \<in> set SYSLOG_FORMATS then t else ''rfc5424_json''
      | _ \<Rightarrow> ''rfc5424_json'')"

record exporter_status =
  st_enabled :: bool
  st_transport :: json
  st_format :: string
  st_host_configured :: bool
  st_connected :: bool
  st_queued :: nat
  st_sent :: nat
  st_dropped :: nat
  st_last_sent_at :: "string option"
  st_last_error :: "string option"

definition export_status :: "dict \<Rightarrow> exporter \<Rightarrow> exporter_status res" where
  "export_status st x =
     bind_res (host_of st) (\<lambda>h.
       Inr \<lparr>st_enabled = enabled st, st_transport = transport st, st_format = payload_format st,
            st_host_configured = (h \<noteq> []), st_connected = ex_connected x, st_queued = length (ex_queue x),
            st_sent = ex_sent x, st_dropped = ex_dropped x, st_last_sent_at = ex_last_sent_at x,
            st_last_error = ex_last_error x\<rparr>)"

section \<open>The event loop's side\<close>

text \<open>\<open>put_nowait\<close>, and the count of what did not fit.\<close>

definition put_or_drop :: "queued \<Rightarrow> exporter \<Rightarrow> exporter" where
  "put_or_drop i x =
     (if length (ex_queue x) < QUEUE_MAX then x\<lparr>ex_queue := ex_queue x @ [i]\<rparr>
      else x\<lparr>ex_dropped := ex_dropped x + 1\<rparr>)"

definition to_items :: "dict \<Rightarrow> dict list \<Rightarrow> queued list" where
  "to_items st rs = map (\<lambda>r. \<lparr>qm_record = r, qm_format = payload_format st\<rparr>) rs"

definition enqueue :: "dict \<Rightarrow> dict list \<Rightarrow> exporter \<Rightarrow> exporter res" where
  "enqueue st rs x =
     bind_res (ready st) (\<lambda>r. Inr (if r then fold put_or_drop (to_items st rs) x else x))"

definition start_exporter :: "dict \<Rightarrow> exporter \<Rightarrow> exporter res" where
  "start_exporter st x =
     (let x = x\<lparr>ex_entry := True\<rparr>
      in if \<not> enabled st \<or> ex_task x \<noteq> No_task then Inr x
         else bind_res (host_of st) (\<lambda>h.
           Inr (if h = []
                then x\<lparr>ex_last_error := Some ''Syslog transport is enabled but no destination host is configured.''\<rparr>
                else x\<lparr>ex_last_error := None, ex_task := Running, ex_retry_delay := 1\<rparr>)))"

section \<open>The worker\<close>

text \<open>\<open>queue.get\<close>, when something is queued.\<close>

definition worker_get :: "exporter \<Rightarrow> exporter" where
  "worker_get x =
     (case (ex_task x, ex_inflight x, ex_queue x) of
        (Running, None, i # q) \<Rightarrow> x\<lparr>ex_inflight := Some i, ex_queue := q\<rparr>
      | _ \<Rightarrow> x)"

text \<open>A send that returned, and one that failed with an error the worker retries after.\<close>

definition worker_sent :: "string \<Rightarrow> exporter \<Rightarrow> exporter" where
  "worker_sent at x =
     x\<lparr>ex_sent := ex_sent x + 1, ex_last_sent_at := Some at, ex_last_error := None, ex_retry_delay := 1,
       ex_inflight := None, ex_connected := True\<rparr>"

definition worker_failed :: "string \<Rightarrow> exporter \<Rightarrow> exporter" where
  "worker_failed err x =
     x\<lparr>ex_last_error := Some err, ex_connected := False, ex_retry_delay := min (ex_retry_delay x * 2) 60\<rparr>"

text \<open>The \<open>finally\<close> block of the worker, left by a cancellation or an unexpected exception.\<close>

definition put_back :: "exporter \<Rightarrow> exporter" where
  "put_back x =
     (case ex_inflight x of
        None \<Rightarrow> x
      | Some i \<Rightarrow>
          (let x1 = put_or_drop i x
           in x1\<lparr>ex_inflight := None,
                 ex_last_error := (if length (ex_queue x) < QUEUE_MAX then ex_last_error x
                    else Some ''Syslog queue filled while preserving an in-flight record.'')\<rparr>))"

definition worker_crashed :: "py_exc \<Rightarrow> exporter \<Rightarrow> exporter" where
  "worker_crashed e x = (put_back x)\<lparr>ex_task := Dead e\<rparr>"

text \<open>
  \<open>async_stop\<close>; a drain is the worker's steps before it. Only a cancellation is suppressed around
  \<open>await task\<close>: what a dead worker died of is raised there, before the connection is closed. (A dead
  worker has put its item back already, so there is nothing left to put back.)
\<close>

definition stop_exporter :: "exporter \<Rightarrow> exporter" where
  "stop_exporter x =
     (put_back x)\<lparr>ex_task := No_task,
       ex_connected := (case ex_task x of Dead e \<Rightarrow> ex_connected x | _ \<Rightarrow> False)\<rparr>"

definition stop_error :: "exporter \<Rightarrow> py_exc option" where
  "stop_error x = (case ex_task x of Dead e \<Rightarrow> Some e | _ \<Rightarrow> None)"

text \<open>The exporter after \<open>async_reconfigure\<close>, and the exception that leaves it.\<close>

definition reconfigure :: "dict \<Rightarrow> exporter \<Rightarrow> exporter \<times> py_exc option" where
  "reconfigure st x =
     (let x1 = stop_exporter x
      in if stop_error x \<noteq> None \<or> \<not> ex_entry x1 then (x1, stop_error x)
         else case start_exporter st x1 of Inl e \<Rightarrow> (x1, Some e) | Inr y \<Rightarrow> (y, None))"

text \<open>
  What \<open>_async_send\<close> is about to hand to the network: the destination it would connect to, and the
  bytes. Reading the port and the facility may raise, which the worker does not expect.
\<close>

record outgoing =
  og_udp :: bool
  og_host :: string
  og_port :: int
  og_tls_verify :: "bool option"
  og_server_hostname :: "string option"
  og_bytes :: string

definition send_plan :: "lib \<Rightarrow> string \<Rightarrow> string \<Rightarrow> dict \<Rightarrow> queued \<Rightarrow> outgoing res" where
  "send_plan L version now st i =
     bind_res (host_of st) (\<lambda>host.
     bind_res (py_int (dget_default st ''syslog_port'' (JInt 514))) (\<lambda>port.
     bind_res (py_int (dget_default st ''syslog_facility'' (JInt 16))) (\<lambda>facility.
       let message = format_syslog_message L version now (qm_record i) facility (qm_format i);
           udp = (transport st = JStr ''udp''); tls = (transport st = JStr ''tls'');
           verify = truthy (dget_default st ''syslog_tls_verify'' (JBool True))
       in Inr \<lparr>og_udp = udp, og_host = host, og_port = port, og_tls_verify = (if tls then Some verify else None),
               og_server_hostname = (if tls \<and> verify then Some host else None),
               og_bytes = (if udp then message else frame_rfc6587 message)\<rparr>)))"

section \<open>A lossy bounded queue\<close>

text \<open>
  The specification: offers are appended while there is room and lost otherwise, the oldest is
  served, and a restart (\<open>rot\<close>) may move the oldest to the end or lose it. A state is what is
  pending, served, lost and offered.
\<close>

type_synonym 'i fifo = "'i list \<times> 'i list \<times> 'i list \<times> 'i list"

inductive fifo_move :: "bool \<Rightarrow> nat \<Rightarrow> 'i fifo \<Rightarrow> 'i fifo \<Rightarrow> bool" for rot :: bool and room :: nat where
  offer: "length ps \<le> room \<Longrightarrow> fifo_move rot room (ps, ss, ls, os) (ps @ [i], ss, ls, os @ [i])"
| refuse: "room \<le> length ps \<Longrightarrow> fifo_move rot room (ps, ss, ls, os) (ps, ss, ls @ [i], os @ [i])"
| serve: "fifo_move rot room (i # ps, ss, ls, os) (ps, ss @ [i], ls, os)"
| rotate: "rot \<Longrightarrow> length ps \<le> room \<Longrightarrow> fifo_move rot room (i # ps, ss, ls, os) (ps @ [i], ss, ls, os)"
| forfeit: "rot \<Longrightarrow> room \<le> length ps \<Longrightarrow> fifo_move rot room (i # ps, ss, ls, os) (ps, ss, ls @ [i], os)"

inductive_cases fifo_moveE: "fifo_move rot room a b"

definition fifo_inv :: "bool \<Rightarrow> nat \<Rightarrow> 'i fifo \<Rightarrow> bool" where
  "fifo_inv rot room = (\<lambda>(ps, ss, ls, os).
     length ps \<le> Suc room \<and> mset os = mset ss + mset ps + mset ls \<and> (\<not> rot \<longrightarrow> subseq (ss @ ps) os))"

lemma fifo_move_inv: "fifo_move rot room a b \<Longrightarrow> fifo_inv rot room a \<Longrightarrow> fifo_inv rot room b"
proof (induction rule: fifo_move.induct)
  case (offer ps ss ls os i)
  then show ?case
    using list_emb_append_mono [of "(=)" "ss @ ps" os "[i]" "[i]"] by (auto simp: fifo_inv_def)
next
  case (refuse ps ss ls os i)
  then show ?case using subseq_drop_many [of "ss @ ps" os "[i]"] 
    by (auto simp: fifo_inv_def intro: subseq_order.trans)
qed (auto simp: fifo_inv_def)

lemma fifo_moves_inv: "(fifo_move rot room)\<^sup>*\<^sup>* a b \<Longrightarrow> fifo_inv rot room a \<Longrightarrow> fifo_inv rot room b"
  by (induction rule: rtranclp_induct) (auto intro: fifo_move_inv)

locale lossy_queue =
  fixes step :: "'s \<Rightarrow> 's \<Rightarrow> bool" and view :: "'s \<Rightarrow> 'i fifo" and rot :: bool and room :: nat
  assumes step_moves: "step s t \<Longrightarrow> (fifo_move rot room)\<^sup>*\<^sup>* (view s) (view t)"
begin

lemma run_moves: "step\<^sup>*\<^sup>* s t \<Longrightarrow> (fifo_move rot room)\<^sup>*\<^sup>* (view s) (view t)"
  by (induction rule: rtranclp_induct) (auto dest: step_moves)

lemma run_inv:
  assumes "step\<^sup>*\<^sup>* s t" "view s = ([], [], [], [])" "view t = (ps, ss, ls, os)"
  shows "length ps \<le> Suc room" "mset os = mset ss + mset ps + mset ls" "\<not> rot \<Longrightarrow> subseq (ss @ ps) os"
proof -
  have "fifo_inv rot room (view s)" by (simp add: assms(2) fifo_inv_def)
  from fifo_moves_inv [OF run_moves [OF assms(1)] this]
  show "length ps \<le> Suc room" "mset os = mset ss + mset ps + mset ls" "\<not> rot \<Longrightarrow> subseq (ss @ ps) os"
    by (auto simp: assms(3) fifo_inv_def)
qed

end

section \<open>The exporter is one\<close>

text \<open>Beside the exporter: the items offered while it was ready, delivered, and dropped.\<close>

record ex_sys =
  es_x :: exporter
  es_offered :: "queued list"
  es_delivered :: "queued list"
  es_lost :: "queued list"

definition fresh_ex :: ex_sys where
  "fresh_ex = \<lparr>es_x = new_exporter, es_offered = [], es_delivered = [], es_lost = []\<rparr>"

definition pending :: "exporter \<Rightarrow> queued list" where
  "pending x = (case ex_inflight x of None \<Rightarrow> [] | Some i \<Rightarrow> [i]) @ ex_queue x"

definition ex_view :: "ex_sys \<Rightarrow> queued fifo" where
  "ex_view s = (pending (es_x s), es_delivered s, es_lost s, es_offered s)"

text \<open>Offering one item, with its history.\<close>

definition offer_one :: "queued \<Rightarrow> ex_sys \<Rightarrow> ex_sys" where
  "offer_one i s =
     s\<lparr>es_x := put_or_drop i (es_x s), es_offered := es_offered s @ [i],
       es_lost := es_lost s @ (if length (ex_queue (es_x s)) < QUEUE_MAX then [] else [i])\<rparr>"

definition offer_all :: "dict \<Rightarrow> dict list \<Rightarrow> ex_sys \<Rightarrow> ex_sys" where
  "offer_all st rs s = (if ready st = Inr True then fold offer_one (to_items st rs) s else s)"

text \<open>Leaving the worker with an item in flight.\<close>

definition leave :: "(exporter \<Rightarrow> exporter) \<Rightarrow> ex_sys \<Rightarrow> ex_sys" where
  "leave f s =
     s\<lparr>es_x := f (es_x s),
       es_lost := es_lost s @ (case ex_inflight (es_x s) of
          Some i \<Rightarrow> if length (ex_queue (es_x s)) < QUEUE_MAX then [] else [i] | None \<Rightarrow> [])\<rparr>"

inductive work_step :: "ex_sys \<Rightarrow> ex_sys \<Rightarrow> bool" where
  enqueue: "enqueue st rs (es_x s) = Inr x \<Longrightarrow> work_step s (offer_all st rs s)"
| start: "start_exporter st (es_x s) = Inr x \<Longrightarrow> work_step s (s\<lparr>es_x := x\<rparr>)"
| get: "work_step s (s\<lparr>es_x := worker_get (es_x s)\<rparr>)"
| sent: "ex_task (es_x s) = Running \<Longrightarrow> ex_inflight (es_x s) = Some i \<Longrightarrow>
    work_step s (s\<lparr>es_x := worker_sent at (es_x s), es_delivered := es_delivered s @ [i]\<rparr>)"
| failed: "ex_task (es_x s) = Running \<Longrightarrow> ex_inflight (es_x s) = Some i \<Longrightarrow>
    work_step s (s\<lparr>es_x := worker_failed err (es_x s)\<rparr>)"

inductive ex_step :: "ex_sys \<Rightarrow> ex_sys \<Rightarrow> bool" where
  work: "work_step s t \<Longrightarrow> ex_step s t"
| crashed: "ex_task (es_x s) = Running \<Longrightarrow> ex_inflight (es_x s) = Some i \<Longrightarrow> ex_step s (leave (worker_crashed e) s)"
| stop: "ex_step s (leave stop_exporter s)"

lemma es_x_offer: "es_x (fold offer_one is s) = fold put_or_drop is (es_x s)"
  by (induction "is" arbitrary: s) (simp_all add: offer_one_def)

text \<open>The history variables do not change what the exporter does.\<close>

lemma offer_all_enqueue: "enqueue st rs (es_x s) = Inr x \<Longrightarrow> es_x (offer_all st rs s) = x"
  by (auto simp: enqueue_def offer_all_def bind_res_Inr es_x_offer split: if_splits)

lemma reconfigure_steps: "\<exists>t. ex_step\<^sup>*\<^sup>* s t \<and> es_x t = fst (reconfigure st (es_x s))"
proof -
  let ?t = "leave stop_exporter s"
  have s: "ex_step s ?t" by (rule ex_step.stop)
  have x: "es_x ?t = stop_exporter (es_x s)" by (simp add: leave_def)
  show ?thesis
  proof (cases "\<exists>y. start_exporter st (es_x ?t) = Inr y \<and> fst (reconfigure st (es_x s)) = y")
    case True
    then obtain y where y: "start_exporter st (es_x ?t) = Inr y" "fst (reconfigure st (es_x s)) = y" by blast
    have "ex_step ?t (?t\<lparr>es_x := y\<rparr>)" using y(1) by (intro ex_step.work work_step.start)
    with s have "ex_step\<^sup>*\<^sup>* s (?t\<lparr>es_x := y\<rparr>)" by (simp add: converse_rtranclp_into_rtranclp)
    then show ?thesis using y(2) by (intro exI [of _ "?t\<lparr>es_x := y\<rparr>"]) simp
  next
    case False
    then have "fst (reconfigure st (es_x s)) = es_x ?t" using x by (auto simp: reconfigure_def Let_def split: sum.splits)
    then show ?thesis using s by (intro exI [of _ ?t]) auto
  qed
qed

lemma offer_one_move: "fifo_move rot QUEUE_MAX (ex_view s) (ex_view (offer_one i s))"
proof (cases "length (ex_queue (es_x s)) < QUEUE_MAX")
  case True
  have "ex_view (offer_one i s) = (pending (es_x s) @ [i], es_delivered s, es_lost s, es_offered s @ [i])"
    using True by (simp add: ex_view_def offer_one_def pending_def put_or_drop_def split: option.split)
  moreover have "length (pending (es_x s)) \<le> QUEUE_MAX" using True by (simp add: pending_def split: option.split)
  ultimately show ?thesis by (simp add: ex_view_def fifo_move.offer)
next
  case False
  have "ex_view (offer_one i s) = (pending (es_x s), es_delivered s, es_lost s @ [i], es_offered s @ [i])"
    using False by (simp add: ex_view_def offer_one_def pending_def put_or_drop_def split: option.split)
  moreover have "QUEUE_MAX \<le> length (pending (es_x s))" using False by (simp add: pending_def split: option.split)
  ultimately show ?thesis by (simp add: ex_view_def fifo_move.refuse)
qed

lemma offer_all_moves: "(fifo_move rot QUEUE_MAX)\<^sup>*\<^sup>* (ex_view s) (ex_view (fold offer_one is s))"
proof (induction "is" arbitrary: s)
  case (Cons i "is")
  show ?case using offer_one_move [of rot s i] Cons [of "offer_one i s"] by (simp add: converse_rtranclp_into_rtranclp)
qed simp

lemma pending_start: "start_exporter st x = Inr y \<Longrightarrow> pending y = pending x"
  by (auto simp: start_exporter_def Let_def bind_res_Inr pending_def split: if_splits)

lemma pending_get: "pending (worker_get x) = pending x"
  by (cases "ex_task x"; cases "ex_inflight x"; cases "ex_queue x") (simp_all add: worker_get_def pending_def)

lemma work_moves: "work_step s t \<Longrightarrow> (fifo_move rot QUEUE_MAX)\<^sup>*\<^sup>* (ex_view s) (ex_view t)"
proof (induction rule: work_step.induct)
  case (enqueue st rs s x)
  show ?case by (simp add: offer_all_def offer_all_moves)
next
  case (start st s x)
  then show ?case by (simp add: ex_view_def pending_start)
next
  case (get s)
  show ?case by (simp add: ex_view_def pending_get)
next
  case (sent s i at)
  then show ?case
    by (auto simp: ex_view_def pending_def worker_sent_def intro!: r_into_rtranclp fifo_move.serve)
next
  case (failed s i err)
  then show ?case by (simp add: ex_view_def pending_def worker_failed_def)
qed

lemma put_back_move:
  assumes "pending (f (es_x s)) = pending (put_back (es_x s))"
  shows "(fifo_move True QUEUE_MAX)\<^sup>*\<^sup>* (ex_view s) (ex_view (leave f s))"
proof (cases "ex_inflight (es_x s)")
  case None
  then show ?thesis by (simp add: ex_view_def leave_def assms put_back_def)
next
  case (Some i)
  let ?q = "ex_queue (es_x s)"
  have v: "ex_view s = (i # ?q, es_delivered s, es_lost s, es_offered s)" using Some by (simp add: ex_view_def pending_def)
  have p: "pending (put_back (es_x s)) = ?q @ (if length ?q < QUEUE_MAX then [i] else [])"
    using Some by (simp add: put_back_def put_or_drop_def pending_def Let_def)
  have w: "ex_view (leave f s) = (?q @ (if length ?q < QUEUE_MAX then [i] else []), es_delivered s,
      es_lost s @ (if length ?q < QUEUE_MAX then [] else [i]), es_offered s)"
    using Some by (simp add: ex_view_def leave_def assms p)
  show ?thesis unfolding v w by (auto intro!: r_into_rtranclp fifo_move.rotate fifo_move.forfeit)
qed

lemma ex_moves: "ex_step s t \<Longrightarrow> (fifo_move True QUEUE_MAX)\<^sup>*\<^sup>* (ex_view s) (ex_view t)"
proof (induction rule: ex_step.induct)
  case (work s t)
  then show ?case by (rule work_moves)
next
  case (crashed s i e)
  show ?case by (rule put_back_move) (simp add: worker_crashed_def pending_def)
next
  case (stop s)
  show ?case by (rule put_back_move) (simp add: stop_exporter_def pending_def)
qed

interpretation working: lossy_queue work_step ex_view False QUEUE_MAX
  by unfold_locales (rule work_moves)

interpretation restarting: lossy_queue ex_step ex_view True QUEUE_MAX
  by unfold_locales (rule ex_moves)

section \<open>Counters\<close>

definition counted :: "ex_sys \<Rightarrow> bool" where
  "counted s \<longleftrightarrow> ex_sent (es_x s) = length (es_delivered s) \<and> ex_dropped (es_x s) = length (es_lost s)
     \<and> (ex_task (es_x s) \<noteq> Running \<longrightarrow> ex_inflight (es_x s) = None) \<and> length (ex_queue (es_x s)) \<le> QUEUE_MAX
     \<and> 1 \<le> ex_retry_delay (es_x s) \<and> ex_retry_delay (es_x s) \<le> 60"

lemma offer_counted: "counted s \<Longrightarrow> counted (fold offer_one is s)"
  by (induction "is" arbitrary: s) (simp_all add: counted_def offer_one_def put_or_drop_def)

lemma work_counted: "work_step s t \<Longrightarrow> counted s \<Longrightarrow> counted t"
proof (induction rule: work_step.induct)
  case (enqueue st rs s x)
  then show ?case by (simp add: offer_all_def offer_counted)
next
  case (start st s x)
  then show ?case
    by (auto simp: counted_def start_exporter_def Let_def bind_res_Inr split: if_splits)
next
  case (get s)
  then show ?case
    by (cases "ex_task (es_x s)"; cases "ex_inflight (es_x s)"; cases "ex_queue (es_x s)")
      (simp_all add: counted_def worker_get_def)
qed (auto simp: counted_def worker_sent_def worker_failed_def)

lemma ex_counted: "ex_step s t \<Longrightarrow> counted s \<Longrightarrow> counted t"
proof (induction rule: ex_step.induct)
  case (work s t)
  then show ?case by (rule work_counted)
qed (auto simp: counted_def leave_def worker_crashed_def stop_exporter_def put_back_def put_or_drop_def Let_def
      split: option.splits)

lemma run_counted: "ex_step\<^sup>*\<^sup>* s t \<Longrightarrow> counted s \<Longrightarrow> counted t"
  by (induction rule: rtranclp_induct) (auto intro: ex_counted)

lemma fresh_counted: "counted fresh_ex" "ex_view fresh_ex = ([], [], [], [])"
  by (simp_all add: counted_def fresh_ex_def new_exporter_def ex_view_def pending_def)

text \<open>A worker that ended stays ended until the exporter is stopped: it is not started again.\<close>

lemma dead_stays: "work_step s t \<Longrightarrow> ex_task (es_x s) = Dead e \<Longrightarrow> ex_task (es_x t) = Dead e \<and> es_delivered t = es_delivered s"
proof (induction rule: work_step.induct)
  case (enqueue st rs s x)
  have "ex_task (fold put_or_drop is y) = ex_task y" for "is" y
    by (induction "is" arbitrary: y) (simp_all add: put_or_drop_def)
  moreover have "es_delivered (fold offer_one is u) = es_delivered u" for "is" u
    by (induction "is" arbitrary: u) (simp_all add: offer_one_def)
  ultimately show ?case using enqueue by (simp add: offer_all_def es_x_offer)
next
  case (start st s x)
  then show ?case by (auto simp: start_exporter_def Let_def bind_res_Inr split: if_splits)
qed (auto simp: worker_get_def)

lemma dead_run: "work_step\<^sup>*\<^sup>* s t \<Longrightarrow> ex_task (es_x s) = Dead e \<Longrightarrow> ex_task (es_x t) = Dead e \<and> es_delivered t = es_delivered s"
  by (induction rule: rtranclp_induct) (auto dest: dead_stays)

end
