(* ===== verification/SyslogTheorems.thy ===== *)
theory SyslogTheorems
  imports SyslogExport
begin

text \<open>
  What the export guarantees: a message carries the chain evidence of its record back to a reader,
  no value can add a field to a CEF message, a stream of frames splits into its messages, nothing
  is lost uncounted and the queue is bounded, and the order of delivery is the order of the chain
  as long as the worker is not restarted.
\<close>

declare dumps_with.simps [simp del]

declare wf_json.simps(3) [simp del]

section \<open>JSON messages\<close>

lemma utf8_ascii: "(\<forall>c \<in> set s. ascii c) \<Longrightarrow> utf8 s = s"
  by (induction s) (auto simp: utf8_def utf8_char_def ascii_def Let_def)

lemma utf8_append: "utf8 (s @ t) = utf8 s @ utf8 t"
  by (simp add: utf8_def)

lemma utf8_compact: "wf_json v \<Longrightarrow> utf8 (dumps_compact v) = dumps_compact v"
  by (rule utf8_ascii) (use printable_compact in auto)

lemma wf_dget: "wf_json (JObj r) \<Longrightarrow> wf_json (dget_null r k)"
  by (auto simp: wf_dict_iff dget_default_def split: option.split dest: map_of_SomeD)

lemma dget_map_keys: "k \<in> set ks \<Longrightarrow> dget (map (\<lambda>k. (k, f k)) ks @ xs) k = Some (f k)"
  by (induction ks) auto

lemma wf_compact:
  assumes "wf_json (JObj r)"
  shows "wf_json (JObj (compact_record r n))"
proof -
  have "distinct_keys (compact_record r n)" by (simp add: compact_record_def COMPACT_KEYS_def)
  moreover have "\<forall>p \<in> set (compact_record r n). wf_json (snd p)"
    using wf_dget [OF assms] by (auto simp: compact_record_def wf_dict_iff)
  ultimately show ?thesis by (simp add: wf_dict_iff)
qed

text \<open>What a reader of the payload finds under a key.\<close>

definition read_payload :: "string \<Rightarrow> string \<Rightarrow> json option" where
  "read_payload t k = Option.bind (loads t) (\<lambda>v. case v of JObj d \<Rightarrow> Some (dget_null d k) | _ \<Rightarrow> None)"

lemma read_compact:
  assumes "wf_json (JObj d)"
  shows "read_payload (dumps_compact (JObj d)) k = Some (canon True (dget_null d k))"
proof -
  have "loads (dumps_compact (JObj d)) = Some (canon True (JObj d))" by (rule loads_compact [OF assms])
  moreover have "distinct_keys d" using assms by (simp add: wf_dict_iff)
  ultimately show ?thesis
    by (cases "dget d k") (simp_all add: read_payload_def dget_default_def dget_canon)
qed

lemma read_either:
  assumes "wf_json (JObj r)" "k \<in> set COMPACT_KEYS"
  shows "read_payload (dumps_compact (JObj r)) k = Some (canon True (dget_null r k))"
    "read_payload (dumps_compact (JObj (compact_record r n))) k = Some (canon True (dget_null r k))"
proof -
  show "read_payload (dumps_compact (JObj r)) k = Some (canon True (dget_null r k))" by (rule read_compact [OF assms(1)])
  have "dget (compact_record r n) k = Some (dget_null r k)"
    unfolding compact_record_def by (rule dget_map_keys [OF assms(2)])
  then show "read_payload (dumps_compact (JObj (compact_record r n))) k = Some (canon True (dget_null r k))"
    using read_compact [OF wf_compact [OF assms(1)]] by (simp add: dget_default_def)
qed


definition w_export :: dict where
  "w_export = [(''ts'', JStr ''2026-03-01T10:00:00+00:00''), (''category'', JStr ''login_fail''), (''seq'', JInt 7),
     (''hash'', JStr ''ab''), (''prev_hash'', JStr ''aa''), (''detail'', JObj [(''n'', JStr ''x=1|y'')])]"

lemma w_export_wf: "wf_json (JObj w_export)"
  by (simp add: wf_dict_iff w_export_def)


section \<open>Frames\<close>

text \<open>A receiver: the digits up to the blank are the length of the message that follows.\<close>

function unframe :: "string \<Rightarrow> string list option" where
  "unframe s =
     (if s = [] then Some []
      else
        (let n = digits_val (takeWhile is_digit s); r = dropWhile is_digit s
         in if takeWhile is_digit s = [] \<or> r = [] \<or> hd r \<noteq> CHR '' '' \<or> length (tl r) < n then None
            else map_option ((#) (take n (tl r))) (unframe (drop n (tl r)))))"
  by auto

termination
proof (relation "measure length", simp, goal_cases)
  case (1 s n r)
  then show ?case using length_dropWhile_le [of is_digit s] by (cases "dropWhile is_digit s") auto
qed

declare unframe.simps [simp del]

lemma unframe_Cons: "unframe (frame_rfc6587 m @ s) = map_option ((#) m) (unframe s)"
proof -
  have d: "takeWhile is_digit (nat_text n @ CHR '' '' # t) = nat_text n"
    "dropWhile is_digit (nat_text n @ CHR '' '' # t) = CHR '' '' # t" for n t
    using nat_text_digits [of _ n] by (simp_all add: takeWhile_append2 dropWhile_append2 is_digit_iff)
  have f: "frame_rfc6587 m @ s = nat_text (length m) @ CHR '' '' # m @ s" by (simp add: frame_rfc6587_def)
  show ?thesis unfolding f
    by (subst unframe.simps) (simp only: d Let_def list.sel digits_val_nat_text, simp)
qed

text \<open>
  Octet counting: a TCP or TLS stream of framed messages splits, without loss or
  misreading, into exactly the messages sent, whatever bytes they hold.
\<close>

theorem frames_split:
  "unframe (concat (map frame_rfc6587 ms)) = Some ms"
proof (induction ms)
  case Nil
  show ?case by (simp add: unframe.simps)
qed (simp add: unframe_Cons)

section \<open>CEF\<close>

text \<open>
  A reader of escaped text: \<open>scan c s\<close> is the text before the first \<open>c\<close> without a backslash before
  it, still escaped, and what follows.
\<close>

fun scan :: "char \<Rightarrow> string \<Rightarrow> (string \<times> string) option" where
  "scan c [] = None"
| "scan c [x] = (if x = c then Some ([], []) else None)"
| "scan c (x # y # s) =
     (if x = CHR 92 then map_option (\<lambda>(a, r). (x # y # a, r)) (scan c s)
      else if x = c then Some ([], y # s)
      else map_option (\<lambda>(a, r). (x # a, r)) (scan c (y # s)))"

inductive escaped :: "char \<Rightarrow> string \<Rightarrow> bool" for c :: char where
  nil: "escaped c []"
| plain: "x \<noteq> c \<Longrightarrow> x \<noteq> CHR 92 \<Longrightarrow> escaped c s \<Longrightarrow> escaped c (x # s)"
| pair: "escaped c s \<Longrightarrow> escaped c (CHR 92 # y # s)"

lemma escaped_append: "escaped c s \<Longrightarrow> escaped c t \<Longrightarrow> escaped c (s @ t)"
  by (induction rule: escaped.induct) (auto intro: escaped.intros)

lemma escaped_plain: "(\<forall>x \<in> set s. x \<noteq> c \<and> x \<noteq> CHR 92) \<Longrightarrow> escaped c s"
  by (induction s) (auto intro: escaped.intros)

lemma scan_plain: "x \<noteq> CHR 92 \<Longrightarrow> x \<noteq> c \<Longrightarrow> scan c (x # s) = map_option (\<lambda>(a, r). (x # a, r)) (scan c s)"
  by (cases s) auto

lemma scan_stop: "c \<noteq> CHR 92 \<Longrightarrow> scan c (c # s) = Some ([], s)"
  by (cases s) auto

lemma scan_escaped: "escaped c e \<Longrightarrow> c \<noteq> CHR 92 \<Longrightarrow> scan c (e @ c # t) = Some (e, t)"
  by (induction rule: escaped.induct) (simp_all add: scan_plain scan_stop)

lemma scan_none: "escaped c e \<Longrightarrow> scan c e = None"
  by (induction rule: escaped.induct) (simp_all add: scan_plain)

definition delimiter :: "bool \<Rightarrow> char" where
  "delimiter header = (if header then CHR ''|'' else CHR ''='')"

lemma escaped_cef_char: "escaped (delimiter header) (cef_char header x)"
  by (auto simp: cef_char_def delimiter_def intro!: escaped.intros)

lemma escaped_cef_loop: "escaped (delimiter header) (cef_loop header m n s)"
proof (induction s arbitrary: n)
  case (Cons c s)
  from escaped_append [OF escaped_cef_char Cons.IH] show ?case by (simp add: Let_def escaped.nil)
qed (simp add: escaped.nil)

lemma escaped_values:
  "escaped (CHR ''|'') (cef_header_value n v)" "escaped (CHR ''='') (cef_extension_value n v)"
  using escaped_cef_loop [of True] escaped_cef_loop [of False]
  by (auto simp: cef_header_value_def cef_extension_value_def cef_escape_def delimiter_def Let_def intro!: escaped_plain)

lemma cef_loop_length: "n \<le> m \<Longrightarrow> n + length (cef_loop header m n s) \<le> m"
proof (induction s arbitrary: n)
  case (Cons c s)
  let ?e = "cef_char header c"
  show ?case
  proof (cases "m < n + length ?e")
    case True
    with Cons.prems show ?thesis by (simp add: Let_def)
  next
    case False
    then have "n + length ?e + length (cef_loop header m (n + length ?e) s) \<le> m" by (intro Cons.IH) simp
    with False show ?thesis by (simp add: Let_def)
  qed
qed simp

text \<open>The header of a CEF message: the fields before the seventh unescaped bar, and the extension.\<close>

fun cef_header :: "nat \<Rightarrow> string \<Rightarrow> (string list \<times> string) option" where
  "cef_header 0 s = Some ([], s)"
| "cef_header (Suc n) s =
     Option.bind (scan (CHR ''|'') s) (\<lambda>(a, r). map_option (\<lambda>(as, t). (a # as, t)) (cef_header n r))"

lemma cef_header_step: "escaped (CHR ''|'') a \<Longrightarrow> cef_header (Suc n) (a @ CHR ''|'' # t)
    = map_option (\<lambda>(as, t). (a # as, t)) (cef_header n t)"
  by (simp add: scan_escaped)

text \<open>The keys of an extension: the word before each unescaped equals sign.\<close>

definition last_word :: "string \<Rightarrow> string" where
  "last_word s = rev (takeWhile (\<lambda>c. c \<noteq> CHR '' '') (rev s))"

lemma scan_length: "scan c s = Some (a, r) \<Longrightarrow> length r < length s"
proof (induction c s arbitrary: a r rule: scan.induct)
  case (3 c x y s)
  consider "x = CHR 92" | "x \<noteq> CHR 92" "x = c" | "x \<noteq> CHR 92" "x \<noteq> c" by blast
  then show ?case
  proof cases
    case 1
    with "3.prems" obtain b where "scan c s = Some (b, r)" by auto
    from "3.IH"(1) [OF 1 this] show ?thesis by simp
  next
    case 2
    with "3.prems" show ?thesis by simp
  next
    case 3
    with "3.prems" obtain b where "scan c (y # s) = Some (b, r)" by auto
    from "3.IH"(2) [OF 3 this] show ?thesis by simp
  qed
qed (auto split: if_splits)

function cef_keys :: "string \<Rightarrow> string list" where
  "cef_keys s = (case scan (CHR ''='') s of None \<Rightarrow> [] | Some (a, r) \<Rightarrow> last_word a # cef_keys r)"
  by auto

termination by (relation "measure length") (auto dest: scan_length)

declare cef_keys.simps [simp del]

lemma last_word_key:
  "CHR '' '' \<notin> set k \<Longrightarrow> last_word (s @ '' '' @ k) = k" "CHR '' '' \<notin> set k \<Longrightarrow> last_word k = k"
proof -
  assume "CHR '' '' \<notin> set k"
  then have "\<And>x. x \<in> set (rev k) \<Longrightarrow> x \<noteq> CHR '' ''" by auto
  then have t: "takeWhile (\<lambda>c. c \<noteq> CHR '' '') (rev k @ t) = rev k @ takeWhile (\<lambda>c. c \<noteq> CHR '' '') t" for t
    by (intro takeWhile_append2)
  show "last_word (s @ '' '' @ k) = k" using t [of "CHR '' '' # rev s"] by (simp add: last_word_def)
  show "last_word k = k" using t [of "[]"] by (simp only: last_word_def append_Nil2 takeWhile.simps(1) rev_rev_ident)
qed

definition key_ok :: "string \<Rightarrow> bool" where
  "key_ok k \<longleftrightarrow> list_all (\<lambda>c. c \<noteq> CHR '' '' \<and> c \<noteq> CHR ''='' \<and> c \<noteq> CHR 92) k"

lemma key_okD:
  assumes "key_ok k"
  shows "CHR '' '' \<notin> set k" "escaped (CHR ''='') k"
proof -
  have "\<forall>c \<in> set k. c \<noteq> CHR '' '' \<and> c \<noteq> CHR ''='' \<and> c \<noteq> CHR 92"
    using assms unfolding key_ok_def list_all_iff .
  then show "CHR '' '' \<notin> set k" "escaped (CHR ''='') k" by (blast intro: escaped_plain)+
qed

definition cef_pair :: "cef_field \<Rightarrow> string" where
  "cef_pair = (\<lambda>(k, v, n). k @ ''='' @ cef_extension_value n v)"

lemma cef_keys_from:
  assumes "list_all (\<lambda>f. key_ok (fst f)) fs" "escaped (CHR ''='') e"
  shows "cef_keys (e @ concat (map (\<lambda>f. '' '' @ cef_pair f) fs)) = map fst fs"
  using assms
proof (induction fs arbitrary: e)
  case Nil
  then show ?case by (simp add: cef_keys.simps scan_none)
next
  case (Cons f fs)
  obtain k v n where f: "f = (k, v, n)" by (cases f) auto
  have "key_ok k" using Cons.prems(1) f by simp
  note k = key_okD [OF this]
  let ?rest = "cef_extension_value n v @ concat (map (\<lambda>f. '' '' @ cef_pair f) fs)"
  have "escaped (CHR ''='') (e @ '' '' @ k)"
    by (intro escaped_append Cons.prems(2) k(2)) (auto intro: escaped_plain)
  then have "scan (CHR ''='') ((e @ '' '' @ k) @ CHR ''='' # ?rest) = Some (e @ '' '' @ k, ?rest)"
    by (intro scan_escaped) simp_all
  moreover have "cef_keys ?rest = map fst fs" using Cons.IH Cons.prems(1) escaped_values(2) by simp
  ultimately have "cef_keys ((e @ '' '' @ k) @ CHR ''='' # ?rest) = k # map fst fs"
    by (subst cef_keys.simps) (simp only: option.case prod.case last_word_key(1) [OF k(1)])
  moreover have "e @ concat (map (\<lambda>f. '' '' @ cef_pair f) (f # fs)) = (e @ '' '' @ k) @ CHR ''='' # ?rest"
    by (simp add: f cef_pair_def)
  ultimately show ?case by (simp add: f)
qed

lemma join_concat: "xs \<noteq> [] \<Longrightarrow> join '' '' xs = hd xs @ concat (map (\<lambda>x. '' '' @ x) (tl xs))"
  by (induction "'' ''" xs rule: join.induct) auto

lemma cef_keys_join:
  assumes "list_all (\<lambda>f. key_ok (fst f)) (f # fs)"
  shows "cef_keys (join '' '' (map cef_pair (f # fs))) = map fst (f # fs)"
proof -
  obtain k v n where f: "f = (k, v, n)" by (cases f) auto
  have "key_ok k" using assms f by simp
  note k = key_okD [OF this]
  let ?rest = "cef_extension_value n v @ concat (map (\<lambda>f. '' '' @ cef_pair f) fs)"
  have j: "join '' '' (map cef_pair (f # fs)) = k @ CHR ''='' # ?rest"
    using join_concat [of "map cef_pair (f # fs)"] by (simp add: f cef_pair_def comp_def)
  have "scan (CHR ''='') (k @ CHR ''='' # ?rest) = Some (k, ?rest)" using k(2) by (intro scan_escaped) simp_all
  moreover have "cef_keys ?rest = map fst fs" using assms by (intro cef_keys_from escaped_values) simp
  ultimately show ?thesis
    unfolding j by (subst cef_keys.simps) (simp only: option.case prod.case last_word_key(2) [OF k(1)] f list.map fst_conv)
qed

lemma cef_fields_keys: "list_all (\<lambda>f. key_ok (fst f)) (cef_fields L r t)"
  by (auto simp: cef_fields_def time_fields_def action_fields_def outcome_fields_def source_fields_def user_fields_def
      chain_fields_def labelled_def present_def key_ok_def Let_def split: option.splits)

lemma cef_fields_nonempty: "cef_fields L r t \<noteq> []"
  by (simp add: cef_fields_def Let_def)

text \<open>
  C21. No injection into CEF: whatever text the record's values hold, a CEF message has the seven
  header fields the code put there, and the keys a reader finds in the extension are exactly those
  of the fields the code put there, in their order.
\<close>

theorem cef_is_not_forgeable:
  "cef_header 7 (format_cef_payload L version r t) =
     Some ([''CEF:0'', ''Home Assistant'', ''HA SOC'', cef_header_value 31 (JStr version),
            cef_header_value 1023 (JStr (cef_event_class_id r)), cef_header_value 512 (JStr (cef_event_name r)),
            int_text (cef_severity r)], cef_extension L r t)
   \<and> cef_keys (cef_extension L r t) = map fst (cef_fields L r t)"
proof
  have c: "escaped (CHR ''|'') ''CEF:0''" "escaped (CHR ''|'') ''Home Assistant''" "escaped (CHR ''|'') ''HA SOC''"
    by (auto intro: escaped_plain)
  have "\<not> is_digit (CHR ''|'')" "\<not> is_digit (CHR 92)" by (simp_all add: is_digit_iff)
  then have "\<forall>x \<in> set (nat_text n). x \<noteq> CHR ''|'' \<and> x \<noteq> CHR 92" for n
    using nat_text_digits [of _ n] by metis
  moreover have "0 \<le> cef_severity r" by (simp add: cef_severity_def Let_def)
  ultimately have s: "escaped (CHR ''|'') (int_text (cef_severity r))"
    by (auto simp: int_text_def intro!: escaped_plain)
  have p: "format_cef_payload L version r t = ''CEF:0'' @ CHR ''|'' # ''Home Assistant'' @ CHR ''|'' # ''HA SOC'' @ CHR ''|'' #
      cef_header_value 31 (JStr version) @ CHR ''|'' # cef_header_value 1023 (JStr (cef_event_class_id r)) @ CHR ''|'' #
      cef_header_value 512 (JStr (cef_event_name r)) @ CHR ''|'' # int_text (cef_severity r) @ CHR ''|'' # cef_extension L r t"
    by (simp add: format_cef_payload_def)
  have seven: "(7 :: nat) = Suc (Suc (Suc (Suc (Suc (Suc (Suc 0))))))" by simp
  show "cef_header 7 (format_cef_payload L version r t) =
     Some ([''CEF:0'', ''Home Assistant'', ''HA SOC'', cef_header_value 31 (JStr version),
            cef_header_value 1023 (JStr (cef_event_class_id r)), cef_header_value 512 (JStr (cef_event_name r)),
            int_text (cef_severity r)], cef_extension L r t)"
    unfolding p seven
    by (simp only: cef_header_step [OF c(1)] cef_header_step [OF c(2)] cef_header_step [OF c(3)]
        cef_header_step [OF escaped_values(1)] cef_header_step [OF s] cef_header.simps(1) option.map prod.case)
  obtain f fs where f: "cef_fields L r t = f # fs" using cef_fields_nonempty by (cases "cef_fields L r t") auto
  have "cef_extension L r t = join '' '' (map cef_pair (cef_fields L r t))"
    by (simp add: cef_extension_def cef_pair_def)
  then show "cef_keys (cef_extension L r t) = map fst (cef_fields L r t)"
    using cef_keys_join [of f fs] cef_fields_keys [of L r t] by (simp add: f)
qed

definition cef_cost :: "cef_field \<Rightarrow> nat" where
  "cef_cost f = length (cef_pair f) + 1"

lemma cef_char_length: "length (cef_char header c) \<le> 2"
  by (simp add: cef_char_def)

lemma cef_loop_double: "length (cef_loop header m n s) \<le> 2 * length s"
proof (induction s arbitrary: n)
  case (Cons c s)
  from Cons.IH [of "n + length (cef_char header c)"] cef_char_length [of header c] show ?case by (simp add: Let_def)
qed simp

lemma cef_value_length:
  "length (cef_extension_value n v) \<le> n" "length (cef_extension_value n (JStr t)) \<le> 2 * length t"
  using cef_loop_length [of 0 n False] cef_loop_double [of False n 0]
  by (simp_all add: cef_extension_value_def cef_escape_def)

lemma cef_cost_le: "cef_cost (k, v, n) \<le> length k + n + 2" "cef_cost (k, JStr t, n) \<le> length k + 2 * length t + 2"
  using cef_value_length(1) [of n v] cef_value_length(2) [of n t] by (simp_all add: cef_cost_def cef_pair_def)

lemma join_length: "length (join '' '' xs) \<le> sum_list (map (\<lambda>x. length x + 1) xs)"
  by (induction "'' ''" xs rule: join.induct) auto

lemma extension_cost: "length (cef_extension L r t) \<le> sum_list (map cef_cost (cef_fields L r t))"
proof -
  have "cef_extension L r t = join '' '' (map cef_pair (cef_fields L r t))"
    by (simp add: cef_extension_def cef_pair_def)
  moreover have "map (\<lambda>x. length x + 1) (map cef_pair fs) = map cef_cost fs" for fs
    by (simp add: cef_cost_def)
  ultimately show ?thesis using join_length [of "map cef_pair (cef_fields L r t)"] by metis
qed

lemma labelled_cost: "sum_list (map cef_cost (labelled key label v n)) \<le> 2 * length key + 2 * length label + n + 9"
  using cef_cost_le(2) [of "key @ ''Label''" label 1023] cef_cost_le(1) [of key v n] by (simp add: labelled_def)

lemma present_cost: "sum_list (map cef_cost (present key v n)) \<le> length key + n + 2"
  using cef_cost_le(1) [of key v n] by (simp add: present_def)

lemma cost_groups:
  "sum_list (map cef_cost (time_fields L r)) \<le> 75"
  "sum_list (map cef_cost (action_fields r)) \<le> 68"
  "sum_list (map cef_cost (outcome_fields c)) \<le> 72"
  "sum_list (map cef_cost (source_fields L r)) \<le> 90"
  "sum_list (map cef_cost (user_fields r)) \<le> 3090"
  "sum_list (map cef_cost (chain_fields r)) \<le> 20400"
proof -
  show "sum_list (map cef_cost (time_fields L r)) \<le> 75"
  proof (cases "epoch_milliseconds L (dget_null r ''ts'')")
    case (Some x)
    then show ?thesis using cef_cost_le(1) [of "''rt''" "JStr x" 32] cef_cost_le(1) [of "''start''" "JStr x" 32]
      by (simp add: time_fields_def)
  qed (simp add: time_fields_def)
  show "sum_list (map cef_cost (action_fields r)) \<le> 68"
    using cef_cost_le(1) [of "''act''" _ 63] by (auto simp: action_fields_def Let_def intro: order.trans)
  show "sum_list (map cef_cost (outcome_fields c)) \<le> 72"
    using cef_cost_le(1) [of "''outcome''" _ 63] by (auto simp: outcome_fields_def)
  show "sum_list (map cef_cost (source_fields L r)) \<le> 90"
  proof -
    let ?t = "py_str (dget_null r ''ip'')"
    show ?thesis using cef_cost_le(1) [of "''src''" "JStr ?t" 45] cef_cost_le(1) [of "''c6a1''" "JStr (ipv6_text L ?t)" 45]
        cef_cost_le(2) [of "''c6a1Label''" "''Source IPv6''" 1023]
      by (auto simp: source_fields_def Let_def split: option.split)
  qed
  show "sum_list (map cef_cost (user_fields r)) \<le> 3090"
    using present_cost [of "''suid''" "dget_null r ''user_id''" 1023] present_cost [of "''duid''" "detail_item r ''target_user_id''" 1023]
      present_cost [of "''duser''" "detail_item r ''target_name''" 1023] cef_cost_le(1) [of "''duser''" "dget_null r ''attempted_user''" 1023]
    by (simp add: user_fields_def)
  note l = labelled_cost [of "''cn1''" "''Audit Sequence''" "dget_null r ''seq''" 32]
    labelled_cost [of "''cs1''" "''Audit Hash''" "dget_null r ''hash''" 4000]
    labelled_cost [of "''cs2''" "''Previous Audit Hash''" "dget_null r ''prev_hash''" 4000]
    labelled_cost [of "''cs3''" "''HA Context ID''" "dget_null r ''context_id''" 4000]
    labelled_cost [of "''cs4''" "''HA Parent Context ID''" "dget_null r ''context_parent_id''" 4000]
    labelled_cost [of "''cs5''" "''Entity IDs''" "JStr (dumps_with False '','' '':'' (dget_null r ''entity_ids''))" 4000]
  show "sum_list (map cef_cost (chain_fields r)) \<le> 20400" using l by (simp add: chain_fields_def)
qed

text \<open>
  C22. CEF is bounded: no value exceeds the bound of its field, and the whole payload stays below
  28000 characters, whatever the record holds, so that with its envelope it fits the 32 KiB bound.
\<close>

theorem cef_is_bounded:
  "length (cef_extension_value n v) \<le> n \<and> length (format_cef_payload L version r t) \<le> 28000"
proof
  show "length (cef_extension_value n v) \<le> n" by (rule cef_value_length(1))
  have e: "length (cef_extension L r t) \<le> 75 + 1028 + 68 + 72 + 90 + 3090 + 20400 + 1028"
    using extension_cost [of L r t] cost_groups(1,4) [of L r] cost_groups(2,5,6) [of r] cost_groups(3) [where c = "field_text r ''category'' ''unknown''"]
      cef_cost_le(1) [of "''cat''" "JStr (field_text r ''category'' ''unknown'')" 1023]
      cef_cost_le(1) [of "''msg''" "JStr (cef_detail r t)" 1023]
    by (simp add: cef_fields_def Let_def)
  have h: "length (cef_header_value m v) \<le> m + 1" for m v
    using cef_loop_length [of 0 m True "if v = JNull then [] else py_str v"]
    by (simp add: cef_header_value_def cef_escape_def Let_def del: if_split)
  have "cef_severity r \<in> set [10, 9, 7, 5, 3, 4]" by (simp add: cef_severity_def Let_def)
  moreover have "list_all (\<lambda>i. length (int_text i) \<le> 2) [10, 9, 7, 5, 3, 4]" by code_simp
  ultimately have s: "length (int_text (cef_severity r)) \<le> 2" by (auto simp: list_all_iff)
  show "length (format_cef_payload L version r t) \<le> 28000"
    using e s h [of 31 "JStr version"] h [of 1023 "JStr (cef_event_class_id r)"] h [of 512 "JStr (cef_event_name r)"]
    by (simp add: format_cef_payload_def)
qed

section \<open>Delivery\<close>

definition w_settings :: dict where
  "w_settings = [(''syslog_transport'', JStr ''udp''), (''syslog_host'', JStr ''siem'')]"

definition w_queued :: "int \<Rightarrow> queued" where
  "w_queued n = \<lparr>qm_record = [(''seq'', JInt n)], qm_format = ''rfc5424_json''\<rparr>"

definition w_s1 :: ex_sys where
  "w_s1 = fresh_ex\<lparr>es_x := new_exporter\<lparr>ex_queue := [w_queued 1, w_queued 2]\<rparr>, es_offered := [w_queued 1, w_queued 2]\<rparr>"

definition w_s2 :: ex_sys where "w_s2 = w_s1\<lparr>es_x := (es_x w_s1)\<lparr>ex_entry := True, ex_task := Running\<rparr>\<rparr>"

definition w_s3 :: ex_sys where "w_s3 = w_s2\<lparr>es_x := worker_get (es_x w_s2)\<rparr>"

lemmas w_states = w_s1_def w_s2_def w_s3_def fresh_ex_def new_exporter_def worker_get_def

lemma w_ready: "enabled w_settings" "host_of w_settings = Inr ''siem''" "payload_format w_settings = ''rfc5424_json''"
  by code_simp+

lemma w_step1: "work_step fresh_ex w_s1"
proof -
  have r: "ready w_settings = Inr True" by (simp add: ready_def w_ready)
  have i: "to_items w_settings [[(''seq'', JInt 1)], [(''seq'', JInt 2)]] = [w_queued 1, w_queued 2]"
    by (simp add: to_items_def w_ready w_queued_def)
  have "work_step fresh_ex (offer_all w_settings [[(''seq'', JInt 1)], [(''seq'', JInt 2)]] fresh_ex)"
    by (rule work_step.enqueue) (simp add: enqueue_def r)
  then show ?thesis
    by (simp add: offer_all_def r i offer_one_def put_or_drop_def QUEUE_MAX_def w_states)
qed

lemma start_step: "ex_task (es_x s) = No_task \<Longrightarrow> work_step s (s\<lparr>es_x := (es_x s)
    \<lparr>ex_entry := True, ex_last_error := None, ex_task := Running, ex_retry_delay := 1\<rparr>\<rparr>)"
  by (rule work_step.start [of w_settings]) (simp add: start_exporter_def w_ready)

lemma w_step2: "work_step w_s1 w_s2"
  using start_step [of w_s1] by (simp add: w_states)

lemma w_run: "work_step\<^sup>*\<^sup>* fresh_ex w_s3"
  using w_step1 w_step2 work_step.get [of w_s2] unfolding w_s3_def [symmetric]
  by (meson converse_rtranclp_into_rtranclp rtranclp.rtrancl_refl)

lemma work_in_ex: "work_step\<^sup>*\<^sup>* s t \<Longrightarrow> ex_step\<^sup>*\<^sup>* s t"
  by (induction rule: rtranclp_induct) (auto intro: rtranclp.rtrancl_into_rtrancl ex_step.work)

text \<open>
  C23. Nothing is lost uncounted: after any run, with whatever failures and restarts, each record
  offered while the exporter was ready has been delivered, is pending or was dropped, exactly one of
  them; the counters of the status are the numbers delivered and dropped, the queue holds at most
  2000 records, and the retry delay stays between one second and sixty.
\<close>

theorem exports_are_accounted:
  assumes "ex_step\<^sup>*\<^sup>* fresh_ex s"
  shows "mset (es_offered s) = mset (es_delivered s) + mset (pending (es_x s)) + mset (es_lost s)
     \<and> ex_sent (es_x s) = length (es_delivered s) \<and> ex_dropped (es_x s) = length (es_lost s)
     \<and> length (ex_queue (es_x s)) \<le> 2000 \<and> 1 \<le> ex_retry_delay (es_x s) \<and> ex_retry_delay (es_x s) \<le> 60"
  using restarting.run_inv(2) [OF assms fresh_counted(2)] run_counted [OF assms fresh_counted(1)]
  by (simp add: ex_view_def counted_def QUEUE_MAX_def)

theorem exports_are_accounted_witness:
  "mset (es_offered w_s3) = mset (es_delivered w_s3) + mset (pending (es_x w_s3)) + mset (es_lost w_s3)
     \<and> ex_sent (es_x w_s3) = length (es_delivered w_s3) \<and> ex_dropped (es_x w_s3) = length (es_lost w_s3)
     \<and> length (ex_queue (es_x w_s3)) \<le> 2000 \<and> 1 \<le> ex_retry_delay (es_x w_s3) \<and> ex_retry_delay (es_x w_s3) \<le> 60"
  by (rule exports_are_accounted [OF work_in_ex [OF w_run]])

text \<open>
  C31. The exporter implements a bounded lossy queue: seen as what is pending, delivered, lost and
  offered, every step of the event loop and the worker is a sequence of moves of the specification
  \<open>fifo_move\<close> with room for 2000, without its rotations as long as nothing stops the worker.
\<close>

theorem exporter_refines_queue:
  "(ex_step s t \<longrightarrow> (fifo_move True 2000)\<^sup>*\<^sup>* (ex_view s) (ex_view t))
   \<and> (work_step s t \<longrightarrow> (fifo_move False 2000)\<^sup>*\<^sup>* (ex_view s) (ex_view t))"
  using ex_moves [of s t] work_moves [of s t False] by (simp add: QUEUE_MAX_def)

theorem exporter_refines_queue_witness:
  "(fifo_move False 2000)\<^sup>*\<^sup>* (ex_view fresh_ex) (ex_view w_s1)"
  using exporter_refines_queue [of fresh_ex w_s1] w_step1 by blast

text \<open>
  Delivery in order: while the worker is not stopped, what was delivered followed by what is
  pending is the sequence of offered records with the dropped ones left out, in the same order.
\<close>

theorem delivery_in_order:
  assumes "work_step\<^sup>*\<^sup>* fresh_ex s"
  shows "subseq (es_delivered s @ pending (es_x s)) (es_offered s)
     \<and> length (es_delivered s @ pending (es_x s)) + length (es_lost s) = length (es_offered s)"
proof -
  have v: "ex_view s = (pending (es_x s), es_delivered s, es_lost s, es_offered s)" by (simp add: ex_view_def)
  note r = working.run_inv [OF assms fresh_counted(2) v]
  have "size (mset (es_offered s)) = size (mset (es_delivered s) + mset (pending (es_x s)) + mset (es_lost s))"
    by (simp only: r(2))
  then show ?thesis using r(3) by simp
qed

theorem delivery_in_order_witness:
  "subseq (es_delivered w_s3 @ pending (es_x w_s3)) (es_offered w_s3)
     \<and> length (es_delivered w_s3 @ pending (es_x w_s3)) + length (es_lost w_s3) = length (es_offered w_s3)"
  by (rule delivery_in_order [OF w_run])

text \<open>
  A restart reorders: stopping the worker during a send puts the record at the end of the
  queue, so there is a run in which the record with sequence number 2 is delivered before number 1.
\<close>

theorem restart_reorders:
  "\<exists>s. ex_step\<^sup>*\<^sup>* fresh_ex s \<and> es_offered s = [w_queued 1, w_queued 2] \<and> es_delivered s = [w_queued 2]
     \<and> pending (es_x s) = [w_queued 1]"
proof -
  let ?a = "leave stop_exporter w_s3"
  let ?b = "?a\<lparr>es_x := (es_x ?a)\<lparr>ex_entry := True, ex_last_error := None, ex_task := Running, ex_retry_delay := 1\<rparr>\<rparr>"
  let ?c = "?b\<lparr>es_x := worker_get (es_x ?b)\<rparr>"
  let ?d = "?c\<lparr>es_x := worker_sent ''now'' (es_x ?c), es_delivered := es_delivered ?c @ [w_queued 2]\<rparr>"
  have a: "ex_task (es_x ?a) = No_task" "ex_inflight (es_x ?a) = None" "ex_queue (es_x ?a) = [w_queued 2, w_queued 1]"
    "es_offered ?a = [w_queued 1, w_queued 2]" "es_delivered ?a = []"
    by (simp_all add: leave_def stop_exporter_def put_back_def put_or_drop_def QUEUE_MAX_def w_states Let_def)
  have c: "ex_task (es_x ?c) = Running" "ex_inflight (es_x ?c) = Some (w_queued 2)" "ex_queue (es_x ?c) = [w_queued 1]"
    using a by (simp_all add: worker_get_def)
  have "ex_step w_s3 ?a" by (rule ex_step.stop)
  moreover have "ex_step ?a ?b" by (rule ex_step.work [OF start_step [OF a(1)]])
  moreover have "ex_step ?b ?c" by (rule ex_step.work [OF work_step.get])
  moreover have "ex_step ?c ?d" by (rule ex_step.work [OF work_step.sent [OF c(1,2)]])
  ultimately have "ex_step\<^sup>*\<^sup>* fresh_ex ?d"
    using work_in_ex [OF w_run] by (meson rtranclp.rtrancl_into_rtrancl)
  moreover have "es_offered ?d = [w_queued 1, w_queued 2]" "es_delivered ?d = [w_queued 2]" using a by simp_all
  moreover have "pending (es_x ?d) = [w_queued 1]" using c(3) by (simp add: pending_def worker_sent_def)
  ultimately show ?thesis by blast
qed

text \<open>
  C25. An unexpected exception ends the export: once the worker has died of an error it does not
  retry after, no start, no new record and no passing of time delivers anything again. Even a
  reconfiguration does not start a worker: it raises the error the worker died of.
\<close>

theorem dead_worker_delivers_nothing:
  assumes "work_step\<^sup>*\<^sup>* s t" "ex_task (es_x s) = Dead e"
  shows "ex_task (es_x t) = Dead e \<and> es_delivered t = es_delivered s
     \<and> ex_task (fst (reconfigure st (es_x t))) = No_task \<and> snd (reconfigure st (es_x t)) = Some e"
  using dead_run [OF assms] by (simp add: reconfigure_def stop_exporter_def stop_error_def Let_def)

theorem dead_worker_delivers_nothing_witness:
  "\<exists>s t. ex_step w_s3 s \<and> work_step s t \<and> ex_task (es_x t) = Dead ValueError \<and> es_delivered t = []
     \<and> snd (reconfigure w_settings (es_x t)) = Some ValueError"
proof -
  let ?s = "leave (worker_crashed ValueError) w_s3"
  have i: "ex_task (es_x w_s3) = Running" "ex_inflight (es_x w_s3) = Some (w_queued 1)" "es_delivered w_s3 = []"
    by (simp_all add: w_states)
  have s: "ex_step w_s3 ?s" by (rule ex_step.crashed [OF i(1,2)])
  have d: "ex_task (es_x ?s) = Dead ValueError" "es_delivered ?s = []" by (simp_all add: leave_def worker_crashed_def i(3))
  have "start_exporter w_settings (es_x ?s) = Inr ((es_x ?s)\<lparr>ex_entry := True\<rparr>)"
    using d(1) by (simp add: start_exporter_def)
  then have w: "work_step ?s (?s\<lparr>es_x := (es_x ?s)\<lparr>ex_entry := True\<rparr>\<rparr>)" by (rule work_step.start)
  from dead_worker_delivers_nothing [OF r_into_rtranclp [where r = work_step, OF w] d(1), of w_settings] d(2) s w show ?thesis
    by (intro exI conjI) (rule s, rule w, simp_all)
qed

end
