(* ===== verification/SyslogReceiver.thy ===== *)
theory SyslogReceiver
  imports PyNum SyslogFormat
begin

text \<open>
  \<open>syslog_receiver.py\<close>: what a syslog line of RFC 5424 or RFC 3164 says, with the raw line as fallback,
  and the schema of \<open>probe.py\<close> that the parsed entries pass on their way into the store. The same
  parser runs in the Probe, whose buffer and batches are at the end. The two regular expressions
  are written as scanners: each of their repetitions is followed by a character it cannot match, or
  by the end, so the greedy match is the only one. Times are UTC, in microseconds; how one is printed
  is an argument. Text is decoded before it gets here.
\<close>

section \<open>Constants\<close>

definition SYSLOG_RECEIVER_MESSAGE_MAX :: nat where "SYSLOG_RECEIVER_MESSAGE_MAX = 4096"

definition SYSLOG_RECEIVER_FIELD_MAX :: nat where "SYSLOG_RECEIVER_FIELD_MAX = 255"

definition SYSLOG_RECEIVER_MAX_BATCH :: nat where "SYSLOG_RECEIVER_MAX_BATCH = 200"

definition MONTHS :: "(string \<times> nat) list" where
  "MONTHS = zip [''Jan'', ''Feb'', ''Mar'', ''Apr'', ''May'', ''Jun'', ''Jul'', ''Aug'', ''Sep'', ''Oct'', ''Nov'', ''Dec'']
                [1, 2, 3, 4, 5, 6, 7, 8, 9, 10, 11, 12]"

definition SEVERITY_NAMES :: "string list" where
  "SEVERITY_NAMES = [''emerg'', ''alert'', ''crit'', ''err'', ''warning'', ''notice'', ''info'', ''debug'']"

abbreviation us_second :: int where "us_second \<equiv> 1000000"

definition RFC3164_SKEW :: int where "RFC3164_SKEW = 10 * 60 * us_second"

definition RFC3164_MAX_ZONE_OFFSET :: int where "RFC3164_MAX_ZONE_OFFSET = 14 * 3600 * us_second"

definition RFC3164_MIN_ZONE_OFFSET :: int where "RFC3164_MIN_ZONE_OFFSET = 30 * 60 * us_second"

definition RFC3164_ZONE_TOLERANCE :: int where "RFC3164_ZONE_TOLERANCE = 2 * 60 * us_second"

definition RFC3164_ZONE_STEP :: int where "RFC3164_ZONE_STEP = 15 * 60"

section \<open>Scanners\<close>

text \<open>A scanner gives what it matched and the rest.\<close>

definition eat :: "char \<Rightarrow> string \<Rightarrow> string option" where
  "eat c s = (case s of [] \<Rightarrow> None | x # t \<Rightarrow> if x = c then Some t else None)"

definition run1 :: "(char \<Rightarrow> bool) \<Rightarrow> string \<Rightarrow> (string \<times> string) option" where
  "run1 p s = (let a = takeWhile p s in if a = [] then None else Some (a, dropWhile p s))"

definition not_space :: "char \<Rightarrow> bool" where "not_space c \<longleftrightarrow> \<not> is_space c"

text \<open>\<open>\S+\s+\<close> and \<open>\d{1,n}\<close>.\<close>

definition word :: "string \<Rightarrow> (string \<times> string) option" where
  "word s = Option.bind (run1 not_space s) (\<lambda>(w, t). map_option (\<lambda>(_, u). (w, u)) (run1 is_space t))"

definition digits_to :: "nat \<Rightarrow> string \<Rightarrow> (string \<times> string) option" where
  "digits_to n s = Option.bind (run1 is_digit s) (\<lambda>(d, t). if length d \<le> n then Some (d, t) else None)"

definition scan_pri :: "string \<Rightarrow> (string \<times> string) option" where
  "scan_pri s =
     Option.bind (eat (CHR ''<'') s) (\<lambda>s. Option.bind (digits_to 3 s) (\<lambda>(pri, s).
       map_option (\<lambda>s. (pri, s)) (eat (CHR ''>'') s)))"

text \<open>\<open>.*$\<close>\<close>

definition one_line :: "string \<Rightarrow> string option" where
  "one_line s = (if newline \<in> set s then None else Some s)"

record rfc5424_match =
  m5_pri :: string
  m5_timestamp :: string
  m5_hostname :: string
  m5_app :: string
  m5_rest :: string

definition match_rfc5424 :: "string \<Rightarrow> rfc5424_match option" where
  "match_rfc5424 s =
     Option.bind (scan_pri s) (\<lambda>(pri, s). Option.bind (digits_to 2 s) (\<lambda>(_, s).
     Option.bind (run1 is_space s) (\<lambda>(_, s).
     Option.bind (word s) (\<lambda>(ts, s). Option.bind (word s) (\<lambda>(host, s). Option.bind (word s) (\<lambda>(app, s).
     Option.bind (word s) (\<lambda>(_, s). Option.bind (word s) (\<lambda>(_, s). Option.bind (one_line s) (\<lambda>rest.
       Some \<lparr>m5_pri = pri, m5_timestamp = ts, m5_hostname = host, m5_app = app, m5_rest = rest\<rparr>)))))))))"

record rfc3164_match =
  m3_pri :: string
  m3_timestamp :: string
  m3_hostname :: string
  m3_tag :: string
  m3_message :: string

definition two_digits :: "string \<Rightarrow> string option" where
  "two_digits s = (if 2 \<le> length s \<and> list_all is_digit (take 2 s) then Some (drop 2 s) else None)"

text \<open>What follows \<open>Mmm DD HH:MM:SS\<close>.\<close>

definition scan_bsd_time :: "string \<Rightarrow> string option" where
  "scan_bsd_time s =
     (if 3 \<le> length s \<and> is_upper (s ! 0) \<and> is_lower (s ! 1) \<and> is_lower (s ! 2) then
        Option.bind (run1 is_space (drop 3 s)) (\<lambda>(_, s). Option.bind (digits_to 2 s) (\<lambda>(_, s).
        Option.bind (run1 is_space s) (\<lambda>(_, s).
        Option.bind (two_digits s) (\<lambda>s. Option.bind (eat (CHR '':'') s) (\<lambda>s.
        Option.bind (two_digits s) (\<lambda>s. Option.bind (eat (CHR '':'') s) two_digits))))))
      else None)"

definition tag_char :: "char \<Rightarrow> bool" where
  "tag_char c \<longleftrightarrow> c \<noteq> CHR '':'' \<and> c \<noteq> CHR ''['' \<and> not_space c"

text \<open>\<open>(?:\[(\d+)\])?:\<close>; without the digits and brackets the next character would have to be a colon.\<close>

definition scan_pid :: "string \<Rightarrow> string option" where
  "scan_pid s =
     (case eat (CHR ''['') s of
        None \<Rightarrow> eat (CHR '':'') s
      | Some t \<Rightarrow>
          Option.bind (run1 is_digit t) (\<lambda>(_, t). Option.bind (eat (CHR '']'') t) (eat (CHR '':''))))"

definition match_rfc3164 :: "string \<Rightarrow> rfc3164_match option" where
  "match_rfc3164 s =
     Option.bind (scan_pri s) (\<lambda>(pri, s). Option.bind (scan_bsd_time s) (\<lambda>t.
     Option.bind (run1 is_space t) (\<lambda>(_, u). Option.bind (word u) (\<lambda>(host, u).
     Option.bind (run1 tag_char u) (\<lambda>(tag, u). Option.bind (scan_pid u) (\<lambda>u.
     Option.bind (one_line (dropWhile is_space u)) (\<lambda>msg.
       Some \<lparr>m3_pri = pri, m3_timestamp = take (length s - length t) s, m3_hostname = host,
             m3_tag = tag, m3_message = msg\<rparr>)))))))"

section \<open>Fields\<close>

definition bound_text :: "nat \<Rightarrow> string \<Rightarrow> string" where
  "bound_text n s = take n s"

definition pri_to_facility_severity :: "string \<Rightarrow> nat \<times> nat" where
  "pri_to_facility_severity pri =
     (let p = (case py_int_str pri of Inr i \<Rightarrow> i | Inl _ \<Rightarrow> 13); q = nat (max 0 (min p 191))
      in (q div 8, q mod 8))"

text \<open>The rest after the bracket that closes the first one; the scan counts brackets.\<close>

fun after_block :: "int \<Rightarrow> string \<Rightarrow> string option" where
  "after_block depth [] = None"
| "after_block depth (c # s) =
     (if c = CHR ''['' then after_block (depth + 1) s
      else if c = CHR '']'' then (if depth - 1 = 0 then Some s else after_block (depth - 1) s)
      else after_block depth s)"

lemma after_block_length: "after_block depth s = Some r \<Longrightarrow> length r < length s"
  by (induction depth s rule: after_block.induct) (auto split: if_splits)

definition lstrip :: "string \<Rightarrow> string" where
  "lstrip s = dropWhile is_space s"

function strip_blocks :: "string \<Rightarrow> string" where
  "strip_blocks m =
     (if prefix ''['' m then
        (case after_block 0 m of None \<Rightarrow> m | Some r \<Rightarrow> strip_blocks (lstrip r))
      else m)"
  by pat_completeness auto

termination
  by (relation "measure length")
    (auto simp: lstrip_def dest!: after_block_length intro: le_less_trans [OF length_dropWhile_le])

declare strip_blocks.simps [simp del]

definition strip_structured_data :: "string \<Rightarrow> string" where
  "strip_structured_data m = strip_blocks (if prefix ''-'' m then lstrip (tl m) else m)"

section \<open>The time of an RFC 3164 line\<close>

text \<open>A civil time as a UTC time, and the year of a time. A datetime has a year from 1 to 9999.\<close>

abbreviation us_day :: int where "us_day \<equiv> 86400 * us_second"

definition EPOCH_ORDINAL :: int where "EPOCH_ORDINAL = 719163"

definition utc_us :: "date \<Rightarrow> nat \<Rightarrow> nat \<Rightarrow> nat \<Rightarrow> int" where
  "utc_us t h m s = (to_ordinal t - EPOCH_ORDINAL) * us_day + int (h * 3600 + m * 60 + s) * us_second"

definition year_start :: "nat \<Rightarrow> int" where
  "year_start y = to_ordinal (y, 1, 1)"

function year_from :: "nat \<Rightarrow> int \<Rightarrow> nat" where
  "year_from y n = (if n < year_start (Suc y) \<or> n \<le> int y then y else year_from (Suc y) n)"
  by pat_completeness auto

termination by (relation "measure (\<lambda>(y, n). nat (n - int y))") auto

declare year_from.simps [simp del]

definition year_of :: "int \<Rightarrow> nat" where
  "year_of us = (let n = us div us_day + EPOCH_ORDINAL in year_from (nat ((n - 1) div 366) + 1) n)"

definition datetime_ok :: "int \<Rightarrow> bool" where
  "datetime_ok us \<longleftrightarrow> utc_us (1, 1, 1) 0 0 0 \<le> us \<and> us < utc_us (9999, 12, 31) 24 0 0"

definition add_span :: "int \<Rightarrow> int \<Rightarrow> int res" where
  "add_span us d = (if datetime_ok (us + d) then Inr (us + d) else Inl OverflowError)"

text \<open>\<open>datetime(year, month, day, hour, minute, second)\<close>; \<open>None\<close> is the ValueError.\<close>

definition civil :: "int \<Rightarrow> nat \<Rightarrow> int \<Rightarrow> int \<Rightarrow> int \<Rightarrow> int \<Rightarrow> int option" where
  "civil y m d hh mm ss =
     (if 1 \<le> y \<and> 1 \<le> d \<and> valid_date (nat y, m, nat d) \<and> 0 \<le> hh \<and> hh < 24 \<and> 0 \<le> mm \<and> mm < 60 \<and> 0 \<le> ss \<and> ss < 60
      then Some (utc_us (nat y, m, nat d) (nat hh) (nat mm) (nat ss)) else None)"

text \<open>The latest year, from next year on, in which the date exists and is not after the limit.\<close>

fun latest_before :: "int \<Rightarrow> (int \<Rightarrow> int option) \<Rightarrow> int list \<Rightarrow> int option" where
  "latest_before limit at_year [] = None"
| "latest_before limit at_year (y # ys) =
     (case at_year y of
        Some t \<Rightarrow> if t \<le> limit then Some t else latest_before limit at_year ys
      | None \<Rightarrow> latest_before limit at_year ys)"

definition candidate_years :: "int \<Rightarrow> int list" where
  "candidate_years receipt = map (\<lambda>k. int (year_of receipt) + 1 - int k) [0..<9]"

text \<open>The time of a line from its wall clock, once the year is chosen.\<close>

definition place_time :: "int \<Rightarrow> int \<Rightarrow> int res" where
  "place_time receipt candidate =
     (let delta = receipt - candidate;
          offset = round_even (of_int delta / of_int (us_second * RFC3164_ZONE_STEP)) * RFC3164_ZONE_STEP * us_second
      in if \<bar>delta\<bar> \<le> RFC3164_SKEW then Inr candidate
         else if RFC3164_MIN_ZONE_OFFSET \<le> \<bar>offset\<bar> \<and> \<bar>offset\<bar> \<le> RFC3164_MAX_ZONE_OFFSET
              \<and> \<bar>delta - offset\<bar> \<le> RFC3164_ZONE_TOLERANCE then add_span candidate offset
         else if receipt < candidate then Inr receipt
         else Inr candidate)"

definition resolve_time :: "int \<Rightarrow> (int \<Rightarrow> int option) \<Rightarrow> int res" where
  "resolve_time receipt at_year =
     bind_res (add_span receipt (RFC3164_MAX_ZONE_OFFSET + RFC3164_SKEW)) (\<lambda>limit.
       case latest_before limit at_year (candidate_years receipt) of
         None \<Rightarrow> Inr receipt
       | Some c \<Rightarrow> place_time receipt c)"

text \<open>
  The month, day, hour, minute and second of the text; \<open>None\<close> is a KeyError or ValueError. The scanner
  admits at most two digits for a number, so none is too large for a datetime field.
\<close>

definition int_text_of :: "string \<Rightarrow> int option" where
  "int_text_of s = (case py_int_str s of Inr i \<Rightarrow> Some i | Inl _ \<Rightarrow> None)"

definition stamp_fields :: "string \<Rightarrow> (nat \<times> int \<times> int \<times> int \<times> int) option" where
  "stamp_fields raw =
     Option.bind (dget MONTHS (take 3 raw)) (\<lambda>month.
       (let rest = strip (drop 3 raw); day = takeWhile not_space rest;
            time = dropWhile is_space (dropWhile not_space rest)
        in if day = [] \<or> time = [] then None
           else Option.bind (int_text_of day) (\<lambda>d.
             case map int_text_of (split_on (CHR '':'') time) of
               [Some h, Some m, Some s] \<Rightarrow> Some (month, d, h, m, s)
             | _ \<Rightarrow> None)))"

definition rfc3164_time :: "int \<Rightarrow> string \<Rightarrow> int res" where
  "rfc3164_time receipt raw =
     (case stamp_fields raw of
        None \<Rightarrow> Inr receipt
      | Some (month, d, h, m, s) \<Rightarrow> resolve_time receipt (\<lambda>y. civil y month d h m s))"

section \<open>A line\<close>

record syslog_entry =
  sy_format :: string
  sy_facility :: "nat option"
  sy_severity :: "nat option"
  sy_severity_name :: "string option"
  sy_timestamp :: string
  sy_hostname :: string
  sy_app_name :: "string option"
  sy_message :: string
  sy_raw :: bool

definition rstrip_newlines :: "string \<Rightarrow> string" where
  "rstrip_newlines s = rev (dropWhile (\<lambda>c. c = CHR 13 \<or> c = newline) (rev s))"

definition entry_5424 :: "(int \<Rightarrow> string) \<Rightarrow> int \<Rightarrow> rfc5424_match \<Rightarrow> syslog_entry" where
  "entry_5424 shown receipt g =
     (let (facility, sev) = pri_to_facility_severity (m5_pri g)
      in \<lparr>sy_format = ''rfc5424'', sy_facility = Some facility, sy_severity = Some sev,
          sy_severity_name = Some (SEVERITY_NAMES ! sev),
          sy_timestamp = (if m5_timestamp g = ''-'' then shown receipt else m5_timestamp g),
          sy_hostname = bound_text SYSLOG_RECEIVER_FIELD_MAX (m5_hostname g),
          sy_app_name = Some (bound_text SYSLOG_RECEIVER_FIELD_MAX (m5_app g)),
          sy_message = bound_text SYSLOG_RECEIVER_MESSAGE_MAX (strip_structured_data (m5_rest g)),
          sy_raw = False\<rparr>)"

definition entry_3164 :: "(int \<Rightarrow> string) \<Rightarrow> int \<Rightarrow> rfc3164_match \<Rightarrow> syslog_entry res" where
  "entry_3164 shown receipt g =
     bind_res (rfc3164_time receipt (m3_timestamp g)) (\<lambda>t.
       (let (facility, sev) = pri_to_facility_severity (m3_pri g)
        in Inr \<lparr>sy_format = ''rfc3164'', sy_facility = Some facility, sy_severity = Some sev,
            sy_severity_name = Some (SEVERITY_NAMES ! sev), sy_timestamp = shown t,
            sy_hostname = bound_text SYSLOG_RECEIVER_FIELD_MAX (m3_hostname g),
            sy_app_name = Some (bound_text SYSLOG_RECEIVER_FIELD_MAX (m3_tag g)),
            sy_message = bound_text SYSLOG_RECEIVER_MESSAGE_MAX (m3_message g), sy_raw = False\<rparr>))"

definition entry_raw :: "(int \<Rightarrow> string) \<Rightarrow> int \<Rightarrow> string \<Rightarrow> string \<Rightarrow> syslog_entry" where
  "entry_raw shown receipt default_hostname raw =
     \<lparr>sy_format = ''raw'', sy_facility = None, sy_severity = None, sy_severity_name = None,
      sy_timestamp = shown receipt, sy_hostname = default_hostname, sy_app_name = None,
      sy_message = bound_text SYSLOG_RECEIVER_MESSAGE_MAX raw, sy_raw = True\<rparr>"

definition parse_syslog_line :: "(int \<Rightarrow> string) \<Rightarrow> int \<Rightarrow> string \<Rightarrow> string \<Rightarrow> syslog_entry res" where
  "parse_syslog_line shown receipt default_hostname line =
     (let raw = rstrip_newlines line
      in case match_rfc5424 raw of
           Some g \<Rightarrow> Inr (entry_5424 shown receipt g)
         | None \<Rightarrow>
             (case match_rfc3164 raw of
                Some g \<Rightarrow> entry_3164 shown receipt g
              | None \<Rightarrow> Inr (entry_raw shown receipt default_hostname raw)))"

section \<open>The schema entries pass, and the Probe's batches\<close>

text \<open>\<open>INGEST_SERVICE_SCHEMA\<close> of \<open>probe.py\<close> on an entry, and on the entries of a call.\<close>

definition within_range :: "nat \<Rightarrow> nat option \<Rightarrow> bool" where
  "within_range n v \<longleftrightarrow> (case v of None \<Rightarrow> True | Some k \<Rightarrow> k \<le> n)"

definition within_length :: "nat \<Rightarrow> string option \<Rightarrow> bool" where
  "within_length n v \<longleftrightarrow> (case v of None \<Rightarrow> True | Some t \<Rightarrow> length t \<le> n)"

definition entry_schema :: "syslog_entry \<Rightarrow> bool" where
  "entry_schema e \<longleftrightarrow>
     sy_format e \<in> set [''rfc3164'', ''rfc5424'', ''raw''] \<and> within_range 23 (sy_facility e)
     \<and> within_range 7 (sy_severity e) \<and> within_length 16 (sy_severity_name e) \<and> length (sy_timestamp e) \<le> 64
     \<and> length (sy_hostname e) \<le> SYSLOG_RECEIVER_FIELD_MAX \<and> within_length SYSLOG_RECEIVER_FIELD_MAX (sy_app_name e)
     \<and> length (sy_message e) \<le> SYSLOG_RECEIVER_MESSAGE_MAX"

definition batch_schema :: "syslog_entry list \<Rightarrow> bool" where
  "batch_schema es \<longleftrightarrow> list_all entry_schema es \<and> length es \<le> SYSLOG_RECEIVER_MAX_BATCH"

text \<open>
  The listener of the Probe: \<open>deque(maxlen=2000)\<close> of entries, from which each round takes up to 200 and
  posts them once. The answer to the post is not looked at.
\<close>

definition BUFFER_MAX :: nat where "BUFFER_MAX = 2000"

definition BATCH_MAX :: nat where "BATCH_MAX = 200"

definition datagram_received :: "(int \<Rightarrow> string) \<Rightarrow> int \<Rightarrow> string \<Rightarrow> syslog_entry list \<Rightarrow> syslog_entry list res" where
  "datagram_received shown receipt line buf =
     bind_res (parse_syslog_line shown receipt ''homeassistant'' line) (\<lambda>e. Inr (keep_newest BUFFER_MAX (buf @ [e])))"

fun take_batch :: "syslog_entry list \<Rightarrow> syslog_entry list \<Rightarrow> syslog_entry list \<times> syslog_entry list" where
  "take_batch batch [] = (batch, [])"
| "take_batch batch (e # es) =
     (if length batch < BATCH_MAX then take_batch (batch @ [e]) es else (batch, e # es))"

end
