(* ===== verification/ReceiverTime.thy ===== *)
theory ReceiverTime
  imports SyslogReceiver AuditFlush
begin

text \<open>
  The times of received lines: the year of a time, that the wall clock of a sender determines the
  time of a line (\<open>resolve_exact\<close>), and how a BSD stamp is written and read.
\<close>

section \<open>The calendar\<close>

lemma year_start_eq: "year_start y = days_before_year y + 1"
  by (simp add: year_start_def to_ordinal_parts days_before_month_def)

lemma year_start_Suc: "year_start y + 365 \<le> year_start (Suc y)" "year_start (Suc y) \<le> year_start y + 366"
  by (simp_all add: year_start_eq days_before_year_Suc)

lemma year_start_ge: "y \<le> y' \<Longrightarrow> year_start y + 365 * int (y' - y) \<le> year_start y'"
proof (induction y' rule: dec_induct)
  case (step n)
  then show ?case using year_start_Suc(1) [of n] by (simp add: Suc_diff_le)
qed simp

lemma year_start_le: "year_start (Suc k) \<le> 366 * int k + 1"
proof (induction k)
  case 0
  then show ?case by (simp add: year_start_eq days_before_year_def)
next
  case (Suc k)
  then show ?case using year_start_Suc(2) [of "Suc k"] by simp
qed

lemma year_start_gt: "int y < year_start (Suc y)"
  using year_start_ge [of 1 "Suc y"] by (simp add: year_start_eq days_before_year_def)

lemma year_from_spec: "year_start y \<le> n \<Longrightarrow> year_start (year_from y n) \<le> n \<and> n < year_start (Suc (year_from y n))"
proof (induction y n rule: year_from.induct)
  case (1 y n)
  show ?case
  proof (cases "n < year_start (Suc y) \<or> n \<le> int y")
    case True
    then have "n < year_start (Suc y)" using year_start_gt [of y] by auto
    then show ?thesis using 1(2) by (subst (1 2) year_from.simps) simp
  next
    case False
    then show ?thesis using 1(1) by (subst (1 2) year_from.simps) simp
  qed
qed

abbreviation day_number :: "int \<Rightarrow> int" where "day_number us \<equiv> us div us_day + EPOCH_ORDINAL"

lemma year_of_spec:
  assumes "1 \<le> day_number us"
  shows "year_start (year_of us) \<le> day_number us" "day_number us < year_start (Suc (year_of us))"
proof -
  let ?n = "day_number us" let ?k = "nat ((?n - 1) div 366)"
  have "366 * int ?k \<le> ?n - 1" using assms by (simp add: pos_imp_zdiv_nonneg_iff)
  then have "year_start (?k + 1) \<le> ?n" using year_start_le [of ?k] by simp
  from year_from_spec [OF this]
  show "year_start (year_of us) \<le> ?n" "?n < year_start (Suc (year_of us))"
    by (simp_all add: year_of_def Let_def)
qed

lemma first_months:
  "days_before_month y 0 = 0" "days_before_month y (Suc 0) = 0" "days_before_month y (Suc (Suc 0)) = 31"
  "days_before_month y (Suc (Suc (Suc 0))) = 31 + days_in_month y 2"
proof -
  show z: "days_before_month y 0 = 0" "days_before_month y (Suc 0) = 0" by (simp_all add: days_before_month_def)
  show a: "days_before_month y (Suc (Suc 0)) = 31"
    using days_before_month_Suc [of "Suc 0" y] z by (simp add: days_in_month_def)
  show "days_before_month y (Suc (Suc (Suc 0))) = 31 + days_in_month y 2"
    using days_before_month_Suc [of "Suc (Suc 0)" y] a by (simp add: numeral_2_eq_2)
qed

lemma months_of_years: "days_before_month y m \<le> days_before_month y' m + (if is_leap y then 1 else 0)"
proof (induction m)
  case (Suc m)
  consider "m = 0" | "m = Suc 0" | "m = Suc (Suc 0)" | "3 \<le> m" by linarith
  then show ?case
  proof cases
    case 4
    then have "days_in_month y m = days_in_month y' m" by (simp add: days_in_month_def)
    with Suc 4 show ?thesis by (simp add: days_before_month_Suc)
  qed (simp_all add: first_months days_in_month_def)
qed (simp add: first_months)

lemma later_year: "y < y' \<Longrightarrow> to_ordinal (y, m, d) + 365 \<le> to_ordinal (y', m, d)"
  using days_before_year_mono [of y y'] months_of_years [of y m y'] by (auto simp: to_ordinal_parts split: if_splits)

lemma ordinal_in_year:
  assumes "valid_date (y, m, d)"
  shows "year_start y \<le> to_ordinal (y, m, d)" "to_ordinal (y, m, d) < year_start (Suc y)"
  using day_of_year [OF assms] by (auto simp: to_ordinal_parts year_start_eq days_before_year_Suc split: if_splits)

lemma day_number_wall:
  assumes "h < 24" "mi < 60" "s < 60"
  shows "day_number (utc_us t h mi s) = to_ordinal t"
proof -
  have "0 \<le> int (h * 3600 + mi * 60 + s) * us_second" "int (h * 3600 + mi * 60 + s) * us_second < us_day" using assms by simp_all
  then have "utc_us t h mi s div us_day = to_ordinal t - EPOCH_ORDINAL"
    unfolding utc_us_def by (intro int_div_pos_eq [where r = "int (h * 3600 + mi * 60 + s) * us_second"]) simp_all
  then show ?thesis by simp
qed

section \<open>From the wall clock to the time\<close>

lemma place_exact:
  assumes lag: "\<bar>receipt - true\<bar> \<le> RFC3164_ZONE_TOLERANCE" and ok: "datetime_ok true"
    and zone: "zone = 0 \<or> RFC3164_MIN_ZONE_OFFSET \<le> \<bar>zone\<bar> \<and> \<bar>zone\<bar> \<le> RFC3164_MAX_ZONE_OFFSET"
      "RFC3164_ZONE_STEP * us_second dvd zone"
  shows "place_time receipt (true + zone) = Inr true"
proof (cases "zone = 0")
  case True
  then show ?thesis using lag
    by (simp add: place_time_def RFC3164_ZONE_TOLERANCE_def RFC3164_SKEW_def)
next
  case False
  from zone(2) obtain k where k: "zone = 900000000 * k" by (auto simp: RFC3164_ZONE_STEP_def elim: dvdE)
  define lg where "lg = receipt - true"
  have lg: "\<bar>lg\<bar> \<le> 120000000" using lag by (simp add: lg_def RFC3164_ZONE_TOLERANCE_def)
  have r: "round_even (of_int (lg - zone) / of_int 900000000) = - k"
  proof (rule antisym)
    have "of_int (lg - zone) \<le> (of_int (900000000 * (- k) + 120000000) :: rat)" unfolding of_int_le_iff using lg k by simp
    then have "(of_int (lg - zone) :: rat) / 900000000 \<le> of_int (- k) + 2 / 15" by (simp add: field_simps)
    then have "round_even (of_int (lg - zone) / of_int 900000000) \<le> round_even (of_int (- k) + 2 / 15)"
      by (intro round_even_mono) simp
    also have "round_even (of_int (- k) + 2 / 15) = - k"
    proof -
      have "\<lfloor>of_int (- k) + 2 / 15 :: rat\<rfloor> = - k" by (rule floor_unique) simp_all
      then show ?thesis by (simp add: round_even_def Let_def)
    qed
    finally show "round_even (of_int (lg - zone) / of_int 900000000) \<le> - k" .
    have "(of_int (900000000 * (- k) - 120000000) :: rat) \<le> of_int (lg - zone)" unfolding of_int_le_iff using lg k by simp
    then have "of_int (- k) - 2 / 15 \<le> (of_int (lg - zone) :: rat) / 900000000" by (simp add: field_simps)
    then have "round_even (of_int (- k) - 2 / 15) \<le> round_even (of_int (lg - zone) / of_int 900000000)"
      by (intro round_even_mono) simp
    moreover have "round_even (of_int (- k) - 2 / 15) = - k"
    proof -
      have "\<lfloor>of_int (- k) - 2 / 15 :: rat\<rfloor> = - k - 1" by (rule floor_unique) simp_all
      then show ?thesis by (simp add: round_even_def Let_def)
    qed
    ultimately show "- k \<le> round_even (of_int (lg - zone) / of_int 900000000)" by simp
  qed
  have z: "1800000000 \<le> \<bar>zone\<bar>" "\<bar>zone\<bar> \<le> 50400000000"
    using zone(1) False by (simp_all add: RFC3164_MIN_ZONE_OFFSET_def RFC3164_MAX_ZONE_OFFSET_def)
  have d: "receipt - (true + zone) = lg - zone" by (simp add: lg_def)
  have o: "\<bar>lg - zone\<bar> > 600000000" using z(1) lg by linarith
  have s: "us_second * RFC3164_ZONE_STEP = 900000000" "- k * RFC3164_ZONE_STEP * us_second = - zone"
    by (simp_all add: RFC3164_ZONE_STEP_def k)
  show ?thesis unfolding place_time_def Let_def d s(1) r s(2) using o z lg ok
    by (simp add: RFC3164_SKEW_def RFC3164_MIN_ZONE_OFFSET_def RFC3164_MAX_ZONE_OFFSET_def
        RFC3164_ZONE_TOLERANCE_def add_span_def)
qed

lemma latest_before_found:
  assumes "at_year y = Some t" "t \<le> limit" "\<And>y' t'. y' \<in> set xs \<Longrightarrow> at_year y' = Some t' \<Longrightarrow> limit < t'"
  shows "latest_before limit at_year (xs @ y # zs) = Some t"
  using assms(3)
proof (induction xs)
  case Nil
  then show ?case using assms(1,2) by simp
next
  case (Cons x xs)
  then show ?case by (cases "at_year x") force+
qed

lemma latest_before_le: "latest_before limit at_year ys = Some t \<Longrightarrow> t \<le> limit"
  by (induction ys) (auto split: option.splits if_splits)

lemma candidate_years_eq:
  "candidate_years receipt = (let r = int (year_of receipt) in [r + 1, r, r - 1, r - 2, r - 3, r - 4, r - 5, r - 6, r - 7])"
proof -
  have "[0..<9] = [0, 1, 2, 3, 4, 5, 6, 7, 8 :: nat]" by code_simp
  then show ?thesis by (simp add: candidate_years_def Let_def)
qed

lemma candidates_split:
  assumes "int y \<in> {int (year_of receipt) - 1 .. int (year_of receipt) + 1}"
  shows "\<exists>xs zs. candidate_years receipt = xs @ int y # zs \<and> (\<forall>x \<in> set xs. int y < x)"
proof -
  let ?r = "int (year_of receipt)"
  consider "int y = ?r + 1" | "int y = ?r" | "int y = ?r - 1" using assms by force
  then show ?thesis
  proof cases
    case 1
    then show ?thesis by - (rule exI [of _ "[]"], simp add: candidate_years_eq Let_def)
  next
    case 2
    then show ?thesis by - (rule exI [of _ "[?r + 1]"], simp add: candidate_years_eq Let_def)
  next
    case 3
    then show ?thesis by - (rule exI [of _ "[?r + 1, ?r]"], simp add: candidate_years_eq Let_def)
  qed
qed

lemma year_near:
  assumes v: "valid_date (y, m, d)" and near: "\<bar>day_number receipt - to_ordinal (y, m, d)\<bar> \<le> 1" and ok: "datetime_ok receipt"
  shows "int y \<in> {int (year_of receipt) - 1 .. int (year_of receipt) + 1}"
proof -
  have "utc_us (1, 1, 1) 0 0 0 \<le> receipt" using ok by (simp add: datetime_ok_def)
  then have "day_number (utc_us (1, 1, 1) 0 0 0) \<le> day_number receipt" by (intro add_right_mono zdiv_mono1) simp_all
  moreover have "day_number (utc_us (1, 1, 1) 0 0 0) = 1" by code_simp
  ultimately have "1 \<le> day_number receipt" by simp
  note r = year_of_spec [OF this] and o = ordinal_in_year [OF v]
  have "\<not> year_of receipt + 1 < y"
  proof
    assume "year_of receipt + 1 < y"
    then have "year_start (Suc (year_of receipt)) + 365 * int (y - Suc (year_of receipt)) \<le> year_start y"
      by (intro year_start_ge) simp
    moreover have "1 \<le> int (y - Suc (year_of receipt))" using \<open>year_of receipt + 1 < y\<close> by simp
    ultimately show False using r(2) o(1) near by linarith
  qed
  moreover have "\<not> y + 1 < year_of receipt"
  proof
    assume "y + 1 < year_of receipt"
    then have "year_start (Suc y) + 365 * int (year_of receipt - Suc y) \<le> year_start (year_of receipt)"
      by (intro year_start_ge) simp
    moreover have "1 \<le> int (year_of receipt - Suc y)" using \<open>y + 1 < year_of receipt\<close> by simp
    ultimately show False using r(1) o(2) near by linarith
  qed
  ultimately show ?thesis by simp
qed

section \<open>BSD stamps\<close>

text \<open>The stamp of BSD syslog: the name of the month, the day padded with a space, the time of day.\<close>

definition month_name :: "nat \<Rightarrow> string" where
  "month_name m = fst (MONTHS ! (m - 1))"

definition bsd_day :: "nat \<Rightarrow> string" where
  "bsd_day d = (if d < 10 then [CHR '' '', digit_char d] else pad2 d)"

definition bsd_clock :: "nat \<Rightarrow> nat \<Rightarrow> nat \<Rightarrow> string" where
  "bsd_clock h mi s = pad2 h @ '':'' @ pad2 mi @ '':'' @ pad2 s"

definition bsd_stamp :: "nat \<Rightarrow> nat \<Rightarrow> nat \<Rightarrow> nat \<Rightarrow> nat \<Rightarrow> string" where
  "bsd_stamp m d h mi s = month_name m @ '' '' @ bsd_day d @ '' '' @ bsd_clock h mi s"

lemma month_names:
  assumes "1 \<le> m" "m \<le> 12"
  shows "length (month_name m) = 3" "dget MONTHS (month_name m) = Some m"
    "is_upper (month_name m ! 0)" "is_lower (month_name m ! 1)" "is_lower (month_name m ! 2)"
proof -
  have "\<forall>m \<in> set [1..<13]. length (month_name m) = 3 \<and> dget MONTHS (month_name m) = Some m
    \<and> is_upper (month_name m ! 0) \<and> is_lower (month_name m ! 1) \<and> is_lower (month_name m ! 2)" by code_simp
  moreover have "m \<in> set [1..<13]" using assms by simp
  ultimately show "length (month_name m) = 3" "dget MONTHS (month_name m) = Some m"
    "is_upper (month_name m ! 0)" "is_lower (month_name m ! 1)" "is_lower (month_name m ! 2)" by blast+
qed

lemma digits_not_space: "is_digit c \<Longrightarrow> not_space c" "is_digit c \<Longrightarrow> c \<noteq> CHR '':''"
  by (auto simp: not_space_def is_space_def is_bspace_def is_digit_iff)

lemma pad2_digits: "n < 100 \<Longrightarrow> \<forall>c \<in> set (pad2 n). is_digit c" "pad2 n \<noteq> []"
  by (simp_all add: pad2_def)

lemma int_text_pad2: "n < 100 \<Longrightarrow> int_text_of (pad2 n) = Some (int n)"
  using py_int_str_digits [of "pad2 n"] pad2_digits [of n]
  by (simp add: int_text_of_def digits_val_pad2)

definition day_digits :: "nat \<Rightarrow> string" where
  "day_digits d = (if d < 10 then [digit_char d] else pad2 d)"

lemma int_text_day: "d < 100 \<Longrightarrow> int_text_of (day_digits d) = Some (int d)"
  using int_text_pad2 [of d] py_int_str_digits [of "[digit_char d]"]
  by (auto simp: day_digits_def int_text_of_def digits_val_def)

lemma day_digits_ok: "d < 100 \<Longrightarrow> \<forall>c \<in> set (day_digits d). is_digit c" "day_digits d \<noteq> []" "length (day_digits d) \<le> 2"
  by (simp_all add: day_digits_def pad2_def)

lemma bsd_day_eq: "bsd_day d = (if d < 10 then '' '' else '''') @ day_digits d"
  by (simp add: bsd_day_def day_digits_def)

lemma split_clock:
  assumes "h < 100" "mi < 100" "s < 100"
  shows "split_on (CHR '':'') (bsd_clock h mi s) = [pad2 h, pad2 mi, pad2 s]"
proof -
  have n: "CHR '':'' \<notin> set (pad2 n)" if "n < 100" for n using pad2_digits(1) [OF that] digits_not_space(2) by blast
  show ?thesis using n assms by (simp add: bsd_clock_def split_on_append split_on_no_sep)
qed

lemma clock_chars:
  assumes "h < 100" "mi < 100" "s < 100"
  shows "\<forall>c \<in> set (bsd_clock h mi s). not_space c" "bsd_clock h mi s \<noteq> []"
proof -
  have "not_space (CHR '':'')" by code_simp
  then show "\<forall>c \<in> set (bsd_clock h mi s). not_space c"
    using pad2_digits(1) assms digits_not_space(1) by (auto simp: bsd_clock_def)
qed (simp add: bsd_clock_def pad2_def)

lemma end_kept: "xs \<noteq> [] \<Longrightarrow> \<not> P (last xs) \<Longrightarrow> dropWhile P (rev xs) = rev xs"
  by (cases xs rule: rev_cases) auto

lemma stamp_fields_bsd:
  assumes m: "1 \<le> m" "m \<le> 12" and b: "d < 100" "h < 100" "mi < 100" "s < 100"
  shows "stamp_fields (bsd_stamp m d h mi s) = Some (m, int d, int h, int mi, int s)"
proof -
  note mn = month_names [OF m] and dd = day_digits_ok(1) [OF b(1)] day_digits_ok(2) [of d] and cc = clock_chars [OF b(2-4)]
  have sp: "is_space (CHR '' '')" by code_simp
  have head: "take 3 (bsd_stamp m d h mi s) = month_name m"
    "drop 3 (bsd_stamp m d h mi s) = '' '' @ bsd_day d @ '' '' @ bsd_clock h mi s"
    using mn(1) by (simp_all add: bsd_stamp_def)
  let ?r = "day_digits d @ '' '' @ bsd_clock h mi s"
  have ns: "not_space (hd ?r)" "not_space (last ?r)" "?r \<noteq> []"
    using dd cc digits_not_space(1) by (auto simp: last_append)
  have "dropWhile is_space (drop 3 (bsd_stamp m d h mi s)) = ?r"
    using sp ns(1,3) unfolding head bsd_day_eq by (cases ?r) (auto simp: not_space_def)
  moreover have "dropWhile is_space (rev ?r) = rev ?r"
    using ns(2,3) by (intro end_kept) (auto simp only: not_space_def)
  ultimately have st: "strip (drop 3 (bsd_stamp m d h mi s)) = ?r" unfolding strip_by_def by simp
  have dns: "\<forall>c \<in> set (day_digits d). not_space c" using dd(1) digits_not_space(1) by blast
  have t: "takeWhile not_space ?r = day_digits d" "dropWhile not_space ?r = '' '' @ bsd_clock h mi s"
    using dns sp by (auto simp: takeWhile_append dropWhile_append not_space_def)
  have u: "dropWhile is_space ('' '' @ bsd_clock h mi s) = bsd_clock h mi s"
    using sp cc by (cases "bsd_clock h mi s") (auto simp: not_space_def)
  show ?thesis unfolding stamp_fields_def head(1) mn(2) st Let_def t u
    using cc(2) dd(2) b by (simp add: int_text_day split_clock int_text_pad2)
qed

section \<open>The time of a line whose zone is known\<close>

lemma resolve_exact:
  assumes v: "valid_date (y, m, d)" and clk: "h < 24" "mi < 60" "s < 60"
    and lag: "\<bar>receipt - true\<bar> \<le> RFC3164_ZONE_TOLERANCE" and ok: "datetime_ok true" "datetime_ok receipt"
      "datetime_ok (receipt + (RFC3164_MAX_ZONE_OFFSET + RFC3164_SKEW))"
    and zone: "zone = 0 \<or> RFC3164_MIN_ZONE_OFFSET \<le> \<bar>zone\<bar> \<and> \<bar>zone\<bar> \<le> RFC3164_MAX_ZONE_OFFSET"
      "RFC3164_ZONE_STEP * us_second dvd zone"
    and wall: "utc_us (y, m, d) h mi s = true + zone"
  shows "resolve_time receipt (\<lambda>y. civil y m (int d) (int h) (int mi) (int s)) = Inr true"
proof -
  let ?w = "utc_us (y, m, d) h mi s" let ?limit = "receipt + (RFC3164_MAX_ZONE_OFFSET + RFC3164_SKEW)"
  let ?at = "\<lambda>y. civil y m (int d) (int h) (int mi) (int s)"
  have lim: "add_span receipt (RFC3164_MAX_ZONE_OFFSET + RFC3164_SKEW) = Inr ?limit" using ok(3) by (simp add: add_span_def)
  have z: "\<bar>zone\<bar> \<le> 50400000000" using zone(1) by (auto simp: RFC3164_MAX_ZONE_OFFSET_def)
  have near: "\<bar>receipt - ?w\<bar> \<le> 50520000000" using lag z wall by (simp add: RFC3164_ZONE_TOLERANCE_def)
  then have "?w div us_day \<le> (receipt + us_day) div us_day" "receipt div us_day \<le> (?w + us_day) div us_day"
    by (intro zdiv_mono1; simp)+
  then have "\<bar>day_number receipt - day_number ?w\<bar> \<le> 1" by (simp add: div_add_self2)
  then have "\<bar>day_number receipt - to_ordinal (y, m, d)\<bar> \<le> 1" unfolding day_number_wall [OF clk] .
  from candidates_split [OF year_near [OF v this ok(2)]] obtain xs zs
    where c: "candidate_years receipt = xs @ int y # zs" "\<forall>x \<in> set xs. int y < x" by blast
  have at: "?at (int y) = Some ?w" using v clk by (simp add: civil_def) (simp add: valid_date_def)
  have later: "?limit < t'" if "y' \<in> set xs" "?at y' = Some t'" for y' t'
  proof -
    have "y < nat y'" using c(2) that(1) by force
    from later_year [OF this, of m d] have "(to_ordinal (y, m, d) + 365) * us_day \<le> to_ordinal (nat y', m, d) * us_day" by simp
    moreover have "t' = utc_us (nat y', m, d) h mi s" using that(2) by (simp add: civil_def split: if_splits)
    ultimately have "?w + 365 * us_day \<le> t'" by (simp add: utc_us_def algebra_simps)
    then show ?thesis using near by (simp add: RFC3164_MAX_ZONE_OFFSET_def RFC3164_SKEW_def)
  qed
  have "?w \<le> ?limit" using near by (simp add: RFC3164_MAX_ZONE_OFFSET_def RFC3164_SKEW_def)
  from latest_before_found [where at_year = ?at and xs = xs and zs = zs, OF at this later] c(1)
  have "latest_before ?limit ?at (candidate_years receipt) = Some ?w" by simp
  then show ?thesis using place_exact [OF lag ok(1) zone] by (simp add: resolve_time_def lim wall)
qed

end
