(* ===== verification/ReceiverTheorems.thy ===== *)
theory ReceiverTheorems
  imports ReceiverTime SyslogTheorems
begin

text \<open>
  What the syslog receiver guarantees: a line of a device in any zone gets its true time, every line
  gives an entry and which batches the ingest schema accepts, and what the exporter sends is read back.
\<close>

declare dumps_with.simps [simp del]

declare wf_json.simps(3) [simp del]

section \<open>Scanning what was printed\<close>

lemma run1_app:
  assumes a: "a \<noteq> []" "\<forall>c \<in> set a. p c" and t: "t = [] \<or> \<not> p (hd t)"
  shows "run1 p (a @ t) = Some (a, t)"
proof -
  have e: "takeWhile p a = a" "dropWhile p a = []" using a(2) by (simp_all add: takeWhile_eq_all_conv)
  show ?thesis using a t by (cases t) (auto simp: run1_def takeWhile_append dropWhile_append Let_def e)
qed

lemma space_char: "is_space (CHR '' '')" "\<not> not_space (CHR '' '')"
  by code_simp+

lemma gap: "t = [] \<or> not_space (hd t) \<Longrightarrow> run1 is_space (CHR '' '' # t) = Some ('' '', t)"
  using run1_app [of "'' ''" is_space t] space_char by (auto simp: not_space_def)

lemma word_app:
  assumes "w \<noteq> []" "\<forall>c \<in> set w. not_space c" "t = [] \<or> not_space (hd t)"
  shows "word (w @ CHR '' '' # t) = Some (w, t)"
  using run1_app [of w not_space "CHR '' '' # t"] gap [OF assms(3)] assms(1,2) space_char by (simp add: word_def)

lemma digits_app:
  assumes "a \<noteq> []" "\<forall>c \<in> set a. is_digit c" "length a \<le> n" "t = [] \<or> \<not> is_digit (hd t)"
  shows "digits_to n (a @ t) = Some (a, t)"
  using run1_app [of a is_digit t] assms by (simp add: digits_to_def)

lemma length_nat_text: "n < 1000 \<Longrightarrow> length (nat_text n) \<le> 3"
proof -
  have step: "length (nat_text n) = (if n < 10 then 1 else Suc (length (nat_text (n div 10))))" for n
    by (subst nat_text.simps) simp
  assume n: "n < 1000"
  define a b where "a = n div 10" and "b = a div 10"
  have "b < 10" unfolding a_def b_def by (rule less_mult_imp_div_less, rule less_mult_imp_div_less) (use n in simp)
  then have "length (nat_text b) = 1" using step [of b] by simp
  then have "length (nat_text a) \<le> 2" using step [of a] by (simp add: b_def split: if_splits)
  then show ?thesis using step [of n] by (simp add: a_def split: if_splits)
qed

lemma scan_pri_app:
  assumes "n < 1000"
  shows "scan_pri (CHR ''<'' # nat_text n @ CHR ''>'' # t) = Some (nat_text n, t)"
proof -
  have "\<not> is_digit (CHR ''>'')" by code_simp
  then have "digits_to 3 (nat_text n @ CHR ''>'' # t) = Some (nat_text n, CHR ''>'' # t)"
    using nat_text_digits length_nat_text [OF assms] by (intro digits_app) auto
  then show ?thesis by (simp add: scan_pri_def eat_def)
qed

lemma pri_fields:
  assumes "n \<le> 191"
  shows "pri_to_facility_severity (nat_text n) = (n div 8, n mod 8)"
proof -
  have "length (nat_text n) \<le> 4300" using length_nat_text [of n] assms by simp
  then show ?thesis using assms by (simp add: pri_to_facility_severity_def py_int_str_nat Let_def)
qed

lemma two_digits_app: "n < 100 \<Longrightarrow> two_digits (pad2 n @ t) = Some t"
  using is_digit_pad(1) [of n] by (simp add: two_digits_def)

lemma scan_bsd_time_app:
  assumes m: "1 \<le> m" "m \<le> 12" and b: "d < 100" "h < 100" "mi < 100" "s < 100"
  shows "scan_bsd_time (bsd_stamp m d h mi s @ t) = Some t"
proof -
  note mn = month_names [OF m] and dd = day_digits_ok(1) [OF b(1)] day_digits_ok(2,3) [of d]
  let ?gap = "if d < 10 then ''  '' else '' ''"
  let ?rest = "bsd_clock h mi s @ t"
  have stamp: "bsd_stamp m d h mi s @ t = month_name m @ ?gap @ day_digits d @ CHR '' '' # ?rest"
    by (simp add: bsd_stamp_def bsd_day_eq)
  have nth: "(month_name m @ x) ! 0 = month_name m ! 0" "(month_name m @ x) ! 1 = month_name m ! 1"
    "(month_name m @ x) ! 2 = month_name m ! 2" for x using mn(1) by (simp_all add: nth_append)
  have g: "run1 is_space (?gap @ day_digits d @ CHR '' '' # ?rest) = Some (?gap, day_digits d @ CHR '' '' # ?rest)"
    using dd digits_not_space(1) space_char by (intro run1_app) (auto simp: not_space_def)
  have "\<not> is_digit (CHR '' '')" by code_simp
  then have e: "digits_to 2 (day_digits d @ CHR '' '' # ?rest) = Some (day_digits d, CHR '' '' # ?rest)"
    using dd by (intro digits_app) auto
  have f: "run1 is_space (CHR '' '' # ?rest) = Some ('' '', ?rest)"
    using clock_chars [OF b(2-4)] by (intro gap) auto
  have c: "two_digits ?rest = Some ('':'' @ pad2 mi @ '':'' @ pad2 s @ t)"
    "two_digits (pad2 mi @ CHR '':'' # pad2 s @ t) = Some ('':'' @ pad2 s @ t)" "two_digits (pad2 s @ t) = Some t"
    using two_digits_app [OF b(2)] two_digits_app [OF b(3)] two_digits_app [OF b(4)] by (simp_all add: bsd_clock_def)
  show ?thesis unfolding stamp scan_bsd_time_def nth using mn(1,3-5) by (simp add: g [simplified] e f c eat_def)
qed

lemma no_digit_month:
  assumes "1 \<le> m" "m \<le> 12"
  shows "digits_to k (bsd_stamp m d h mi s @ t) = None"
proof -
  have u: "is_upper c \<Longrightarrow> \<not> is_digit c" for c by (auto simp: is_upper_def is_digit_iff less_eq_char_def)
  obtain c cs where "month_name m = c # cs" using month_names(1) [OF assms] by (cases "month_name m") auto
  then show ?thesis using month_names(3) [OF assms] u
    by (simp add: digits_to_def run1_def bsd_stamp_def)
qed

definition bsd_line :: "nat \<Rightarrow> string \<Rightarrow> string \<Rightarrow> string \<Rightarrow> string \<Rightarrow> string" where
  "bsd_line pri stamp host tag msg =
     ''<'' @ nat_text pri @ ''>'' @ stamp @ '' '' @ host @ '' '' @ tag @ '': '' @ msg"

definition plain_message :: "string \<Rightarrow> bool" where
  "plain_message msg \<longleftrightarrow> newline \<notin> set msg \<and> (msg = [] \<or> not_space (hd msg) \<and> last msg \<noteq> CHR 13)"

lemma rstrip_kept: "s \<noteq> [] \<Longrightarrow> last s \<noteq> CHR 13 \<Longrightarrow> last s \<noteq> newline \<Longrightarrow> rstrip_newlines s = s"
  unfolding rstrip_newlines_def using end_kept [of s "\<lambda>c. c = CHR 13 \<or> c = newline"] by simp

lemma parse_bsd_line:
  assumes m: "1 \<le> m" "m \<le> 12" and b: "d < 100" "h < 100" "mi < 100" "s < 100" and pri: "pri \<le> 191"
    and host: "host \<noteq> []" "\<forall>c \<in> set host. not_space c" and tag: "tag \<noteq> []" "\<forall>c \<in> set tag. tag_char c"
    and msg: "plain_message msg"
  shows "parse_syslog_line shown receipt dh (bsd_line pri (bsd_stamp m d h mi s) host tag msg)
    = entry_3164 shown receipt \<lparr>m3_pri = nat_text pri, m3_timestamp = bsd_stamp m d h mi s, m3_hostname = host,
        m3_tag = tag, m3_message = msg\<rparr>"
proof -
  let ?line = "bsd_line pri (bsd_stamp m d h mi s) host tag msg"
  let ?u = "CHR '' '' # host @ CHR '' '' # tag @ CHR '':'' # CHR '' '' # msg"
  have line: "?line = CHR ''<'' # nat_text pri @ CHR ''>'' # bsd_stamp m d h mi s @ ?u" by (simp add: bsd_line_def)
  have "rstrip_newlines ?line = ?line" 
  proof (intro rstrip_kept)
    have "newline \<notin> set msg" "msg = [] \<or> last msg \<noteq> CHR 13" using msg by (auto simp: plain_message_def)
    moreover from this have "msg = [] \<or> last msg \<noteq> newline" by (metis last_in_set)
    ultimately have l: "last (CHR '' '' # msg) \<notin> {newline, CHR 13}" by (cases "msg = []") simp_all
    have eq: "?line = (''<'' @ nat_text pri @ ''>'' @ bsd_stamp m d h mi s @ '' '' @ host @ '' '' @ tag @ '':'') @ CHR '' '' # msg"
      by (simp add: bsd_line_def)
    have "last ?line = last (CHR '' '' # msg)" unfolding eq by (rule last_appendR) simp
    with l show "last ?line \<noteq> newline" "last ?line \<noteq> CHR 13" by simp_all
  qed (simp add: bsd_line_def)
  moreover have p: "scan_pri ?line = Some (nat_text pri, bsd_stamp m d h mi s @ ?u)"
    unfolding line using pri by (intro scan_pri_app) simp
  moreover have "match_rfc5424 ?line = None" using no_digit_month [OF m] by (simp add: match_rfc5424_def p)
  moreover have "match_rfc3164 ?line = Some \<lparr>m3_pri = nat_text pri, m3_timestamp = bsd_stamp m d h mi s,
      m3_hostname = host, m3_tag = tag, m3_message = msg\<rparr>"
  proof -
    have tc: "not_space (hd tag)" "\<not> tag_char (CHR '':'')" using tag by (auto simp: tag_char_def)
    have g: "run1 is_space ?u = Some ('' '', host @ CHR '' '' # tag @ CHR '':'' # CHR '' '' # msg)"
      using host by (intro gap) auto
    have w: "word (host @ CHR '' '' # tag @ CHR '':'' # CHR '' '' # msg) = Some (host, tag @ CHR '':'' # CHR '' '' # msg)"
      using host tag tc by (intro word_app) auto
    have t: "run1 tag_char (tag @ CHR '':'' # CHR '' '' # msg) = Some (tag, CHR '':'' # CHR '' '' # msg)"
      using tag tc by (intro run1_app) auto
    have e: "dropWhile is_space (CHR '' '' # msg) = msg"
      using msg space_char by (cases msg) (auto simp: plain_message_def not_space_def)
    show ?thesis using msg
      by (simp add: match_rfc3164_def p scan_bsd_time_app [OF m b] g w t scan_pid_def eat_def e one_line_def plain_message_def
          del: dropWhile.simps)
  qed
  ultimately show ?thesis by (simp add: parse_syslog_line_def Let_def)
qed

section \<open>The time a device meant\<close>

text \<open>
  C26. A device's clock is read as it was meant: a BSD line stamped in any zone of whole quarters of an hour (UTC, or
  half an hour to fourteen hours off) and received within two minutes gets its true time, across the end of a year
  and on a February 29, although the line carries neither year nor zone; and the priority, host, tag
  and message are those of the line, within their bounds.
\<close>

theorem local_time_is_recovered:
  assumes "valid_date (y, m, d)" "h < 24" "mi < 60" "s < 60"
    and "\<bar>receipt - true\<bar> \<le> RFC3164_ZONE_TOLERANCE" "datetime_ok true" "datetime_ok receipt"
      "datetime_ok (receipt + (RFC3164_MAX_ZONE_OFFSET + RFC3164_SKEW))"
    and "zone = 0 \<or> RFC3164_MIN_ZONE_OFFSET \<le> \<bar>zone\<bar> \<and> \<bar>zone\<bar> \<le> RFC3164_MAX_ZONE_OFFSET"
      "RFC3164_ZONE_STEP * us_second dvd zone"
    and "utc_us (y, m, d) h mi s = true + zone"
    and "pri \<le> 191" "host \<noteq> []" "\<forall>c \<in> set host. not_space c" "tag \<noteq> []" "\<forall>c \<in> set tag. tag_char c"
      "plain_message msg"
  shows "parse_syslog_line shown receipt dh (bsd_line pri (bsd_stamp m d h mi s) host tag msg)
    = Inr \<lparr>sy_format = ''rfc3164'', sy_facility = Some (pri div 8), sy_severity = Some (pri mod 8),
           sy_severity_name = Some (SEVERITY_NAMES ! (pri mod 8)), sy_timestamp = shown true,
           sy_hostname = take 255 host, sy_app_name = Some (take 255 tag), sy_message = take 4096 msg, sy_raw = False\<rparr>"
proof -
  have m: "1 \<le> m" "m \<le> 12" and d: "d < 100" using assms(1) by (auto simp: valid_date_def days_in_month_def split: if_splits)
  have clk: "h < 100" "mi < 100" "s < 100" using assms(2-4) by simp_all
  have "rfc3164_time receipt (bsd_stamp m d h mi s) = Inr true"
    using resolve_exact [OF assms(1-11)] by (simp add: rfc3164_time_def stamp_fields_bsd [OF m d clk])
  then show ?thesis
    by (simp add: parse_bsd_line [OF m d clk assms(12-17)] entry_3164_def pri_fields [OF assms(12)] bound_text_def
        SYSLOG_RECEIVER_FIELD_MAX_def SYSLOG_RECEIVER_MESSAGE_MAX_def)
qed

text \<open>Received one minute into 2027 UTC from a host one hour behind, where it was still 2026.\<close>

theorem local_time_is_recovered_witness:
  "parse_syslog_line int_text (utc_us (2027, 1, 1) 0 1 0) ''homeassistant''
     (bsd_line 34 (bsd_stamp 12 31 23 0 30) ''nas'' ''su'' ''denied'')
   = Inr \<lparr>sy_format = ''rfc3164'', sy_facility = Some 4, sy_severity = Some 2, sy_severity_name = Some ''crit'',
         sy_timestamp = int_text (utc_us (2027, 1, 1) 0 0 30), sy_hostname = ''nas'', sy_app_name = Some ''su'',
         sy_message = ''denied'', sy_raw = False\<rparr>"
proof -
  have o: "to_ordinal (2027, 1, 1) = 739982" "to_ordinal (2026, 12, 31) = 739981" "to_ordinal (1, 1, 1) = 1"
    "to_ordinal (9999, 12, 31) = 3652059"
    by (simp_all add: to_ordinal_def upt_rec days_in_month_def is_leap_def)
  have v: "valid_date (2026, 12, 31)" by (simp add: valid_date_def days_in_month_def)
  have c: "\<forall>c \<in> set ''nas''. not_space c" "\<forall>c \<in> set ''su''. tag_char c" "plain_message ''denied''"
    by code_simp+
  note defs = utc_us_def o EPOCH_ORDINAL_def datetime_ok_def RFC3164_ZONE_TOLERANCE_def RFC3164_MAX_ZONE_OFFSET_def
    RFC3164_MIN_ZONE_OFFSET_def RFC3164_SKEW_def RFC3164_ZONE_STEP_def
  have "RFC3164_ZONE_STEP * us_second dvd - 3600000000" by (simp add: RFC3164_ZONE_STEP_def)
  from local_time_is_recovered [OF v, of 23 0 30 "utc_us (2027, 1, 1) 0 1 0" "utc_us (2027, 1, 1) 0 0 30" "- 3600000000",
      OF _ _ _ _ _ _ _ _ this _ _ _ c(1) _ c(2,3), of 34 int_text "''homeassistant''"]
  show ?thesis by (simp add: defs SEVERITY_NAMES_def del: One_nat_def)
qed

section \<open>Every line gives an entry\<close>

lemma place_bounds:
  assumes "datetime_ok (receipt - RFC3164_ZONE_TOLERANCE)" "datetime_ok (receipt + (RFC3164_MAX_ZONE_OFFSET + RFC3164_SKEW))"
  shows "\<exists>t. place_time receipt c = Inr t \<and> t \<le> receipt + RFC3164_SKEW"
proof -
  define offset where "offset = round_even (of_int (receipt - c) / of_int (us_second * RFC3164_ZONE_STEP)) * RFC3164_ZONE_STEP * us_second"
  have "datetime_ok (c + offset)" "c + offset \<le> receipt + RFC3164_SKEW"
    if "\<bar>receipt - c - offset\<bar> \<le> RFC3164_ZONE_TOLERANCE"
    using assms that by (auto simp: datetime_ok_def RFC3164_ZONE_TOLERANCE_def RFC3164_MAX_ZONE_OFFSET_def RFC3164_SKEW_def)
  then show ?thesis unfolding place_time_def Let_def offset_def [symmetric]
    by (auto simp: add_span_def RFC3164_SKEW_def)
qed

lemma time_bounds:
  assumes "datetime_ok (receipt - RFC3164_ZONE_TOLERANCE)" "datetime_ok (receipt + (RFC3164_MAX_ZONE_OFFSET + RFC3164_SKEW))"
  shows "\<exists>t. rfc3164_time receipt raw = Inr t \<and> t \<le> receipt + RFC3164_SKEW"
proof -
  have r: "receipt \<le> receipt + RFC3164_SKEW" by (simp add: RFC3164_SKEW_def)
  have "\<exists>t. resolve_time receipt f = Inr t \<and> t \<le> receipt + RFC3164_SKEW" for f
    using place_bounds [OF assms] assms(2) r by (auto simp: resolve_time_def add_span_def split: option.split)
  then show ?thesis using r by (auto simp: rfc3164_time_def split: option.split)
qed

lemma pri_bounds: "pri_to_facility_severity p = (f, s) \<Longrightarrow> f \<le> 23 \<and> s \<le> 7"
proof -
  assume p: "pri_to_facility_severity p = (f, s)"
  define q where "q = nat (max 0 (min (case py_int_str p of Inr i \<Rightarrow> i | Inl _ \<Rightarrow> 13) 191))"
  have "q \<le> 191" by (simp add: q_def)
  then have "q div 8 \<le> 23" "q mod 8 \<le> 7" by linarith+
  then show ?thesis using p by (simp add: pri_to_facility_severity_def q_def [symmetric])
qed

lemma severity_names: "s \<le> 7 \<Longrightarrow> length (SEVERITY_NAMES ! s) \<le> 16"
proof -
  have "\<forall>s \<in> set [0..<8]. length (SEVERITY_NAMES ! s) \<le> 16" by code_simp
  moreover assume "s \<le> 7"
  then have "s \<in> set [0..<8]" by simp
  ultimately show ?thesis by blast
qed

lemmas schema_defs = entry_schema_def within_range_def within_length_def bound_text_def SYSLOG_RECEIVER_FIELD_MAX_def
  SYSLOG_RECEIVER_MESSAGE_MAX_def

lemma entry_5424_schema:
  "entry_schema (entry_5424 shown receipt g) \<longleftrightarrow> length (sy_timestamp (entry_5424 shown receipt g)) \<le> 64"
  "sy_format (entry_5424 shown receipt g) = ''rfc5424''"
  using pri_bounds [of "m5_pri g"] severity_names
  by (cases "pri_to_facility_severity (m5_pri g)"; simp add: entry_5424_def schema_defs)+

lemma entry_5424_stamp: "sy_timestamp (entry_5424 shown receipt g) = (if m5_timestamp g = ''-'' then shown receipt else m5_timestamp g)"
  by (simp add: entry_5424_def split: prod.split)

lemma entry_3164_schema:
  assumes "entry_3164 shown receipt g = Inr e" "\<forall>t. length (shown t) \<le> 64"
  shows "entry_schema e" "sy_format e = ''rfc3164''" "\<exists>t. rfc3164_time receipt (m3_timestamp g) = Inr t \<and> sy_timestamp e = shown t"
  using assms pri_bounds [of "m3_pri g"] severity_names
  by (cases "pri_to_facility_severity (m3_pri g)"; cases "rfc3164_time receipt (m3_timestamp g)";
      auto simp: entry_3164_def schema_defs)+

lemma entry_raw_schema:
  assumes "\<forall>t. length (shown t) \<le> 64" "length dh \<le> 255"
  shows "entry_schema (entry_raw shown receipt dh raw)" "sy_format (entry_raw shown receipt dh raw) = ''raw''"
  using assms by (simp_all add: entry_raw_def schema_defs)

lemma parsed_schema:
  assumes "\<forall>t. length (shown t) \<le> 64" "length dh \<le> 255" "parse_syslog_line shown receipt dh line = Inr e"
  shows "entry_schema e \<longleftrightarrow> (sy_format e = ''rfc5424'' \<longrightarrow> length (sy_timestamp e) \<le> 64)"
  using assms(3) entry_5424_schema entry_3164_schema [OF _ assms(1)] entry_raw_schema [OF assms(1,2)]
  by (force simp: parse_syslog_line_def Let_def split: option.splits)


definition w_long_stamp :: string where
  "w_long_stamp = ''<13>1 '' @ replicate 65 (CHR ''9'') @ '' host app 1 id - text''"


section \<open>What the exporter sends is read back\<close>

text \<open>Text that cannot end the structured data early, nor the line.\<close>

definition no_brackets :: "string \<Rightarrow> bool" where
  "no_brackets t \<longleftrightarrow> CHR ''['' \<notin> set t \<and> CHR '']'' \<notin> set t \<and> newline \<notin> set t"

lemma after_block_plain:
  "CHR ''['' \<notin> set t \<Longrightarrow> CHR '']'' \<notin> set t \<Longrightarrow> after_block 1 (t @ CHR '']'' # r) = Some r"
  by (induction t) auto

definition sd_text :: "dict \<Rightarrow> string" where
  "sd_text r = SD_ID @ '' seq='' @ [CHR 34] @ sd_value (dget_null r ''seq'') @ [CHR 34]
     @ '' hash='' @ [CHR 34] @ sd_value (dget_null r ''hash'') @ [CHR 34]
     @ '' category='' @ [CHR 34] @ sd_value (dget_null r ''category'') @ [CHR 34]"

lemma sd_text_plain:
  assumes "\<forall>k \<in> set [''seq'', ''hash'', ''category'']. no_brackets (sd_value (dget_null r k))"
  shows "no_brackets (sd_text r)"
  using assms by (simp add: no_brackets_def sd_text_def SD_ID_def)

lemma strip_exported:
  assumes "no_brackets t" "p = c # p'" "not_space c" "c \<noteq> CHR ''[''"
  shows "strip_structured_data (CHR ''['' # t @ CHR '']'' # CHR '' '' # p) = p"
proof -
  have a: "after_block 1 (t @ CHR '']'' # CHR '' '' # p) = Some (CHR '' '' # p)"
    using assms(1) by (intro after_block_plain) (simp_all add: no_brackets_def)
  have l: "lstrip (CHR '' '' # p) = p" using assms space_char by (simp add: lstrip_def not_space_def)
  have "strip_blocks p = p" using assms by (subst strip_blocks.simps) simp
  then show ?thesis unfolding strip_structured_data_def
    by (subst strip_blocks.simps) (simp add: a l)
qed

lemma header_token_graphic:
  assumes "fallback \<noteq> []" "\<forall>c \<in> set fallback. not_space c"
  shows "header_token v fallback \<noteq> []" "\<forall>c \<in> set (header_token v fallback). not_space c"
proof -
  have g: "is_graphic c \<Longrightarrow> c \<noteq> CHR '' '' \<Longrightarrow> not_space c" for c
    by (auto simp: is_graphic_def not_space_def is_space_def is_bspace_def less_eq_char_def)
  have u: "not_space (CHR ''_'')" by code_simp
  have "\<forall>c \<in> set (take 48 (map (\<lambda>c. if c = CHR '' '' then CHR ''_'' else c) (substitute is_graphic s))). not_space c" for s
    using g u by (auto simp: substitute_def dest!: in_set_takeD)
  then show "header_token v fallback \<noteq> []" "\<forall>c \<in> set (header_token v fallback). not_space c"
    using assms unfolding header_token_def Let_def by auto
qed

lemma export_severity: "severity r \<in> {3, 4, 5, 6}"
  by (simp add: severity_def Let_def)

lemma prefix_text:
  assumes "0 \<le> facility"
  shows "rfc5424_prefix now r facility @ p =
     CHR ''<'' # nat_text (nat (facility * 8 + severity r)) @ CHR ''>'' # ''1'' @ CHR '' '' # field_text r ''ts'' now
     @ CHR '' '' # ''homeassistant'' @ CHR '' '' # ''ha-soc'' @ CHR '' '' # ''-'' @ CHR '' '' #
     header_token (dget_null r ''category'') ''ha_soc'' @ CHR '' '' # CHR ''['' # sd_text r @ CHR '']'' # CHR '' '' # p"
proof -
  have "0 \<le> facility * 8 + severity r" using assms export_severity [of r] by auto
  then show ?thesis by (simp add: rfc5424_prefix_def sd_text_def int_text_def)
qed

lemma read_exported:
  assumes fac: "0 \<le> facility" "facility \<le> 23"
    and ts: "field_text r ''ts'' now \<notin> {[], ''-''}" "\<forall>c \<in> set (field_text r ''ts'' now). not_space c"
    and sd: "\<forall>k \<in> set [''seq'', ''hash'', ''category'']. no_brackets (sd_value (dget_null r k))"
    and p: "p = c # p'" "not_space c" "c \<noteq> CHR ''[''" "newline \<notin> set p" "last p \<noteq> CHR 13"
  shows "parse_syslog_line shown receipt dh (rfc5424_prefix now r facility @ p)
    = Inr \<lparr>sy_format = ''rfc5424'', sy_facility = Some (nat facility), sy_severity = Some (nat (severity r)),
           sy_severity_name = Some (SEVERITY_NAMES ! nat (severity r)), sy_timestamp = field_text r ''ts'' now,
           sy_hostname = ''homeassistant'', sy_app_name = Some ''ha-soc'', sy_message = take 4096 p, sy_raw = False\<rparr>"
proof -
  let ?line = "rfc5424_prefix now r facility @ p" let ?n = "nat (facility * 8 + severity r)"
  let ?rest = "CHR ''['' # sd_text r @ CHR '']'' # CHR '' '' # p"
  let ?tok = "header_token (dget_null r ''category'') ''ha_soc''"
  have sev: "severity r \<in> {3, 4, 5, 6}" by (rule export_severity)
  obtain f s where "facility = int f" "severity r = int s" using fac(1) sev zero_le_imp_eq_int [of facility]
      zero_le_imp_eq_int [of "severity r"] by fastforce
  then have n: "?n \<le> 191" "?n div 8 = nat facility" "?n mod 8 = nat (severity r)"
    using fac(2) sev by (auto simp: nat_add_distrib nat_mult_distrib)
  have line: "rstrip_newlines ?line = ?line"
  proof (rule rstrip_kept)
    have "last ?line = last p" using p(1) by simp
    then show "last ?line \<noteq> CHR 13" "last ?line \<noteq> newline" using p(1,4,5) last_in_set [of p] by (auto simp del: last.simps)
  qed (use p(1) in simp)
  have ns: "\<forall>c \<in> set ''homeassistant''. not_space c" "\<forall>c \<in> set ''ha-soc''. not_space c" "not_space (CHR ''-'')"
    "not_space (CHR ''h'')" "not_space (CHR ''['')" "\<forall>c \<in> set ''ha_soc''. not_space c" by code_simp+
  note tok = header_token_graphic [OF _ ns(6), of "dget_null r ''category''"]
  note t0 = prefix_text [OF fac(1), of now r p]
  have s0: "scan_pri ?line = Some (nat_text ?n, ''1'' @ CHR '' '' # field_text r ''ts'' now
     @ CHR '' '' # ''homeassistant'' @ CHR '' '' # ''ha-soc'' @ CHR '' '' # ''-'' @ CHR '' '' # ?tok @ CHR '' '' # ?rest)"
    unfolding t0 using n(1) by (intro scan_pri_app) simp
  have "is_digit (CHR ''1'')" "\<not> is_digit (CHR '' '')" by code_simp+
  then have s1: "digits_to 2 (''1'' @ CHR '' '' # u) = Some (''1'', CHR '' '' # u)" for u
    by (intro digits_app) auto
  have s2: "run1 is_space (CHR '' '' # field_text r ''ts'' now @ u) = Some ('' '', field_text r ''ts'' now @ u)" for u
    using ts by (intro gap) auto
  have w: "word (field_text r ''ts'' now @ CHR '' '' # ''homeassistant'' @ u) = Some (field_text r ''ts'' now, ''homeassistant'' @ u)"
    "word (''homeassistant'' @ CHR '' '' # ''ha-soc'' @ u) = Some (''homeassistant'', ''ha-soc'' @ u)"
    "word (''ha-soc'' @ CHR '' '' # ''-'' @ u) = Some (''ha-soc'', ''-'' @ u)"
    "word (''-'' @ CHR '' '' # ?tok @ u) = Some (''-'', ?tok @ u)"
    "word (?tok @ CHR '' '' # ?rest) = Some (?tok, ?rest)" for u
    using ts ns tok by (intro word_app; auto)+
  have o: "one_line ?rest = Some ?rest" using sd_text_plain [OF sd] p(4) by (simp add: one_line_def no_brackets_def)
  have "match_rfc5424 ?line = Some \<lparr>m5_pri = nat_text ?n, m5_timestamp = field_text r ''ts'' now,
      m5_hostname = ''homeassistant'', m5_app = ''ha-soc'', m5_rest = ?rest\<rparr>"
    unfolding match_rfc5424_def s0 by (simp only: bind.bind_lunit prod.case s1 s2 w o)
  moreover have "strip_structured_data ?rest = p" using sd_text_plain [OF sd] p(1-3) by (intro strip_exported)
  ultimately show ?thesis using ts(1)
    by (simp add: parse_syslog_line_def line entry_5424_def pri_fields [OF n(1)] n(2,3) bound_text_def
        SYSLOG_RECEIVER_FIELD_MAX_def SYSLOG_RECEIVER_MESSAGE_MAX_def)
qed

lemma compact_line:
  assumes "wf_json (JObj d)"
  shows "\<exists>p'. dumps_compact (JObj d) = CHR ''{'' # p'" "newline \<notin> set (dumps_compact (JObj d))"
    "last (dumps_compact (JObj d)) \<noteq> CHR 13"
proof -
  show s: "\<exists>p'. dumps_compact (JObj d) = CHR ''{'' # p'" by (simp add: dumps_with.simps)
  have "\<forall>c \<in> set (dumps_compact (JObj d)). printable c" using printable_compact [OF assms] by blast
  then show "newline \<notin> set (dumps_compact (JObj d))" "last (dumps_compact (JObj d)) \<noteq> CHR 13"
    using printable_not_newline s last_in_set [of "dumps_compact (JObj d)"] by fastforce+
qed



end
