(* ===== verification/ProbeConfig.thy ===== *)
theory ProbeConfig
  imports PyInt SecretStore
begin

text \<open>
  What the add-on polls for: the SNMP agent's configuration (\<open>snmp.py\<close>), the network scan's
  (\<open>netscan.py\<close>), the syslog receiver's (\<open>syslog_receiver.py\<close>) and the container limits
  (\<open>resource_watchdog.py\<close>). Each configuration carries a generation, the SHA-256 (\<open>H\<close>) of its
  canonical JSON, by which the add-on recognises one it has already.
\<close>

declare dumps_with.simps [simp del]

declare wf_json.simps(3) [simp del]

section \<open>Change tokens\<close>

definition generation_of :: "(string \<Rightarrow> string) \<Rightarrow> dict \<Rightarrow> string" where
  "generation_of H material = H (dumps_compact (JObj material))"

definition with_generation :: "(string \<Rightarrow> string) \<Rightarrow> dict \<Rightarrow> dict" where
  "with_generation H material = material @ [(''generation'', JStr (generation_of H material))]"

section \<open>SNMP\<close>

definition is_snmp_name_char :: "char \<Rightarrow> bool" where
  "is_snmp_name_char c \<longleftrightarrow> is_lower c \<or> is_upper c \<or> is_digit c \<or> c \<in> set ''_.-''"

definition is_passphrase_char :: "char \<Rightarrow> bool" where
  "is_passphrase_char c \<longleftrightarrow> is_lower c \<or> is_upper c \<or> is_digit c \<or> c \<in> set ''._~!@$%^&*+=:,-''"

definition validate_snmp_username :: "json \<Rightarrow> string res" where
  "validate_snmp_username v =
     (let t = strip (py_str v)
      in if 1 \<le> length t \<and> length t \<le> 32 \<and> list_all is_snmp_name_char t then Inr t else Inl Invalid)"

definition validate_snmp_passphrase :: "json \<Rightarrow> string res" where
  "validate_snmp_passphrase v =
     (let t = py_str v
      in if t = [] then Inr t
         else if 20 \<le> length t \<and> length t \<le> 128 \<and> list_all is_passphrase_char t then Inr t
         else Inl Invalid)"

definition missing_fields :: "dict \<Rightarrow> dict \<Rightarrow> string list" where
  "missing_fields st secrets =
     filter (\<lambda>k. \<not> truthy (dget_null st k)) [''snmp_listen_address'', ''snmp_username'']
     @ filter (\<lambda>k. \<not> truthy (dget_null secrets k)) [''snmp_auth_passphrase'', ''snmp_priv_passphrase'']"

definition validate_enabled_config :: "dict \<Rightarrow> dict \<Rightarrow> unit res" where
  "validate_enabled_config st secrets =
     (if \<not> truthy (dget_default st ''snmp_enabled'' (JBool False)) then Inr ()
      else if missing_fields st secrets \<noteq> [] then Inl Invalid
      else if dget_null secrets ''snmp_auth_passphrase'' = dget_null secrets ''snmp_priv_passphrase'' then Inl Invalid
      else Inr ())"

definition json_or_null :: "json option \<Rightarrow> json" where
  "json_or_null v = (case v of None \<Rightarrow> JNull | Some x \<Rightarrow> x)"

definition snmp_material :: "dict \<Rightarrow> dict \<Rightarrow> bool \<Rightarrow> dict" where
  "snmp_material st secrets on =
     [(''enabled'', JBool on), (''listen_address'', dget_null st ''snmp_listen_address''),
      (''port'', dget_default st ''snmp_port'' (JInt 161)), (''username'', dget_null st ''snmp_username''),
      (''auth_passphrase'', if on then dget_null secrets ''snmp_auth_passphrase'' else JNull),
      (''priv_passphrase'', if on then dget_null secrets ''snmp_priv_passphrase'' else JNull),
      (''auth_protocol'', JStr ''SHA-256''), (''privacy_protocol'', JStr ''AES-128'')]"

definition snmp_config :: "(string \<Rightarrow> string) \<Rightarrow> dict \<Rightarrow> secret_store \<Rightarrow> dict res" where
  "snmp_config H st sec =
     bind_res (sec_get ''snmp_auth_passphrase'' sec) (\<lambda>a. bind_res (sec_get ''snmp_priv_passphrase'' sec) (\<lambda>p.
       let secrets = [(''snmp_auth_passphrase'', json_or_null a), (''snmp_priv_passphrase'', json_or_null p)];
           on = truthy (dget_default st ''snmp_enabled'' (JBool False))
       in bind_res (if on then validate_enabled_config st secrets else Inr ()) (\<lambda>_.
            Inr (with_generation H (snmp_material st secrets on)))))"

section \<open>Network scan\<close>

definition NETSCAN_PORT_MIN :: int where "NETSCAN_PORT_MIN = 1"
definition NETSCAN_PORT_MAX :: int where "NETSCAN_PORT_MAX = 65535"
definition NETSCAN_MAX_PORT_LIST_ENTRIES :: nat where "NETSCAN_MAX_PORT_LIST_ENTRIES = 64"
definition NETSCAN_MAX_CONCURRENCY_MIN :: int where "NETSCAN_MAX_CONCURRENCY_MIN = 1"
definition NETSCAN_MAX_CONCURRENCY_MAX :: int where "NETSCAN_MAX_CONCURRENCY_MAX = 128"
definition DEFAULT_NETSCAN_MAX_CONCURRENCY :: int where "DEFAULT_NETSCAN_MAX_CONCURRENCY = 32"

definition DEFAULT_NETSCAN_PORT_LIST :: "int list" where
  "DEFAULT_NETSCAN_PORT_LIST = [22, 23, 80, 443, 445, 3389, 8080, 8443]"

text \<open>\<open>vol.Coerce(int)\<close> followed by \<open>vol.Range\<close>.\<close>

definition coerce_in_range :: "int \<Rightarrow> int \<Rightarrow> json \<Rightarrow> int res" where
  "coerce_in_range lo hi v =
     bind_res (int_or_none v) (\<lambda>i. case i of
       None \<Rightarrow> Inl Invalid
     | Some n \<Rightarrow> if lo \<le> n \<and> n \<le> hi then Inr n else Inl Invalid)"

fun collect_ports :: "json list \<Rightarrow> int list \<Rightarrow> int list res" where
  "collect_ports [] ports = Inr ports"
| "collect_ports (v # vs) ports =
     bind_res (coerce_in_range NETSCAN_PORT_MIN NETSCAN_PORT_MAX v) (\<lambda>p.
       collect_ports vs (if p \<in> set ports then ports else ports @ [p]))"

definition validate_port_list :: "json \<Rightarrow> int list res" where
  "validate_port_list v =
     (case v of
        JNull \<Rightarrow> Inr DEFAULT_NETSCAN_PORT_LIST
      | JArr vs \<Rightarrow>
          if NETSCAN_MAX_PORT_LIST_ENTRIES < length vs then Inl Invalid
          else bind_res (collect_ports vs []) (\<lambda>ports. if ports = [] then Inl Invalid else Inr ports)
      | _ \<Rightarrow> Inl Invalid)"

definition validate_max_concurrency :: "json \<Rightarrow> int res" where
  "validate_max_concurrency = coerce_in_range NETSCAN_MAX_CONCURRENCY_MIN NETSCAN_MAX_CONCURRENCY_MAX"

definition is_hex :: "char \<Rightarrow> bool" where
  "is_hex c \<longleftrightarrow> hex_val c \<noteq> None"

definition is_mac :: "string \<Rightarrow> bool" where
  "is_mac t \<longleftrightarrow> (let ps = split_on (CHR '':'') t in length ps = 6 \<and> list_all (\<lambda>p. length p = 2 \<and> list_all is_hex p) ps)"

definition validate_mac :: "json \<Rightarrow> string option res" where
  "validate_mac v =
     (if v = JNull then Inr None
      else (let t = strip (py_str v)
            in if t = [] then Inr None else if is_mac t then Inr (Some (lower t)) else Inl Invalid))"

definition netscan_config :: "(string \<Rightarrow> string) \<Rightarrow> dict \<Rightarrow> dict res" where
  "netscan_config H st =
     (let on = truthy (dget_default st ''netscan_enabled'' (JBool False))
      in bind_res (validate_port_list (dget_null st ''netscan_port_list'')) (\<lambda>ports.
         bind_res (validate_max_concurrency
                     (dget_default st ''netscan_max_concurrency'' (JInt DEFAULT_NETSCAN_MAX_CONCURRENCY))) (\<lambda>n.
           Inr (with_generation H
                  [(''enabled'', JBool on), (''port_list'', JArr (map JInt ports)), (''max_concurrency'', JInt n)]))))"

text \<open>
  The hosts of the stored result that offer a service: for each address the highest confidence seen,
  sorted by address. \<open>or []\<close> may meet a value that cannot be iterated; the result that \<open>Probe\<close>
  stores has passed the schema, so the ports are a list or absent.
\<close>

definition better_match :: "string \<Rightarrow> json \<Rightarrow> (string \<times> json) list \<Rightarrow> (string \<times> json) list" where
  "better_match ip confidence out =
     (if dget out ip = None \<or> confidence = JStr ''high'' \<and> dget out ip = Some (JStr ''low'')
      then dset out ip confidence else out)"

fun match_ports :: "string \<Rightarrow> string \<Rightarrow> json list \<Rightarrow> (string \<times> json) list \<Rightarrow> (string \<times> json) list" where
  "match_ports service ip [] out = out"
| "match_ports service ip (JObj d # ps) out =
     match_ports service ip ps
       (if dget_null d ''service_guess'' = JStr service
        then better_match ip (or_else (dget_null d ''service_confidence'') (JStr ''low'')) out else out)"
| "match_ports service ip (p # ps) out = match_ports service ip ps out"

fun match_hosts :: "string \<Rightarrow> json list \<Rightarrow> (string \<times> json) list \<Rightarrow> (string \<times> json) list" where
  "match_hosts service [] out = out"
| "match_hosts service (JObj h # hs) out =
     match_hosts service hs
       (case dget_null h ''ip'' of
          JStr ip \<Rightarrow>
            if ip = [] then out
            else (case dget_null h ''open_ports'' of JArr ps \<Rightarrow> match_ports service ip ps out | _ \<Rightarrow> out)
        | _ \<Rightarrow> out)"
| "match_hosts service (h # hs) out = match_hosts service hs out"

definition candidate_hosts_for_service :: "json \<Rightarrow> string \<Rightarrow> json list" where
  "candidate_hosts_for_service result service =
     (case (case result of JObj d \<Rightarrow> dget_null d ''hosts'' | v \<Rightarrow> v) of
        JArr hs \<Rightarrow> map (\<lambda>(ip, c). JObj [(''ip'', JStr ip), (''confidence'', c)])
                     (sort_key fst (match_hosts service hs []))
      | _ \<Rightarrow> [])"

section \<open>Syslog receiver\<close>

definition syslog_receiver_config :: "(string \<Rightarrow> string) \<Rightarrow> dict \<Rightarrow> dict res" where
  "syslog_receiver_config H st =
     bind_res (py_int (dget_default st ''syslog_receiver_port'' (JInt 5514))) (\<lambda>port.
       Inr (with_generation H
              [(''enabled'', JBool (truthy (dget_default st ''syslog_receiver_enabled'' (JBool False)))),
               (''port'', JInt port)]))"

section \<open>Container limits\<close>

text \<open>The caps that are set, by add-on; an entry that is not a dict has no \<open>get\<close>.\<close>

fun active_limits :: "dict \<Rightarrow> dict res" where
  "active_limits [] = Inr []"
| "active_limits ((slug, v) # es) =
     (if \<not> truthy v then active_limits es
      else bind_res (as_table AttributeError v) (\<lambda>e. bind_res (active_limits es) (\<lambda>rest.
        Inr (if truthy (dget_null e ''memory_mb'') \<or> truthy (dget_null e ''cpus'')
             then (slug, JObj [(''memory_mb'', dget_null e ''memory_mb''), (''cpus'', dget_null e ''cpus'')]) # rest
             else rest))))"

definition resource_limits_for_probe :: "soc_store \<Rightarrow> dict option res" where
  "resource_limits_for_probe s =
     bind_res (item (sd s) ''resource_watchdog'') (\<lambda>v. bind_res (as_table AttributeError v) (\<lambda>w.
     bind_res (as_table AttributeError (or_else (dget_null w ''hard_limits'') (JObj []))) (\<lambda>limits.
     bind_res (active_limits limits) (\<lambda>active.
       Inr (if active = [] then None else Some [(''limits'', JObj active)])))))"

text \<open>What the add-on says is applied. The report has passed the schema: a dict of dicts.\<close>

definition limit_entry :: "string \<Rightarrow> dict \<Rightarrow> json" where
  "limit_entry at e =
     JObj [(''status'', JStr (py_str (or_else (dget_null e ''status'') (JStr ''unknown'')))),
           (''detail'', if truthy (dget_null e ''detail'') then JStr (py_str (dget_null e ''detail'')) else JNull),
           (''at'', JStr at)]"

definition store_limit_report :: "string \<Rightarrow> (string \<times> dict) list \<Rightarrow> soc_store \<Rightarrow> soc_store res" where
  "store_limit_report at report s =
     then_save (on_table AttributeError ''resource_watchdog'' (\<lambda>w.
       bind_res (as_table TypeError (dget_default w ''hard_limit_state'' (JObj []))) (\<lambda>state.
         Inr (dset w ''hard_limit_state''
                (JObj (foldl (\<lambda>t (slug, e). dset t slug (limit_entry at e)) state report))))) s)"

section \<open>What the configurations hold\<close>

lemma coerce_in_range_Inr: "coerce_in_range lo hi v = Inr n \<Longrightarrow> lo \<le> n \<and> n \<le> hi"
  by (auto simp: coerce_in_range_def bind_res_Inr split: option.splits if_splits)

lemma collect_ports_ok:
  "collect_ports vs ports = Inr qs \<Longrightarrow> distinct ports \<Longrightarrow> list_all (\<lambda>p. 1 \<le> p \<and> p \<le> 65535) ports \<Longrightarrow>
    distinct qs \<and> list_all (\<lambda>p. 1 \<le> p \<and> p \<le> 65535) qs \<and> length qs \<le> length ports + length vs"
proof (induction vs arbitrary: ports)
  case (Cons v vs)
  obtain p where p: "coerce_in_range NETSCAN_PORT_MIN NETSCAN_PORT_MAX v = Inr p"
      "collect_ports vs (if p \<in> set ports then ports else ports @ [p]) = Inr qs"
    using Cons.prems(1) by (auto simp: bind_res_Inr)
  have r: "1 \<le> p" "p \<le> 65535" using coerce_in_range_Inr [OF p(1)] by (simp_all add: NETSCAN_PORT_MIN_def NETSCAN_PORT_MAX_def)
  show ?case
  proof (cases "p \<in> set ports")
    case True
    then show ?thesis using Cons.IH [OF p(2)] Cons.prems(2,3) by auto
  next
    case False
    then show ?thesis using Cons.IH [OF p(2)] Cons.prems(2,3) r by simp
  qed
qed simp

lemma validate_port_list_ok:
  assumes "validate_port_list v = Inr ps"
  shows "ps \<noteq> []" "distinct ps" "list_all (\<lambda>p. 1 \<le> p \<and> p \<le> 65535) ps" "length ps \<le> 64"
proof -
  have "ps \<noteq> [] \<and> distinct ps \<and> list_all (\<lambda>p. 1 \<le> p \<and> p \<le> 65535) ps \<and> length ps \<le> 64"
  proof (cases v)
    case JNull
    then show ?thesis using assms by (auto simp: validate_port_list_def DEFAULT_NETSCAN_PORT_LIST_def)
  next
    case (JArr vs)
    then have "collect_ports vs [] = Inr ps" "ps \<noteq> []" "length vs \<le> 64"
      using assms by (auto simp: validate_port_list_def NETSCAN_MAX_PORT_LIST_ENTRIES_def bind_res_Inr split: if_splits)
    then show ?thesis using collect_ports_ok [of vs "[]" ps] by auto
  qed (use assms in \<open>simp_all add: validate_port_list_def\<close>)
  then show "ps \<noteq> []" "distinct ps" "list_all (\<lambda>p. 1 \<le> p \<and> p \<le> 65535) ps" "length ps \<le> 64" by auto
qed

text \<open>An enabled agent has both passphrases, and they differ; a disabled one gets none.\<close>

lemma snmp_config_shape:
  assumes "snmp_config H st sec = Inr d"
  defines "auth \<equiv> dget_null d ''auth_passphrase''" and "priv \<equiv> dget_null d ''priv_passphrase''"
  shows "if truthy (dget_default st ''snmp_enabled'' (JBool False))
         then truthy auth \<and> truthy priv \<and> auth \<noteq> priv \<and> truthy (dget_null st ''snmp_username'')
         else auth = JNull \<and> priv = JNull"
    "dget_null d ''enabled'' = JBool (truthy (dget_default st ''snmp_enabled'' (JBool False)))"
  using assms
  by (auto simp: snmp_config_def bind_res_Inr Let_def validate_enabled_config_def missing_fields_def
      with_generation_def snmp_material_def dget_default_def split: if_splits)

end
