(* ===== verification/Probe.thy ===== *)
theory Probe
  imports ProbeConfig ExternalAudit FirewallSys
begin

text \<open>
  The service endpoints of \<open>probe.py\<close> that the add-on calls, and the pairing in \<open>firewall.py\<close> they
  rest on. A call has passed its service schema, so a request is a value of \<open>probe_request\<close>. What
  a handler reads from outside is in \<open>probe_env\<close>: the clocks, the id that the lookup of the
  Supervisor's user gives, whether the secret file can be written, and SHA-256. The \<open>firewall\<close> entry
  of the store's data is kept beside it, with its own type. A handler that raises gives the
  exception.
\<close>

declare dumps_with.simps [simp del]

declare wf_json.simps(3) [simp del]

section \<open>Pairing\<close>

definition verify_or_pin_secret :: "bool \<Rightarrow> string option \<Rightarrow> secret_store \<Rightarrow> (secret_store \<times> bool) res" where
  "verify_or_pin_secret wr presented sec =
     (if presented = None \<or> presented = Some [] then Inr (sec, False)
      else bind_res (sec_get PROBE_PAIRING_SECRET_KEY sec) (\<lambda>pinned.
        case pinned of
          None \<Rightarrow>
            bind_res (sec_set wr PROBE_PAIRING_SECRET_KEY (JStr (the presented)) sec) (\<lambda>sec1. Inr (sec1, True))
        | Some v \<Rightarrow> bind_res (compare_digest (the presented) v) (\<lambda>ok. Inr (sec, ok))))"

definition reset_addon_secret :: "bool \<Rightarrow> secret_store \<Rightarrow> secret_store res" where
  "reset_addon_secret wr sec = sec_set wr PROBE_PAIRING_SECRET_KEY JNull sec"

section \<open>State and requests\<close>

record probe_sys =
  pb_log :: alog
  pb_store :: soc_store
  pb_fw :: firewall
  pb_secrets :: secret_store
  pb_supervisor :: "string option"
  pb_warned_at :: "(string option \<times> int) list"
  pb_warnings :: nat

record probe_env =
  pe_mono :: int
  pe_clock :: clock
  pe_resolved :: "string option"
  pe_saved :: bool
  pe_hash :: "string \<Rightarrow> string"

record probe_call =
  pc_user :: "string option"
  pc_secret :: "string option"

record ingest_data =
  id_open_ports :: "json list option"
  id_interfaces :: json
  id_scanner_version :: json
  id_report :: fw_report
  id_limits :: "(string \<times> dict) list option"
  id_snmp_status :: "dict option"
  id_netscan_result :: "json list option"
  id_netscan_caps :: "(string \<times> bool) list option"
  id_syslog_entries :: "json list option"
  id_syslog_status :: "dict option"

datatype probe_request =
    Ingest ingest_data
  | Poll_firewall "string option"
  | Poll_snmp "string option"
  | Poll_netscan
  | Poll_syslog_receiver "string option"

datatype probe_reply =
    No_reply
  | Command command "dict option"
  | Config dict

fun service_name :: "probe_request \<Rightarrow> string" where
  "service_name (Ingest d) = ''ingest_probe_result''"
| "service_name (Poll_firewall i) = ''poll_firewall_command''"
| "service_name (Poll_snmp g) = ''poll_snmp_config''"
| "service_name Poll_netscan = ''poll_netscan_config''"
| "service_name (Poll_syslog_receiver g) = ''poll_syslog_receiver_config''"

definition REJECT_WARN_INTERVAL_SECONDS :: int where "REJECT_WARN_INTERVAL_SECONDS = 600"

section \<open>Authentication\<close>

definition probe_rejected_event :: "string \<Rightarrow> string option \<Rightarrow> string \<Rightarrow> audit_event" where
  "probe_rejected_event service caller reason =
     (plain_event ''probe_auth_rejected'')
       \<lparr>ev_user_id := caller,
        ev_detail := Some (PDict [(KStr ''service'', PStr service), (KStr ''caller_user_id'', opt_str caller),
          (KStr ''reason'', PStr reason)])\<rparr>"

text \<open>The record is written every time, the warning at most every ten minutes for a caller.\<close>

definition note_rejection :: "probe_env \<Rightarrow> string \<Rightarrow> string option \<Rightarrow> string \<Rightarrow> probe_sys \<Rightarrow> probe_sys" where
  "note_rejection e service caller reason s =
     (let s = s\<lparr>pb_log := async_log (iso_now (pe_clock e)) (probe_rejected_event service caller reason) (pb_log s)\<rparr>;
          interval = REJECT_WARN_INTERVAL_SECONDS * us_second;
          last = (case dget (pb_warned_at s) caller of None \<Rightarrow> - interval | Some t \<Rightarrow> t)
      in if interval \<le> pe_mono e - last
         then s\<lparr>pb_warned_at := dset (pb_warned_at s) caller (pe_mono e), pb_warnings := pb_warnings s + 1\<rparr>
         else s)"

definition call_rejected :: "probe_env \<Rightarrow> probe_call \<Rightarrow> string \<Rightarrow> probe_sys \<Rightarrow> (probe_sys \<times> string option) res" where
  "call_rejected e c service s =
     (let sid = (case pb_supervisor s of None \<Rightarrow> pe_resolved e | Some i \<Rightarrow> Some i);
          s = s\<lparr>pb_supervisor := sid\<rparr>
      in bind_res
           (if pc_user c = None \<or> pc_user c \<noteq> sid then Inr (s, Some ''not_supervisor'')
            else if pc_secret c = None \<or> pc_secret c = Some [] then Inr (s, Some ''no_secret'')
            else bind_res (verify_or_pin_secret (pe_saved e) (pc_secret c) (pb_secrets s)) (\<lambda>(sec, ok).
              Inr (s\<lparr>pb_secrets := sec\<rparr>, if ok then None else Some ''bad_secret'')))
           (\<lambda>(s, reason).
             case reason of
               None \<Rightarrow> Inr (s, None)
             | Some why \<Rightarrow> Inr (note_rejection e service (pc_user c) why s, Some why)))"

section \<open>Handlers\<close>

definition FIREWALL_CAPABILITIES :: "string list" where
  "FIREWALL_CAPABILITIES = [''multiport'', ''comment'', ''log'', ''limit'', ''reject'', ''icmp'']"

definition NETSCAN_CAPABILITIES :: "string list" where "NETSCAN_CAPABILITIES = [''tcp_connect'']"

definition known_keys :: "string list \<Rightarrow> (string \<times> bool) list option \<Rightarrow> (string \<times> bool) list option" where
  "known_keys names reported =
     map_option (\<lambda>r. List.map_filter (\<lambda>k. map_option (\<lambda>b. (k, b)) (dget r k)) names) reported"

definition known_capabilities :: "(string \<times> bool) list option \<Rightarrow> (string \<times> bool) list option" where
  "known_capabilities = known_keys FIREWALL_CAPABILITIES"

definition known_netscan_capabilities :: "(string \<times> bool) list option \<Rightarrow> (string \<times> bool) list option" where
  "known_netscan_capabilities = known_keys NETSCAN_CAPABILITIES"

definition caps_json :: "(string \<times> bool) list option \<Rightarrow> json" where
  "caps_json cs = (case cs of None \<Rightarrow> JNull | Some r \<Rightarrow> JObj (map (\<lambda>(k, b). (k, JBool b)) r))"

definition when_given :: "'a option \<Rightarrow> ('a \<Rightarrow> soc_store \<Rightarrow> soc_store res) \<Rightarrow> soc_store \<Rightarrow> soc_store res" where
  "when_given x f st = (case x of None \<Rightarrow> Inr st | Some v \<Rightarrow> f v st)"

text \<open>What an accepted ingest stores, in the order of the handler, but for the firewall's part.\<close>

definition host_probe_entry :: "string \<Rightarrow> ingest_data \<Rightarrow> json list \<Rightarrow> dict" where
  "host_probe_entry now d ports =
     [(''open_ports'', JArr ports), (''interfaces'', id_interfaces d), (''scanner_version'', id_scanner_version d),
      (''reported_at'', JStr now)]"

definition netscan_entry :: "string \<Rightarrow> ingest_data \<Rightarrow> json list \<Rightarrow> dict" where
  "netscan_entry now d hosts =
     [(''hosts'', JArr hosts), (''capabilities'', caps_json (known_netscan_capabilities (id_netscan_caps d))),
      (''scanner_version'', id_scanner_version d), (''reported_at'', JStr now)]"

definition store_reports :: "string \<Rightarrow> ingest_data \<Rightarrow> soc_store \<Rightarrow> soc_store res" where
  "store_reports now d st =
     bind_res (when_given (id_limits d) (store_limit_report now) st) (\<lambda>st.
     bind_res (when_given (id_snmp_status d) (\<lambda>v st. Inr (async_set_snmp_status (dset v ''reported_at'' (JStr now)) st)) st) (\<lambda>st.
     bind_res (when_given (id_netscan_result d) (\<lambda>v st. Inr (async_set_netscan_result (netscan_entry now d v) st)) st) (\<lambda>st.
     bind_res (when_given (id_syslog_entries d) (\<lambda>v. async_append_syslog_entries v SYSLOG_RECEIVER_MAX_ENTRIES) st) (\<lambda>st.
       when_given (id_syslog_status d)
         (\<lambda>v st. Inr (async_set_syslog_receiver_status (dset v ''reported_at'' (JStr now)) st)) st))))"

definition log_all :: "string \<Rightarrow> audit_event list \<Rightarrow> alog \<Rightarrow> alog" where
  "log_all now evs l = fold (async_log now) evs l"

definition probe_ingest :: "probe_env \<Rightarrow> ingest_data \<Rightarrow> probe_sys \<Rightarrow> (probe_sys \<times> probe_reply) res" where
  "probe_ingest e d s =
     (let now = iso_now (pe_clock e);
          st0 = (case id_open_ports d of
                   None \<Rightarrow> pb_store s
                 | Some ports \<Rightarrow> async_set_host_probe_result (host_probe_entry now d ports) (pb_store s));
          r = id_report d
      in bind_res (report_from_addon (pe_clock e)
                     (r\<lparr>fr_caps := known_capabilities (fr_caps r), fr_no_current := False\<rparr>) (pb_fw s)) (\<lambda>(fw, evs).
         bind_res (store_reports now d st0) (\<lambda>st.
           Inr (s\<lparr>pb_fw := fw, pb_log := log_all now evs (pb_log s), pb_store := st\<rparr>, No_reply))))"

definition settings_of :: "soc_store \<Rightarrow> dict res" where
  "settings_of st = bind_res (settings st) (as_table AttributeError)"

definition poll_firewall :: "probe_env \<Rightarrow> string option \<Rightarrow> probe_sys \<Rightarrow> (probe_sys \<times> probe_reply) res" where
  "poll_firewall e current s =
     bind_res (next_addon_command (pe_clock e) current (pb_fw s)) (\<lambda>(fw, cmd, evs).
     bind_res (resource_limits_for_probe (pb_store s)) (\<lambda>limits.
       Inr (s\<lparr>pb_fw := fw, pb_log := log_all (iso_now (pe_clock e)) evs (pb_log s)\<rparr>, Command cmd limits)))"

text \<open>A configuration the add-on has already is answered with its generation only.\<close>

definition unless_known :: "string option \<Rightarrow> dict \<Rightarrow> dict" where
  "unless_known known config =
     (if opt_json known = dget_null config ''generation''
      then [(''enabled'', dget_null config ''enabled''), (''generation'', dget_null config ''generation'')]
      else config)"

definition poll_snmp :: "probe_env \<Rightarrow> string option \<Rightarrow> probe_sys \<Rightarrow> (probe_sys \<times> probe_reply) res" where
  "poll_snmp e known s =
     bind_res (settings_of (pb_store s)) (\<lambda>st. bind_res (snmp_config (pe_hash e) st (pb_secrets s)) (\<lambda>config.
       Inr (s, Config (unless_known known config))))"

definition poll_netscan :: "probe_env \<Rightarrow> probe_sys \<Rightarrow> (probe_sys \<times> probe_reply) res" where
  "poll_netscan e s =
     bind_res (settings_of (pb_store s)) (\<lambda>st. bind_res (netscan_config (pe_hash e) st) (\<lambda>config.
       Inr (s, Config (dset config ''rescan_requested_at'' (dget_null (sd (pb_store s)) ''netscan_rescan_requested_at'')))))"

definition poll_syslog_receiver :: "probe_env \<Rightarrow> string option \<Rightarrow> probe_sys \<Rightarrow> (probe_sys \<times> probe_reply) res" where
  "poll_syslog_receiver e known s =
     bind_res (settings_of (pb_store s)) (\<lambda>st. bind_res (syslog_receiver_config (pe_hash e) st) (\<lambda>config.
       Inr (s, Config (unless_known known config))))"

text \<open>What a rejected caller is answered.\<close>

fun refusal :: "probe_request \<Rightarrow> probe_reply" where
  "refusal (Ingest d) = No_reply"
| "refusal (Poll_firewall i) = Command No_command None"
| "refusal q = Config [(''enabled'', JBool False)]"

fun handle :: "probe_env \<Rightarrow> probe_request \<Rightarrow> probe_sys \<Rightarrow> (probe_sys \<times> probe_reply) res" where
  "handle e (Ingest d) s = probe_ingest e d s"
| "handle e (Poll_firewall i) s = poll_firewall e i s"
| "handle e (Poll_snmp g) s = poll_snmp e g s"
| "handle e Poll_netscan s = poll_netscan e s"
| "handle e (Poll_syslog_receiver g) s = poll_syslog_receiver e g s"

definition serve :: "probe_env \<Rightarrow> probe_call \<Rightarrow> probe_request \<Rightarrow> probe_sys \<Rightarrow> (probe_sys \<times> probe_reply) res" where
  "serve e c q s =
     bind_res (call_rejected e c (service_name q) s) (\<lambda>(s, reason).
       case reason of None \<Rightarrow> handle e q s | Some why \<Rightarrow> Inr (s, refusal q))"

end
