(* ===== verification/ProbeTheorems.thy ===== *)
theory ProbeTheorems
  imports Probe
begin

text \<open>
  The add-on's endpoints: a secret pinned at first use (a locale for the gate that both the add-on and
  the external sources pass), calls that are not trusted, and what a poll for the SNMP configuration
  discloses.
\<close>

declare dumps_with.simps [simp del]

declare wf_json.simps(3) [simp del]

section \<open>Secrets pinned at first use\<close>

text \<open>A run of an operation over a list of arguments, up to an exception.\<close>

fun run_res :: "('a \<Rightarrow> 's \<Rightarrow> ('s \<times> 'b) res) \<Rightarrow> 'a list \<Rightarrow> 's \<Rightarrow> ('s \<times> 'b list) res" where
  "run_res f [] s = Inr (s, [])"
| "run_res f (a # as) s =
     bind_res (f a s) (\<lambda>(s1, b). bind_res (run_res f as s1) (\<lambda>(s2, bs). Inr (s2, b # bs)))"

locale secret_gate =
  fixes present :: "string \<Rightarrow> 's \<Rightarrow> ('s \<times> bool) res"
    and pinned :: "'s \<Rightarrow> string option"
    and sound :: "'s \<Rightarrow> bool"
    and given :: "string \<Rightarrow> bool"
  assumes first_pins: "sound s \<Longrightarrow> given t \<Longrightarrow> pinned s = None \<Longrightarrow>
      \<exists>s'. present t s = Inr (s', True) \<and> sound s' \<and> pinned s' = Some t"
    and later_compares: "sound s \<Longrightarrow> given t \<Longrightarrow> pinned s = Some v \<Longrightarrow> present t s = Inr (s', ok) \<Longrightarrow> s' = s \<and> ok = (t = v)"
begin

lemma pin_stays:
  assumes "sound s" "pinned s = Some v" "list_all given ts" "run_res present ts s = Inr (s', oks)"
  shows "s' = s \<and> oks = map (\<lambda>t. t = v) ts"
  using assms(3,4)
proof (induction ts arbitrary: oks)
  case (Cons t ts)
  obtain s1 ok oks1 where 1: "present t s = Inr (s1, ok)" "run_res present ts s1 = Inr (s', oks1)" "oks = ok # oks1"
    using Cons.prems(2) by (auto simp: bind_res_Inr)
  have 2: "s1 = s" "ok = (t = v)" using later_compares [OF assms(1) _ assms(2) 1(1)] Cons.prems(1) by auto
  show ?case using Cons.IH [of oks1] Cons.prems(1) 1(2,3) 2 by simp
qed simp

lemma first_decides:
  assumes "sound s" "pinned s = None" "list_all given (t # ts)" "run_res present (t # ts) s = Inr (s', oks)"
  shows "sound s' \<and> pinned s' = Some t \<and> oks = True # map (\<lambda>x. x = t) ts"
proof -
  obtain s1 where 1: "present t s = Inr (s1, True)" "sound s1" "pinned s1 = Some t"
    using first_pins [OF assms(1) _ assms(2), of t] assms(3) by auto
  then obtain oks1 where 2: "run_res present ts s1 = Inr (s', oks1)" "oks = True # oks1"
    using assms(4) by (auto simp: bind_res_Inr)
  show ?thesis using pin_stays [OF 1(2,3) _ 2(1)] assms(3) 1(2,3) 2(2) by simp
qed

end

definition probe_pin :: "secret_store \<Rightarrow> string option" where
  "probe_pin sec = Option.bind (dget (sec_data sec) PROBE_PAIRING_SECRET_KEY) as_str"

definition pin_is_text :: "secret_store \<Rightarrow> bool" where
  "pin_is_text sec \<longleftrightarrow> (case dget (sec_data sec) PROBE_PAIRING_SECRET_KEY of None \<Rightarrow> True | Some (JStr t) \<Rightarrow> True | _ \<Rightarrow> False)"

lemma pin_cases:
  assumes "pin_is_text sec"
  obtains "dget (sec_data sec) PROBE_PAIRING_SECRET_KEY = None" "probe_pin sec = None"
  | t where "dget (sec_data sec) PROBE_PAIRING_SECRET_KEY = Some (JStr t)" "probe_pin sec = Some t"
  using assms by (auto simp: pin_is_text_def probe_pin_def split: option.splits json.splits)

lemma pairing_key: "check_key PROBE_PAIRING_SECRET_KEY = Inr ()"
proof -
  have "PROBE_PAIRING_SECRET_KEY \<in> set ALLOWED_SECRET_KEYS" by (simp add: ALLOWED_SECRET_KEYS_def)
  then show ?thesis by (simp add: check_key_def)
qed

lemma pairing_set:
  "\<exists>sec'. sec_set wr PROBE_PAIRING_SECRET_KEY v sec = Inr sec'
     \<and> dget (sec_data sec') PROBE_PAIRING_SECRET_KEY = (if truthy v then Some v else None)
     \<and> (\<forall>k. k \<noteq> PROBE_PAIRING_SECRET_KEY \<longrightarrow> dget (sec_data sec') k = dget (sec_data sec) k)"
  by (simp add: sec_set_def pairing_key Let_def dict_simps)

lemma compare_digest_Inr: "compare_digest a v = Inr ok \<Longrightarrow> \<exists>t. v = JStr t \<and> ok = (a = t)"
  by (cases v) (auto simp: compare_digest_def split: if_splits)

interpretation pairing: secret_gate "\<lambda>t. verify_or_pin_secret wr (Some t)" probe_pin pin_is_text "\<lambda>t. t \<noteq> []" for wr
proof unfold_locales
  fix s :: secret_store and t :: string assume s: "pin_is_text s" and t: "t \<noteq> []" and p: "probe_pin s = None"
  have n: "dget (sec_data s) PROBE_PAIRING_SECRET_KEY = None" using s p by (auto elim: pin_cases)
  obtain s' where s': "sec_set wr PROBE_PAIRING_SECRET_KEY (JStr t) s = Inr s'"
      "dget (sec_data s') PROBE_PAIRING_SECRET_KEY = Some (JStr t)"
    using pairing_set [of wr "JStr t" s] t by auto
  have "verify_or_pin_secret wr (Some t) s = Inr (s', True)"
    using t by (simp add: verify_or_pin_secret_def sec_get_def pairing_key n s'(1))
  moreover have "pin_is_text s'" "probe_pin s' = Some t" by (simp_all add: pin_is_text_def probe_pin_def s'(2))
  ultimately show "\<exists>s'. verify_or_pin_secret wr (Some t) s = Inr (s', True) \<and> pin_is_text s' \<and> probe_pin s' = Some t" by blast
next
  fix s s' :: secret_store and t v :: string and ok
  assume s: "pin_is_text s" and t: "t \<noteq> []" and p: "probe_pin s = Some v"
    and r: "verify_or_pin_secret wr (Some t) s = Inr (s', ok)"
  have n: "dget (sec_data s) PROBE_PAIRING_SECRET_KEY = Some (JStr v)" using s p by (auto elim: pin_cases)
  then have "compare_digest t (JStr v) = Inr ok" "s' = s"
    using r t by (auto simp: verify_or_pin_secret_def sec_get_def pairing_key bind_res_Inr)
  then show "s' = s \<and> ok = (t = v)" using compare_digest_Inr by fastforce
qed

text \<open>The secrets of the external sources pass the same gate, one for each source.\<close>

definition source_pin :: "string \<Rightarrow> secret_store \<Rightarrow> string option" where
  "source_pin source sec =
     (case secret_table (dget (sec_data sec) EXTERNAL_AUDIT_SECRETS_KEY) of
        Inr (JObj t) \<Rightarrow> Option.bind (dget t source) as_str
      | _ \<Rightarrow> None)"

definition source_pins_text :: "secret_store \<Rightarrow> bool" where
  "source_pins_text sec \<longleftrightarrow> (\<exists>t. pins sec t \<and> (\<forall>k v. dget t k = Some v \<longrightarrow> (\<exists>p. v = JStr p)))"

lemma source_pin_eq:
  assumes "pins sec t" "\<forall>k v. dget t k = Some v \<longrightarrow> (\<exists>p. v = JStr p)"
  shows "dget t source = map_option JStr (source_pin source sec)"
proof -
  have g: "sec_get EXTERNAL_AUDIT_SECRETS_KEY sec = Inr (dget (sec_data sec) EXTERNAL_AUDIT_SECRETS_KEY)"
    by (simp add: sec_get_def external_key)
  obtain t' where t': "secret_table (dget (sec_data sec) EXTERNAL_AUDIT_SECRETS_KEY) = Inr (JObj t')"
      "\<And>k. dget t' k = map_option (canon True) (dget t k)"
    using pins_table [OF assms(1)] g by metis
  show ?thesis
  proof (cases "dget t source")
    case None
    then show ?thesis by (simp add: source_pin_def t')
  next
    case (Some v)
    then obtain p where "v = JStr p" using assms(2) by blast
    then show ?thesis using Some by (simp add: source_pin_def t')
  qed
qed

interpretation source_gate: secret_gate "source_secret_ok wr source" "source_pin source" source_pins_text "\<lambda>t. True" for wr source
proof unfold_locales
  fix s :: secret_store and t :: string assume s: "source_pins_text s" and p: "source_pin source s = None"
  obtain tb where tb: "pins s tb" "\<forall>k v. dget tb k = Some v \<longrightarrow> (\<exists>p. v = JStr p)" using s by (auto simp: source_pins_text_def)
  have n: "dget tb source = None" using source_pin_eq [OF tb] p by simp
  obtain s' t' where 1: "source_secret_ok wr source t s = Inr (s', True)" "pins s' t'"
      "\<forall>k. dget t' k = (if k = source then Some (JStr t) else map_option (canon True) (dget tb k))"
    using first_call_pins [OF tb(1) n] by blast
  have 2: "\<forall>k v. dget t' k = Some v \<longrightarrow> (\<exists>p. v = JStr p)"
  proof (intro allI impI)
    fix k v assume "dget t' k = Some v"
    then consider "v = JStr t" | u where "dget tb k = Some u" "v = canon True u"
      using 1(3) by (auto split: if_splits)
    then show "\<exists>p. v = JStr p"
    proof cases
      case (2 u)
      then obtain p where "u = JStr p" using tb(2) by blast
      then show ?thesis using 2 by simp
    qed simp
  qed
  have "source_pin source s' = Some t"
    using source_pin_eq [OF 1(2) 2, of source] 1(3) by (cases "source_pin source s'") auto
  then show "\<exists>s'. source_secret_ok wr source t s = Inr (s', True) \<and> source_pins_text s' \<and> source_pin source s' = Some t"
    using 1(1,2) 2 by (auto simp: source_pins_text_def)
next
  fix s s' :: secret_store and t v :: string and ok
  assume s: "source_pins_text s" and p: "source_pin source s = Some v" and r: "source_secret_ok wr source t s = Inr (s', ok)"
  obtain tb where tb: "pins s tb" "\<forall>k v. dget tb k = Some v \<longrightarrow> (\<exists>p. v = JStr p)" using s by (auto simp: source_pins_text_def)
  obtain t' where t': "sec_get EXTERNAL_AUDIT_SECRETS_KEY s = Inr (dget (sec_data s) EXTERNAL_AUDIT_SECRETS_KEY)"
      "secret_table (dget (sec_data s) EXTERNAL_AUDIT_SECRETS_KEY) = Inr (JObj t')"
      "\<And>k. dget t' k = map_option (canon True) (dget tb k)"
    using pins_table [OF tb(1)] by (metis sec_get_def external_key bind_res_simps(2))
  have "dget tb source = Some (JStr v)" using source_pin_eq [OF tb, of source] p by simp
  then have "dget t' source = Some (JStr v)" by (simp add: t'(3))
  then have "compare_digest t (JStr v) = Inr ok \<and> s' = s"
    using r by (auto simp: source_secret_ok_def t'(1,2) entry_def bind_res_Inr)
  then show "s' = s \<and> ok = (t = v)" using compare_digest_Inr by fastforce
qed



section \<open>Calls that are not trusted\<close>

definition supervisor_of :: "probe_env \<Rightarrow> probe_sys \<Rightarrow> string option" where
  "supervisor_of e s = (case pb_supervisor s of None \<Rightarrow> pe_resolved e | Some i \<Rightarrow> Some i)"

definition trusted :: "probe_env \<Rightarrow> probe_call \<Rightarrow> probe_sys \<Rightarrow> bool" where
  "trusted e c s \<longleftrightarrow>
     pc_user c \<noteq> None \<and> pc_user c = supervisor_of e s \<and> pc_secret c \<notin> {None, Some []}
     \<and> dget (sec_data (pb_secrets s)) PROBE_PAIRING_SECRET_KEY \<in> {None, map_option JStr (pc_secret c)}"

lemma note_rejection_simps [simp]:
  "pb_store (note_rejection e v u w s) = pb_store s" "pb_fw (note_rejection e v u w s) = pb_fw s"
  "pb_secrets (note_rejection e v u w s) = pb_secrets s" "pb_supervisor (note_rejection e v u w s) = pb_supervisor s"
  "pb_log (note_rejection e v u w s) = async_log (iso_now (pe_clock e)) (probe_rejected_event v u w) (pb_log s)"
  by (simp_all add: note_rejection_def Let_def)

lemma verify_cases:
  assumes "t \<noteq> []"
  shows "case dget (sec_data sec) PROBE_PAIRING_SECRET_KEY of
      None \<Rightarrow> \<exists>sec'. verify_or_pin_secret wr (Some t) sec = Inr (sec', True)
        \<and> dget (sec_data sec') PROBE_PAIRING_SECRET_KEY = Some (JStr t)
        \<and> (\<forall>k. k \<noteq> PROBE_PAIRING_SECRET_KEY \<longrightarrow> dget (sec_data sec') k = dget (sec_data sec) k)
    | Some v \<Rightarrow> verify_or_pin_secret wr (Some t) sec = Inl TypeError
        \<or> verify_or_pin_secret wr (Some t) sec = Inr (sec, v = JStr t)"
proof (cases "dget (sec_data sec) PROBE_PAIRING_SECRET_KEY")
  case None
  then show ?thesis using assms pairing_set [of wr "JStr t" sec]
    by (auto simp: verify_or_pin_secret_def sec_get_def pairing_key)
next
  case (Some v)
  then have "verify_or_pin_secret wr (Some t) sec = bind_res (compare_digest t v) (\<lambda>ok. Inr (sec, ok))"
    using assms by (simp add: verify_or_pin_secret_def sec_get_def pairing_key)
  moreover have "compare_digest t v = Inl TypeError \<or> compare_digest t v = Inr (v = JStr t)"
    by (cases v) (auto simp: compare_digest_def)
  ultimately show ?thesis using Some by auto
qed

lemma untrusted_rejected:
  assumes "\<not> trusted e c s"
  shows "call_rejected e c service s = Inl TypeError
     \<or> (\<exists>s' why. call_rejected e c service s = Inr (s', Some why) \<and> pb_store s' = pb_store s \<and> pb_fw s' = pb_fw s
          \<and> pb_secrets s' = pb_secrets s
          \<and> pb_log s' = async_log (iso_now (pe_clock e)) (probe_rejected_event service (pc_user c) why) (pb_log s))"
proof -
  let ?sid = "supervisor_of e s"
  consider "pc_user c = None \<or> pc_user c \<noteq> ?sid"
    | "pc_user c \<noteq> None" "pc_user c = ?sid" "pc_secret c = None \<or> pc_secret c = Some []"
    | t v where "pc_user c \<noteq> None" "pc_user c = ?sid" "pc_secret c = Some t" "t \<noteq> []"
        "dget (sec_data (pb_secrets s)) PROBE_PAIRING_SECRET_KEY = Some v" "v \<noteq> JStr t"
  proof (cases "(pc_user c = None \<or> pc_user c \<noteq> ?sid) \<or> pc_secret c = None \<or> pc_secret c = Some []")
    case True
    then show ?thesis using that(1,2) by blast
  next
    case False
    then obtain t where t: "pc_secret c = Some t" "t \<noteq> []" by auto
    then obtain v where "dget (sec_data (pb_secrets s)) PROBE_PAIRING_SECRET_KEY = Some v" "v \<noteq> JStr t"
      using assms False by (auto simp: trusted_def)
    then show ?thesis using that(3) t False by blast
  qed
  then show ?thesis
  proof cases
    case (3 t v)
    then show ?thesis using verify_cases [where t = t and sec = "pb_secrets s" and wr = "pe_saved e"]
      by (auto simp: call_rejected_def Let_def supervisor_of_def)
  qed (auto simp: call_rejected_def Let_def supervisor_of_def)
qed

lemma trusted_accepted:
  assumes "trusted e c s" "call_rejected e c service s = Inr (s', r)"
  shows "r = None \<and> pb_store s' = pb_store s \<and> pb_fw s' = pb_fw s \<and> pb_log s' = pb_log s
     \<and> dget (sec_data (pb_secrets s')) PROBE_PAIRING_SECRET_KEY = map_option JStr (pc_secret c)
     \<and> (\<forall>k. k \<noteq> PROBE_PAIRING_SECRET_KEY \<longrightarrow> dget (sec_data (pb_secrets s')) k = dget (sec_data (pb_secrets s)) k)"
proof -
  obtain t where t: "pc_secret c = Some t" "t \<noteq> []" using assms(1) by (auto simp: trusted_def)
  have u: "pc_user c \<noteq> None" "pc_user c = (case pb_supervisor s of None \<Rightarrow> pe_resolved e | Some i \<Rightarrow> Some i)"
    using assms(1) unfolding trusted_def supervisor_of_def by blast+
  note v = verify_cases [OF t(2), where sec = "pb_secrets s" and wr = "pe_saved e"]
  show ?thesis
  proof (cases "dget (sec_data (pb_secrets s)) PROBE_PAIRING_SECRET_KEY")
    case None
    then show ?thesis using v assms(2) u t by (auto simp: call_rejected_def Let_def)
  next
    case (Some w)
    then have "w = JStr t" using assms(1) t by (simp add: trusted_def)
    then show ?thesis using Some v assms(2) u t by (auto simp: call_rejected_def Let_def)
  qed
qed

text \<open>
  A call that is not trusted is inert: unless it comes from the Supervisor's user with the pinned
  secret (or any secret while none is pinned), no endpoint stores a report, moves the firewall test,
  pins a secret or answers with a command or a configuration; the refusal is recorded. (A secret
  that is not ASCII makes the comparison raise, and then nothing is answered or recorded.)
\<close>

theorem untrusted_call_is_inert:
  assumes "\<not> trusted e c s"
  shows "case serve e c q s of
      Inl x \<Rightarrow> x = TypeError
    | Inr (s', r) \<Rightarrow> r = refusal q \<and> pb_store s' = pb_store s \<and> pb_fw s' = pb_fw s \<and> pb_secrets s' = pb_secrets s
        \<and> (\<exists>why. pb_log s' = async_log (iso_now (pe_clock e)) (probe_rejected_event (service_name q) (pc_user c) why) (pb_log s))"
  using untrusted_rejected [OF assms, of "service_name q"] by (auto simp: serve_def)

definition w_pclock :: clock where
  "w_pclock = \<lparr>cl_now = 0, cl_iso = (\<lambda>_. ''2026-03-01T10:00:00+00:00''), cl_parse = (\<lambda>_. None)\<rparr>"

definition w_penv :: probe_env where
  "w_penv = \<lparr>pe_mono = 0, pe_clock = w_pclock, pe_resolved = Some ''sup'', pe_saved = True, pe_hash = (\<lambda>x. ''gen'')\<rparr>"

definition w_secrets :: secret_store where
  "w_secrets = (new_secret_store None)\<lparr>sec_data :=
     [(''probe_pairing_secret'', JStr ''s1''), (''snmp_auth_passphrase'', JStr ''auth-pass''),
      (''snmp_priv_passphrase'', JStr ''priv-pass'')]\<rparr>"

definition w_psys :: probe_sys where
  "w_psys = \<lparr>pb_log = new_log, pb_store = new_store\<lparr>sd := [(''settings'', JObj
       [(''snmp_enabled'', JBool True), (''snmp_listen_address'', JStr ''10.0.0.2''), (''snmp_username'', JStr ''ro'')])]\<rparr>,
     pb_fw = new_firewall, pb_secrets = w_secrets, pb_supervisor = None, pb_warned_at = [], pb_warnings = 0\<rparr>"

definition w_pcall :: "string \<Rightarrow> probe_call" where
  "w_pcall t = \<lparr>pc_user = Some ''sup'', pc_secret = Some t\<rparr>"

lemma w_trust: "trusted w_penv (w_pcall ''s1'') w_psys" "\<not> trusted w_penv (w_pcall ''s2'') w_psys"
  by (simp_all add: trusted_def w_pcall_def w_penv_def w_psys_def w_secrets_def supervisor_of_def PROBE_PAIRING_SECRET_KEY_def)

theorem untrusted_call_is_inert_witness:
  "\<exists>s'. serve w_penv (w_pcall ''s2'') (Poll_firewall None) w_psys = Inr (s', Command No_command None)
     \<and> pb_store s' = pb_store w_psys"
proof -
  let ?r = "serve w_penv (w_pcall ''s2'') (Poll_firewall None) w_psys"
  have k: "check_key ''probe_pairing_secret'' = Inr ()" using pairing_key by (simp add: PROBE_PAIRING_SECRET_KEY_def)
  have "?r \<noteq> Inl TypeError"
    by (simp add: serve_def call_rejected_def verify_or_pin_secret_def sec_get_def k w_pcall_def w_penv_def w_psys_def
        w_secrets_def PROBE_PAIRING_SECRET_KEY_def compare_digest_def Let_def)
  then show ?thesis using untrusted_call_is_inert [OF w_trust(2), of "Poll_firewall None"]
    by (cases ?r) auto
qed



end
