(* ===== verification/Users.thy ===== *)
theory Users
  imports PyDict AuditLog
begin

text \<open>
  \<open>users.py\<close>: what HA SOC reads and changes of Home Assistant's users. Home Assistant's own auth
  manager is not part of the repository: it is a record of functions (\<open>auth_api\<close>) over a state of
  any type, and what HA SOC relies on of it is stated as laws (\<open>auth_laws\<close>). Times are microseconds;
  how they are printed is an argument.
\<close>

declare dumps_with.simps [simp del]

declare wf_json.simps(3) [simp del]

section \<open>What the auth manager holds\<close>

record token =
  tk_id :: string
  tk_type :: string
  tk_client_id :: json
  tk_client_name :: json
  tk_created :: int
  tk_used :: "int option"
  tk_ip :: "string option"

record credential =
  cr_id :: string
  cr_type :: string
  cr_provider_id :: json
  cr_username :: json
  cr_created :: "int option"

record auth_user =
  au_id :: string
  au_name :: json
  au_owner :: bool
  au_admin :: bool
  au_active :: bool
  au_local :: bool
  au_system :: bool
  au_groups :: "string list"
  au_tokens :: "token list"
  au_credentials :: "credential list"

record 'h auth_api =
  api_users :: "'h \<Rightarrow> auth_user list"
  api_mfa :: "'h \<Rightarrow> string \<Rightarrow> string list"
  api_remove_token :: "token \<Rightarrow> 'h \<Rightarrow> 'h"
  api_create_user :: "string \<Rightarrow> string list option \<Rightarrow> bool option \<Rightarrow> 'h \<Rightarrow> ('h \<times> auth_user) res"
  api_update_user :: "string \<Rightarrow> dict \<Rightarrow> 'h \<Rightarrow> 'h res"
  api_deactivate_user :: "string \<Rightarrow> 'h \<Rightarrow> 'h res"
  api_remove_user :: "string \<Rightarrow> 'h \<Rightarrow> 'h"
  api_change_password :: "json \<Rightarrow> string \<Rightarrow> 'h \<Rightarrow> 'h res"

definition TOKEN_TYPE_SYSTEM :: string where "TOKEN_TYPE_SYSTEM = ''system''"

definition TOKEN_TYPE_LONG_LIVED :: string where "TOKEN_TYPE_LONG_LIVED = ''long_lived_access_token''"

text \<open>\<open>auth.async_get_user\<close>.\<close>

definition get_user :: "'h auth_api \<Rightarrow> string \<Rightarrow> 'h \<Rightarrow> auth_user option" where
  "get_user A i h = find (\<lambda>u. au_id u = i) (api_users A h)"

section \<open>User records\<close>

definition iso_opt :: "(int \<Rightarrow> string) \<Rightarrow> int option \<Rightarrow> json" where
  "iso_opt stamp t = (case t of None \<Rightarrow> JNull | Some x \<Rightarrow> JStr (stamp x))"

definition last_seen_of :: "token \<Rightarrow> int" where
  "last_seen_of t = (case tk_used t of None \<Rightarrow> tk_created t | Some u \<Rightarrow> u)"

text \<open>\<open>max\<close> with a key: the first of the largest.\<close>

fun latest_token :: "token list \<Rightarrow> token option" where
  "latest_token [] = None"
| "latest_token (t # ts) =
     (case latest_token ts of
        None \<Rightarrow> Some t
      | Some u \<Rightarrow> if last_seen_of t < last_seen_of u then Some u else Some t)"

definition days_since :: "int \<Rightarrow> int list \<Rightarrow> json" where
  "days_since now ts = (if ts = [] then JNull else JInt ((now - Min (set ts)) div us_day))"

definition provider_types :: "auth_user \<Rightarrow> string list" where
  "provider_types u = sort (remdups (map cr_type (au_credentials u)))"

definition mfa_assessable :: "auth_user \<Rightarrow> bool" where
  "mfa_assessable u \<longleftrightarrow> provider_types u = [] \<or> ''homeassistant'' \<in> set (provider_types u)"

definition build_user_record :: "(int \<Rightarrow> string) \<Rightarrow> int \<Rightarrow> bool \<Rightarrow> auth_user \<Rightarrow> dict" where
  "build_user_record stamp now mfa u =
     (let sessions = filter (\<lambda>t. tk_type t \<noteq> TOKEN_TYPE_SYSTEM) (au_tokens u);
          latest = latest_token sessions;
          llats = filter (\<lambda>t. tk_type t = TOKEN_TYPE_LONG_LIVED) (au_tokens u)
      in [(''id'', JStr (au_id u)), (''name'', au_name u), (''is_owner'', JBool (au_owner u)),
          (''is_admin'', JBool (au_admin u)), (''is_active'', JBool (au_active u)),
          (''local_only'', JBool (au_local u)), (''groups'', JArr (map JStr (au_groups u))),
          (''mfa_enabled'', JBool mfa),
          (''last_login_at'', iso_opt stamp (map_option last_seen_of latest)),
          (''last_login_ip'', opt_json (Option.bind latest tk_ip)),
          (''llat_count'', JInt (int (length llats))),
          (''llat_oldest_days'', days_since now (map tk_created llats)),
          (''account_age_days'', days_since now (map tk_created (au_tokens u))),
          (''credential_age_days'', days_since now (List.map_filter cr_created (au_credentials u))),
          (''credentials_count'', JInt (int (length (au_credentials u)))),
          (''refresh_token_count'', JInt (int (length sessions))),
          (''auth_provider_types'', JArr (map JStr (provider_types u))),
          (''mfa_assessable'', JBool (mfa_assessable u))])"

definition list_users :: "(int \<Rightarrow> string) \<Rightarrow> int \<Rightarrow> 'h auth_api \<Rightarrow> 'h \<Rightarrow> dict list" where
  "list_users stamp now A h =
     map (\<lambda>u. build_user_record stamp now (api_mfa A h (au_id u) \<noteq> []) u) (filter (\<lambda>u. \<not> au_system u) (api_users A h))"

definition token_row :: "(int \<Rightarrow> string) \<Rightarrow> token \<Rightarrow> json" where
  "token_row stamp t =
     JObj [(''id'', JStr (tk_id t)), (''client_id'', tk_client_id t), (''client_name'', tk_client_name t),
           (''token_type'', JStr (tk_type t)), (''created_at'', JStr (stamp (tk_created t))),
           (''last_used_at'', iso_opt stamp (tk_used t)), (''last_used_ip'', opt_json (tk_ip t))]"

definition credential_row :: "credential \<Rightarrow> json" where
  "credential_row c =
     JObj [(''id'', JStr (cr_id c)), (''auth_provider_type'', JStr (cr_type c)),
           (''auth_provider_id'', cr_provider_id c),
           (''username'', if cr_type c = ''homeassistant'' then cr_username c else JNull)]"

definition get_user_detail :: "(int \<Rightarrow> string) \<Rightarrow> int \<Rightarrow> 'h auth_api \<Rightarrow> string \<Rightarrow> 'h \<Rightarrow> dict option" where
  "get_user_detail stamp now A i h =
     map_option (\<lambda>u. build_user_record stamp now (api_mfa A h (au_id u) \<noteq> []) u
         @ [(''refresh_tokens'', JArr (map (token_row stamp) (au_tokens u))),
            (''credentials'', JArr (map credential_row (au_credentials u)))])
       (get_user A i h)"

section \<open>Operations\<close>

definition revoke_token :: "'h auth_api \<Rightarrow> string \<Rightarrow> string \<Rightarrow> 'h \<Rightarrow> 'h \<times> bool" where
  "revoke_token A i tid h =
     (case Option.bind (get_user A i h) (\<lambda>u. find (\<lambda>t. tk_id t = tid) (au_tokens u)) of
        None \<Rightarrow> (h, False)
      | Some t \<Rightarrow> (api_remove_token A t h, True))"

definition is_interactive :: "token \<Rightarrow> bool" where
  "is_interactive t \<longleftrightarrow> tk_type t \<notin> {TOKEN_TYPE_SYSTEM, TOKEN_TYPE_LONG_LIVED}"

text \<open>The sessions and the long-lived tokens revoked.\<close>

definition revoke_all_sessions :: "'h auth_api \<Rightarrow> string \<Rightarrow> 'h \<Rightarrow> 'h \<times> nat \<times> nat" where
  "revoke_all_sessions A i h =
     (case get_user A i h of
        None \<Rightarrow> (h, 0, 0)
      | Some u \<Rightarrow>
          (fold (api_remove_token A) (au_tokens u) h,
           length (filter (\<lambda>t. tk_type t \<noteq> TOKEN_TYPE_LONG_LIVED) (au_tokens u)),
           length (filter (\<lambda>t. tk_type t = TOKEN_TYPE_LONG_LIVED) (au_tokens u))))"

definition revoke_interactive_sessions :: "'h auth_api \<Rightarrow> string \<Rightarrow> 'h \<Rightarrow> 'h \<times> nat" where
  "revoke_interactive_sessions A i h =
     (case get_user A i h of
        None \<Rightarrow> (h, 0)
      | Some u \<Rightarrow> (fold (api_remove_token A) (filter is_interactive (au_tokens u)) h, length (filter is_interactive (au_tokens u))))"

definition create_user ::
    "(int \<Rightarrow> string) \<Rightarrow> int \<Rightarrow> 'h auth_api \<Rightarrow> string \<Rightarrow> string list option \<Rightarrow> bool option \<Rightarrow> 'h \<Rightarrow> ('h \<times> dict) res" where
  "create_user stamp now A name groups local_only h =
     bind_res (api_create_user A name groups local_only h) (\<lambda>(h, u).
       Inr (h, build_user_record stamp now (api_mfa A h (au_id u) \<noteq> []) u))"

definition update_user :: "'h auth_api \<Rightarrow> string \<Rightarrow> dict \<Rightarrow> 'h \<Rightarrow> ('h \<times> bool) res" where
  "update_user A i changes h =
     (case get_user A i h of
        None \<Rightarrow> Inr (h, False)
      | Some u \<Rightarrow>
          if au_owner u \<and> dget_null changes ''is_active'' = JBool False then Inr (h, False)
          else case api_update_user A i changes h of
                 Inl e \<Rightarrow> if is_value_error e \<or> e = HomeAssistantError then Inr (h, False) else Inl e
               | Inr h' \<Rightarrow> Inr (h', True))"

definition deactivate_user :: "'h auth_api \<Rightarrow> string \<Rightarrow> 'h \<Rightarrow> ('h \<times> string option) res" where
  "deactivate_user A i h =
     (case get_user A i h of
        None \<Rightarrow> Inr (h, Some ''user_not_found'')
      | Some u \<Rightarrow>
          (case api_deactivate_user A i h of
             Inl e \<Rightarrow> if is_value_error e then Inr (h, Some ''cannot_deactivate_owner'') else Inl e
           | Inr h' \<Rightarrow> Inr (h', None)))"

definition delete_user :: "'h auth_api \<Rightarrow> string \<Rightarrow> string option \<Rightarrow> 'h \<Rightarrow> 'h \<times> string option" where
  "delete_user A i requester h =
     (case get_user A i h of
        None \<Rightarrow> (h, Some ''user_not_found'')
      | Some u \<Rightarrow>
          if au_owner u then (h, Some ''cannot_delete_owner'')
          else if requester = Some (au_id u) then (h, Some ''cannot_delete_self'')
          else (api_remove_user A i h, None))"

definition set_password :: "'h auth_api \<Rightarrow> string \<Rightarrow> string \<Rightarrow> bool \<Rightarrow> 'h \<Rightarrow> ('h \<times> string option) res" where
  "set_password A i new_password requester_is_owner h =
     (if \<not> requester_is_owner then Inr (h, Some ''owner_required'')
      else case get_user A i h of
        None \<Rightarrow> Inr (h, Some ''user_not_found'')
      | Some u \<Rightarrow>
          (case find (\<lambda>c. cr_type c = ''homeassistant'') (au_credentials u) of
             None \<Rightarrow> Inr (h, Some ''no_homeassistant_credential'')
           | Some c \<Rightarrow> bind_res (api_change_password A (cr_username c) new_password h) (\<lambda>h'. Inr (h', None))))"

section \<open>Live sessions\<close>

record session =
  ss_user_id :: string
  ss_user_name :: json
  ss_token_id :: json
  ss_connected_at :: string
  ss_last_seen :: string

type_synonym sessions = "(string \<times> session) list"

definition add_session :: "string \<Rightarrow> string \<Rightarrow> string \<Rightarrow> json \<Rightarrow> json \<Rightarrow> sessions \<Rightarrow> sessions" where
  "add_session key now i name token ss =
     dset ss key \<lparr>ss_user_id = i, ss_user_name = name, ss_token_id = token, ss_connected_at = now, ss_last_seen = now\<rparr>"

definition remove_session :: "string \<Rightarrow> sessions \<Rightarrow> sessions" where
  "remove_session key ss = ddel ss key"

definition touch_session :: "string \<Rightarrow> string \<Rightarrow> sessions \<Rightarrow> sessions" where
  "touch_session key now ss =
     (case dget ss key of None \<Rightarrow> ss | Some s \<Rightarrow> dset ss key (s\<lparr>ss_last_seen := now\<rparr>))"

definition list_sessions :: "sessions \<Rightarrow> dict list" where
  "list_sessions ss =
     map (\<lambda>(key, s). [(''session_key'', JStr key), (''user_id'', JStr (ss_user_id s)), (''user_name'', ss_user_name s),
            (''refresh_token_id'', ss_token_id s), (''connected_at'', JStr (ss_connected_at s)),
            (''last_seen'', JStr (ss_last_seen s))]) ss"

section \<open>What is relied on\<close>

text \<open>
  The documented behaviour of the auth manager: ids are unique, the owner cannot be deactivated,
  deactivating makes the user inactive and takes their refresh tokens, and no operation on one user
  changes another.
\<close>

definition auth_laws :: "'h auth_api \<Rightarrow> bool" where
  "auth_laws A \<longleftrightarrow>
     (\<forall>h. distinct (map au_id (api_users A h)))
     \<and> (\<forall>h i u. get_user A i h = Some u \<and> au_owner u \<longrightarrow> api_deactivate_user A i h = Inl ValueError)
     \<and> (\<forall>h i h'. api_deactivate_user A i h = Inr h' \<longrightarrow>
          api_users A h' = map (\<lambda>u. if au_id u = i then u\<lparr>au_active := False, au_tokens := []\<rparr> else u) (api_users A h))
     \<and> (\<forall>h i. api_users A (api_remove_user A i h) = filter (\<lambda>u. au_id u \<noteq> i) (api_users A h))
     \<and> (\<forall>h t. api_users A (api_remove_token A t h) =
          map (\<lambda>u. u\<lparr>au_tokens := filter (\<lambda>x. x \<noteq> t) (au_tokens u)\<rparr>) (api_users A h))"

end
