(* ===== verification/MfaPolicy.thy ===== *)
theory MfaPolicy
  imports Users ExternalAudit
begin

text \<open>
  \<open>mfa_policy.py\<close>: how long an administrator has been without MFA is tracked in the store under
  every policy, and under \<open>auto_deactivate\<close> an account is deactivated when its grace period is over.
  Python iterates over sets here, in no particular order: \<open>enum\<close> gives the order of a pass.
\<close>

declare dumps_with.simps [simp del]

declare wf_json.simps(3) [simp del]

section \<open>Who is not compliant\<close>

definition is_noncompliant :: "dict \<Rightarrow> bool" where
  "is_noncompliant u \<longleftrightarrow>
     truthy (dget_null u ''is_admin'') \<and> \<not> truthy (dget_null u ''is_owner'') \<and> truthy (dget_null u ''is_active'')
     \<and> \<not> truthy (dget_null u ''mfa_enabled'') \<and> truthy (dget_default u ''mfa_assessable'' (JBool True))"

text \<open>\<open>user["id"]\<close>, a string in every record that \<open>users.py\<close> builds.\<close>

definition record_id :: "dict \<Rightarrow> string res" where
  "record_id u = bind_res (item u ''id'') (\<lambda>v. case v of JStr s \<Rightarrow> Inr s | _ \<Rightarrow> Inl TypeError)"

fun noncompliant_ids :: "dict list \<Rightarrow> string list res" where
  "noncompliant_ids [] = Inr []"
| "noncompliant_ids (u # us) =
     (if is_noncompliant u
      then bind_res (record_id u) (\<lambda>i. bind_res (noncompliant_ids us) (\<lambda>is. Inr (if i \<in> set is then is else i # is)))
      else noncompliant_ids us)"

section \<open>One pass\<close>

record 'h mfa_sys =
  mf_store :: soc_store
  mf_log :: alog
  mf_auth :: 'h

record mfa_env =
  me_now :: int
  me_stamp :: "int \<Rightarrow> string"
  me_parse :: "string \<Rightarrow> moment option"
  me_enum :: "string list \<Rightarrow> string list"

definition start_grace :: "mfa_env \<Rightarrow> string list \<Rightarrow> dict \<Rightarrow> dict" where
  "start_grace e ids g = foldl (\<lambda>g i. dsetdefault g i (JStr (me_stamp e (me_now e)))) g ids"

definition end_grace :: "string list \<Rightarrow> dict \<Rightarrow> dict" where
  "end_grace ids g = filter (\<lambda>p. fst p \<in> set ids) g"

definition track_grace :: "mfa_env \<Rightarrow> string list \<Rightarrow> dict \<Rightarrow> dict" where
  "track_grace e ids g = end_grace ids (start_grace e ids g)"

definition deactivated_event :: "string \<Rightarrow> json \<Rightarrow> json \<Rightarrow> audit_event" where
  "deactivated_event i name grace_days =
     (plain_event ''user_updated'')
       \<lparr>ev_detail := Some (PDict [(KStr ''target_user_id'', PStr i), (KStr ''target_user_name'', to_py name),
          (KStr ''action'', PStr ''mfa_policy_auto_deactivated''), (KStr ''grace_period_days'', to_py grace_days)])\<rparr>"

text \<open>
  \<open>(now - started).days < grace_days\<close>, where the setting is a whole number; another type cannot be
  compared.
\<close>

definition still_in_grace :: "mfa_env \<Rightarrow> moment \<Rightarrow> json \<Rightarrow> bool res" where
  "still_in_grace e started grace_days =
     bind_res (moment_minus (Aware (me_now e)) started) (\<lambda>d.
       case as_pyint grace_days of None \<Rightarrow> Inl TypeError | Some n \<Rightarrow> Inr (d div us_day < n))"

definition grace_over :: "mfa_env \<Rightarrow> dict \<Rightarrow> json \<Rightarrow> string \<Rightarrow> bool res" where
  "grace_over e g grace_days i =
     bind_res (item g i) (\<lambda>v. case v of
       JStr t \<Rightarrow> (case me_parse e t of
           None \<Rightarrow> Inr False
         | Some started \<Rightarrow> bind_res (still_in_grace e started grace_days) (\<lambda>b. Inr (\<not> b)))
     | _ \<Rightarrow> Inl TypeError)"

text \<open>The last record of a user with the id, as in \<open>users_by_id\<close>.\<close>

definition name_of :: "dict list \<Rightarrow> string \<Rightarrow> json" where
  "name_of users i =
     (case find (\<lambda>u. dget u ''id'' = Some (JStr i)) (rev users) of None \<Rightarrow> JNull | Some u \<Rightarrow> dget_null u ''name'')"

text \<open>The loop over the accounts: the grace table, the log, the auth manager, who was deactivated.\<close>

fun enforce_each ::
    "'h auth_api \<Rightarrow> mfa_env \<Rightarrow> dict list \<Rightarrow> json \<Rightarrow> string list \<Rightarrow> dict \<times> alog \<times> 'h \<times> string list
      \<Rightarrow> (dict \<times> alog \<times> 'h \<times> string list) res" where
  "enforce_each A e users grace_days [] acc = Inr acc"
| "enforce_each A e users grace_days (i # is) (g, l, h, out) =
     bind_res (grace_over e g grace_days i) (\<lambda>over.
       if \<not> over then enforce_each A e users grace_days is (g, l, h, out)
       else bind_res (deactivate_user A i h) (\<lambda>(h, why).
         if why \<noteq> None then enforce_each A e users grace_days is (g, l, h, out)
         else enforce_each A e users grace_days is
                (ddel g i, async_log (me_stamp e (me_now e)) (deactivated_event i (name_of users i) grace_days) l,
                 h, out @ [i])))"

definition enforce_mfa_policy ::
    "'h auth_api \<Rightarrow> mfa_env \<Rightarrow> dict list \<Rightarrow> 'h mfa_sys \<Rightarrow> ('h mfa_sys \<times> string list) res" where
  "enforce_mfa_policy A e users s =
     bind_res (settings (mf_store s)) (\<lambda>v. bind_res (as_table AttributeError v) (\<lambda>st.
     bind_res (item (sd (mf_store s)) ''mfa_grace_started'') (\<lambda>v. bind_res (as_table TypeError v) (\<lambda>g.
     bind_res (noncompliant_ids users) (\<lambda>ids.
       let ids = me_enum e ids; g1 = track_grace e ids g;
           store1 = (if g1 \<noteq> g then set_field ''mfa_grace_started'' (JObj g1) (mf_store s) else mf_store s)
       in if dget_null st ''mfa_policy'' \<noteq> JStr ''auto_deactivate'' then Inr (s\<lparr>mf_store := store1\<rparr>, [])
          else
            bind_res (enforce_each A e users (dget_default st ''mfa_grace_period_days'' (JInt 14)) ids
                        (g1, mf_log s, mf_auth s, [])) (\<lambda>(g2, l, h, out).
              Inr (s\<lparr>mf_store := (if out \<noteq> [] then set_field ''mfa_grace_started'' (JObj g2) store1 else store1),
                     mf_log := l, mf_auth := h\<rparr>, out)))))))"

section \<open>The grace table\<close>

lemma dget_setdefault_if: "dget (dsetdefault g i v) k = (if k = i \<and> dget g i = None then Some v else dget g k)"
  by (simp add: dsetdefault_def dict_simps)

lemma dget_start_grace:
  "dget (start_grace e ids g) k =
     (if k \<in> set ids \<and> dget g k = None then Some (JStr (me_stamp e (me_now e))) else dget g k)"
  by (induction ids arbitrary: g) (auto simp: start_grace_def dget_setdefault_if)

lemma dget_end_grace: "dget (end_grace ids g) k = (if k \<in> set ids then dget g k else None)"
  by (induction g) (auto simp: end_grace_def)

lemma dget_track_grace:
  "dget (track_grace e ids g) k =
     (if k \<in> set ids then Some (case dget g k of None \<Rightarrow> JStr (me_stamp e (me_now e)) | Some v \<Rightarrow> v) else None)"
  by (auto simp: track_grace_def dget_end_grace dget_start_grace)

lemma record_id_Inr: "record_id u = Inr i \<longleftrightarrow> dget u ''id'' = Some (JStr i)"
proof (cases "dget u ''id''")
  case (Some v)
  then show ?thesis by (cases v) (simp_all add: record_id_def item_def)
qed (simp add: record_id_def item_def)

lemma noncompliant_ids_spec:
  assumes "noncompliant_ids users = Inr ids"
  shows "distinct ids" "i \<in> set ids \<longleftrightarrow> (\<exists>u \<in> set users. is_noncompliant u \<and> dget u ''id'' = Some (JStr i))"
proof -
  have "distinct ids \<and> (\<forall>i. i \<in> set ids \<longleftrightarrow> (\<exists>u \<in> set users. is_noncompliant u \<and> dget u ''id'' = Some (JStr i)))"
    using assms
  proof (induction users arbitrary: ids)
    case (Cons u us)
    show ?case
    proof (cases "is_noncompliant u")
      case True
      with Cons.prems obtain j js where j: "dget u ''id'' = Some (JStr j)" "noncompliant_ids us = Inr js"
          "ids = (if j \<in> set js then js else j # js)"
        by (auto simp: bind_res_Inr record_id_Inr)
      show ?thesis using Cons.IH [OF j(2)] j(1,3) True by auto
    next
      case False
      then show ?thesis using Cons by auto
    qed
  qed simp
  then show "distinct ids" "i \<in> set ids \<longleftrightarrow> (\<exists>u \<in> set users. is_noncompliant u \<and> dget u ''id'' = Some (JStr i))" by auto
qed

section \<open>What a pass does to the accounts\<close>

definition switched_off :: "string list \<Rightarrow> auth_user \<Rightarrow> auth_user" where
  "switched_off is u = (if au_id u \<in> set is then u\<lparr>au_active := False, au_tokens := []\<rparr> else u)"

lemma switched_off_id [simp]: "au_id (switched_off is u) = au_id u" "au_owner (switched_off is u) = au_owner u"
  by (simp_all add: switched_off_def)

lemma deactivated:
  assumes "auth_laws A" "deactivate_user A i h = Inr (h', why)"
  shows "api_users A h' = map (switched_off (if why = None then [i] else [])) (api_users A h)"
    "why = None \<Longrightarrow> u \<in> set (api_users A h) \<Longrightarrow> au_owner u \<Longrightarrow> au_id u \<noteq> i"
proof -
  have d: "distinct (map au_id (api_users A h))"
    and o: "\<And>u. get_user A i h = Some u \<Longrightarrow> au_owner u \<Longrightarrow> api_deactivate_user A i h = Inl ValueError"
    and off: "\<And>h'. api_deactivate_user A i h = Inr h' \<Longrightarrow>
      api_users A h' = map (\<lambda>u. if au_id u = i then u\<lparr>au_active := False, au_tokens := []\<rparr> else u) (api_users A h)"
    using assms(1) by (auto simp: auth_laws_def)
  show "api_users A h' = map (switched_off (if why = None then [i] else [])) (api_users A h)"
    using assms(2) off
    by (auto simp: deactivate_user_def switched_off_def map_idI split: option.splits sum.splits if_splits)
  assume w: "why = None" and u: "u \<in> set (api_users A h)" "au_owner u"
  show "au_id u \<noteq> i"
  proof
    assume "au_id u = i"
    then have "find (\<lambda>x. au_id x = i) (api_users A h) = Some u"
      using d u(1) by (auto simp: find_Some_iff distinct_map inj_on_def in_set_conv_nth distinct_conv_nth)
    then have "api_deactivate_user A i h = Inl ValueError" using o u(2) by (simp add: get_user_def)
    then show False using assms(2) w \<open>find _ _ = Some u\<close> by (simp add: deactivate_user_def get_user_def is_value_error_def)
  qed
qed

lemma enforce_each_spec:
  assumes "auth_laws A" "enforce_each A e users gd is (g, l, h, out) = Inr (g', l', h', out')" "distinct is"
  shows "\<exists>done. out' = out @ done \<and> set done \<subseteq> set is \<and> (\<forall>i \<in> set done. grace_over e g gd i = Inr True)
     \<and> (\<forall>k. dget g' k = (if k \<in> set done then None else dget g k))
     \<and> api_users A h' = map (switched_off done) (api_users A h)
     \<and> (\<forall>u \<in> set (api_users A h). au_owner u \<longrightarrow> au_id u \<notin> set done)"
  using assms(2,3)
proof (induction "is" arbitrary: g l h out)
  case Nil
  then show ?case by (intro exI [of _ "[]"]) (simp add: switched_off_def map_idI)
next
  case (Cons i "is")
  obtain over where o: "grace_over e g gd i = Inr over" using Cons.prems(1) by (auto simp: bind_res_Inr)
  show ?case
  proof (cases over)
    case False
    then have "enforce_each A e users gd is (g, l, h, out) = Inr (g', l', h', out')" using Cons.prems(1) o by simp
    from Cons.IH [OF this] Cons.prems(2) show ?thesis by auto
  next
    case True
    then obtain h1 why where d: "deactivate_user A i h = Inr (h1, why)" using Cons.prems(1) o by (auto simp: bind_res_Inr)
    note dd = deactivated [OF assms(1) d]
    show ?thesis
    proof (cases "why = None")
      case False
      then have "enforce_each A e users gd is (g, l, h1, out) = Inr (g', l', h', out')" using Cons.prems(1) o True d by simp
      moreover have "api_users A h1 = api_users A h" using dd(1) False by (simp add: switched_off_def map_idI)
      ultimately show ?thesis using Cons.IH [of g l h1 out] Cons.prems(2) by auto
    next
      case off: True
      let ?l = "async_log (me_stamp e (me_now e)) (deactivated_event i (name_of users i) gd) l"
      have "enforce_each A e users gd is (ddel g i, ?l, h1, out @ [i]) = Inr (g', l', h', out')"
        using Cons.prems(1) o True d off by simp
      from Cons.IH [OF this] Cons.prems(2) obtain rest where r: "out' = (out @ [i]) @ rest" "set rest \<subseteq> set is"
          "\<forall>k \<in> set rest. grace_over e (ddel g i) gd k = Inr True"
          "\<forall>k. dget g' k = (if k \<in> set rest then None else dget (ddel g i) k)"
          "api_users A h' = map (switched_off rest) (api_users A h1)"
          "\<forall>u \<in> set (api_users A h1). au_owner u \<longrightarrow> au_id u \<notin> set rest"
        by auto
      have ni: "i \<notin> set rest" using r(2) Cons.prems(2) by auto
      have "grace_over e g gd k = grace_over e (ddel g i) gd k" if "k \<noteq> i" for k
        using that by (simp add: grace_over_def item_def dict_simps)
      then have "grace_over e g gd k = Inr True" if "k \<in> set (i # rest)" for k
        using that r(3) o True ni by (cases "k = i") simp_all
      then have "\<forall>k \<in> set (i # rest). grace_over e g gd k = Inr True" by blast
      moreover have "\<forall>k. dget g' k = (if k \<in> set (i # rest) then None else dget g k)" using r(4) by (simp add: dict_simps)
      moreover have "api_users A h' = map (switched_off (i # rest)) (api_users A h)"
        using r(5) dd(1) off by (auto simp: switched_off_def)
      moreover have "au_id u \<notin> set (i # rest)" if "u \<in> set (api_users A h)" "au_owner u" for u
      proof -
        have "switched_off [i] u \<in> set (api_users A h1)" using dd(1) off that(1) by simp
        then have "au_id u \<notin> set rest" using r(6) that(2) by fastforce
        then show ?thesis using dd(2) [OF off that] by simp
      qed
      ultimately show ?thesis using r(1,2) by (intro exI [of _ "i # rest"]) auto
    qed
  qed
qed

section \<open>Enforcement\<close>

definition orders_sets :: "(string list \<Rightarrow> string list) \<Rightarrow> bool" where
  "orders_sets f \<longleftrightarrow> (\<forall>xs. distinct xs \<longrightarrow> distinct (f xs) \<and> set (f xs) = set xs)"


text \<open>An auth manager that is a list of users.\<close>

definition list_auth :: "(auth_user list \<times> bool) auth_api" where
  "list_auth =
     \<lparr>api_users = (\<lambda>(us, b). if distinct (map au_id us) then us else []),
      api_mfa = (\<lambda>h i. []),
      api_remove_token = (\<lambda>t (us, b). (map (\<lambda>u. u\<lparr>au_tokens := filter (\<lambda>x. x \<noteq> t) (au_tokens u)\<rparr>) us, b)),
      api_create_user = (\<lambda>n g l h. Inl ValueError), api_update_user = (\<lambda>i d h. Inr h),
      api_deactivate_user = (\<lambda>i (us, b).
        if \<exists>u \<in> set us. au_id u = i \<and> au_owner u then Inl ValueError
        else Inr (map (\<lambda>u. if au_id u = i then u\<lparr>au_active := False, au_tokens := []\<rparr> else u) us, b)),
      api_remove_user = (\<lambda>i (us, b). (if distinct (map au_id us) then filter (\<lambda>u. au_id u \<noteq> i) us else [], b)),
      api_change_password = (\<lambda>n p h. Inr h)\<rparr>"

lemma list_auth_laws: "auth_laws list_auth"
proof -
  have k: "au_id (if au_id x = i then x\<lparr>au_active := False, au_tokens := []\<rparr> else x) = au_id x" for x :: auth_user and i
    by simp
  have f: "distinct (map au_id us) \<Longrightarrow> distinct (map au_id (filter P us))" for us P
    by (induction us) auto
  have g: "u \<in> set us" if "find (\<lambda>u. au_id u = i) us = Some u" for u us i
    using that by (auto simp: find_Some_iff)
  have gi: "au_id u = i" if "find (\<lambda>u. au_id u = i) us = Some u" for u us i
    using that by (auto simp: find_Some_iff)
  show ?thesis
    by (auto simp: auth_laws_def list_auth_def get_user_def comp_def f k dest: g gi split: if_splits)
qed

definition w_admin :: auth_user where
  "w_admin = \<lparr>au_id = ''u1'', au_name = JStr ''Ann'', au_owner = False, au_admin = True, au_active = True, au_local = False,
     au_system = False, au_groups = [''system-admin''], au_tokens = [], au_credentials = []\<rparr>"

definition w_mfa :: "(auth_user list \<times> bool) mfa_sys" where
  "w_mfa = \<lparr>mf_store = new_store\<lparr>sd := [(''settings'', JObj [(''mfa_policy'', JStr ''auto_deactivate'')]),
       (''mfa_grace_started'', JObj [(''u1'', JStr ''t0'')])]\<rparr>,
     mf_log = new_log, mf_auth = ([w_admin], True)\<rparr>"

definition w_menv :: mfa_env where
  "w_menv = \<lparr>me_now = 20 * us_day, me_stamp = (\<lambda>_. ''now''),
     me_parse = (\<lambda>t. if t = ''t0'' then Some (Aware 0) else None), me_enum = (\<lambda>xs. xs)\<rparr>"


end
