(* ===== verification/ConfigLedger.thy ===== *)
theory ConfigLedger
  imports ExternalAudit
begin

text \<open>
  \<open>config_ledger.py\<close>: a projection of the controller's configuration, its comparison with the
  baseline the owner accepted, and the history of drift. The overview is the dict that \<open>unifi.py\<close>
  returns; reading a part of another type raises. What the file builds itself as dicts with fixed
  keys (snapshot, drift, ledger) are records here; the rows of a section stay dicts. SHA-256 is \<open>H\<close>.
  Two field values are the same when they are the same JSON up to the order of keys.
\<close>

declare dumps_with.simps [simp del]

declare wf_json.simps(3) [simp del]

section \<open>Projection\<close>

definition SECTIONS :: "string list" where
  "SECTIONS = [''networks'', ''zones'', ''firewall_policies'', ''acl_rules'', ''devices'']"

definition SECTION_LABELS :: "(string \<times> string) list" where
  "SECTION_LABELS =
     [(''networks'', ''Networks''), (''zones'', ''Firewall zones''), (''firewall_policies'', ''Firewall policies''),
      (''acl_rules'', ''ACL rules''), (''devices'', ''Devices'')]"

definition NEVER_STORE :: "string list" where
  "NEVER_STORE = [''api_key'', ''password'', ''passphrase'', ''token'', ''secret'']"

definition LEDGER_MAX_HISTORY :: nat where "LEDGER_MAX_HISTORY = 50"

definition MAX_REPORTED_CHANGES :: nat where "MAX_REPORTED_CHANGES = 200"

fun map_res :: "('a \<Rightarrow> 'b res) \<Rightarrow> 'a list \<Rightarrow> 'b list res" where
  "map_res f [] = Inr []"
| "map_res f (x # xs) = bind_res (f x) (\<lambda>y. bind_res (map_res f xs) (\<lambda>ys. Inr (y # ys)))"

text \<open>\<open>d.get(k) or {}\<close> and \<open>d.get(k) or []\<close>, used as a dict and iterated.\<close>

definition sub_dict :: "dict \<Rightarrow> string \<Rightarrow> dict res" where
  "sub_dict d k = as_table AttributeError (or_else (dget_null d k) (JObj []))"

definition sub_list :: "dict \<Rightarrow> string \<Rightarrow> json list res" where
  "sub_list d k = as_list TypeError (or_else (dget_null d k) (JArr []))"

definition sub_rows :: "dict \<Rightarrow> string \<Rightarrow> dict list res" where
  "sub_rows d k = bind_res (sub_list d k) (map_res (as_table AttributeError))"

definition sorted_texts :: "json list \<Rightarrow> json" where
  "sorted_texts xs = JArr (map JStr (sort (map py_str xs)))"

definition id_text :: "dict \<Rightarrow> string" where
  "id_text d = py_str (or_else (dget_null d ''id'') (JStr []))"

fun canonical :: "json \<Rightarrow> json" where
  "canonical (JObj d) =
     JObj (sort_key fst (map (\<lambda>p. (fst p, canonical (snd p))) (filter (\<lambda>p. fst p \<notin> set NEVER_STORE) d)))"
| "canonical (JArr xs) = JArr (map canonical xs)"
| "canonical v = v"

definition digest :: "(string \<Rightarrow> string) \<Rightarrow> json \<Rightarrow> string" where
  "digest H v = H (dumps_compact (canonical v))"

definition row_id :: "dict \<Rightarrow> string" where
  "row_id r = (case dget_null r ''id'' of JStr s \<Rightarrow> s | v \<Rightarrow> py_str v)"

definition by_id :: "dict list \<Rightarrow> dict list" where
  "by_id rows = sort_key row_id rows"

definition network_names :: "dict list \<Rightarrow> string list res" where
  "network_names zones =
     bind_res (map_res (\<lambda>z. sub_list z ''networks'') zones) (\<lambda>xs. Inr (remdups (map py_str (concat xs))))"

definition policy_part :: "dict \<Rightarrow> string \<Rightarrow> dict list res" where
  "policy_part overview k = bind_res (sub_dict overview ''firewall_policies'') (\<lambda>p. sub_rows p k)"

definition network_rows :: "dict \<Rightarrow> dict list res" where
  "network_rows overview =
     bind_res (policy_part overview ''zones'') (\<lambda>zones. bind_res (network_names zones) (\<lambda>names.
       Inr (map (\<lambda>n. [(''id'', JStr n), (''name'', JStr n)]) (sort names))))"

definition zone_row :: "dict \<Rightarrow> dict res" where
  "zone_row z =
     bind_res (sub_list z ''networks'') (\<lambda>ns.
       Inr [(''id'', JStr (id_text z)), (''name'', dget_null z ''name''), (''networks'', sorted_texts ns)])"

definition zone_rows :: "dict \<Rightarrow> dict list res" where
  "zone_rows overview =
     bind_res (policy_part overview ''zones'') (\<lambda>zones. bind_res (map_res zone_row zones) (\<lambda>rows. Inr (by_id rows)))"

definition filter_row :: "json \<Rightarrow> json" where
  "filter_row v =
     (case v of
        JObj d \<Rightarrow>
          JObj ([(''zone'', dget_null d ''zone''), (''filter_type'', dget_null d ''filter_type'')]
            @ map (\<lambda>k. (k, case dget_null d k of JArr xs \<Rightarrow> sorted_texts xs | _ \<Rightarrow> JArr []))
                [''networks'', ''ip_or_subnets'', ''macs'', ''domains'', ''ports''])
      | _ \<Rightarrow> JObj [])"

definition keep_fields :: "string list \<Rightarrow> dict \<Rightarrow> dict" where
  "keep_fields ks d = map (\<lambda>k. (k, dget_null d k)) ks"

definition policy_row :: "dict \<Rightarrow> dict res" where
  "policy_row r =
     bind_res (sub_list r ''ports'') (\<lambda>ps.
       Inr ([(''id'', JStr (id_text r))]
         @ keep_fields [''name'', ''enabled'', ''action'', ''allow_return_traffic'', ''ip_version'', ''protocol'',
                        ''connection_state_filter'', ''scheduled'', ''origin''] r
         @ [(''source'', filter_row (dget_null r ''source'')), (''destination'', filter_row (dget_null r ''destination'')),
            (''ports'', sorted_texts ps)]))"

definition policy_rows :: "dict \<Rightarrow> dict list res" where
  "policy_rows overview =
     bind_res (policy_part overview ''rules'') (\<lambda>rules. bind_res (map_res policy_row rules) (\<lambda>rows. Inr (by_id rows)))"

definition acl_row :: "dict \<Rightarrow> dict" where
  "acl_row r =
     [(''id'', JStr (id_text r))] @ keep_fields [''name'', ''enabled'', ''action''] r
     @ [(''source'', filter_row (dget_null r ''source'')), (''destination'', filter_row (dget_null r ''destination''))]"

definition acl_rows :: "dict \<Rightarrow> dict list res" where
  "acl_rows overview =
     bind_res (sub_dict overview ''acl'') (\<lambda>a. bind_res (sub_rows a ''rules'') (\<lambda>rules. Inr (by_id (map acl_row rules))))"

definition device_mac :: "dict \<Rightarrow> json" where
  "device_mac d = or_else (dget_null d ''mac'') (dget_null d ''macAddress'')"

definition device_row :: "dict \<Rightarrow> dict" where
  "device_row d =
     [(''id'', JStr (lower (py_str (device_mac d))))]
     @ keep_fields [''name'', ''model'', ''adopted_at'', ''configuration_id'', ''provisioned_at''] d"

definition device_rows :: "dict \<Rightarrow> dict list res" where
  "device_rows overview =
     bind_res (sub_rows overview ''devices'') (\<lambda>ds. Inr (by_id (map device_row (filter (\<lambda>d. truthy (device_mac d)) ds))))"

section \<open>Snapshots\<close>

record snapshot =
  sn_taken_at :: string
  sn_version :: json
  sn_site :: json
  sn_sections :: "(string \<times> dict list) list"
  sn_ordering :: "(string \<times> json) list"
  sn_section_digests :: "(string \<times> string) list"
  sn_digest :: string

definition rows_json :: "dict list \<Rightarrow> json" where
  "rows_json rows = JArr (map JObj rows)"

definition content_json :: "(string \<times> dict list) list \<Rightarrow> (string \<times> json) list \<Rightarrow> json" where
  "content_json sections orders =
     JObj [(''sections'', JObj (map (\<lambda>(k, rows). (k, rows_json rows)) sections)), (''ordering'', JObj orders)]"

definition build_sections :: "dict \<Rightarrow> (string \<times> dict list) list res" where
  "build_sections overview =
     bind_res (network_rows overview) (\<lambda>n. bind_res (zone_rows overview) (\<lambda>z. bind_res (policy_rows overview) (\<lambda>p.
     bind_res (acl_rows overview) (\<lambda>a. bind_res (device_rows overview) (\<lambda>d.
       Inr [(''networks'', n), (''zones'', z), (''firewall_policies'', p), (''acl_rules'', a), (''devices'', d)])))))"

definition build_ordering :: "dict \<Rightarrow> (string \<times> json) list res" where
  "build_ordering overview =
     bind_res (sub_dict overview ''firewall_policies'') (\<lambda>p. bind_res (sub_dict overview ''acl'') (\<lambda>a.
       Inr [(''firewall_policies'', dget_null p ''ordering''), (''acl_rules'', dget_null a ''ordering'')]))"

definition build_snapshot :: "(string \<Rightarrow> string) \<Rightarrow> string \<Rightarrow> dict \<Rightarrow> snapshot res" where
  "build_snapshot H now overview =
     bind_res (build_sections overview) (\<lambda>sections. bind_res (build_ordering overview) (\<lambda>orders.
       Inr \<lparr>sn_taken_at = now, sn_version = dget_null overview ''application_version'',
            sn_site = dget_null overview ''site_id'', sn_sections = sections, sn_ordering = orders,
            sn_section_digests = map (\<lambda>(k, rows). (k, digest H (rows_json rows))) sections,
            sn_digest = digest H (content_json sections orders)\<rparr>))"

definition snapshot_is_complete :: "dict \<Rightarrow> string option res" where
  "snapshot_is_complete overview =
     (if \<not> truthy (dget_null overview ''configured'') then Inr (Some ''UniFi Network is not configured'')
      else if truthy (dget_null overview ''error'') then Inr (Some (py_str (dget_null overview ''error'')))
      else bind_res (sub_dict overview ''firewall_policies'') (\<lambda>p.
        if \<not> truthy (dget_null p ''available'') then Inr (Some ''Firewall policies could not be read'')
        else bind_res (sub_dict overview ''acl'') (\<lambda>a.
          if \<not> truthy (dget_null a ''available'') then Inr (Some ''ACL rules could not be read'') else Inr None)))"

section \<open>Drift\<close>

definition json_same :: "json \<Rightarrow> json \<Rightarrow> bool" where
  "json_same v w \<longleftrightarrow> canon True v = canon True w"

definition rows_by_id :: "dict list \<Rightarrow> (string \<times> dict) list" where
  "rows_by_id rows = foldl (\<lambda>t r. dset t (row_id r) r) [] rows"

record change =
  ch_field :: string
  ch_from :: json
  ch_to :: json

definition sorted_set :: "string list \<Rightarrow> string list" where
  "sorted_set xs = sort (remdups xs)"

definition field_changes :: "dict \<Rightarrow> dict \<Rightarrow> change list" where
  "field_changes old new =
     map (\<lambda>k. \<lparr>ch_field = k, ch_from = dget_null old k, ch_to = dget_null new k\<rparr>)
       (filter (\<lambda>k. k \<noteq> ''id'' \<and> \<not> json_same (dget_null old k) (dget_null new k))
          (sorted_set (map fst old @ map fst new)))"

record changed_row =
  cr_row :: string
  cr_name :: json
  cr_changes :: "change list"

record section_drift =
  sd_added :: "dict list"
  sd_removed :: "dict list"
  sd_changed :: "changed_row list"
  sd_ordering_changed :: bool
  sd_count :: nat

record drift =
  dr_total :: nat
  dr_sections :: "(string \<times> section_drift) list"
  dr_baseline_digest :: string
  dr_current_digest :: string

definition section_rows :: "snapshot \<Rightarrow> string \<Rightarrow> (string \<times> dict) list" where
  "section_rows s name = rows_by_id (case dget (sn_sections s) name of None \<Rightarrow> [] | Some rows \<Rightarrow> rows)"

definition ordering_of :: "snapshot \<Rightarrow> string \<Rightarrow> json" where
  "ordering_of s name = (case dget (sn_ordering s) name of None \<Rightarrow> JNull | Some v \<Rightarrow> v)"

definition row_at :: "(string \<times> dict) list \<Rightarrow> string \<Rightarrow> dict" where
  "row_at t i = (case dget t i of Some r \<Rightarrow> r | None \<Rightarrow> [])"

definition changed_rows :: "(string \<times> dict) list \<Rightarrow> (string \<times> dict) list \<Rightarrow> changed_row list" where
  "changed_rows old new =
     filter (\<lambda>c. cr_changes c \<noteq> [])
       (map (\<lambda>i. \<lparr>cr_row = i, cr_name = or_else (dget_null (row_at new i) ''name'') (dget_null (row_at old i) ''name''),
                 cr_changes = field_changes (row_at old i) (row_at new i)\<rparr>)
         (filter (\<lambda>i. dget new i \<noteq> None) (sorted_set (map fst old))))"

definition diff_section :: "snapshot \<Rightarrow> snapshot \<Rightarrow> string \<Rightarrow> section_drift" where
  "diff_section baseline current name =
     (let old = section_rows baseline name; new = section_rows current name;
          added = map (row_at new) (filter (\<lambda>i. dget old i = None) (sorted_set (map fst new)));
          removed = map (row_at old) (filter (\<lambda>i. dget new i = None) (sorted_set (map fst old)));
          changed = changed_rows old new;
          reordered = (\<not> json_same (ordering_of baseline name) (ordering_of current name))
      in \<lparr>sd_added = take MAX_REPORTED_CHANGES added, sd_removed = take MAX_REPORTED_CHANGES removed,
          sd_changed = take MAX_REPORTED_CHANGES changed, sd_ordering_changed = reordered,
          sd_count = length added + length removed + length changed + (if reordered then 1 else 0)\<rparr>)"

definition diff_snapshots :: "snapshot \<Rightarrow> snapshot \<Rightarrow> drift" where
  "diff_snapshots baseline current =
     (let ds = map (\<lambda>name. (name, diff_section baseline current name)) SECTIONS
      in \<lparr>dr_total = sum_list (map (\<lambda>(name, d). sd_count d) ds), dr_sections = ds,
          dr_baseline_digest = sn_digest baseline, dr_current_digest = sn_digest current\<rparr>)"

section \<open>The ledger\<close>

record baseline =
  bl_at :: string
  bl_by :: string
  bl_snapshot :: snapshot

record drift_entry =
  de_at :: string
  de_digest :: string
  de_baseline_digest :: string
  de_total :: nat
  de_sections :: "(string \<times> nat) list"

record ledger =
  lg_baseline :: "baseline option"
  lg_history :: "drift_entry list"

record finding =
  fi_id :: string
  fi_severity :: string
  fi_title :: string
  fi_detail :: string

definition count_text :: "'a list \<Rightarrow> string \<Rightarrow> string list" where
  "count_text xs what = (if xs = [] then [] else [nat_text (length xs) @ '' '' @ what])"

definition drift_finding :: "string \<Rightarrow> string \<Rightarrow> section_drift \<Rightarrow> finding" where
  "drift_finding accepted_at name d =
     (let parts = count_text (sd_added d) ''added'' @ count_text (sd_removed d) ''removed''
            @ count_text (sd_changed d) ''changed''
            @ (if sd_ordering_changed d then [''evaluation order changed''] else [])
      in \<lparr>fi_id = ''unifi_drift_'' @ name, fi_severity = ''medium'',
          fi_title = (case dget SECTION_LABELS name of Some l \<Rightarrow> l | None \<Rightarrow> []) @ '' differ from the accepted baseline'',
          fi_detail = join '', '' parts @ '' since the baseline was accepted ''
            @ (if accepted_at = [] then ''at an unrecorded time'' else accepted_at)
            @ ''. Review the change, then either accept the current configuration as the new baseline or undo it on the controller.''\<rparr>)"

definition absent_finding :: finding where
  "absent_finding =
     \<lparr>fi_id = ''unifi_baseline_absent'', fi_severity = ''info'',
      fi_title = ''No UniFi configuration baseline has been accepted'',
      fi_detail = ''Drift cannot be reported until a baseline exists. Review the current networks, zones, policies, and ACL rules, then accept them as the baseline; every later change is compared against it.''\<rparr>"

record ledger_view =
  lv_error :: "string option"
  lv_version :: json
  lv_baseline :: "baseline option"
  lv_current :: "snapshot option"
  lv_drift :: "drift option"
  lv_history :: "drift_entry list"
  lv_findings :: "finding list"

definition build_findings :: "baseline option \<Rightarrow> drift option \<Rightarrow> finding list" where
  "build_findings base d =
     (case base of
        None \<Rightarrow> [absent_finding]
      | Some b \<Rightarrow>
          (case d of
             None \<Rightarrow> []
           | Some dr \<Rightarrow>
               map (\<lambda>(name, s). drift_finding (bl_at b) name s)
                 (filter (\<lambda>(name, s). sd_count s \<noteq> 0) (dr_sections dr))))"

definition ledger_state :: "(string \<Rightarrow> string) \<Rightarrow> string \<Rightarrow> dict \<Rightarrow> ledger \<Rightarrow> ledger_view res" where
  "ledger_state H now overview lg =
     bind_res (snapshot_is_complete overview) (\<lambda>reason.
       let v = \<lparr>lv_error = reason, lv_version = dget_null overview ''application_version'', lv_baseline = lg_baseline lg,
                lv_current = None, lv_drift = None, lv_history = take LEDGER_MAX_HISTORY (lg_history lg), lv_findings = []\<rparr>
       in if reason \<noteq> None then Inr v
          else bind_res (build_snapshot H now overview) (\<lambda>current.
            let d = map_option (\<lambda>b. diff_snapshots (bl_snapshot b) current) (lg_baseline lg)
            in Inr (v\<lparr>lv_current := Some current, lv_drift := d, lv_findings := build_findings (lg_baseline lg) d\<rparr>)))"

definition drift_event :: "drift_entry \<Rightarrow> audit_event" where
  "drift_event e =
     (plain_event ''unifi_config_drift'')
       \<lparr>ev_detail := Some (PDict [(KStr ''total'', PInt (int (de_total e))),
          (KStr ''sections'', PDict (map (\<lambda>(k, n). (KStr k, PInt (int n))) (de_sections e))),
          (KStr ''digest'', PStr (de_digest e)), (KStr ''baseline_digest'', PStr (de_baseline_digest e))]),
        ev_flush := True\<rparr>"

text \<open>The ledger, the records for the audit log, and whether an entry was written.\<close>

definition record_drift :: "string \<Rightarrow> ledger_view \<Rightarrow> ledger \<Rightarrow> ledger \<times> audit_event list \<times> bool" where
  "record_drift now v lg =
     (case (lv_drift v, lv_current v) of
        (Some d, Some current) \<Rightarrow>
          (if dr_total d = 0 then (lg, [], False)
           else if lg_history lg \<noteq> [] \<and> de_digest (hd (lg_history lg)) = sn_digest current then (lg, [], False)
           else
             (let e = \<lparr>de_at = now, de_digest = sn_digest current, de_baseline_digest = dr_baseline_digest d,
                       de_total = dr_total d,
                       de_sections = map (\<lambda>(name, s). (name, sd_count s))
                         (filter (\<lambda>(name, s). sd_count s \<noteq> 0) (dr_sections d))\<rparr>
              in (lg\<lparr>lg_history := take LEDGER_MAX_HISTORY (e # lg_history lg)\<rparr>, [drift_event e], True)))
      | _ \<Rightarrow> (lg, [], False))"

definition baseline_event :: "string \<Rightarrow> snapshot \<Rightarrow> baseline option \<Rightarrow> audit_event" where
  "baseline_event user s previous =
     (plain_event ''unifi_baseline_accepted'')
       \<lparr>ev_user_id := Some user,
        ev_detail := Some (PDict [(KStr ''digest'', PStr (sn_digest s)),
          (KStr ''previous_digest'', opt_str (map_option (\<lambda>b. sn_digest (bl_snapshot b)) previous)),
          (KStr ''application_version'', to_py (sn_version s)),
          (KStr ''section_digests'', PDict (map (\<lambda>(k, x). (KStr k, PStr x)) (sn_section_digests s)))]),
        ev_flush := True\<rparr>"

definition accept_baseline :: "string \<Rightarrow> snapshot \<Rightarrow> string \<Rightarrow> ledger \<Rightarrow> ledger \<times> audit_event list" where
  "accept_baseline now s user lg =
     (\<lparr>lg_baseline = Some \<lparr>bl_at = now, bl_by = user, bl_snapshot = s\<rparr>, lg_history = []\<rparr>,
      [baseline_event user s (lg_baseline lg)])"

end
