(* ===== verification/LedgerTheorems.thy ===== *)
theory LedgerTheorems
  imports ConfigLedger
begin

text \<open>
  The configuration ledger: when drift is reported, that the order of an API response does not matter,
  and what of the never-to-be-stored keys is stored.
\<close>

declare dumps_with.simps [simp del]

declare wf_json.simps(3) [simp del]

definition w_hash0 :: "string \<Rightarrow> string" where "w_hash0 x = ''h''"

section \<open>When drift is reported\<close>

definition same_row :: "dict \<Rightarrow> dict \<Rightarrow> bool" where
  "same_row r r' \<longleftrightarrow> (\<forall>k. k \<noteq> ''id'' \<longrightarrow> json_same (dget_null r k) (dget_null r' k))"

definition same_table :: "(string \<times> dict) list \<Rightarrow> (string \<times> dict) list \<Rightarrow> bool" where
  "same_table t t' \<longleftrightarrow>
     (\<forall>i. (dget t i = None \<longleftrightarrow> dget t' i = None) \<and> (\<forall>r r'. dget t i = Some r \<and> dget t' i = Some r' \<longrightarrow> same_row r r'))"

lemma json_same_refl [simp]: "json_same v v"
  by (simp add: json_same_def)

lemma set_sorted_set [simp]: "set (sorted_set xs) = set xs"
  by (simp add: sorted_set_def)

lemma key_in: "i \<in> fst ` set t \<longleftrightarrow> dget t i \<noteq> None" for t :: "(string \<times> 'v) list"
  by (simp add: map_of_eq_None_iff)

lemma field_changes_Nil: "field_changes r r' = [] \<longleftrightarrow> same_row r r'"
proof -
  have "json_same (dget_null r k) (dget_null r' k)" if "k \<notin> fst ` set r" "k \<notin> fst ` set r'" for k
    using that by (simp add: dget_default_def key_in)
  then show ?thesis
    by (auto simp: field_changes_def same_row_def filter_empty_conv)
qed

lemma ball_keys: "(\<forall>i \<in> set (sorted_set (map fst t)). P i) \<longleftrightarrow> (\<forall>i. dget t i \<noteq> None \<longrightarrow> P i)" for t :: "(string \<times> 'v) list"
proof -
  have k: "i \<in> set (sorted_set (map fst t)) \<longleftrightarrow> dget t i \<noteq> None" for i by (simp only: set_sorted_set set_map key_in)
  show ?thesis unfolding Ball_def k by (rule refl)
qed

lemma changed_rows_Nil:
  "changed_rows t t' = [] \<longleftrightarrow> (\<forall>i r r'. dget t i = Some r \<and> dget t' i = Some r' \<longrightarrow> same_row r r')"
proof -
  have "changed_rows t t' = [] \<longleftrightarrow>
      (\<forall>i \<in> set (sorted_set (map fst t)). dget t' i \<noteq> None \<longrightarrow> field_changes (row_at t i) (row_at t' i) = [])"
    by (auto simp: changed_rows_def filter_empty_conv)
  also have "\<dots> \<longleftrightarrow> (\<forall>i. dget t i \<noteq> None \<longrightarrow> dget t' i \<noteq> None \<longrightarrow> same_row (row_at t i) (row_at t' i))"
    by (simp only: ball_keys field_changes_Nil)
  also have "\<dots> \<longleftrightarrow> (\<forall>i r r'. dget t i = Some r \<and> dget t' i = Some r' \<longrightarrow> same_row r r')"
  proof
    assume a: "\<forall>i. dget t i \<noteq> None \<longrightarrow> dget t' i \<noteq> None \<longrightarrow> same_row (row_at t i) (row_at t' i)"
    show "\<forall>i r r'. dget t i = Some r \<and> dget t' i = Some r' \<longrightarrow> same_row r r'"
    proof (intro allI impI)
      fix i r r' assume "dget t i = Some r \<and> dget t' i = Some r'"
      then show "same_row r r'" using a [rule_format, of i] by (simp add: row_at_def)
    qed
  next
    assume a: "\<forall>i r r'. dget t i = Some r \<and> dget t' i = Some r' \<longrightarrow> same_row r r'"
    show "\<forall>i. dget t i \<noteq> None \<longrightarrow> dget t' i \<noteq> None \<longrightarrow> same_row (row_at t i) (row_at t' i)"
    proof (intro allI impI)
      fix i assume "dget t i \<noteq> None" "dget t' i \<noteq> None"
      then obtain r r' where "dget t i = Some r" "dget t' i = Some r'" by blast
      then show "same_row (row_at t i) (row_at t' i)" using a by (simp add: row_at_def)
    qed
  qed
  finally show ?thesis .
qed

lemma missing_rows_Nil:
  "filter (\<lambda>i. dget t i = None) (sorted_set (map fst t')) = [] \<longleftrightarrow> (\<forall>i. dget t i = None \<longrightarrow> dget t' i = None)"
  for t :: "(string \<times> 'v) list" and t' :: "(string \<times> 'w) list"
proof -
  have "filter (\<lambda>i. dget t i = None) (sorted_set (map fst t')) = [] \<longleftrightarrow> (\<forall>i \<in> set (sorted_set (map fst t')). dget t i \<noteq> None)"
    by (simp only: filter_empty_conv)
  then show ?thesis unfolding ball_keys by meson
qed

lemma section_count_0:
  "sd_count (diff_section b c name) = 0 \<longleftrightarrow>
     same_table (section_rows b name) (section_rows c name) \<and> json_same (ordering_of b name) (ordering_of c name)"
proof -
  let ?t = "section_rows b name" and ?t' = "section_rows c name"
  have "sd_count (diff_section b c name) = 0 \<longleftrightarrow>
      filter (\<lambda>i. dget ?t i = None) (sorted_set (map fst ?t')) = [] \<and> filter (\<lambda>i. dget ?t' i = None) (sorted_set (map fst ?t)) = []
      \<and> changed_rows ?t ?t' = [] \<and> json_same (ordering_of b name) (ordering_of c name)"
    by (simp add: diff_section_def Let_def)
  also have "\<dots> \<longleftrightarrow> same_table ?t ?t' \<and> json_same (ordering_of b name) (ordering_of c name)"
    unfolding missing_rows_Nil changed_rows_Nil same_table_def by meson
  finally show ?thesis .
qed

lemma same_table_refl: "same_table t t"
  unfolding same_table_def
proof (intro allI conjI impI)
  fix i r r' assume "dget t i = Some r \<and> dget t i = Some r'"
  then have "r' = r" by (metis option.sel)
  then show "same_row r r'" by (simp add: same_row_def)
qed (rule refl)

lemma total_0: "dr_total (diff_snapshots b c) = 0 \<longleftrightarrow> (\<forall>name \<in> set SECTIONS. sd_count (diff_section b c name) = 0)"
  by (simp add: diff_snapshots_def sum_list_eq_0_iff Let_def)

text \<open>
  C32. Drift is exact: no drift is counted against the baseline exactly when every section has the same
  row ids, each row the same value in every field but its id, and the same evaluation order; and what
  was just accepted as the baseline shows none, with an empty history.
\<close>

theorem drift_is_exact:
  "(dr_total (diff_snapshots b c) = 0 \<longleftrightarrow>
      (\<forall>name \<in> set SECTIONS. same_table (section_rows b name) (section_rows c name)
        \<and> json_same (ordering_of b name) (ordering_of c name)))
   \<and> lg_history (fst (accept_baseline now c user lg)) = []
   \<and> map_option (\<lambda>x. dr_total (diff_snapshots (bl_snapshot x) c)) (lg_baseline (fst (accept_baseline now c user lg))) = Some 0"
proof -
  have "dr_total (diff_snapshots c c) = 0" by (simp add: total_0 section_count_0 same_table_refl)
  then show ?thesis by (simp add: total_0 section_count_0 accept_baseline_def)
qed

section \<open>Order of the response\<close>

lemma map_res_Inr: "map_res f xs = Inr ys \<longleftrightarrow> map f xs = map Inr ys"
  by (induction xs arbitrary: ys) (auto simp: bind_res_Inr Cons_eq_map_conv)

lemma map_res_perm:
  fixes f :: "'a \<Rightarrow> 'b res"
  assumes "map_res f xs = Inr rs" "mset xs = mset ys"
  shows "\<exists>rs'. map_res f ys = Inr rs' \<and> mset rs' = mset rs"
proof -
  let ?g = "\<lambda>x. projr (f x)"
  have m: "map f xs = map Inr rs" using assms(1) by (simp add: map_res_Inr)
  have e: "f x = Inr (?g x)" if "x \<in> set ys" for x
  proof -
    have "x \<in> set xs" using that mset_eq_setD [OF assms(2)] by simp
    then have "f x \<in> set (map f xs)" by simp
    then obtain r where "f x = Inr r" unfolding m by auto
    then show ?thesis by simp
  qed
  have "map f ys = map Inr (map ?g ys)" using e by simp
  then have 1: "map_res f ys = Inr (map ?g ys)" by (simp only: map_res_Inr)
  have "rs = map projr (map Inr rs :: (py_exc + 'b) list)" by (simp add: comp_def)
  also have "\<dots> = map ?g xs" unfolding m [symmetric] by simp
  finally show ?thesis using 1 assms(2) by (simp add: mset_map)
qed

definition same_up_to_order :: "('a \<Rightarrow> string) \<Rightarrow> 'a list res \<Rightarrow> 'a list res \<Rightarrow> bool" where
  "same_up_to_order key a b \<longleftrightarrow>
     (case (a, b) of (Inr xs, Inr ys) \<Rightarrow> mset xs = mset ys \<and> distinct (map key xs) | _ \<Rightarrow> False)"

text \<open>
  Two answers of the controller that differ only in the order in which they list the zones, policies,
  ACL rules and devices, each with ids of its own.
\<close>

definition reordered :: "dict \<Rightarrow> dict \<Rightarrow> bool" where
  "reordered o1 o2 \<longleftrightarrow>
     same_up_to_order id_text (policy_part o1 ''zones'') (policy_part o2 ''zones'')
     \<and> same_up_to_order id_text (policy_part o1 ''rules'') (policy_part o2 ''rules'')
     \<and> same_up_to_order id_text (bind_res (sub_dict o1 ''acl'') (\<lambda>a. sub_rows a ''rules''))
         (bind_res (sub_dict o2 ''acl'') (\<lambda>a. sub_rows a ''rules''))
     \<and> same_up_to_order (\<lambda>d. lower (py_str (device_mac d)))
         (bind_res (sub_rows o1 ''devices'') (\<lambda>ds. Inr (filter (\<lambda>d. truthy (device_mac d)) ds)))
         (bind_res (sub_rows o2 ''devices'') (\<lambda>ds. Inr (filter (\<lambda>d. truthy (device_mac d)) ds)))
     \<and> build_ordering o1 = build_ordering o2"

lemma by_id_perm:
  assumes "mset rows = mset rows'" "distinct (map row_id rows)"
  shows "by_id rows = by_id rows'"
  unfolding by_id_def using assms by (intro sort_key_eq_sort_key) (auto simp: distinct_map)

lemma row_ids:
  "map_res zone_row zs = Inr rows \<Longrightarrow> map row_id rows = map id_text zs"
  "map_res policy_row ps = Inr rows' \<Longrightarrow> map row_id rows' = map id_text ps"
proof -
  show "map_res zone_row zs = Inr rows \<Longrightarrow> map row_id rows = map id_text zs"
    by (induction zs arbitrary: rows) (auto simp: bind_res_Inr zone_row_def row_id_def dget_default_def)
  show "map_res policy_row ps = Inr rows' \<Longrightarrow> map row_id rows' = map id_text ps"
    by (induction ps arbitrary: rows') (auto simp: bind_res_Inr policy_row_def row_id_def dget_default_def)
qed

lemma rows_perm:
  assumes "map_res f xs = Inr rows" "mset xs = mset ys" "map row_id rows = map key xs" "distinct (map key xs)"
  shows "\<exists>rows'. map_res f ys = Inr rows' \<and> by_id rows' = by_id rows"
proof -
  obtain rows' where r: "map_res f ys = Inr rows'" "mset rows' = mset rows" using map_res_perm [OF assms(1,2)] by blast
  have "by_id rows = by_id rows'" using r(2) assms(3,4) by (intro by_id_perm) simp_all
  then show ?thesis using r(1) by simp
qed

lemma same_order_Inr:
  assumes "same_up_to_order key a b" "a = Inr xs"
  obtains ys where "b = Inr ys" "mset xs = mset ys" "distinct (map key xs)"
  using assms by (cases b) (auto simp: same_up_to_order_def)

lemma network_rows_perm:
  assumes "same_up_to_order key (policy_part o1 ''zones'') (policy_part o2 ''zones'')" "network_rows o1 = Inr rows"
  shows "network_rows o2 = Inr rows"
proof -
  obtain zs xs where z: "policy_part o1 ''zones'' = Inr zs" "map_res (\<lambda>z. sub_list z ''networks'') zs = Inr xs"
      "rows = map (\<lambda>n. [(''id'', JStr n), (''name'', JStr n)]) (sort (remdups (map py_str (concat xs))))"
    using assms(2) by (auto simp: network_rows_def network_names_def bind_res_Inr)
  obtain zs' where z': "policy_part o2 ''zones'' = Inr zs'" "mset zs = mset zs'" using same_order_Inr [OF assms(1) z(1)] by blast
  obtain xs' where x': "map_res (\<lambda>z. sub_list z ''networks'') zs' = Inr xs'" "mset xs' = mset xs"
    using map_res_perm [OF z(2) z'(2)] by blast
  have "set (map py_str (concat xs')) = set (map py_str (concat xs))" using mset_eq_setD [OF x'(2)] by simp
  then have "sort (remdups (map py_str (concat xs'))) = sort (remdups (map py_str (concat xs)))"
    by (simp only: sorted_list_of_set_sort_remdups [symmetric])
  then show ?thesis using z(3) z'(1) x'(1) by (simp add: network_rows_def network_names_def)
qed

lemma zone_rows_perm:
  assumes "same_up_to_order id_text (policy_part o1 ''zones'') (policy_part o2 ''zones'')" "zone_rows o1 = Inr rows"
  shows "zone_rows o2 = Inr rows"
proof -
  obtain zs xs where z: "policy_part o1 ''zones'' = Inr zs" "map_res zone_row zs = Inr xs" "rows = by_id xs"
    using assms(2) by (auto simp: zone_rows_def bind_res_Inr)
  obtain zs' where z': "policy_part o2 ''zones'' = Inr zs'" "mset zs = mset zs'" "distinct (map id_text zs)"
    using same_order_Inr [OF assms(1) z(1)] by blast
  show ?thesis using rows_perm [OF z(2) z'(2) row_ids(1) [OF z(2)] z'(3)] z(3) z'(1) by (auto simp: zone_rows_def)
qed

lemma policy_rows_perm:
  assumes "same_up_to_order id_text (policy_part o1 ''rules'') (policy_part o2 ''rules'')" "policy_rows o1 = Inr rows"
  shows "policy_rows o2 = Inr rows"
proof -
  obtain zs xs where z: "policy_part o1 ''rules'' = Inr zs" "map_res policy_row zs = Inr xs" "rows = by_id xs"
    using assms(2) by (auto simp: policy_rows_def bind_res_Inr)
  obtain zs' where z': "policy_part o2 ''rules'' = Inr zs'" "mset zs = mset zs'" "distinct (map id_text zs)"
    using same_order_Inr [OF assms(1) z(1)] by blast
  show ?thesis using rows_perm [OF z(2) z'(2) row_ids(2) [OF z(2)] z'(3)] z(3) z'(1) by (auto simp: policy_rows_def)
qed

lemma mapped_perm:
  assumes "mset xs = mset ys" "distinct (map key xs)" "\<And>x. row_id (f x) = key x"
  shows "by_id (map f xs) = by_id (map f ys)"
  using assms by (intro by_id_perm) (simp_all add: mset_map comp_def)

lemma acl_rows_perm:
  assumes "same_up_to_order id_text (bind_res (sub_dict o1 ''acl'') (\<lambda>a. sub_rows a ''rules''))
      (bind_res (sub_dict o2 ''acl'') (\<lambda>a. sub_rows a ''rules''))" "acl_rows o1 = Inr rows"
  shows "acl_rows o2 = Inr rows"
proof -
  obtain zs where z: "bind_res (sub_dict o1 ''acl'') (\<lambda>a. sub_rows a ''rules'') = Inr zs" "rows = by_id (map acl_row zs)"
    using assms(2) by (auto simp: acl_rows_def bind_res_Inr)
  obtain zs' where z': "bind_res (sub_dict o2 ''acl'') (\<lambda>a. sub_rows a ''rules'') = Inr zs'" "mset zs = mset zs'" "distinct (map id_text zs)"
    using same_order_Inr [OF assms(1) z(1)] by blast
  have "by_id (map acl_row zs) = by_id (map acl_row zs')"
    by (rule mapped_perm [OF z'(2,3)]) (simp add: row_id_def acl_row_def dget_default_def)
  then show ?thesis using z(2) z'(1) by (auto simp: acl_rows_def bind_res_Inr)
qed

lemma device_rows_perm:
  assumes "same_up_to_order (\<lambda>d. lower (py_str (device_mac d)))
      (bind_res (sub_rows o1 ''devices'') (\<lambda>ds. Inr (filter (\<lambda>d. truthy (device_mac d)) ds)))
      (bind_res (sub_rows o2 ''devices'') (\<lambda>ds. Inr (filter (\<lambda>d. truthy (device_mac d)) ds)))" "device_rows o1 = Inr rows"
  shows "device_rows o2 = Inr rows"
proof -
  let ?f = "filter (\<lambda>d. truthy (device_mac d))"
  obtain ds where z: "bind_res (sub_rows o1 ''devices'') (\<lambda>ds. Inr (?f ds)) = Inr (?f ds)" "rows = by_id (map device_row (?f ds))"
    using assms(2) by (auto simp: device_rows_def bind_res_Inr)
  obtain ys where z': "bind_res (sub_rows o2 ''devices'') (\<lambda>ds. Inr (?f ds)) = Inr ys" "mset (?f ds) = mset ys"
      "distinct (map (\<lambda>d. lower (py_str (device_mac d))) (?f ds))"
    using same_order_Inr [OF assms(1) z(1)] by blast
  have "by_id (map device_row (?f ds)) = by_id (map device_row ys)"
    by (rule mapped_perm [OF z'(2,3)]) (simp add: row_id_def device_row_def dget_default_def)
  then show ?thesis using z(2) z'(1) by (auto simp: device_rows_def bind_res_Inr)
qed

text \<open>
  C33. The order of a response is not drift: if a later answer of the controller lists the same zones,
  policies, ACL rules and devices in any other order, its snapshot exists, has the same digest, and
  shows no drift against the first.
\<close>

theorem reordering_is_no_drift:
  assumes "reordered o1 o2" "build_snapshot H t1 o1 = Inr s1"
  shows "\<exists>s2. build_snapshot H t2 o2 = Inr s2 \<and> sn_sections s2 = sn_sections s1 \<and> sn_digest s2 = sn_digest s1
     \<and> sn_section_digests s2 = sn_section_digests s1 \<and> dr_total (diff_snapshots s1 s2) = 0"
proof -
  obtain sec where s: "build_sections o1 = Inr sec" using assms(2) by (auto simp: build_snapshot_def bind_res_Inr)
  have "build_sections o2 = Inr sec"
    using s assms(1) network_rows_perm zone_rows_perm policy_rows_perm acl_rows_perm device_rows_perm
    unfolding build_sections_def reordered_def by (fastforce simp: bind_res_Inr)
  moreover obtain r where "build_ordering o1 = Inr r" using assms(2) by (auto simp: build_snapshot_def bind_res_Inr)
  moreover have "build_ordering o2 = build_ordering o1" using assms(1) by (simp add: reordered_def)
  ultimately obtain s2 where s2: "build_snapshot H t2 o2 = Inr s2" "sn_sections s2 = sn_sections s1" "sn_digest s2 = sn_digest s1"
      "sn_section_digests s2 = sn_section_digests s1" "sn_ordering s2 = sn_ordering s1"
    using assms(2) s by (auto simp: build_snapshot_def)
  have "sd_count (diff_section s1 s2 name) = 0" for name
    using s2(2,5) by (simp add: section_count_0 section_rows_def ordering_of_def same_table_refl)
  then have "dr_total (diff_snapshots s1 s2) = 0" by (simp add: total_0)
  then show ?thesis using s2 by blast
qed

definition w_zone :: "string \<Rightarrow> json" where
  "w_zone i = JObj [(''id'', JStr i), (''name'', JStr ''Zone''), (''networks'', JArr [JStr ''lan''])]"

definition w_overview :: "json list \<Rightarrow> json list \<Rightarrow> dict" where
  "w_overview zones rules =
     [(''firewall_policies'', JObj [(''zones'', JArr zones), (''rules'', JArr rules)]), (''acl'', JObj []), (''devices'', JArr [])]"

definition w_snapshot :: "json list \<Rightarrow> snapshot" where
  "w_snapshot zones = (case build_snapshot w_hash0 ''t'' (w_overview zones []) of Inr s \<Rightarrow> s
     | Inl e \<Rightarrow> \<lparr>sn_taken_at = [], sn_version = JNull, sn_site = JNull, sn_sections = [], sn_ordering = [],
         sn_section_digests = [], sn_digest = []\<rparr>)"

theorem drift_is_exact_witness:
  "dr_total (diff_snapshots (w_snapshot [w_zone ''a'']) (w_snapshot [w_zone ''b''])) = 2
     \<and> (\<exists>name. \<not> same_table (section_rows (w_snapshot [w_zone ''a'']) name) (section_rows (w_snapshot [w_zone ''b'']) name)
         \<or> \<not> json_same (ordering_of (w_snapshot [w_zone ''a'']) name) (ordering_of (w_snapshot [w_zone ''b'']) name))"
proof -
  have "dr_total (diff_snapshots (w_snapshot [w_zone ''a'']) (w_snapshot [w_zone ''b''])) = 2" by code_simp
  moreover note conjunct1 [OF drift_is_exact [of "w_snapshot [w_zone ''a'']" "w_snapshot [w_zone ''b'']"]]
  ultimately show ?thesis by auto
qed

definition is_error :: "'a res \<Rightarrow> bool" where
  "is_error r \<longleftrightarrow> (case r of Inl e \<Rightarrow> True | Inr x \<Rightarrow> False)"

lemma w_reordered: "reordered (w_overview [w_zone ''a'', w_zone ''b''] []) (w_overview [w_zone ''b'', w_zone ''a''] [])"
proof -
  have p: "policy_part (w_overview [w_zone x, w_zone y] []) ''zones''
      = Inr [[(''id'', JStr x), (''name'', JStr ''Zone''), (''networks'', JArr [JStr ''lan''])],
             [(''id'', JStr y), (''name'', JStr ''Zone''), (''networks'', JArr [JStr ''lan''])]]" for x y
    by (simp add: policy_part_def w_overview_def w_zone_def sub_dict_def sub_rows_def sub_list_def dget_default_def or_else_def)
  have "policy_part (w_overview zs []) ''rules'' = Inr []" for zs
    by (simp add: policy_part_def w_overview_def sub_dict_def sub_rows_def sub_list_def dget_default_def or_else_def)
  moreover have "bind_res (sub_dict (w_overview zs []) ''acl'') (\<lambda>a. sub_rows a ''rules'') = Inr []" for zs
    by (simp add: w_overview_def sub_dict_def sub_rows_def sub_list_def dget_default_def or_else_def)
  moreover have "sub_rows (w_overview zs []) ''devices'' = Inr []" for zs
    by (simp add: w_overview_def sub_rows_def sub_list_def dget_default_def or_else_def)
  moreover have "build_ordering (w_overview zs []) = Inr [(''firewall_policies'', JNull), (''acl_rules'', JNull)]" for zs
    by (simp add: build_ordering_def w_overview_def sub_dict_def dget_default_def or_else_def)
  ultimately show ?thesis by (simp add: reordered_def p same_up_to_order_def id_text_def dget_default_def or_else_def)
qed

theorem reordering_is_no_drift_witness:
  "\<exists>s1 s2. build_snapshot w_hash0 ''t1'' (w_overview [w_zone ''a'', w_zone ''b''] []) = Inr s1
     \<and> build_snapshot w_hash0 ''t2'' (w_overview [w_zone ''b'', w_zone ''a''] []) = Inr s2
     \<and> sn_digest s2 = sn_digest s1 \<and> dr_total (diff_snapshots s1 s2) = 0"
proof -
  have "\<not> is_error (build_sections (w_overview [w_zone ''a'', w_zone ''b''] []))" by code_simp
  moreover have "\<not> is_error (build_ordering (w_overview [w_zone ''a'', w_zone ''b''] []))" by code_simp
  ultimately obtain s1 where s1: "build_snapshot w_hash0 ''t1'' (w_overview [w_zone ''a'', w_zone ''b''] []) = Inr s1"
    by (auto simp: build_snapshot_def is_error_def split: sum.splits)
  from reordering_is_no_drift [OF w_reordered s1, of "''t2''"] s1 show ?thesis by auto
qed

section \<open>Keys that are never to be stored\<close>

text \<open>
  The filter of such keys is part of the digest only: a value that comes with one is stored in the
  snapshot as it came, and two that differ in it have the same digest although they count as drift.
\<close>

definition w_policy :: "string \<Rightarrow> json" where
  "w_policy p = JObj [(''id'', JStr ''r1''), (''name'', JObj [(''password'', JStr p)])]"

lemma secret_reaches_snapshot:
  "case build_sections (w_overview [] [w_policy p]) of
     Inr sec \<Rightarrow> (case dget sec ''firewall_policies'' of
         Some [r] \<Rightarrow> dget_null r ''name'' = JObj [(''password'', JStr p)] | _ \<Rightarrow> False)
   | Inl e \<Rightarrow> False"
  by (simp add: build_sections_def network_rows_def zone_rows_def policy_rows_def acl_rows_def device_rows_def
      network_names_def policy_part_def w_overview_def w_policy_def sub_dict_def sub_rows_def sub_list_def dget_default_def
      or_else_def by_id_def policy_row_def keep_fields_def)

lemma secret_not_in_digest: "canonical (JObj [(''password'', JStr p)]) = canonical (JObj [(''password'', JStr q)])"
  by (simp add: NEVER_STORE_def)

end
