(* ===== verification/Watchdog.thy ===== *)
theory Watchdog
  imports PyNum ExternalAudit StoreCmd
begin

text \<open>
  \<open>resource_watchdog.py\<close> and the sample it evaluates (\<open>containers.py\<close>): breaches of a container's
  limits are counted, a sustained one raises a detection and may restart or stop the add-on, within
  a budget. The settings are a record (\<open>wd_config\<close>), as the panel's schema admits them. Every reading
  of the monotonic clock takes the next tick of \<open>wd_env\<close>, which also holds what the Supervisor answers. An
  evaluation is one step: two that overlap are not modelled.
\<close>

declare dumps_with.simps [simp del]

declare wf_json.simps(3) [simp del]

section \<open>Containers\<close>

record container =
  ct_slug :: "string option"
  ct_name :: string
  ct_kind :: string
  ct_state :: "string option"
  ct_version :: json
  ct_update :: bool
  ct_stats :: dict
  ct_flags :: "string list"

record overview =
  ow_containers :: "container list"
  ow_truncated :: nat

definition MAX_ADDONS :: nat where "MAX_ADDONS = 300"

definition STAT_FIELDS :: "string list" where
  "STAT_FIELDS = [''cpu_percent'', ''memory_usage'', ''memory_limit'', ''memory_percent'', ''network_rx'', ''network_tx'',
     ''blk_read'', ''blk_write'']"

definition at_least :: "json \<Rightarrow> int \<Rightarrow> bool" where
  "at_least v n \<longleftrightarrow> (case num_of v of None \<Rightarrow> False | Some q \<Rightarrow> of_int n \<le> q)"

definition stat :: "container \<Rightarrow> string \<Rightarrow> json" where
  "stat c k = dget_null (ct_stats c) k"

definition flags_for :: "container \<Rightarrow> string list" where
  "flags_for c =
     (if at_least (stat c ''memory_percent'') 85 then [''high_memory''] else [])
     @ (if at_least (stat c ''cpu_percent'') 85 then [''high_cpu''] else [])
     @ (if ct_kind c = ''addon'' \<and> ct_state c \<notin> {Some ''started'', None} then [''not_running''] else [])"

text \<open>An add-on of the Supervisor's list: slug, name, state, version, and whether an update waits.\<close>

record addon =
  ad_slug :: "string option"
  ad_name :: "string option"
  ad_state :: "string option"
  ad_version :: json
  ad_update :: bool

definition or_text :: "string option \<Rightarrow> string \<Rightarrow> string" where
  "or_text x d = (case x of None \<Rightarrow> d | Some [] \<Rightarrow> d | Some s \<Rightarrow> s)"

definition read_stats :: "dict option \<Rightarrow> dict" where
  "read_stats a = map (\<lambda>k. (k, case a of None \<Rightarrow> JNull | Some d \<Rightarrow> dget_null d k)) STAT_FIELDS"

definition addon_row :: "(string \<Rightarrow> dict option) \<Rightarrow> addon \<Rightarrow> container" where
  "addon_row ask a =
     \<lparr>ct_slug = ad_slug a, ct_name = or_text (ad_name a) (or_text (ad_slug a) ''unknown''), ct_kind = ''addon'',
      ct_state = ad_state a, ct_version = ad_version a, ct_update = ad_update a,
      ct_stats = read_stats (if ad_state a = Some ''started'' \<and> ad_slug a \<notin> {None, Some []} then ask (the (ad_slug a)) else None),
      ct_flags = []\<rparr>"

definition system_row :: "string \<Rightarrow> string \<Rightarrow> string \<Rightarrow> dict option \<Rightarrow> container" where
  "system_row slug name kind a =
     \<lparr>ct_slug = Some slug, ct_name = name, ct_kind = kind, ct_state = Some ''started'', ct_version = JNull, ct_update = False,
      ct_stats = read_stats a, ct_flags = []\<rparr>"

text \<open>Flagged containers first, then by memory and by CPU, the largest first.\<close>

definition load_of :: "container \<Rightarrow> string \<Rightarrow> rat" where
  "load_of c k = (case num_of (stat c k) of None \<Rightarrow> 0 | Some q \<Rightarrow> q)"

definition more_loaded :: "container \<Rightarrow> container \<Rightarrow> bool" where
  "more_loaded c d \<longleftrightarrow>
     (if (ct_flags c = []) \<noteq> (ct_flags d = []) then ct_flags d = []
      else if load_of c ''memory_percent'' \<noteq> load_of d ''memory_percent''
      then load_of d ''memory_percent'' < load_of c ''memory_percent''
      else load_of d ''cpu_percent'' < load_of c ''cpu_percent'')"

fun place :: "container \<Rightarrow> container list \<Rightarrow> container list" where
  "place c [] = [c]"
| "place c (d # ds) = (if more_loaded d c then d # place c ds else c # d # ds)"

text \<open>
  \<open>installed\<close> is None while the Supervisor cannot be asked; \<open>core\<close>, \<open>supervisor\<close> and \<open>ask\<close> give the
  statistics, None where asking failed.
\<close>

definition container_resources ::
    "addon list option \<Rightarrow> dict option \<Rightarrow> dict option \<Rightarrow> (string \<Rightarrow> dict option) \<Rightarrow> overview option" where
  "container_resources installed core supervisor ask =
     map_option (\<lambda>all_addons.
       let rows = system_row ''core'' ''Home Assistant Core'' ''core'' core
                # system_row ''supervisor'' ''Supervisor'' ''supervisor'' supervisor
                # map (addon_row ask) (take MAX_ADDONS all_addons)
       in \<lparr>ow_containers = foldr place (map (\<lambda>c. c\<lparr>ct_flags := flags_for c\<rparr>) rows) [],
           ow_truncated = length all_addons - length (take MAX_ADDONS all_addons)\<rparr>) installed"

section \<open>State\<close>

record wd_override =
  ov_enabled :: "bool option"
  ov_cpu :: "int option option"
  ov_mem :: "int option option"
  ov_action :: "string option"

record wd_config =
  wc_enabled :: bool
  wc_interval :: int
  wc_sustained :: int
  wc_cpu :: "int option"
  wc_mem :: "int option"
  wc_action :: "string option"
  wc_overrides :: "(string \<times> wd_override) list"

record wd_note =
  wn_at :: string
  wn_what :: string
  wn_outcome :: string
  wn_looped :: bool

record watchdog =
  wd_breach :: "(string \<times> nat) list"
  wd_episodes :: "(string \<times> string) list"
  wd_history :: "(string \<times> json list) list"
  wd_actions :: "(string \<times> int list) list"
  wd_outcome :: "(string \<times> wd_note) list"
  wd_dirty :: bool
  wd_saved_at :: int
  wd_last_write :: "string option"
  wd_overview :: "(overview \<times> int) option"
  wd_evaluated_at :: "int option"
  wd_timer :: "int option"

definition new_watchdog :: "int \<Rightarrow> watchdog" where
  "new_watchdog now =
     \<lparr>wd_breach = [], wd_episodes = [], wd_history = [], wd_actions = [], wd_outcome = [], wd_dirty = False,
      wd_saved_at = now, wd_last_write = None, wd_overview = None, wd_evaluated_at = None, wd_timer = None\<rparr>"

text \<open>
  Beside the watchdog: the store, the audit log, the ring file and its previous copy (None: absent
  or unreadable), and the actions the Supervisor was asked for, each with the time it was noted.
\<close>

record wd_sys =
  wy_dog :: watchdog
  wy_store :: soc_store
  wy_log :: alog
  wy_ring :: "json option"
  wy_prev :: "json option"
  wy_done :: "(string \<times> string \<times> int) list"
  wy_tick :: nat

record wd_env =
  we_mono :: "nat \<Rightarrow> int"
  we_iso :: "nat \<Rightarrow> string"
  we_supervisor :: "nat \<Rightarrow> string \<Rightarrow> string \<Rightarrow> string option"
  we_writes :: "nat \<Rightarrow> bool"

definition HISTORY_SAMPLES :: nat where "HISTORY_SAMPLES = 60"

definition STATS_MIN_INTERVAL_SECONDS :: int where "STATS_MIN_INTERVAL_SECONDS = 180"

definition HISTORY_SAVE_INTERVAL_SECONDS :: int where "HISTORY_SAVE_INTERVAL_SECONDS = 600"

definition WATCHDOG_MAX_ACTIONS_PER_HOUR :: nat where "WATCHDOG_MAX_ACTIONS_PER_HOUR = 3"

definition WATCHDOG_ACTIONS :: "string list" where "WATCHDOG_ACTIONS = [''alert'', ''restart'', ''stop'']"

abbreviation (input) us_hour :: int where "us_hour \<equiv> 3600 * 1000000"

text \<open>A reading of \<open>time.monotonic\<close>, in microseconds.\<close>

definition tick :: "wd_sys \<Rightarrow> wd_sys" where
  "tick s = s\<lparr>wy_tick := Suc (wy_tick s)\<rparr>"

definition mono_now :: "wd_env \<Rightarrow> wd_sys \<Rightarrow> int" where
  "mono_now e s = we_mono e (wy_tick s)"

definition iso_of :: "wd_env \<Rightarrow> wd_sys \<Rightarrow> string" where
  "iso_of e s = we_iso e (wy_tick s)"

section \<open>History\<close>

definition ring_json :: "(string \<times> json list) list \<Rightarrow> json" where
  "ring_json h = JObj (map (\<lambda>(k, xs). (k, JArr xs)) h)"

definition history_of :: "watchdog \<Rightarrow> string \<Rightarrow> json list" where
  "history_of w slug = (case dget (wd_history w) slug of None \<Rightarrow> [] | Some h \<Rightarrow> h)"

definition load_ring :: "dict \<Rightarrow> watchdog \<Rightarrow> watchdog" where
  "load_ring raw w =
     foldl (\<lambda>w (slug, v). case v of
         JArr xs \<Rightarrow> w\<lparr>wd_history := dset (wd_history w) slug
             (keep_newest HISTORY_SAMPLES (history_of w slug @ keep_newest HISTORY_SAMPLES xs))\<rparr>
       | _ \<Rightarrow> w) w raw"

text \<open>\<open>async_load_history\<close>: the copy of the previous boot's ring is made before anything is written.\<close>

definition load_history :: "wd_sys \<Rightarrow> wd_sys" where
  "load_history s =
     (case wy_ring s of
        Some (JObj raw) \<Rightarrow> s\<lparr>wy_prev := Some (JObj raw), wy_dog := load_ring raw (wy_dog s)\<rparr>
      | _ \<Rightarrow> s)"

definition maybe_save_history :: "wd_env \<Rightarrow> bool \<Rightarrow> wd_sys \<Rightarrow> wd_sys" where
  "maybe_save_history e force s =
     (let w = wy_dog s in
      if \<not> wd_dirty w then s
      else if \<not> force \<and> mono_now e s - wd_saved_at w < HISTORY_SAVE_INTERVAL_SECONDS * us_second then tick s
      else
        (let w1 = w\<lparr>wd_dirty := False, wd_saved_at := mono_now e s\<rparr>
         in if we_writes e (wy_tick s)
            then (tick s)\<lparr>wy_ring := Some (ring_json (wd_history w)), wy_dog := w1\<lparr>wd_last_write := Some (iso_of e s)\<rparr>\<rparr>
            else (tick s)\<lparr>wy_dog := w1\<rparr>))"

definition forget_slugs :: "string list \<Rightarrow> watchdog \<Rightarrow> watchdog" where
  "forget_slugs lost w =
     foldl (\<lambda>w slug. w\<lparr>wd_history := ddel (wd_history w) slug, wd_breach := ddel (wd_breach w) slug,
                       wd_outcome := ddel (wd_outcome w) slug, wd_dirty := True\<rparr>) w lost"

definition prune_history :: "string list \<Rightarrow> watchdog \<Rightarrow> watchdog" where
  "prune_history installed w = forget_slugs (filter (\<lambda>k. k \<notin> set installed) (map fst (wd_history w))) w"

section \<open>Settings\<close>

definition interval_seconds :: "wd_config \<Rightarrow> int" where
  "interval_seconds cfg = max 30 (min 3600 (if wc_interval cfg = 0 then 60 else wc_interval cfg))"

definition sample_gap :: "wd_config \<Rightarrow> int" where
  "sample_gap cfg =
     us_second * (if wc_enabled cfg then min STATS_MIN_INTERVAL_SECONDS (interval_seconds cfg) else STATS_MIN_INTERVAL_SECONDS)"

definition sustained_samples :: "wd_config \<Rightarrow> int" where
  "sustained_samples cfg = max 1 (if wc_sustained cfg = 0 then 3 else wc_sustained cfg)"

definition no_override :: wd_override where
  "no_override = \<lparr>ov_enabled = None, ov_cpu = None, ov_mem = None, ov_action = None\<rparr>"

definition limits_for :: "wd_config \<Rightarrow> string \<Rightarrow> string \<Rightarrow> int option \<times> int option \<times> string" where
  "limits_for cfg slug kind =
     (let o' = (case dget (wc_overrides cfg) slug of None \<Rightarrow> no_override | Some x \<Rightarrow> x)
      in if ov_enabled o' = Some False then (None, None, ''alert'')
         else
           (let cpu = (case ov_cpu o' of None \<Rightarrow> wc_cpu cfg | Some v \<Rightarrow> v);
                memory = (case ov_mem o' of None \<Rightarrow> wc_mem cfg | Some v \<Rightarrow> v);
                action = or_text (ov_action o') (or_text (wc_action cfg) ''alert'');
                action = (if action \<in> set WATCHDOG_ACTIONS then action else ''alert'')
            in (cpu, memory, if kind = ''addon'' then action else ''alert'')))"

definition start_timer :: "wd_config \<Rightarrow> watchdog \<Rightarrow> watchdog" where
  "start_timer cfg w = w\<lparr>wd_timer := (if wc_enabled cfg then Some (interval_seconds cfg) else None)\<rparr>"

definition stop_timer :: "watchdog \<Rightarrow> watchdog" where
  "stop_timer w = w\<lparr>wd_timer := None\<rparr>"

section \<open>Detections\<close>

definition detection_key :: "string \<Rightarrow> string" where
  "detection_key slug = ''watchdog_'' @ slug"

definition detections_of :: "soc_store \<Rightarrow> dict res" where
  "detections_of st = bind_res (item (sd st) ''detections'') (as_table AttributeError)"

definition is_active_status :: "json \<Rightarrow> bool" where
  "is_active_status v \<longleftrightarrow> v \<in> {JStr ''open'', JStr ''ack''}"

text \<open>\<open>_end_episode\<close>: the state, and whether a detection changed.\<close>

definition end_episode :: "wd_env \<Rightarrow> string \<Rightarrow> wd_sys \<Rightarrow> (wd_sys \<times> bool) res" where
  "end_episode e slug s =
     (let s = s\<lparr>wy_dog := (wy_dog s)\<lparr>wd_episodes := ddel (wd_episodes (wy_dog s)) slug\<rparr>\<rparr>
      in bind_res (detections_of (wy_store s)) (\<lambda>t.
           case entry t (detection_key slug) of
             None \<Rightarrow> Inr (s, False)
           | Some v \<Rightarrow>
               bind_res (as_table AttributeError v) (\<lambda>d.
                 if \<not> is_active_status (dget_null d ''status'') then Inr (s, False)
                 else bind_res (async_set_detection_status (detection_key slug) ''resolved'' None (Some (iso_of e s)) (wy_store s))
                        (\<lambda>(st, _). Inr ((tick s)\<lparr>wy_store := st\<rparr>, True)))))"

text \<open>Slugs with a detection still open or acknowledged, and those with an episode.\<close>

definition breach_slug :: "json \<Rightarrow> string option res" where
  "breach_slug v =
     bind_res (as_table AttributeError v) (\<lambda>d.
       if dget_null d ''rule_id'' = JStr ''container_resource_breach'' \<and> is_active_status (dget_null d ''status'')
       then bind_res (as_table AttributeError (or_else (dget_null d ''detail'') (JObj []))) (\<lambda>x.
              Inr (case dget_null x ''slug'' of JStr s \<Rightarrow> if s = [] then None else Some s | _ \<Rightarrow> None))
       else Inr None)"

fun breach_slugs :: "dict \<Rightarrow> string list res" where
  "breach_slugs [] = Inr []"
| "breach_slugs (p # ps) =
     bind_res (breach_slug (snd p)) (\<lambda>x. bind_res (breach_slugs ps) (\<lambda>xs.
       Inr (case x of None \<Rightarrow> xs | Some s \<Rightarrow> s # xs)))"

definition open_breach_slugs :: "wd_sys \<Rightarrow> string list res" where
  "open_breach_slugs s =
     bind_res (detections_of (wy_store s)) (\<lambda>t. bind_res (breach_slugs t) (\<lambda>xs.
       Inr (remdups (map fst (wd_episodes (wy_dog s)) @ xs))))"

section \<open>A sustained breach\<close>

text \<open>The format \<open>.0f\<close>: the nearest whole number, a half to the even one.\<close>

definition whole :: "rat \<Rightarrow> int" where
  "whole q = (let f = \<lfloor>q\<rfloor>; d = q - of_int f in if d < 1 / 2 then f else if 1 / 2 < d then f + 1 else if even f then f else f + 1)"

definition part_text :: "string \<Rightarrow> json \<Rightarrow> string" where
  "part_text label v = (case num_of v of None \<Rightarrow> label | Some q \<Rightarrow> label @ '' '' @ int_text (whole q) @ ''%'')"

definition what_text :: "bool \<Rightarrow> bool \<Rightarrow> json \<Rightarrow> json \<Rightarrow> string" where
  "what_text over_cpu over_mem cpu memory =
     join '' and '' ((if over_cpu then [part_text ''CPU'' cpu] else []) @ (if over_mem then [part_text ''memory'' memory] else []))"

definition action_times :: "wd_sys \<Rightarrow> string \<Rightarrow> int list" where
  "action_times s slug = (case dget (wd_actions (wy_dog s)) slug of None \<Rightarrow> [] | Some ts \<Rightarrow> ts)"

definition set_actions :: "string \<Rightarrow> int list \<Rightarrow> wd_sys \<Rightarrow> wd_sys" where
  "set_actions slug ts s = s\<lparr>wy_dog := (wy_dog s)\<lparr>wd_actions := dset (wd_actions (wy_dog s)) slug ts\<rparr>\<rparr>"

definition action_budget_left :: "wd_env \<Rightarrow> string \<Rightarrow> wd_sys \<Rightarrow> wd_sys \<times> bool" where
  "action_budget_left e slug s =
     (let ts = filter (\<lambda>t. mono_now e s - t < us_hour) (action_times s slug)
      in (tick (set_actions slug ts s), length ts < WATCHDOG_MAX_ACTIONS_PER_HOUR))"

text \<open>\<open>_async_enforce\<close> and the note of its time: the outcome, with what the Supervisor answers.\<close>

definition enforce :: "wd_env \<Rightarrow> string \<Rightarrow> string \<Rightarrow> wd_sys \<Rightarrow> wd_sys \<times> string" where
  "enforce e slug action s =
     (let outcome = (case we_supervisor e (wy_tick s) slug action of
             Some err \<Rightarrow> action @ '' FAILED: '' @ err
           | None \<Rightarrow> if action = ''restart'' then ''add-on restarted'' else ''add-on stopped'');
          done_at = mono_now e s
      in ((tick (set_actions slug (action_times s slug @ [done_at]) s))\<lparr>wy_done := wy_done s @ [(slug, action, done_at)]\<rparr>, outcome))"

text \<open>The action taken, its outcome, and whether the budget was exhausted.\<close>

definition respond :: "wd_env \<Rightarrow> string \<Rightarrow> string \<Rightarrow> wd_sys \<Rightarrow> wd_sys \<times> string \<times> string \<times> bool" where
  "respond e slug action s =
     (if action = ''alert'' then (s, action, ''alerted'', False)
      else
        (let (s, left) = action_budget_left e slug s
         in if \<not> left then (s, ''alert'', ''alerted'', True)
            else if action \<in> {''restart'', ''stop''} then (let (s, outcome) = enforce e slug action s in (s, action, outcome, False))
            else (s, action, ''alerted'', False)))"

definition count_of :: "dict \<Rightarrow> int res" where
  "count_of d = (case as_pyint (dget_default d ''recurrence_count'' (JInt 0)) of None \<Rightarrow> Inl TypeError | Some n \<Rightarrow> Inr (n + 1))"

text \<open>The episode a trip belongs to: its start, and whether it begins with it.\<close>

definition stored_start :: "dict \<Rightarrow> string option res" where
  "stored_start d =
     (if is_active_status (dget_null d ''status'')
      then bind_res (as_table AttributeError (or_else (dget_null d ''detail'') (JObj []))) (\<lambda>x.
             Inr (case dget_null x ''episode_start'' of JStr t \<Rightarrow> if t = [] then None else Some t | _ \<Rightarrow> None))
      else Inr None)"

definition episode_start :: "string \<Rightarrow> dict option \<Rightarrow> string \<Rightarrow> (string \<times> string) list \<Rightarrow> (string \<times> bool) res" where
  "episode_start now existing slug eps =
     (case dget eps slug of
        Some t \<Rightarrow> Inr (t, False)
      | None \<Rightarrow>
          (case existing of
             None \<Rightarrow> Inr (now, True)
           | Some d \<Rightarrow> bind_res (stored_start d) (\<lambda>x. Inr (case x of None \<Rightarrow> (now, True) | Some t \<Rightarrow> (t, False)))))"

definition breach_row ::
    "string \<Rightarrow> dict option \<Rightarrow> int \<Rightarrow> container \<Rightarrow> string \<Rightarrow> string \<Rightarrow> string \<Rightarrow> bool \<Rightarrow> string \<Rightarrow> dict" where
  "breach_row now existing recurrence c slug what outcome looped start =
     [(''id'', JStr (detection_key slug)), (''rule_id'', JStr ''container_resource_breach''), (''severity'', JStr ''high''),
      (''user_id'', JNull), (''ip'', JNull),
      (''ts'', case existing of None \<Rightarrow> JStr now | Some [] \<Rightarrow> JStr now | Some d \<Rightarrow> dget_default d ''ts'' (JStr now)),
      (''last_seen'', JStr now), (''status'', JStr ''open''), (''recurrence_count'', JInt recurrence),
      (''title'', JStr (''Container '' @ [CHR 39] @ ct_name c @ [CHR 39] @ '' sustained '' @ what)),
      (''detail'', JObj [(''slug'', JStr slug), (''kind'', JStr (ct_kind c)), (''cpu_percent'', stat c ''cpu_percent''),
         (''memory_percent'', stat c ''memory_percent''), (''action_taken'', JStr outcome),
         (''restart_loop_suspected'', JBool looped), (''episode_start'', JStr start)])]"

definition reopen :: "string \<Rightarrow> soc_store \<Rightarrow> soc_store res" where
  "reopen slug st =
     on_table AttributeError ''detections'' (\<lambda>t. bind_res (item t (detection_key slug)) (\<lambda>v.
       bind_res (as_table TypeError v) (\<lambda>d. Inr (dset t (detection_key slug) (JObj (dset d ''status'' (JStr ''open'')))))))
       st"

definition trip_event :: "string \<Rightarrow> string \<Rightarrow> string \<Rightarrow> string \<Rightarrow> bool \<Rightarrow> audit_event" where
  "trip_event slug what action outcome looped =
     (plain_event ''watchdog_triggered'')
       \<lparr>ev_detail := Some (PDict [(KStr ''slug'', PStr slug), (KStr ''breach'', PStr what), (KStr ''action'', PStr action),
          (KStr ''outcome'', PStr outcome), (KStr ''restart_loop_suspected'', PBool looped)])\<rparr>"

definition record_breach ::
    "wd_env \<Rightarrow> container \<Rightarrow> string \<Rightarrow> string \<Rightarrow> string \<Rightarrow> string \<Rightarrow> bool \<Rightarrow> wd_sys \<Rightarrow> wd_sys res" where
  "record_breach e c slug what action outcome looped s =
     (let now = iso_of e s;
          s = (tick s)\<lparr>wy_dog := (wy_dog s)\<lparr>wd_outcome := dset (wd_outcome (wy_dog s)) slug
                \<lparr>wn_at = now, wn_what = what, wn_outcome = outcome, wn_looped = looped\<rparr>\<rparr>\<rparr>
      in bind_res (detections_of (wy_store s)) (\<lambda>t.
         bind_res (case entry t (detection_key slug) of
                     None \<Rightarrow> Inr None | Some v \<Rightarrow> bind_res (as_table AttributeError v) (\<lambda>d. Inr (Some d))) (\<lambda>existing.
         bind_res (case existing of None \<Rightarrow> Inr 1 | Some [] \<Rightarrow> Inr 1 | Some d \<Rightarrow> count_of d) (\<lambda>recurrence.
         bind_res (episode_start now existing slug (wd_episodes (wy_dog s))) (\<lambda>(start, fresh).
         bind_res (async_upsert_detection False (detection_key slug)
                     (breach_row now existing recurrence c slug what outcome looped start) (wy_store s)) (\<lambda>st.
         bind_res (if fresh then reopen slug st else Inr st) (\<lambda>st.
           Inr (s\<lparr>wy_dog := (wy_dog s)\<lparr>wd_episodes := dset (wd_episodes (wy_dog s)) slug start\<rparr>, wy_store := st,
                  wy_log := async_log now (trip_event slug what action outcome looped) (wy_log s)\<rparr>))))))))"

definition trip :: "wd_env \<Rightarrow> container \<Rightarrow> string \<Rightarrow> string \<Rightarrow> bool \<Rightarrow> bool \<Rightarrow> wd_sys \<Rightarrow> wd_sys res" where
  "trip e c slug action over_cpu over_mem s =
     (let what = what_text over_cpu over_mem (stat c ''cpu_percent'') (stat c ''memory_percent'');
          (s, action, outcome, looped) = respond e slug action s
      in record_breach e c slug what action outcome looped s)"

section \<open>One sample\<close>

definition sample_row :: "string \<Rightarrow> container \<Rightarrow> json" where
  "sample_row now c =
     JObj [(''ts'', JStr now), (''cpu_percent'', stat c ''cpu_percent''), (''memory_percent'', stat c ''memory_percent''),
           (''memory_usage'', stat c ''memory_usage'')]"

definition note_sample :: "wd_env \<Rightarrow> string \<Rightarrow> container \<Rightarrow> wd_sys \<Rightarrow> wd_sys" where
  "note_sample e slug c s =
     (let w = wy_dog s
      in (tick s)\<lparr>wy_dog := w\<lparr>wd_history := dset (wd_history w) slug
            (keep_newest HISTORY_SAMPLES (history_of w slug @ [sample_row (iso_of e s) c])), wd_dirty := True\<rparr>\<rparr>)"

definition over_limit :: "int option \<Rightarrow> json \<Rightarrow> bool" where
  "over_limit limit v \<longleftrightarrow> (case limit of None \<Rightarrow> False | Some n \<Rightarrow> at_least v n)"

definition stopped_addon :: "container \<Rightarrow> bool" where
  "stopped_addon c \<longleftrightarrow> ct_kind c = ''addon'' \<and> ct_state c \<noteq> Some ''started''"

definition clear_breach :: "string \<Rightarrow> wd_sys \<Rightarrow> wd_sys" where
  "clear_breach slug s = s\<lparr>wy_dog := (wy_dog s)\<lparr>wd_breach := ddel (wd_breach (wy_dog s)) slug\<rparr>\<rparr>"

definition set_breach :: "string \<Rightarrow> nat \<Rightarrow> wd_sys \<Rightarrow> wd_sys" where
  "set_breach slug n s = s\<lparr>wy_dog := (wy_dog s)\<lparr>wd_breach := dset (wd_breach (wy_dog s)) slug n\<rparr>\<rparr>"

definition breach_count :: "wd_sys \<Rightarrow> string \<Rightarrow> nat" where
  "breach_count s slug = (case dget (wd_breach (wy_dog s)) slug of None \<Rightarrow> 0 | Some n \<Rightarrow> n)"

definition eval_container :: "wd_env \<Rightarrow> wd_config \<Rightarrow> container \<Rightarrow> wd_sys \<Rightarrow> (wd_sys \<times> bool) res" where
  "eval_container e cfg c s =
     (case ct_slug c of
        None \<Rightarrow> Inr (s, False)
      | Some slug \<Rightarrow>
          if slug = [] then Inr (s, False)
          else
            (let s = note_sample e slug c s; (cpu_limit, mem_limit, action) = limits_for cfg slug (ct_kind c);
                 over_cpu = over_limit cpu_limit (stat c ''cpu_percent''); over_mem = over_limit mem_limit (stat c ''memory_percent'')
             in if stopped_addon c \<or> \<not> (over_cpu \<or> over_mem) then end_episode e slug (clear_breach slug s)
                else
                  (let n = breach_count s slug + 1
                   in if int n < sustained_samples cfg then Inr (set_breach slug n s, False)
                      else bind_res (trip e c slug action over_cpu over_mem (set_breach slug 0 s)) (\<lambda>s. Inr (s, True)))))"

fun eval_containers :: "wd_env \<Rightarrow> wd_config \<Rightarrow> container list \<Rightarrow> wd_sys \<Rightarrow> (wd_sys \<times> bool) res" where
  "eval_containers e cfg [] s = Inr (s, False)"
| "eval_containers e cfg (c # cs) s =
     bind_res (eval_container e cfg c s) (\<lambda>(s, b). bind_res (eval_containers e cfg cs s) (\<lambda>(s, b'). Inr (s, b \<or> b')))"

fun end_episodes :: "wd_env \<Rightarrow> string list \<Rightarrow> wd_sys \<Rightarrow> (wd_sys \<times> bool) res" where
  "end_episodes e [] s = Inr (s, False)"
| "end_episodes e (k # ks) s =
     bind_res (end_episode e k (clear_breach k s)) (\<lambda>(s, b). bind_res (end_episodes e ks s) (\<lambda>(s, b'). Inr (s, b \<or> b')))"

definition seen_slugs :: "container list \<Rightarrow> string list" where
  "seen_slugs cs = List.map_filter ct_slug cs"

text \<open>The flag says whether the panel is told to refresh.\<close>

definition evaluate :: "wd_env \<Rightarrow> wd_config \<Rightarrow> overview \<Rightarrow> wd_sys \<Rightarrow> (wd_sys \<times> bool) res" where
  "evaluate e cfg ow s =
     (let s = s\<lparr>wy_dog := (wy_dog s)\<lparr>wd_evaluated_at := map_option snd (wd_overview (wy_dog s))\<rparr>\<rparr>; cs = ow_containers ow
      in bind_res (eval_containers e cfg cs s) (\<lambda>(s, b).
         bind_res (open_breach_slugs s) (\<lambda>slugs.
         bind_res (end_episodes e (filter (\<lambda>k. k \<notin> set (seen_slugs cs)) slugs) s) (\<lambda>(s, b').
           let s = (if ow_truncated ow = 0 then s\<lparr>wy_dog := prune_history (seen_slugs cs) (wy_dog s)\<rparr> else s)
           in Inr (maybe_save_history e False s, b \<or> b')))))"

definition remember :: "wd_env \<Rightarrow> overview \<Rightarrow> wd_sys \<Rightarrow> wd_sys" where
  "remember e ow s = (tick s)\<lparr>wy_dog := (wy_dog s)\<lparr>wd_overview := Some (ow, mono_now e s)\<rparr>\<rparr>"

text \<open>\<open>answer\<close> is what the Supervisor would give now.\<close>

definition shared_overview :: "wd_env \<Rightarrow> int \<Rightarrow> overview option \<Rightarrow> wd_sys \<Rightarrow> wd_sys \<times> overview option" where
  "shared_overview e gap answer s =
     (case wd_overview (wy_dog s) of
        Some (ow, taken) \<Rightarrow>
          if mono_now e s - taken < gap then (tick s, Some ow)
          else (case answer of None \<Rightarrow> (tick s, None) | Some new \<Rightarrow> (remember e new (tick s), Some new))
      | None \<Rightarrow> (case answer of None \<Rightarrow> (s, None) | Some new \<Rightarrow> (remember e new s, Some new)))"

definition sample :: "wd_env \<Rightarrow> wd_config \<Rightarrow> overview option \<Rightarrow> wd_sys \<Rightarrow> (wd_sys \<times> bool) res" where
  "sample e cfg answer s =
     (let (s, ow) = shared_overview e (sample_gap cfg div 2) answer s
      in case ow of
           None \<Rightarrow> Inr (s, False)
         | Some o' \<Rightarrow>
             if map_option snd (wd_overview (wy_dog s)) \<noteq> wd_evaluated_at (wy_dog s) then evaluate e cfg o' s
             else Inr (s, False))"

definition run_once :: "wd_env \<Rightarrow> wd_config \<Rightarrow> overview option \<Rightarrow> wd_sys \<Rightarrow> (wd_sys \<times> bool) res" where
  "run_once e cfg answer s =
     (case answer of None \<Rightarrow> Inr (s, False) | Some ow \<Rightarrow> evaluate e cfg ow (remember e ow s))"

end
