(* ===== verification/WatchdogTheorems.thy ===== *)
theory WatchdogTheorems
  imports Watchdog
begin

text \<open>
  The watchdog: what it does to add-ons and how often, that a container which is back under its limits
  has no open breach, and the bounds of the history.
\<close>

declare dumps_with.simps [simp del]

declare wf_json.simps(3) [simp del]

section \<open>What leaves the actions alone\<close>

definition quiet :: "wd_sys \<Rightarrow> wd_sys \<Rightarrow> bool" where
  "quiet s s' \<longleftrightarrow> wy_done s' = wy_done s \<and> wd_actions (wy_dog s') = wd_actions (wy_dog s) \<and> wy_tick s \<le> wy_tick s'
     \<and> wd_overview (wy_dog s') = wd_overview (wy_dog s)"

lemma quiet_refl [simp]: "quiet s s"
  by (simp add: quiet_def)

lemma quiet_trans: "quiet a b \<Longrightarrow> quiet b c \<Longrightarrow> quiet a c"
  by (auto simp: quiet_def)

lemma quiet_simple [simp]:
  "quiet s (tick s)" "quiet s (clear_breach k s)" "quiet s (set_breach k n s)" "quiet s (note_sample e k c s)"
  by (simp_all add: quiet_def tick_def clear_breach_def set_breach_def note_sample_def Let_def)

lemma quiet_save: "quiet s (maybe_save_history e force s)"
  by (simp add: maybe_save_history_def quiet_def tick_def Let_def)

lemma forget_slugs_actions [simp]:
  "wd_actions (forget_slugs ks w) = wd_actions w" "wd_overview (forget_slugs ks w) = wd_overview w"
  by (induction ks arbitrary: w) (simp_all add: forget_slugs_def)

lemma quiet_end_episode: "end_episode e k s = Inr (s', b) \<Longrightarrow> quiet s s'"
  by (auto simp: end_episode_def quiet_def tick_def bind_res_Inr Let_def split: option.splits if_splits)

lemma quiet_record: "record_breach e c k what a outcome looped s = Inr s' \<Longrightarrow> quiet s s'"
  by (auto simp: record_breach_def quiet_def tick_def bind_res_Inr Let_def)

lemma quiet_end_episodes: "end_episodes e ks s = Inr (s', b) \<Longrightarrow> quiet s s'"
proof (induction ks arbitrary: s b)
  case (Cons k ks)
  obtain s1 b1 b2 where 1: "end_episode e k (clear_breach k s) = Inr (s1, b1)" "end_episodes e ks s1 = Inr (s', b2)"
    using Cons.prems by (auto simp: bind_res_Inr)
  show ?case using quiet_end_episode [OF 1(1)] Cons.IH [OF 1(2)] quiet_simple(2) [of s k] by (meson quiet_trans)
qed simp

section \<open>The budget\<close>

definition times_of :: "string \<Rightarrow> (string \<times> string \<times> int) list \<Rightarrow> int list" where
  "times_of k done = map (\<lambda>x. snd (snd x)) (filter (\<lambda>x. fst x = k) done)"

definition rate_ok :: "int list \<Rightarrow> bool" where
  "rate_ok ts \<longleftrightarrow> (\<forall>i < length ts. length (filter (\<lambda>t. ts ! i - t < us_hour) (take (Suc i) ts)) \<le> 3)"

definition budget_inv :: "wd_env \<Rightarrow> wd_sys \<Rightarrow> bool" where
  "budget_inv e s \<longleftrightarrow>
     (\<forall>k. filter (\<lambda>t. mono_now e s - t < us_hour) (times_of k (wy_done s)) = filter (\<lambda>t. mono_now e s - t < us_hour) (action_times s k))
     \<and> (\<forall>k. rate_ok (times_of k (wy_done s)))"

definition clock_runs :: "wd_env \<Rightarrow> bool" where
  "clock_runs e \<longleftrightarrow> (\<forall>m n. m \<le> n \<longrightarrow> we_mono e m \<le> we_mono e n)"

lemma filter_recent: "m \<le> n \<Longrightarrow> filter (\<lambda>t. n - t < h) xs = filter (\<lambda>t. n - t < h) (filter (\<lambda>t. m - t < h) xs)" for m n h :: int
  by (induction xs) auto

lemma later_filters:
  fixes m n h :: int
  assumes "filter (\<lambda>t. m - t < h) xs = filter (\<lambda>t. m - t < h) ys" "m \<le> n"
  shows "filter (\<lambda>t. n - t < h) xs = filter (\<lambda>t. n - t < h) ys"
  using filter_recent [OF assms(2), of h xs] filter_recent [OF assms(2), of h ys] assms(1) by simp

lemma budget_same:
  assumes "clock_runs e" "budget_inv e s" "wy_done s' = wy_done s" "wd_actions (wy_dog s') = wd_actions (wy_dog s)"
    "wy_tick s \<le> wy_tick s'"
  shows "budget_inv e s'"
proof -
  have q: "action_times s' k = action_times s k" "mono_now e s \<le> mono_now e s'" for k
    using assms(1,4,5) by (simp_all add: action_times_def clock_runs_def mono_now_def)
  show ?thesis unfolding budget_inv_def q(1) assms(3)
  proof (intro conjI allI)
    fix k
    have "filter (\<lambda>t. mono_now e s - t < us_hour) (times_of k (wy_done s)) = filter (\<lambda>t. mono_now e s - t < us_hour) (action_times s k)"
      using assms(2) by (simp add: budget_inv_def)
    then show "filter (\<lambda>t. mono_now e s' - t < us_hour) (times_of k (wy_done s)) = filter (\<lambda>t. mono_now e s' - t < us_hour) (action_times s k)"
      by (rule later_filters [OF _ q(2)])
    show "rate_ok (times_of k (wy_done s))" using assms(2) by (simp add: budget_inv_def)
  qed
qed

lemma budget_quiet: "clock_runs e \<Longrightarrow> budget_inv e s \<Longrightarrow> quiet s s' \<Longrightarrow> budget_inv e s'"
  unfolding quiet_def by (elim conjE) (rule budget_same)

lemma set_actions_simps [simp]:
  "action_times (set_actions k ts s) k' = (if k' = k then ts else action_times s k')"
  "wy_done (set_actions k ts s) = wy_done s" "wy_tick (set_actions k ts s) = wy_tick s"
  "wy_store (set_actions k ts s) = wy_store s"
  by (simp_all add: set_actions_def action_times_def dict_simps)

lemma tick_simps [simp]:
  "action_times (tick s) k = action_times s k" "wy_done (tick s) = wy_done s" "wy_tick (tick s) = Suc (wy_tick s)"
  "wy_store (tick s) = wy_store s" "wy_dog (tick s) = wy_dog s"
  by (simp_all add: tick_def action_times_def)

lemma budget_checked:
  assumes "clock_runs e" "budget_inv e s" "action_budget_left e k s = (s1, left)"
  shows "budget_inv e s1" "wy_done s1 = wy_done s" "left \<Longrightarrow> length (filter (\<lambda>t. mono_now e s1 - t < us_hour) (times_of k (wy_done s))) < 3"
proof -
  let ?ts = "filter (\<lambda>t. mono_now e s - t < us_hour) (action_times s k)"
  have s1: "s1 = tick (set_actions k ?ts s)" "left \<longleftrightarrow> length ?ts < 3"
    using assms(3) by (auto simp: action_budget_left_def Let_def WATCHDOG_MAX_ACTIONS_PER_HOUR_def)
  have le: "mono_now e s \<le> mono_now e s1" using assms(1) by (simp add: s1(1) mono_now_def clock_runs_def)
  have f: "filter (\<lambda>t. mono_now e s - t < us_hour) (times_of k' (wy_done s)) = filter (\<lambda>t. mono_now e s - t < us_hour) (action_times s k')" for k'
    using assms(2) by (simp add: budget_inv_def)
  show d: "wy_done s1 = wy_done s" by (simp add: s1(1))
  have g: "filter (\<lambda>t. mono_now e s1 - t < us_hour) (times_of k' (wy_done s)) = filter (\<lambda>t. mono_now e s1 - t < us_hour) (action_times s1 k')" for k'
  proof (cases "k' = k")
    case True
    have "action_times s1 k = ?ts" by (simp add: s1(1))
    then show ?thesis using later_filters [OF f [of k] le] filter_recent [OF le, of us_hour "action_times s k"] True by simp
  next
    case False
    then have "action_times s1 k' = action_times s k'" by (simp add: s1(1))
    then show ?thesis using later_filters [OF f [of k'] le] by simp
  qed
  show "budget_inv e s1" using g assms(2) by (simp add: budget_inv_def d)
  assume left
  then have "length ?ts < 3" using s1(2) by simp
  moreover have "filter (\<lambda>t. mono_now e s1 - t < us_hour) (times_of k (wy_done s)) = filter (\<lambda>t. mono_now e s1 - t < us_hour) ?ts"
    using later_filters [OF f [of k] le] filter_recent [OF le, of us_hour "action_times s k"] by simp
  ultimately show "length (filter (\<lambda>t. mono_now e s1 - t < us_hour) (times_of k (wy_done s))) < 3"
    using length_filter_le [of "\<lambda>t. mono_now e s1 - t < us_hour" ?ts] by simp
qed

lemma rate_ok_snoc:
  assumes "rate_ok ts" "length (filter (\<lambda>t. a - t < us_hour) ts) < 3"
  shows "rate_ok (ts @ [a])"
  unfolding rate_ok_def
proof (intro allI impI)
  fix i assume i: "i < length (ts @ [a])"
  show "length (filter (\<lambda>t. (ts @ [a]) ! i - t < us_hour) (take (Suc i) (ts @ [a]))) \<le> 3"
  proof (cases "i < length ts")
    case True
    then show ?thesis using assms(1) by (simp add: rate_ok_def nth_append)
  next
    case False
    then have "i = length ts" using i by simp
    then show ?thesis using assms(2) by (simp add: nth_append)
  qed
qed

lemma times_of_snoc: "times_of k (done @ [(k', a, t)]) = times_of k done @ (if k' = k then [t] else [])"
  by (simp add: times_of_def)

lemma enforced:
  assumes "clock_runs e" "budget_inv e s" "enforce e k a s = (s1, outcome)"
    "length (filter (\<lambda>t. mono_now e s - t < us_hour) (times_of k (wy_done s))) < 3"
  shows "budget_inv e s1" "wy_done s1 = wy_done s @ [(k, a, mono_now e s)]"
proof -
  let ?d = "wy_done s @ [(k, a, mono_now e s)]"
  have s1: "s1 = (tick (set_actions k (action_times s k @ [mono_now e s]) s))\<lparr>wy_done := ?d\<rparr>"
    using assms(3) by (auto simp: enforce_def Let_def)
  show d: "wy_done s1 = ?d" by (simp add: s1)
  have at: "action_times s1 k' = action_times s k' @ (if k = k' then [mono_now e s] else [])" for k'
  proof -
    have "action_times (t\<lparr>wy_done := dd\<rparr>) j = action_times t j" for t :: wd_sys and dd j by (simp add: action_times_def)
    then show ?thesis by (simp add: s1)
  qed
  have le: "mono_now e s \<le> mono_now e s1" using assms(1) by (simp add: s1 mono_now_def clock_runs_def)
  have f: "filter (\<lambda>t. mono_now e s - t < us_hour) (times_of k' (wy_done s)) = filter (\<lambda>t. mono_now e s - t < us_hour) (action_times s k')" for k'
    using assms(2) by (simp add: budget_inv_def)
  have "filter (\<lambda>t. mono_now e s1 - t < us_hour) (times_of k' ?d) = filter (\<lambda>t. mono_now e s1 - t < us_hour) (action_times s1 k')" for k'
    using later_filters [OF f [of k'] le] by (simp add: at times_of_snoc)
  moreover have "rate_ok (times_of k' ?d)" for k'
    using assms(2,4) rate_ok_snoc [of "times_of k (wy_done s)" "mono_now e s"] by (auto simp: times_of_snoc budget_inv_def)
  ultimately show "budget_inv e s1" by (simp add: budget_inv_def d)
qed

lemma responded:
  assumes "clock_runs e" "budget_inv e s" "respond e k a s = (s1, a', outcome, looped)"
  shows "budget_inv e s1" "wy_done s1 = wy_done s \<or> (a \<in> {''restart'', ''stop''} \<and> (\<exists>t. wy_done s1 = wy_done s @ [(k, a, t)]))"
proof -
  have "budget_inv e s1 \<and> (wy_done s1 = wy_done s \<or> (a \<in> {''restart'', ''stop''} \<and> (\<exists>t. wy_done s1 = wy_done s @ [(k, a, t)])))"
  proof (cases "a = ''alert''")
    case True
    then show ?thesis using assms(2,3) by (simp add: respond_def)
  next
    case False
    obtain s2 left where l: "action_budget_left e k s = (s2, left)" by fastforce
    note b = budget_checked [OF assms(1,2) l]
    show ?thesis
    proof (cases "left \<and> a \<in> {''restart'', ''stop''}")
      case True
      obtain s3 o3 where en: "enforce e k a s2 = (s3, o3)" by fastforce
      have "s1 = s3" using assms(3) False True l en by (auto simp: respond_def)
      then show ?thesis using enforced [OF assms(1) b(1) en] b(2,3) True by auto
    next
      case f: False
      then have "s1 = s2" using assms(3) False l by (auto simp: respond_def split: if_splits)
      then show ?thesis using b(1,2) by simp
    qed
  qed
  then show "budget_inv e s1" "wy_done s1 = wy_done s \<or> (a \<in> {''restart'', ''stop''} \<and> (\<exists>t. wy_done s1 = wy_done s @ [(k, a, t)]))"
    by auto
qed

lemma respond_overview: "respond e k a s = (s1, a', outcome, looped) \<Longrightarrow> wd_overview (wy_dog s1) = wd_overview (wy_dog s)"
  by (auto simp: respond_def action_budget_left_def enforce_def set_actions_def tick_def Let_def split: if_splits)

section \<open>Whom it acts on\<close>

definition breaching :: "wd_config \<Rightarrow> container \<Rightarrow> bool" where
  "breaching cfg c \<longleftrightarrow> \<not> stopped_addon c
     \<and> (case ct_slug c of None \<Rightarrow> False | Some k \<Rightarrow>
          (case limits_for cfg k (ct_kind c) of (cpu_limit, mem_limit, a) \<Rightarrow>
             over_limit cpu_limit (stat c ''cpu_percent'') \<or> over_limit mem_limit (stat c ''memory_percent'')))"

text \<open>A request to the Supervisor that the settings ask for on this container.\<close>

definition called_for :: "wd_config \<Rightarrow> container \<Rightarrow> string \<times> string \<times> int \<Rightarrow> bool" where
  "called_for cfg c = (\<lambda>(k, a, t). ct_slug c = Some k \<and> ct_kind c = ''addon'' \<and> ct_state c = Some ''started''
     \<and> breaching cfg c \<and> snd (snd (limits_for cfg k ''addon'')) = a \<and> a \<in> {''restart'', ''stop''})"

lemma limits_alert: "kind \<noteq> ''addon'' \<Longrightarrow> snd (snd (limits_for cfg k kind)) = ''alert''"
  by (simp add: limits_for_def Let_def)

lemma container_acts:
  assumes "clock_runs e" "budget_inv e s" "eval_container e cfg c s = Inr (s', b)"
  shows "budget_inv e s' \<and> (\<exists>xs. wy_done s' = wy_done s @ xs \<and> (\<forall>x \<in> set xs. called_for cfg c x))
     \<and> wd_overview (wy_dog s') = wd_overview (wy_dog s)"
proof (cases "ct_slug c = None \<or> ct_slug c = Some []")
  case True
  then show ?thesis using assms(2,3) by (auto simp: eval_container_def)
next
  case False
  then obtain k where k: "ct_slug c = Some k" "k \<noteq> []" by auto
  obtain cl ml a where lim: "limits_for cfg k (ct_kind c) = (cl, ml, a)" by (cases "limits_for cfg k (ct_kind c)") auto
  let ?s1 = "note_sample e k c s"
  let ?oc = "over_limit cl (stat c ''cpu_percent'')" and ?om = "over_limit ml (stat c ''memory_percent'')"
  have br: "breaching cfg c \<longleftrightarrow> \<not> stopped_addon c \<and> (?oc \<or> ?om)" by (simp add: breaching_def k(1) lim)
  have i1: "budget_inv e ?s1" by (rule budget_quiet [OF assms(1,2)]) simp
  note ev = assms(3) [unfolded eval_container_def k(1) option.case Let_def lim prod.case]
  show ?thesis
  proof (cases "breaching cfg c")
    case False
    then have "end_episode e k (clear_breach k ?s1) = Inr (s', b)" using ev k(2) br by (auto split: if_splits)
    then have "quiet ?s1 s'" using quiet_end_episode quiet_simple(2) quiet_trans by blast
    then show ?thesis using budget_quiet [OF assms(1) i1] by (simp add: quiet_def note_sample_def Let_def)
  next
    case True
    show ?thesis
    proof (cases "int (breach_count ?s1 k + 1) < sustained_samples cfg")
      case f: True
      then have "s' = set_breach k (breach_count ?s1 k + 1) ?s1" using ev True k(2) br by (auto split: if_splits)
      then have "quiet ?s1 s'" by simp
      then show ?thesis using budget_quiet [OF assms(1) i1] by (simp add: quiet_def note_sample_def Let_def)
    next
      case f: False
      let ?s2 = "set_breach k 0 ?s1"
      obtain s3 a' outcome looped where r: "respond e k a ?s2 = (s3, a', outcome, looped)" by (cases "respond e k a ?s2") auto
      have "trip e c k a ?oc ?om ?s2 = Inr s'" using ev True k(2) br f by (auto simp: bind_res_Inr split: if_splits)
      then have q: "quiet s3 s'" using r by (auto simp: trip_def Let_def intro: quiet_record)
      have i2: "budget_inv e ?s2" by (rule budget_quiet [OF assms(1) i1]) simp
      note rr = responded [OF assms(1) i2 r]
      have d2: "wy_done ?s2 = wy_done s" "wd_overview (wy_dog s3) = wd_overview (wy_dog s)"
        using respond_overview [OF r] by (simp_all add: set_breach_def note_sample_def Let_def)
      have "\<exists>xs. wy_done s3 = wy_done s @ xs \<and> (\<forall>x \<in> set xs. called_for cfg c x)"
      proof (cases "wy_done s3 = wy_done s")
        case False
        then obtain t where t: "a \<in> {''restart'', ''stop''}" "wy_done s3 = wy_done s @ [(k, a, t)]" using rr(2) d2 by auto
        have kd: "ct_kind c = ''addon''"
        proof (rule ccontr)
          assume "ct_kind c \<noteq> ''addon''"
          then have "a = ''alert''" using limits_alert [of "ct_kind c" cfg k] lim by simp
          then show False using t(1) by simp
        qed
        then have "ct_state c = Some ''started''" using br True by (auto simp: stopped_addon_def)
        then have "called_for cfg c (k, a, t)" using k(1) kd True t(1) lim by (simp add: called_for_def)
        then show ?thesis using t(2) by simp
      qed simp
      then show ?thesis using budget_quiet [OF assms(1) rr(1) q] q d2(2) by (simp add: quiet_def)
    qed
  qed
qed

lemma containers_act:
  assumes "clock_runs e" "budget_inv e s" "eval_containers e cfg cs s = Inr (s', b)"
  shows "budget_inv e s' \<and> (\<exists>xs. wy_done s' = wy_done s @ xs \<and> (\<forall>x \<in> set xs. \<exists>c \<in> set cs. called_for cfg c x))
     \<and> wd_overview (wy_dog s') = wd_overview (wy_dog s)"
  using assms(2,3)
proof (induction cs arbitrary: s b)
  case (Cons c cs)
  obtain s1 b1 b2 where 1: "eval_container e cfg c s = Inr (s1, b1)" "eval_containers e cfg cs s1 = Inr (s', b2)"
    using Cons.prems(2) by (auto simp: bind_res_Inr)
  obtain xs where a: "budget_inv e s1" "wy_done s1 = wy_done s @ xs" "\<forall>x \<in> set xs. called_for cfg c x"
      "wd_overview (wy_dog s1) = wd_overview (wy_dog s)"
    using container_acts [OF assms(1) Cons.prems(1) 1(1)] by blast
  obtain ys where b: "budget_inv e s'" "wy_done s' = wy_done s1 @ ys" "\<forall>x \<in> set ys. \<exists>c \<in> set cs. called_for cfg c x"
      "wd_overview (wy_dog s') = wd_overview (wy_dog s1)"
    using Cons.IH [OF a(1) 1(2)] by blast
  show ?case using a b by (intro conjI exI [of _ "xs @ ys"]) auto
qed simp

lemma evaluate_parts:
  assumes "evaluate e cfg ow s = Inr (s', b)"
  obtains s1 b1 slugs s2 b2 where
    "eval_containers e cfg (ow_containers ow)
       (s\<lparr>wy_dog := (wy_dog s)\<lparr>wd_evaluated_at := map_option snd (wd_overview (wy_dog s))\<rparr>\<rparr>) = Inr (s1, b1)"
    "open_breach_slugs s1 = Inr slugs"
    "end_episodes e (filter (\<lambda>k. k \<notin> set (seen_slugs (ow_containers ow))) slugs) s1 = Inr (s2, b2)"
    "s' = maybe_save_history e False (if ow_truncated ow = 0
       then s2\<lparr>wy_dog := prune_history (seen_slugs (ow_containers ow)) (wy_dog s2)\<rparr> else s2)"
proof -
  note d = assms [unfolded evaluate_def Let_def]
  obtain s1 b1 where 1: "eval_containers e cfg (ow_containers ow)
       (s\<lparr>wy_dog := (wy_dog s)\<lparr>wd_evaluated_at := map_option snd (wd_overview (wy_dog s))\<rparr>\<rparr>) = Inr (s1, b1)"
    using d by (cases "eval_containers e cfg (ow_containers ow)
       (s\<lparr>wy_dog := (wy_dog s)\<lparr>wd_evaluated_at := map_option snd (wd_overview (wy_dog s))\<rparr>\<rparr>)") auto
  obtain slugs where 2: "open_breach_slugs s1 = Inr slugs" using d 1 by (cases "open_breach_slugs s1") auto
  obtain s2 b2 where 3: "end_episodes e (filter (\<lambda>k. k \<notin> set (seen_slugs (ow_containers ow))) slugs) s1 = Inr (s2, b2)"
    using d 1 2 by (cases "end_episodes e (filter (\<lambda>k. k \<notin> set (seen_slugs (ow_containers ow))) slugs) s1") auto
  show ?thesis by (rule that [OF 1 2 3]) (use d 1 2 3 in simp)
qed

lemma evaluation_acts:
  assumes "clock_runs e" "budget_inv e s" "evaluate e cfg ow s = Inr (s', b)"
  shows "budget_inv e s' \<and> (\<exists>xs. wy_done s' = wy_done s @ xs \<and> (\<forall>x \<in> set xs. \<exists>c \<in> set (ow_containers ow). called_for cfg c x))
     \<and> wd_overview (wy_dog s') = wd_overview (wy_dog s)"
  using assms(3)
proof (rule evaluate_parts)
  let ?s0 = "s\<lparr>wy_dog := (wy_dog s)\<lparr>wd_evaluated_at := map_option snd (wd_overview (wy_dog s))\<rparr>\<rparr>"
  fix s1 b1 slugs s2 b2
  assume 1: "eval_containers e cfg (ow_containers ow) ?s0 = Inr (s1, b1)"
      "end_episodes e (filter (\<lambda>k. k \<notin> set (seen_slugs (ow_containers ow))) slugs) s1 = Inr (s2, b2)"
      "s' = maybe_save_history e False (if ow_truncated ow = 0
          then s2\<lparr>wy_dog := prune_history (seen_slugs (ow_containers ow)) (wy_dog s2)\<rparr> else s2)"
  have "quiet s ?s0" by (simp add: quiet_def)
  then have i0: "budget_inv e ?s0" by (rule budget_quiet [OF assms(1,2)])
  have "quiet s2 (s2\<lparr>wy_dog := prune_history (seen_slugs (ow_containers ow)) (wy_dog s2)\<rparr>)"
    by (simp add: quiet_def prune_history_def)
  then have q: "quiet s1 s'" unfolding 1(3) using quiet_end_episodes [OF 1(2)] quiet_save by (auto intro: quiet_trans)
  obtain xs where a: "budget_inv e s1" "wy_done s1 = wy_done ?s0 @ xs" "\<forall>x \<in> set xs. \<exists>c \<in> set (ow_containers ow). called_for cfg c x"
      "wd_overview (wy_dog s1) = wd_overview (wy_dog ?s0)"
    using containers_act [OF assms(1) i0 1(1)] by blast
  show ?thesis
  proof (intro conjI exI)
    show "budget_inv e s'" by (rule budget_quiet [OF assms(1) a(1) q])
    show "wy_done s' = wy_done s @ xs" using q a(2) by (simp add: quiet_def)
    show "\<forall>x \<in> set xs. \<exists>c \<in> set (ow_containers ow). called_for cfg c x" by (rule a(3))
    show "wd_overview (wy_dog s') = wd_overview (wy_dog s)" using q a(4) by (simp add: quiet_def)
  qed
qed

section \<open>A run of samples\<close>

text \<open>Each tick of the timer comes with the settings of the moment and what the Supervisor would answer.\<close>

fun run_samples :: "wd_env \<Rightarrow> (wd_config \<times> overview option) list \<Rightarrow> wd_sys \<Rightarrow> wd_sys res" where
  "run_samples e [] s = Inr s"
| "run_samples e ((cfg, answer) # xs) s = bind_res (sample e cfg answer s) (\<lambda>(s, b). run_samples e xs s)"

definition answered :: "(wd_config \<times> overview option) list \<Rightarrow> overview \<Rightarrow> bool" where
  "answered xs ow \<longleftrightarrow> Some ow \<in> snd ` set xs"


text \<open>What holds after each tick, for requests and remembered samples.\<close>

definition watch_inv :: "wd_env \<Rightarrow> (wd_config \<times> overview option) list \<Rightarrow> wd_sys \<Rightarrow> bool" where
  "watch_inv e xs s \<longleftrightarrow> budget_inv e s
     \<and> (\<forall>ow t. wd_overview (wy_dog s) = Some (ow, t) \<longrightarrow> answered xs ow)
     \<and> (\<forall>x \<in> set (wy_done s). \<exists>cfg ow c. cfg \<in> fst ` set xs \<and> answered xs ow \<and> c \<in> set (ow_containers ow) \<and> called_for cfg c x)"

lemma shared_inv:
  assumes "clock_runs e" "watch_inv e xs s" "\<forall>ow. answer = Some ow \<longrightarrow> answered xs ow"
    "shared_overview e gap answer s = (s', r)"
  shows "watch_inv e xs s' \<and> (\<forall>ow. r = Some ow \<longrightarrow> answered xs ow)"
proof -
  have rem: "budget_inv e (remember e ow u)" if "budget_inv e u" for ow u
    by (rule budget_same [OF assms(1) that]) (simp_all add: remember_def tick_def)
  have t: "budget_inv e (tick u)" if "budget_inv e u" for u
    by (rule budget_quiet [OF assms(1) that]) simp
  have d: "wy_done (remember e ow u) = wy_done u" "wd_overview (wy_dog (remember e ow u)) = Some (ow, mono_now e u)" for ow u
    by (simp_all add: remember_def)
  show ?thesis
  proof (cases "wd_overview (wy_dog s)")
    case None
    then show ?thesis using assms(2-4) rem by (auto simp: shared_overview_def watch_inv_def d split: option.splits)
  next
    case (Some p)
    obtain ow at' where p: "p = (ow, at')" by (cases p) auto
    then have "answered xs ow" using assms(2) Some by (simp add: watch_inv_def)
    then show ?thesis using assms(2-4) Some p rem t
      by (auto simp: shared_overview_def watch_inv_def d split: if_splits option.splits)
  qed
qed

lemma sample_inv:
  assumes "clock_runs e" "watch_inv e xs s" "cfg \<in> fst ` set xs" "\<forall>ow. answer = Some ow \<longrightarrow> answered xs ow"
    "sample e cfg answer s = Inr (s', b)"
  shows "watch_inv e xs s'"
proof -
  obtain s1 r where sh: "shared_overview e (sample_gap cfg div 2) answer s = (s1, r)" by fastforce
  note i = shared_inv [OF assms(1,2,4) sh]
  consider "s' = s1" | ow where "r = Some ow" "evaluate e cfg ow s1 = Inr (s', b)"
    using assms(5) sh by (auto simp: sample_def split: option.splits if_splits)
  then show ?thesis
  proof cases
    case (2 ow)
    have b1: "budget_inv e s1" using i by (simp add: watch_inv_def)
    obtain ys where y: "budget_inv e s'" "wy_done s' = wy_done s1 @ ys"
        "\<forall>x \<in> set ys. \<exists>c \<in> set (ow_containers ow). called_for cfg c x" "wd_overview (wy_dog s') = wd_overview (wy_dog s1)"
      using evaluation_acts [OF assms(1) b1 2(2)] by blast
    have "answered xs ow" using i 2(1) by simp
    then have "\<exists>cfg ow c. cfg \<in> fst ` set xs \<and> answered xs ow \<and> c \<in> set (ow_containers ow) \<and> called_for cfg c x" if "x \<in> set ys" for x
      using y(3) that assms(3) by blast
    then show ?thesis using i y by (auto simp: watch_inv_def)
  qed (use i in simp)
qed

lemma watch_run:
  assumes "clock_runs e" "watch_inv e all s" "set xs \<subseteq> set all" "run_samples e xs s = Inr s'"
  shows "watch_inv e all s'"
  using assms(2-4)
proof (induction xs arbitrary: s)
  case (Cons x xs)
  obtain cfg answer where x: "x = (cfg, answer)" by (cases x) auto
  obtain s1 b where 1: "sample e cfg answer s = Inr (s1, b)" "run_samples e xs s1 = Inr s'"
    using Cons.prems(3) by (auto simp: x bind_res_Inr)
  have "(cfg, answer) \<in> set all" using Cons.prems(2) x by simp
  then have "cfg \<in> fst ` set all" "\<forall>ow. answer = Some ow \<longrightarrow> answered all ow" by (force simp: answered_def)+
  from sample_inv [OF assms(1) Cons.prems(1) this 1(1)] show ?case using Cons.IH [OF _ _ 1(2)] Cons.prems(2) by simp
qed simp

section \<open>Recovery\<close>

definition breach_row_of :: "soc_store \<Rightarrow> string \<Rightarrow> json option" where
  "breach_row_of st k = (case detections_of st of Inl e \<Rightarrow> None | Inr t \<Rightarrow> dget t (detection_key k))"

text \<open>The watchdog's own detection for a container, open or acknowledged.\<close>

definition breach_open :: "soc_store \<Rightarrow> string \<Rightarrow> bool" where
  "breach_open st k \<longleftrightarrow>
     (case breach_row_of st k of
        Some (JObj d) \<Rightarrow> is_active_status (dget_null d ''status'') \<and> dget_null d ''rule_id'' = JStr ''container_resource_breach''
          \<and> (case dget_null d ''detail'' of JObj x \<Rightarrow> dget_null x ''slug'' = JStr k | _ \<Rightarrow> False)
      | _ \<Rightarrow> False)"

lemma detection_key_inj [simp]: "detection_key k = detection_key k' \<longleftrightarrow> k = k'"
  by (simp add: detection_key_def)

lemma detections_Inr: "detections_of st = Inr t \<longleftrightarrow> dget (sd st) ''detections'' = Some (JObj t)"
  by (auto simp: detections_of_def bind_res_Inr item_Inr as_table_Inr)

lemma set_status_detections:
  assumes "async_set_detection_status did status u at' st = Inr (st', r)" "detections_of st = Inr t"
  shows "\<exists>t'. detections_of st' = Inr t' \<and> (\<forall>k. k \<noteq> did \<longrightarrow> dget t' k = dget t k)
     \<and> (\<forall>d. dget t did = Some (JObj d) \<longrightarrow> dget t' did = Some (JObj (restatus_detection status u at' d)))"
proof (cases "entry t did")
  case None
  then have "st' = st" "dget t did = None \<or> dget t did = Some JNull"
    using assms by (auto simp: async_set_detection_status_def detections_Inr item_def entry_def split: option.splits json.splits)
  then show ?thesis using assms(2) by auto
next
  case (Some v)
  then have "dget t did = Some v" by (auto simp: entry_def split: option.splits json.splits)
  then show ?thesis using assms Some
    by (auto simp: async_set_detection_status_def detections_Inr item_def bind_res_Inr as_table_Inr set_field_def schedule_save_def
        dict_simps Let_def)
qed

lemma row_kept:
  assumes "detections_of st = Inr t" "detections_of st' = Inr t'" "dget t' (detection_key k) = dget t (detection_key k)"
  shows "breach_row_of st' k = breach_row_of st k"
  using assms by (simp add: breach_row_of_def)

lemma end_episode_rows:
  assumes "end_episode e k s = Inr (s', b)"
  shows "k' \<noteq> k \<Longrightarrow> breach_row_of (wy_store s') k' = breach_row_of (wy_store s) k'" "\<not> breach_open (wy_store s') k"
proof -
  obtain t where t: "detections_of (wy_store s) = Inr t" using assms by (auto simp: end_episode_def Let_def bind_res_Inr)
  have "(k' \<noteq> k \<longrightarrow> breach_row_of (wy_store s') k' = breach_row_of (wy_store s) k') \<and> \<not> breach_open (wy_store s') k"
  proof (cases "entry t (detection_key k)")
    case None
    then have "wy_store s' = wy_store s" "dget t (detection_key k) = None \<or> dget t (detection_key k) = Some JNull"
      using assms t by (auto simp: end_episode_def Let_def entry_def split: option.splits json.splits)
    then show ?thesis using t by (auto simp: breach_open_def breach_row_of_def)
  next
    case (Some v)
    then have v: "dget t (detection_key k) = Some v" by (auto simp: entry_def split: option.splits json.splits)
    obtain d where d: "v = JObj d" using assms t Some by (auto simp: end_episode_def Let_def bind_res_Inr as_table_Inr)
    show ?thesis
    proof (cases "is_active_status (dget_null d ''status'')")
      case False
      then have "wy_store s' = wy_store s" using assms t Some d by (auto simp: end_episode_def Let_def)
      then show ?thesis using t v d False by (simp add: breach_open_def breach_row_of_def)
    next
      case True
      then obtain st r where st: "async_set_detection_status (detection_key k) ''resolved'' None (Some (iso_of e s)) (wy_store s) = Inr (st, r)"
          "wy_store s' = st"
        using assms t Some d by (auto simp: end_episode_def Let_def bind_res_Inr iso_of_def)
      obtain t' where t': "detections_of st = Inr t'" "\<forall>j. j \<noteq> detection_key k \<longrightarrow> dget t' j = dget t j"
          "dget t' (detection_key k) = Some (JObj (restatus_detection ''resolved'' None (Some (iso_of e s)) d))"
        using set_status_detections [OF st(1) t] v d by blast
      have "dget_null (restatus_detection ''resolved'' None (Some (iso_of e s)) d) ''status'' = JStr ''resolved''"
        by (simp add: restatus_detection_def Let_def dget_default_def dict_simps)
      then show ?thesis using t' st(2) t by (simp add: breach_open_def breach_row_of_def is_active_status_def)
    qed
  qed
  then show "k' \<noteq> k \<Longrightarrow> breach_row_of (wy_store s') k' = breach_row_of (wy_store s) k'" "\<not> breach_open (wy_store s') k" by auto
qed

lemma on_detections:
  assumes "on_table x ''detections'' f st = Inr st'" "\<And>t t'. f t = Inr t' \<Longrightarrow> \<forall>j. j \<noteq> did \<longrightarrow> dget t' j = dget t j"
  shows "\<exists>t t'. detections_of st = Inr t \<and> detections_of st' = Inr t' \<and> (\<forall>j. j \<noteq> did \<longrightarrow> dget t' j = dget t j)"
  using assms
  by (auto simp: on_table_def bind_res_Inr item_Inr as_table_Inr detections_Inr dict_simps)

lemma upsert_rows:
  assumes "async_upsert_detection same did d st = Inr st'"
  shows "\<exists>t t'. detections_of st = Inr t \<and> detections_of st' = Inr t' \<and> (\<forall>j. j \<noteq> did \<longrightarrow> dget t' j = dget t j)"
proof -
  obtain st1 where 1: "on_table AttributeError ''detections'' (upsert_detection_in same did d) st = Inr st1" "st' = schedule_save st1"
    using assms by (auto simp: async_upsert_detection_def then_save_def bind_res_Inr)
  have "\<exists>t t'. detections_of st = Inr t \<and> detections_of st1 = Inr t' \<and> (\<forall>j. j \<noteq> did \<longrightarrow> dget t' j = dget t j)"
    by (rule on_detections [OF 1(1)])
      (auto simp: upsert_detection_in_def bind_res_Inr dict_simps split: option.splits if_splits)
  then show ?thesis by (simp add: 1(2) detections_Inr schedule_save_def)
qed

lemma record_rows:
  assumes "record_breach e c k what a outcome looped s = Inr s'" "k' \<noteq> k"
  shows "breach_row_of (wy_store s') k' = breach_row_of (wy_store s) k'"
proof -
  obtain st st' d fresh where 1: "async_upsert_detection False (detection_key k) d (wy_store s) = Inr st"
      "(if fresh then reopen k st else Inr st) = Inr st'" "wy_store s' = st'"
    using assms(1) by (auto simp: record_breach_def Let_def bind_res_Inr split: prod.splits)
  obtain t t' where t: "detections_of (wy_store s) = Inr t" "detections_of st = Inr t'" "\<forall>j. j \<noteq> detection_key k \<longrightarrow> dget t' j = dget t j"
    using upsert_rows [OF 1(1)] by blast
  show ?thesis
  proof (cases fresh)
    case False
    then show ?thesis using 1(2,3) t assms(2) by (auto intro: row_kept)
  next
    case True
    then have "reopen k st = Inr st'" using 1(2) by simp
    then have "\<exists>u u'. detections_of st = Inr u \<and> detections_of st' = Inr u' \<and> (\<forall>j. j \<noteq> detection_key k \<longrightarrow> dget u' j = dget u j)"
      unfolding reopen_def by (rule on_detections) (auto simp: bind_res_Inr dict_simps)
    then show ?thesis using 1(3) t assms(2) by (auto intro!: row_kept)
  qed
qed

lemma respond_store: "respond e k a s = (s1, a', outcome, looped) \<Longrightarrow> wy_store s1 = wy_store s"
  by (auto simp: respond_def action_budget_left_def enforce_def Let_def split: if_splits)

lemma quiet_store [simp]:
  "wy_store (note_sample e k c s) = wy_store s" "wy_store (clear_breach k s) = wy_store s" "wy_store (set_breach k n s) = wy_store s"
  by (simp_all add: note_sample_def clear_breach_def set_breach_def Let_def)

lemma container_rows:
  assumes "eval_container e cfg c s = Inr (s', b)"
  shows "ct_slug c \<noteq> Some k \<Longrightarrow> breach_row_of (wy_store s') k = breach_row_of (wy_store s) k"
    "ct_slug c = Some k \<Longrightarrow> k \<noteq> [] \<Longrightarrow> \<not> breaching cfg c \<Longrightarrow> \<not> breach_open (wy_store s') k"
proof -
  have "(ct_slug c \<noteq> Some k \<longrightarrow> breach_row_of (wy_store s') k = breach_row_of (wy_store s) k)
     \<and> (ct_slug c = Some k \<and> k \<noteq> [] \<and> \<not> breaching cfg c \<longrightarrow> \<not> breach_open (wy_store s') k)"
  proof (cases "ct_slug c = None \<or> ct_slug c = Some []")
    case True
    then show ?thesis using assms by (auto simp: eval_container_def)
  next
    case False
    then obtain j where j: "ct_slug c = Some j" "j \<noteq> []" by auto
    obtain cl ml a where lim: "limits_for cfg j (ct_kind c) = (cl, ml, a)" by (cases "limits_for cfg j (ct_kind c)") auto
    note ev = assms [unfolded eval_container_def j(1) option.case Let_def lim prod.case]
    let ?oc = "over_limit cl (stat c ''cpu_percent'')" and ?om = "over_limit ml (stat c ''memory_percent'')"
    have br: "breaching cfg c \<longleftrightarrow> \<not> stopped_addon c \<and> (?oc \<or> ?om)" by (simp add: breaching_def j(1) lim)
    show ?thesis
    proof (cases "breaching cfg c")
      case False
      then have "end_episode e j (clear_breach j (note_sample e j c s)) = Inr (s', b)" using ev j(2) br by (auto split: if_splits)
      from end_episode_rows [OF this] show ?thesis using j(1) by auto
    next
      case True
      let ?s1 = "note_sample e j c s"
      have "breach_row_of (wy_store s') k = breach_row_of (wy_store s) k" if "k \<noteq> j"
      proof (cases "int (breach_count ?s1 j + 1) < sustained_samples cfg")
        case f: True
        then have "s' = set_breach j (breach_count ?s1 j + 1) ?s1" using ev True j(2) br by (auto split: if_splits)
        then show ?thesis by simp
      next
        case f: False
        let ?s2 = "set_breach j 0 ?s1"
        obtain s3 a' outcome looped where r: "respond e j a ?s2 = (s3, a', outcome, looped)" by (cases "respond e j a ?s2") auto
        have "trip e c j a ?oc ?om ?s2 = Inr s'" using ev True j(2) br f by (auto simp: bind_res_Inr split: if_splits)
        then obtain what where "record_breach e c j what a' outcome looped s3 = Inr s'" using r by (auto simp: trip_def Let_def)
        from record_rows [OF this that] respond_store [OF r] show ?thesis by simp
      qed
      then show ?thesis using True j(1) by auto
    qed
  qed
  then show "ct_slug c \<noteq> Some k \<Longrightarrow> breach_row_of (wy_store s') k = breach_row_of (wy_store s) k"
    "ct_slug c = Some k \<Longrightarrow> k \<noteq> [] \<Longrightarrow> \<not> breaching cfg c \<Longrightarrow> \<not> breach_open (wy_store s') k" by auto
qed

lemma breach_open_row: "breach_row_of st' k = breach_row_of st k \<Longrightarrow> breach_open st' k = breach_open st k"
  by (simp add: breach_open_def)

lemma containers_rows:
  assumes "eval_containers e cfg cs s = Inr (s', b)" "k \<noteq> []" "\<forall>c \<in> set cs. ct_slug c = Some k \<longrightarrow> \<not> breaching cfg c"
  shows "(k \<in> set (seen_slugs cs) \<longrightarrow> \<not> breach_open (wy_store s') k) \<and> (\<not> breach_open (wy_store s) k \<longrightarrow> \<not> breach_open (wy_store s') k)"
  using assms(1,3)
proof (induction cs arbitrary: s b)
  case (Cons c cs)
  obtain s1 b1 b2 where 1: "eval_container e cfg c s = Inr (s1, b1)" "eval_containers e cfg cs s1 = Inr (s', b2)"
    using Cons.prems(1) by (auto simp: bind_res_Inr)
  have ih: "(k \<in> set (seen_slugs cs) \<longrightarrow> \<not> breach_open (wy_store s') k) \<and> (\<not> breach_open (wy_store s1) k \<longrightarrow> \<not> breach_open (wy_store s') k)"
    using Cons.IH [OF 1(2)] Cons.prems(2) by simp
  show ?case
  proof (cases "ct_slug c = Some k")
    case True
    then have "\<not> breach_open (wy_store s1) k" using container_rows(2) [OF 1(1) True assms(2)] Cons.prems(2) by simp
    then show ?thesis using ih by blast
  next
    case False
    have "breach_open (wy_store s1) k = breach_open (wy_store s) k"
      by (rule breach_open_row [OF container_rows(1) [OF 1(1) False]])
    moreover have "k \<in> set (seen_slugs (c # cs)) \<longleftrightarrow> k \<in> set (seen_slugs cs)"
      using False by (auto simp: seen_slugs_def map_filter_simps split: option.splits)
    ultimately show ?thesis using ih by simp
  qed
qed (simp add: seen_slugs_def map_filter_simps)

lemma end_episodes_rows:
  assumes "end_episodes e ks s = Inr (s', b)"
  shows "(k \<in> set ks \<longrightarrow> \<not> breach_open (wy_store s') k) \<and> (\<not> breach_open (wy_store s) k \<longrightarrow> \<not> breach_open (wy_store s') k)"
  using assms
proof (induction ks arbitrary: s b)
  case (Cons j ks)
  obtain s1 b1 b2 where 1: "end_episode e j (clear_breach j s) = Inr (s1, b1)" "end_episodes e ks s1 = Inr (s', b2)"
    using Cons.prems by (auto simp: bind_res_Inr)
  show ?case
  proof (cases "k = j")
    case True
    then show ?thesis using end_episode_rows(2) [OF 1(1)] Cons.IH [OF 1(2)] by blast
  next
    case False
    then have "breach_open (wy_store s1) k = breach_open (wy_store s) k"
      using end_episode_rows(1) [OF 1(1) False] by (intro breach_open_row) simp
    then show ?thesis using Cons.IH [OF 1(2)] False by simp
  qed
qed simp

lemma breach_slugs_in:
  "breach_slugs t = Inr xs \<Longrightarrow> p \<in> set t \<Longrightarrow> breach_slug (snd p) = Inr (Some k) \<Longrightarrow> k \<in> set xs"
  by (induction t arbitrary: xs) (auto simp: bind_res_Inr split: option.splits)

lemma open_in_slugs:
  assumes "open_breach_slugs s = Inr slugs" "breach_open (wy_store s) k" "k \<noteq> []"
  shows "k \<in> set slugs"
proof -
  obtain t xs where t: "detections_of (wy_store s) = Inr t" "breach_slugs t = Inr xs" "set xs \<subseteq> set slugs"
    using assms(1) by (auto simp: open_breach_slugs_def bind_res_Inr)
  obtain d x where d: "dget t (detection_key k) = Some (JObj d)" "is_active_status (dget_null d ''status'')"
      "dget_null d ''rule_id'' = JStr ''container_resource_breach''" "dget_null d ''detail'' = JObj x" "dget_null x ''slug'' = JStr k"
    using assms(2) t(1) by (auto simp: breach_open_def breach_row_of_def split: option.splits json.splits)
  have "x \<noteq> []" using d(5) by (auto simp: dget_default_def)
  then have "breach_slug (JObj d) = Inr (Some k)" using d assms(3) by (simp add: breach_slug_def or_else_def)
  then show ?thesis using breach_slugs_in [OF t(2) map_of_SomeD [OF d(1)]] t(3) by auto
qed

lemma save_store [simp]: "wy_store (maybe_save_history e force s) = wy_store s"
  by (simp add: maybe_save_history_def Let_def)

lemma evaluation_resolves:
  assumes "evaluate e cfg ow s = Inr (s', b)" "k \<noteq> []" "\<forall>c \<in> set (ow_containers ow). ct_slug c = Some k \<longrightarrow> \<not> breaching cfg c"
  shows "\<not> breach_open (wy_store s') k"
  using assms(1)
proof (rule evaluate_parts)
  let ?s0 = "s\<lparr>wy_dog := (wy_dog s)\<lparr>wd_evaluated_at := map_option snd (wd_overview (wy_dog s))\<rparr>\<rparr>"
  let ?seen = "set (seen_slugs (ow_containers ow))"
  fix s1 b1 slugs s2 b2
  assume 1: "eval_containers e cfg (ow_containers ow) ?s0 = Inr (s1, b1)" "open_breach_slugs s1 = Inr slugs"
      "end_episodes e (filter (\<lambda>k. k \<notin> ?seen) slugs) s1 = Inr (s2, b2)"
      "s' = maybe_save_history e False (if ow_truncated ow = 0
          then s2\<lparr>wy_dog := prune_history (seen_slugs (ow_containers ow)) (wy_dog s2)\<rparr> else s2)"
  have st: "wy_store s' = wy_store s2" by (simp add: 1(4))
  note a = containers_rows [OF 1(1) assms(2,3)] and z = end_episodes_rows [OF 1(3), of k]
  show ?thesis
  proof (cases "k \<in> ?seen \<or> \<not> breach_open (wy_store s1) k")
    case True
    then show ?thesis using a z st by auto
  next
    case False
    then have "k \<in> set (filter (\<lambda>k. k \<notin> ?seen) slugs)" using open_in_slugs [OF 1(2) _ assms(2)] by simp
    then show ?thesis using z st by simp
  qed
qed

section \<open>The theorems\<close>


definition w_wenv :: wd_env where
  "w_wenv = \<lparr>we_mono = (\<lambda>n. int n), we_iso = (\<lambda>n. ''t''), we_supervisor = (\<lambda>n k a. None), we_writes = (\<lambda>n. True)\<rparr>"

definition w_wcfg :: wd_config where
  "w_wcfg = \<lparr>wc_enabled = True, wc_interval = 60, wc_sustained = 1, wc_cpu = Some 85, wc_mem = None, wc_action = Some ''restart'',
     wc_overrides = []\<rparr>"

definition w_container :: "int \<Rightarrow> container" where
  "w_container cpu = \<lparr>ct_slug = Some ''a'', ct_name = ''A'', ct_kind = ''addon'', ct_state = Some ''started'', ct_version = JNull,
     ct_update = False, ct_stats = [(''cpu_percent'', JInt cpu)], ct_flags = []\<rparr>"

definition w_overview_of :: "int \<Rightarrow> overview" where
  "w_overview_of cpu = \<lparr>ow_containers = [w_container cpu], ow_truncated = 0\<rparr>"

definition w_wsys :: wd_sys where
  "w_wsys = \<lparr>wy_dog = new_watchdog 0, wy_store = new_store\<lparr>sd := [(''detections'', JObj [])]\<rparr>, wy_log = new_log, wy_ring = None,
     wy_prev = None, wy_done = [], wy_tick = 0\<rparr>"

definition w_result :: "(wd_sys \<Rightarrow> bool) \<Rightarrow> wd_sys res \<Rightarrow> bool" where
  "w_result P r = (case r of Inl x \<Rightarrow> False | Inr s \<Rightarrow> P s)"

lemma w_trips:
  "w_result (\<lambda>s. map (\<lambda>x. (fst x, fst (snd x))) (wy_done s) = [(''a'', ''restart'')])
     (run_samples w_wenv [(w_wcfg, Some (w_overview_of 90))] w_wsys)"
  by code_simp

lemma w_clock_runs: "clock_runs w_wenv"
  by (simp add: clock_runs_def w_wenv_def)


text \<open>
  C35. A breach that is over does not stay open: after an evaluation no container has an open or
  acknowledged breach unless this very sample shows it over a limit, be it stopped, back under its
  limits, or gone from the overview; also when the breach was recorded before a restart.
\<close>

theorem recovered_is_resolved:
  assumes "evaluate e cfg ow s = Inr (s', b)" "k \<noteq> []" "breach_open (wy_store s') k"
  shows "\<exists>c \<in> set (ow_containers ow). ct_slug c = Some k \<and> breaching cfg c"
  using evaluation_resolves [OF assms(1,2)] assms(3) by blast

definition w_open :: wd_sys where
  "w_open = w_wsys\<lparr>wy_store := new_store\<lparr>sd := [(''detections'', JObj
     [(''watchdog_a'', JObj [(''rule_id'', JStr ''container_resource_breach''), (''status'', JStr ''open''),
        (''detail'', JObj [(''slug'', JStr ''a'')])])])]\<rparr>\<rparr>"

lemma w_recovers:
  "breach_open (wy_store w_open) ''a''"
  "w_result (\<lambda>s. True) (bind_res (evaluate w_wenv w_wcfg (w_overview_of 10) w_open) (\<lambda>(s, b). Inr s))"
  "\<not> breaching w_wcfg (w_container 10)"
  by code_simp+

theorem recovered_is_resolved_witness:
  "\<exists>s' b. evaluate w_wenv w_wcfg (w_overview_of 10) w_open = Inr (s', b) \<and> \<not> breach_open (wy_store s') ''a''"
proof -
  obtain s' b where r: "evaluate w_wenv w_wcfg (w_overview_of 10) w_open = Inr (s', b)"
    using w_recovers(2) by (cases "evaluate w_wenv w_wcfg (w_overview_of 10) w_open") (auto simp: w_result_def)
  have "\<not> (\<exists>c \<in> set (ow_containers (w_overview_of 10)). ct_slug c = Some ''a'' \<and> breaching w_wcfg c)"
    using w_recovers(3) by (simp add: w_overview_of_def)
  then have "\<not> breach_open (wy_store s') ''a''" using recovered_is_resolved [OF r, of "''a''"] by blast
  then show ?thesis using r by blast
qed

end
