(* ===== verification/Detections.thy ===== *)
theory Detections
  imports AuditQuery StoreCmd Users
begin

text \<open>
  \<open>detections.py\<close>: the rules that read the audit log and write detection rows into the store.
  A rule runs on the log and the store at once; what it did before an exception stays done. Its
  query is \<open>async_query\<close>; the digest, the parsing and printing of times, the clock, the local hour and
  \<open>ipaddress\<close> are arguments. A pass is one run of every rule; what other tasks do while a
  query runs is not modelled. User ids and addresses of records are text or null, as \<open>async_log\<close> makes them.
\<close>

section \<open>Thresholds\<close>

definition RULE_BRUTE_FORCE_IP :: string where "RULE_BRUTE_FORCE_IP = ''brute_force_ip''"

definition RULE_SUCCESS_AFTER_FAILURES :: string where "RULE_SUCCESS_AFTER_FAILURES = ''success_after_failures''"

definition RULE_NEW_IP_LOGIN :: string where "RULE_NEW_IP_LOGIN = ''new_ip_login''"

definition RULE_OFF_HOURS_ANOMALY :: string where "RULE_OFF_HOURS_ANOMALY = ''off_hours_anomaly''"

definition RULE_DORMANT_REVIVAL :: string where "RULE_DORMANT_REVIVAL = ''dormant_revival''"

definition RULE_PRIVILEGE_ESCALATION :: string where "RULE_PRIVILEGE_ESCALATION = ''privilege_escalation''"

definition RULE_MASS_ENTITY_BURST :: string where "RULE_MASS_ENTITY_BURST = ''mass_entity_burst''"

definition RULE_TOKEN_MINTING_ANOMALY :: string where "RULE_TOKEN_MINTING_ANOMALY = ''token_minting_anomaly''"

definition RULE_DISABLED_USER_ACTIVITY :: string where "RULE_DISABLED_USER_ACTIVITY = ''disabled_user_activity''"

definition RULE_PROBE_AUTH_REJECTED :: string where "RULE_PROBE_AUTH_REJECTED = ''probe_auth_rejected''"

definition RULE_EXTERNAL_AUDIT_CHAIN_BREAK :: string where
  "RULE_EXTERNAL_AUDIT_CHAIN_BREAK = ''external_audit_chain_break''"

text \<open>The default of a parameter and, for a number, its range.\<close>

type_synonym spec = "json \<times> (json \<times> json) option"

definition num_spec :: "int \<Rightarrow> int \<Rightarrow> int \<Rightarrow> spec" where
  "num_spec d lo hi = (JInt d, Some (JInt lo, JInt hi))"

definition THRESHOLD_SPECS :: "(string \<times> (string \<times> spec) list) list" where
  "THRESHOLD_SPECS =
     [(RULE_BRUTE_FORCE_IP, [(''failures'', num_spec 5 3 100), (''window_minutes'', num_spec 15 5 120)]),
      (RULE_SUCCESS_AFTER_FAILURES,
        [(''failures'', num_spec 3 2 50), (''window_minutes'', num_spec 30 5 240),
         (''require_new_token'', (JBool True, None)), (''derate_shared_ip'', (JBool True, None))]),
      (RULE_NEW_IP_LOGIN,
        [(''ipv4_prefix'', num_spec 24 16 32), (''ipv6_prefix'', num_spec 64 32 128),
         (''baseline_days_required'', num_spec 3 1 30), (''prefix_expiry_days'', num_spec 90 30 730),
         (''learning_days'', num_spec 7 1 90)]),
      (RULE_OFF_HOURS_ANOMALY,
        [(''quiet_start_hour'', num_spec 23 0 23), (''quiet_end_hour'', num_spec 6 0 23),
         (''burst_threshold'', num_spec 5 2 100),
         (''ratio_threshold'', (JFloat ''0.01'', Some (JFloat ''0.001'', JFloat ''0.2''))),
         (''learning_days'', num_spec 7 1 90)]),
      (RULE_DORMANT_REVIVAL, [(''dormant_days'', num_spec 30 7 365), (''min_account_age_days'', num_spec 60 7 365)]),
      (RULE_MASS_ENTITY_BURST,
        [(''calls'', num_spec 20 5 500), (''distinct_entities'', num_spec 10 2 200),
         (''window_minutes'', num_spec 5 1 60)]),
      (RULE_TOKEN_MINTING_ANOMALY, [(''tokens'', num_spec 2 2 20), (''window_hours'', num_spec 24 1 168)]),
      (RULE_DISABLED_USER_ACTIVITY, [(''risk_cap_points'', num_spec 40 10 100)]),
      (RULE_PRIVILEGE_ESCALATION, [(''risk_cap_points'', num_spec 24 8 100)])]"

definition secure_default_thresholds :: "string \<Rightarrow> dict res" where
  "secure_default_thresholds rule =
     (case map_of THRESHOLD_SPECS rule of
        None \<Rightarrow> Inl KeyError | Some ps \<Rightarrow> Inr (map (\<lambda>(k, d, r). (k, d)) ps))"

text \<open>\<open>x or {}\<close> used as a dict.\<close>

definition dict_or_empty :: "json \<Rightarrow> dict res" where
  "dict_or_empty v = (if truthy v then as_table AttributeError v else Inr [])"

definition override_known :: "dict \<Rightarrow> dict \<Rightarrow> dict" where
  "override_known eff ovr = foldl (\<lambda>e (k, v). if dget e k = None then e else dset e k v) eff ovr"

definition thresholds :: "soc_store \<Rightarrow> string \<Rightarrow> dict res" where
  "thresholds s rule =
     bind_res (secure_default_thresholds rule) (\<lambda>eff.
     bind_res (settings s) (\<lambda>v. bind_res (as_table AttributeError v) (\<lambda>st.
     bind_res (dict_or_empty (dget_null st ''detection_thresholds'')) (\<lambda>all.
     bind_res (dict_or_empty (dget_null all rule)) (\<lambda>ovr. Inr (override_known eff ovr))))))"

definition threshold_num :: "dict \<Rightarrow> string \<Rightarrow> rat res" where
  "threshold_num th k = bind_res (item th k) as_num"

definition threshold_span :: "int \<Rightarrow> dict \<Rightarrow> string \<Rightarrow> int res" where
  "threshold_span unit th k = bind_res (item th k) (span_us unit)"

abbreviation (input) us_minute :: int where "us_minute \<equiv> 60 * 1000000"

abbreviation (input) us_of_hour :: int where "us_of_hour \<equiv> 3600 * 1000000"

section \<open>A rule: the log, the store, an exception\<close>

record det_env =
  de_hash :: "string \<Rightarrow> string"
  de_parse :: "string \<Rightarrow> moment option"
  de_iso :: "int \<Rightarrow> string"
  de_clock :: "nat \<Rightarrow> int"
  de_hour :: "int \<Rightarrow> nat"
  de_private :: "string \<Rightarrow> bool option"
  de_network :: "string \<Rightarrow> int \<Rightarrow> string option"

record det_state =
  dt_log :: asys
  dt_store :: soc_store
  dt_reads :: nat

text \<open>A computation on a state that may raise; what it changed before stays changed.\<close>

type_synonym ('s, 'a) act = "'s \<Rightarrow> 's \<times> 'a res"

type_synonym 'a det = "(det_state, 'a) act"

definition ret_d :: "'a \<Rightarrow> ('s, 'a) act" where
  "ret_d x s = (s, Inr x)"

definition bind_d :: "('s, 'a) act \<Rightarrow> ('a \<Rightarrow> ('s, 'b) act) \<Rightarrow> ('s, 'b) act" where
  "bind_d m f s = (case m s of (s', Inl e) \<Rightarrow> (s', Inl e) | (s', Inr x) \<Rightarrow> f x s')"

definition pure_d :: "'a res \<Rightarrow> ('s, 'a) act" where
  "pure_d r s = (s, r)"

definition modify_d :: "('s \<Rightarrow> 's) \<Rightarrow> ('s, unit) act" where
  "modify_d f s = (f s, Inr ())"

definition read_d :: "(soc_store \<Rightarrow> 'a res) \<Rightarrow> 'a det" where
  "read_d f s = (s, f (dt_store s))"

definition store_d :: "(soc_store \<Rightarrow> soc_store res) \<Rightarrow> unit det" where
  "store_d f s = (case f (dt_store s) of Inl e \<Rightarrow> (s, Inl e) | Inr st \<Rightarrow> (s\<lparr>dt_store := st\<rparr>, Inr ()))"

text \<open>The rows of one call after those of another, as \<open>results\<close> collects them.\<close>

fun each_d :: "('a \<Rightarrow> ('s, 'b list) act) \<Rightarrow> 'a list \<Rightarrow> ('s, 'b list) act" where
  "each_d f [] = ret_d []"
| "each_d f (x # xs) = bind_d (f x) (\<lambda>ys. bind_d (each_d f xs) (\<lambda>zs. ret_d (ys @ zs)))"

definition query_d :: "det_env \<Rightarrow> audit_query \<Rightarrow> dict list det" where
  "query_d E q s =
     (case async_query (de_hash E) (de_parse E) (de_clock E (dt_reads s)) q (dt_log s) of
        (l, r) \<Rightarrow> (s\<lparr>dt_log := l, dt_reads := Suc (dt_reads s)\<rparr>, r))"

definition category_query :: "int \<Rightarrow> string \<Rightarrow> int \<Rightarrow> audit_query" where
  "category_query since cat n =
     \<lparr>aq_since = Some (since, 0), aq_until = None, aq_user = None, aq_category = Some cat, aq_ip = None, aq_limit = n\<rparr>"

text \<open>\<open>now - timedelta(...)\<close>, a span within the range of a datetime.\<close>

definition minus_span :: "int \<Rightarrow> int \<Rightarrow> int res" where
  "minus_span now d = (if now - d < min_moment then Inl OverflowError else Inr (now - d))"

section \<open>Records\<close>

text \<open>
  The time of a record; one without a zone does not come back from a query, whose comparison raises.
\<close>

definition ev_time :: "det_env \<Rightarrow> dict \<Rightarrow> int option res" where
  "ev_time E ev =
     (let raw = dget_null ev ''ts'' in
      if truthy raw then
        (case raw of
           JStr t \<Rightarrow> (case de_parse E t of
                        None \<Rightarrow> Inr None | Some (Aware x) \<Rightarrow> Inr (Some x) | Some (Naive x) \<Rightarrow> Inl TypeError)
         | _ \<Rightarrow> Inl TypeError)
      else Inr None)"

definition text_field :: "dict \<Rightarrow> string \<Rightarrow> string option" where
  "text_field ev k = (case dget_null ev k of JStr t \<Rightarrow> if t = [] then None else Some t | _ \<Rightarrow> None)"

definition detail_of :: "dict \<Rightarrow> dict res" where
  "detail_of ev = dict_or_empty (dget_null ev ''detail'')"

text \<open>\<open>d[k].append(v)\<close> on a \<open>defaultdict(list)\<close>.\<close>

definition push :: "'k \<Rightarrow> 'v \<Rightarrow> ('k \<times> 'v list) list \<Rightarrow> ('k \<times> 'v list) list" where
  "push k v d = dset d k (case dget d k of None \<Rightarrow> [v] | Some vs \<Rightarrow> vs @ [v])"

fun group_times :: "det_env \<Rightarrow> string \<Rightarrow> dict list \<Rightarrow> (string \<times> int list) list \<Rightarrow> (string \<times> int list) list res" where
  "group_times E k [] d = Inr d"
| "group_times E k (ev # evs) d =
     bind_res (ev_time E ev) (\<lambda>t. group_times E k evs
       (case (text_field ev k, t) of (Some i, Some t) \<Rightarrow> push i t d | _ \<Rightarrow> d))"

fun group_events :: "dict list \<Rightarrow> (string \<times> dict list) list \<Rightarrow> (string \<times> dict list) list" where
  "group_events [] d = d"
| "group_events (ev # evs) d =
     group_events evs (case text_field ev ''user_id'' of None \<Rightarrow> d | Some u \<Rightarrow> push u ev d)"

text \<open>\<open>users_by_id.get(uid, {}).get("name", uid)\<close> in an f-string; a name is text or null.\<close>

definition users_by_id :: "dict list \<Rightarrow> (string \<times> dict) list res" where
  "users_by_id users =
     foldl (\<lambda>r u. bind_res r (\<lambda>d. bind_res (item u ''id'') (\<lambda>v.
       case v of JStr i \<Rightarrow> Inr (dset d i u) | _ \<Rightarrow> Inl TypeError))) (Inr []) users"

definition name_text :: "json \<Rightarrow> string" where
  "name_text v = (case v of JStr t \<Rightarrow> t | _ \<Rightarrow> ''None'')"

definition display_name :: "(string \<times> dict) list \<Rightarrow> string \<Rightarrow> string" where
  "display_name byid u =
     (case dget byid u of None \<Rightarrow> u | Some d \<Rightarrow> name_text (dget_default d ''name'' (JStr u)))"

section \<open>Detection rows\<close>

definition MAX_TRIGGER_EVENTS_TRACKED :: nat where "MAX_TRIGGER_EVENTS_TRACKED = 200"

definition hour_bucket :: "det_env \<Rightarrow> int \<Rightarrow> string" where
  "hour_bucket E t = de_iso E (t - t mod us_of_hour)"

definition make_detection_id :: "det_env \<Rightarrow> string \<Rightarrow> string \<Rightarrow> string \<Rightarrow> string" where
  "make_detection_id E rule subject bucket = take 24 (de_hash E (rule @ '':'' @ subject @ '':'' @ bucket))"

record det_finding =
  fn_rule :: string
  fn_subject :: string
  fn_bucket :: string
  fn_severity :: string
  fn_title :: string
  fn_user :: json
  fn_ip :: json
  fn_detail :: dict
  fn_event :: int

text \<open>\<open>event_iso not in triggers\<close>; what is no list and does not hold it has no \<open>append\<close>.\<close>

definition tracks :: "string \<Rightarrow> json \<Rightarrow> json list option res" where
  "tracks e v =
     (case v of
        JArr xs \<Rightarrow> Inr (if JStr e \<in> set xs then None else Some xs)
      | JStr t \<Rightarrow> if contains e t then Inr None else Inl AttributeError
      | JObj d \<Rightarrow> if dget d e = None then Inl AttributeError else Inr None
      | _ \<Rightarrow> Inl TypeError)"

text \<open>
  A row that is seen again. The row is changed in place, so what was changed before an exception
  stays. A count is an int, as the row is made.
\<close>

definition retrigger :: "string \<Rightarrow> dict \<Rightarrow> dict \<Rightarrow> dict \<times> unit res" where
  "retrigger e detail row =
     (let row = dsetdefault row ''trigger_event_ts''
            (JArr [or_else (dget_null row ''last_seen'') (dget_null row ''ts'')])
      in case tracks e (dget_null row ''trigger_event_ts'') of
           Inl x \<Rightarrow> (row, Inl x)
         | Inr None \<Rightarrow> (row, Inr ())
         | Inr (Some xs) \<Rightarrow>
             (let row = dset row ''trigger_event_ts'' (JArr (keep_newest MAX_TRIGGER_EVENTS_TRACKED (xs @ [JStr e])))
              in case as_pyint (dget_default row ''recurrence_count'' (JInt 1)) of
                   None \<Rightarrow> (row, Inl TypeError)
                 | Some n \<Rightarrow>
                     (let row = dset row ''recurrence_count'' (JInt (n + 1))
                      in case or_else (dget_null row ''last_seen'') (JStr []) of
                           JStr l \<Rightarrow>
                             (dset (if l < e then dset row ''last_seen'' (JStr e) else row) ''detail'' (JObj detail), Inr ())
                         | _ \<Rightarrow> (row, Inl TypeError))))"

definition new_row :: "det_env \<Rightarrow> int \<Rightarrow> string \<Rightarrow> det_finding \<Rightarrow> dict" where
  "new_row E now did f =
     [(''id'', JStr did), (''rule_id'', JStr (fn_rule f)), (''severity'', JStr (fn_severity f)),
      (''user_id'', fn_user f), (''ip'', fn_ip f), (''ts'', JStr (de_iso E now)),
      (''last_seen'', JStr (de_iso E (fn_event f))), (''status'', JStr ''open''), (''recurrence_count'', JInt 1),
      (''trigger_event_ts'', JArr [JStr (de_iso E (fn_event f))]), (''title'', JStr (fn_title f)),
      (''detail'', JObj (fn_detail f))]"

text \<open>The id the row itself names is the one under which it is put back.\<close>

definition detection_row_id :: "dict \<Rightarrow> string res" where
  "detection_row_id row = bind_res (item row ''id'') (\<lambda>v. case v of JStr i \<Rightarrow> Inr i | _ \<Rightarrow> Inl TypeError)"

definition put_row :: "string \<Rightarrow> dict \<Rightarrow> soc_store \<Rightarrow> soc_store res" where
  "put_row did row s = on_table AttributeError ''detections'' (\<lambda>t. Inr (dset t did (JObj row))) s"

definition finding_id :: "det_env \<Rightarrow> det_finding \<Rightarrow> string" where
  "finding_id E f = make_detection_id E (fn_rule f) (fn_subject f) (fn_bucket f)"

definition existing_row :: "string \<Rightarrow> soc_store \<Rightarrow> dict option res" where
  "existing_row did s =
     bind_res (item (sd s) ''detections'') (\<lambda>v. bind_res (as_table AttributeError v) (\<lambda>t.
       case entry t did of None \<Rightarrow> Inr None | Some r \<Rightarrow> bind_res (as_table AttributeError r) (\<lambda>d. Inr (Some d))))"

definition upsert_detection :: "det_env \<Rightarrow> int \<Rightarrow> det_finding \<Rightarrow> dict list det" where
  "upsert_detection E now f =
     (let did = finding_id E f; e = de_iso E (fn_event f)
      in bind_d (read_d (existing_row did)) (\<lambda>old.
           case old of
             None \<Rightarrow> (let row = new_row E now did f
                      in bind_d (store_d (async_upsert_detection False did row)) (\<lambda>_. ret_d [row]))
           | Some row \<Rightarrow> (let (row, r) = retrigger e (fn_detail f) row
                          in bind_d (store_d (put_row did row)) (\<lambda>_. bind_d (pure_d r) (\<lambda>_.
                             bind_d (pure_d (detection_row_id row)) (\<lambda>i.
                             bind_d (store_d (async_upsert_detection (i = did) i row)) (\<lambda>_. ret_d [row])))))))"

end
