(* ===== verification/DetectionRules.thy ===== *)
theory DetectionRules
  imports Detections
begin

text \<open>
  The rules of \<open>DetectionEngine\<close> that look at the log alone, in the order of the code: brute force,
  success after failures, dormant revival, mass entity bursts, token minting, activity of disabled
  users, rejected probe callbacks and broken external chains. Each is one definition per rule with
  the loop over one subject as a definition of its own.
\<close>

section \<open>Sliding windows\<close>

text \<open>
  \<open>while timestamps[end] - timestamps[start] > window: start += 1\<close>. With a window that is not
  negative the loop stops at \<open>end\<close> at the latest; past the end of the list the code would raise.
\<close>

function advance :: "int \<Rightarrow> int list \<Rightarrow> int \<Rightarrow> nat \<Rightarrow> nat res" where
  "advance w ts e start =
     (if length ts \<le> start then Inl IndexError
      else if w < e - ts ! start then advance w ts e (Suc start)
      else Inr start)"
  by pat_completeness auto

termination by (relation "measure (\<lambda>(w, ts, e, start). length ts - start)") auto

declare advance.simps [simp del]

text \<open>The scan over \<open>end\<close>, up to the first window for which \<open>hit start end\<close>.\<close>

fun first_burst :: "int \<Rightarrow> int list \<Rightarrow> (nat \<Rightarrow> nat \<Rightarrow> bool res) \<Rightarrow> nat \<Rightarrow> nat list \<Rightarrow> (nat \<times> nat) option res" where
  "first_burst w ts hit start [] = Inr None"
| "first_burst w ts hit start (e # es) =
     bind_res (advance w ts (ts ! e) start) (\<lambda>s. bind_res (hit s e) (\<lambda>h.
       if h then Inr (Some (s, e)) else first_burst w ts hit s es))"

definition window_count :: "nat \<Rightarrow> nat \<Rightarrow> int" where
  "window_count s e = int e - int s + 1"

definition reaches :: "dict \<Rightarrow> string \<Rightarrow> int \<Rightarrow> bool res" where
  "reaches th k n = bind_res (threshold_num th k) (\<lambda>x. Inr (x \<le> of_int n))"

section \<open>Brute force\<close>

definition brute_force_finding :: "det_env \<Rightarrow> dict \<Rightarrow> string \<Rightarrow> int list \<Rightarrow> nat \<Rightarrow> nat \<Rightarrow> det_finding" where
  "brute_force_finding E th ip ts s e =
     \<lparr>fn_rule = RULE_BRUTE_FORCE_IP, fn_subject = ip, fn_bucket = hour_bucket E (ts ! e), fn_severity = ''high'',
      fn_title = ''Brute-force login attempts from '' @ ip, fn_user = JNull, fn_ip = JStr ip,
      fn_detail = [(''ip'', JStr ip), (''count_in_window'', JInt (window_count s e)),
                   (''window_minutes'', dget_null th ''window_minutes''), (''failures_threshold'', dget_null th ''failures'')],
      fn_event = ts ! e\<rparr>"

definition brute_force_ip :: "det_env \<Rightarrow> int \<Rightarrow> dict \<Rightarrow> int \<Rightarrow> string \<times> int list \<Rightarrow> dict list det" where
  "brute_force_ip E now th w p =
     (case p of (ip, tms) \<Rightarrow>
        let ts = sort tms
        in bind_d (pure_d (first_burst w ts (\<lambda>s e. reaches th ''failures'' (window_count s e)) 0 [0..<length ts])) (\<lambda>b.
             case b of None \<Rightarrow> ret_d [] | Some (s, e) \<Rightarrow> upsert_detection E now (brute_force_finding E th ip ts s e)))"

definition rule_brute_force_ip :: "det_env \<Rightarrow> int \<Rightarrow> dict list det" where
  "rule_brute_force_ip E now =
     bind_d (read_d (\<lambda>s. thresholds s RULE_BRUTE_FORCE_IP)) (\<lambda>th.
     bind_d (pure_d (minus_span now (7 * us_day))) (\<lambda>since.
     bind_d (query_d E (category_query since ''login_fail'' 10000)) (\<lambda>events.
     bind_d (pure_d (group_times E ''ip'' events [])) (\<lambda>by_ip.
     bind_d (pure_d (threshold_span us_minute th ''window_minutes'')) (\<lambda>w.
       each_d (brute_force_ip E now th w) by_ip)))))"

section \<open>Success after failures\<close>

fun group_logins :: "det_env \<Rightarrow> dict list \<Rightarrow> (string \<times> (string \<times> int) list) list \<Rightarrow> (string \<times> (string \<times> int) list) list res" where
  "group_logins E [] d = Inr d"
| "group_logins E (ev # evs) d =
     bind_res (ev_time E ev) (\<lambda>t. group_logins E evs
       (case (text_field ev ''ip'', text_field ev ''user_id'', t) of
          (Some ip, Some u, Some t) \<Rightarrow> push ip (u, t) d | _ \<Rightarrow> d))"

definition shared_egress :: "int \<Rightarrow> string \<Rightarrow> int \<Rightarrow> (string \<times> int) list \<Rightarrow> bool" where
  "shared_egress w u t logins \<longleftrightarrow> list_ex (\<lambda>(x, lt). x \<noteq> u \<and> \<bar>lt - t\<bar> \<le> w) logins"

definition success_event ::
    "det_env \<Rightarrow> int \<Rightarrow> (string \<times> dict) list \<Rightarrow> dict \<Rightarrow> int \<Rightarrow> (string \<times> int list) list
     \<Rightarrow> (string \<times> (string \<times> int) list) list \<Rightarrow> dict \<Rightarrow> dict list det" where
  "success_event E now byid th w fails logins ev =
     bind_d (pure_d (ev_time E ev)) (\<lambda>ts.
     case (text_field ev ''user_id'', text_field ev ''ip'', ts) of
       (Some u, Some ip, Some t) \<Rightarrow>
         bind_d (pure_d (item th ''require_new_token'')) (\<lambda>req.
         bind_d (pure_d (if truthy req then bind_res (detail_of ev) (\<lambda>d. Inr (\<not> truthy (dget_null d ''new_token'')))
                         else Inr False)) (\<lambda>skip.
         if skip then ret_d []
         else (let count = int (length (filter (\<lambda>f. t - w \<le> f \<and> f < t) (case dget fails ip of None \<Rightarrow> [] | Some fs \<Rightarrow> fs)))
           in bind_d (pure_d (reaches th ''failures'' count)) (\<lambda>hit.
              if \<not> hit then ret_d []
              else bind_d (pure_d (item th ''derate_shared_ip'')) (\<lambda>der.
                   let shared = truthy der \<and> shared_egress w u t (case dget logins ip of None \<Rightarrow> [] | Some ls \<Rightarrow> ls)
                   in bind_d (pure_d (detail_of ev)) (\<lambda>d.
                        upsert_detection E now
                          \<lparr>fn_rule = RULE_SUCCESS_AFTER_FAILURES, fn_subject = u @ '':'' @ ip, fn_bucket = hour_bucket E t,
                           fn_severity = (if shared then ''high'' else ''critical''),
                           fn_title = display_name byid u @ '' logged in after '' @ int_text count @ '' failed attempts from '' @ ip,
                           fn_user = JStr u, fn_ip = JStr ip,
                           fn_detail = [(''ip'', JStr ip), (''fail_count'', JInt count),
                             (''window_minutes'', dget_null th ''window_minutes''),
                             (''new_token'', JBool (truthy (dget_null d ''new_token''))), (''shared_ip'', JBool shared)],
                           fn_event = t\<rparr>)))))) 
     | _ \<Rightarrow> ret_d [])"

definition rule_success_after_failures :: "det_env \<Rightarrow> int \<Rightarrow> (string \<times> dict) list \<Rightarrow> dict list det" where
  "rule_success_after_failures E now byid =
     bind_d (read_d (\<lambda>s. thresholds s RULE_SUCCESS_AFTER_FAILURES)) (\<lambda>th.
     bind_d (pure_d (threshold_span us_minute th ''window_minutes'')) (\<lambda>w.
     bind_d (pure_d (minus_span now (24 * us_of_hour))) (\<lambda>since.
     bind_d (pure_d (minus_span since w)) (\<lambda>fail_since.
     bind_d (query_d E (category_query since ''login_ok'' 5000)) (\<lambda>oks.
     bind_d (query_d E (category_query fail_since ''login_fail'' 5000)) (\<lambda>fail_events.
     bind_d (pure_d (group_times E ''ip'' fail_events [])) (\<lambda>fails.
     bind_d (pure_d (group_logins E oks [])) (\<lambda>logins.
       each_d (success_event E now byid th w fails logins) oks))))))))"

section \<open>Dormant accounts\<close>

definition event_moment :: "det_env \<Rightarrow> dict \<Rightarrow> int option res" where
  "event_moment E ev =
     bind_res (item ev ''ts'') (\<lambda>v. case v of
       JStr t \<Rightarrow> (case de_parse E t of None \<Rightarrow> Inr None | Some (Aware x) \<Rightarrow> Inr (Some x) | Some (Naive x) \<Rightarrow> Inl TypeError)
     | _ \<Rightarrow> Inl TypeError)"

text \<open>The text by which records are sorted; records have one, or sort first.\<close>

definition ts_text :: "dict \<Rightarrow> string" where
  "ts_text ev = (case dget_null ev ''ts'' of JStr t \<Rightarrow> t | _ \<Rightarrow> [])"

definition user_id_of :: "dict \<Rightarrow> string res" where
  "user_id_of u = bind_res (item u ''id'') (\<lambda>v. case v of JStr i \<Rightarrow> Inr i | _ \<Rightarrow> Inl TypeError)"

definition dormant_user ::
    "det_env \<Rightarrow> int \<Rightarrow> dict \<Rightarrow> (string \<times> dict list) list \<Rightarrow> dict \<Rightarrow> dict list det" where
  "dormant_user E now th by_user user =
     bind_d (pure_d (user_id_of user)) (\<lambda>u.
     let age = dget_null user ''account_age_days'' in
     bind_d (pure_d (if age = JNull then Inr True
               else bind_res (as_num age) (\<lambda>a. bind_res (threshold_num th ''min_account_age_days'') (\<lambda>m. Inr (a \<le> m))))) (\<lambda>young.
     let events = (case dget by_user u of None \<Rightarrow> [] | Some es \<Rightarrow> es) in
     if young \<or> length events < 2 then ret_d []
     else if list_ex (\<lambda>e. dget e ''ts'' = None) events then pure_d (Inl KeyError)
     else (let events = sort_key ts_text events in
       bind_d (pure_d (event_moment E (last (butlast events)))) (\<lambda>prev. bind_d (pure_d (event_moment E (last events))) (\<lambda>latest.
       case (prev, latest) of
         (Some p, Some l) \<Rightarrow>
           (let gap = (l - p) div us_day in
            bind_d (pure_d (threshold_num th ''dormant_days'')) (\<lambda>n.
              if of_int gap \<le> n then ret_d []
              else upsert_detection E now
                \<lparr>fn_rule = RULE_DORMANT_REVIVAL, fn_subject = u, fn_bucket = hour_bucket E l, fn_severity = ''medium'',
                 fn_title = ''Dormant account active again: '' @ name_text (dget_default user ''name'' (JStr u)),
                 fn_user = JStr u, fn_ip = JNull,
                 fn_detail = [(''gap_days'', JInt gap), (''dormant_days_threshold'', dget_null th ''dormant_days''),
                   (''previous_login_at'', JStr (de_iso E p)), (''revival_login_at'', JStr (de_iso E l))],
                 fn_event = l\<rparr>))
       | _ \<Rightarrow> ret_d [])))))"

definition rule_dormant_revival :: "det_env \<Rightarrow> int \<Rightarrow> dict list \<Rightarrow> dict list det" where
  "rule_dormant_revival E now users =
     bind_d (read_d (\<lambda>s. thresholds s RULE_DORMANT_REVIVAL)) (\<lambda>th.
     bind_d (pure_d (minus_span now (400 * us_day))) (\<lambda>since.
     bind_d (query_d E (category_query since ''login_ok'' 10000)) (\<lambda>events.
       each_d (dormant_user E now th (group_events events [])) users)))"

section \<open>Bursts of service calls and of tokens\<close>

text \<open>What a loop over a value meets; a text is met character by character, a dict by its keys.\<close>

definition elements :: "json \<Rightarrow> json list res" where
  "elements v =
     (case v of
        JArr xs \<Rightarrow> Inr xs
      | JStr t \<Rightarrow> Inr (map (\<lambda>c. JStr [c]) t)
      | JObj d \<Rightarrow> Inr (map (\<lambda>p. JStr (fst p)) d)
      | _ \<Rightarrow> Inl TypeError)"

definition iterate :: "json \<Rightarrow> json list res" where
  "iterate v = (if truthy v then elements v else Inr [])"

fun group_calls ::
    "det_env \<Rightarrow> dict list \<Rightarrow> (string \<times> (int \<times> json) list) list \<Rightarrow> (string \<times> (int \<times> json) list) list res" where
  "group_calls E [] d = Inr d"
| "group_calls E (ev # evs) d =
     (if dget_null ev ''context_parent_id'' \<noteq> JNull then group_calls E evs d
      else bind_res (ev_time E ev) (\<lambda>t. group_calls E evs
        (case (text_field ev ''user_id'', t) of
           (Some u, Some t) \<Rightarrow> push u (t, dget_null ev ''entity_ids'') d | _ \<Rightarrow> d)))"

text \<open>An entity id is hashable if it is no list and no dict.\<close>

definition hashable :: "json \<Rightarrow> bool" where
  "hashable v = (case v of JArr xs \<Rightarrow> False | JObj d \<Rightarrow> False | _ \<Rightarrow> True)"

fun distinct_values :: "json list \<Rightarrow> json list res" where
  "distinct_values [] = Inr []"
| "distinct_values (v # vs) =
     bind_res (iterate v) (\<lambda>xs. if \<not> list_all hashable xs then Inl TypeError
       else bind_res (distinct_values vs) (\<lambda>ys. Inr (remdups (xs @ ys))))"

text \<open>\<open>evts[start : end + 1]\<close>.\<close>

definition slice :: "nat \<Rightarrow> nat \<Rightarrow> 'a list \<Rightarrow> 'a list" where
  "slice s e xs = drop s (take (Suc e) xs)"

definition burst_hit :: "dict \<Rightarrow> (int \<times> json) list \<Rightarrow> nat \<Rightarrow> nat \<Rightarrow> bool res" where
  "burst_hit th evts s e =
     bind_res (reaches th ''calls'' (int (length (slice s e evts)))) (\<lambda>many.
       if \<not> many then Inr False
       else bind_res (distinct_values (map snd (slice s e evts))) (\<lambda>ents.
              reaches th ''distinct_entities'' (int (length ents))))"

definition mass_entity_user ::
    "det_env \<Rightarrow> int \<Rightarrow> (string \<times> dict) list \<Rightarrow> dict \<Rightarrow> int \<Rightarrow> string \<times> (int \<times> json) list \<Rightarrow> dict list det" where
  "mass_entity_user E now byid th w p =
     (case p of (u, evts) \<Rightarrow>
        let evts = sort_key fst evts; ts = map fst evts
        in bind_d (pure_d (first_burst w ts (burst_hit th evts) 0 [0..<length ts])) (\<lambda>b.
             case b of None \<Rightarrow> ret_d []
             | Some (s, e) \<Rightarrow>
                 bind_d (pure_d (distinct_values (map snd (slice s e evts)))) (\<lambda>ents.
                 upsert_detection E now
                   \<lparr>fn_rule = RULE_MASS_ENTITY_BURST, fn_subject = u, fn_bucket = hour_bucket E (ts ! e),
                    fn_severity = ''critical'', fn_title = ''Mass entity control burst by '' @ display_name byid u,
                    fn_user = JStr u, fn_ip = JNull,
                    fn_detail = [(''event_count'', JInt (int (length (slice s e evts)))),
                      (''distinct_entities'', JInt (int (length ents))), (''window_minutes'', dget_null th ''window_minutes'')],
                    fn_event = ts ! e\<rparr>)))"

definition rule_mass_entity_burst :: "det_env \<Rightarrow> int \<Rightarrow> (string \<times> dict) list \<Rightarrow> dict list det" where
  "rule_mass_entity_burst E now byid =
     bind_d (read_d (\<lambda>s. thresholds s RULE_MASS_ENTITY_BURST)) (\<lambda>th.
     bind_d (pure_d (minus_span now (30 * us_minute))) (\<lambda>since.
     bind_d (query_d E (category_query since ''service_call'' 10000)) (\<lambda>events.
     bind_d (pure_d (group_calls E events [])) (\<lambda>by_user.
     bind_d (pure_d (threshold_span us_minute th ''window_minutes'')) (\<lambda>w.
       each_d (mass_entity_user E now byid th w) by_user)))))"

definition token_minting_user ::
    "det_env \<Rightarrow> int \<Rightarrow> (string \<times> dict) list \<Rightarrow> dict \<Rightarrow> int \<Rightarrow> string \<times> int list \<Rightarrow> dict list det" where
  "token_minting_user E now byid th w p =
     (case p of (u, tms) \<Rightarrow>
        let ts = sort tms
        in bind_d (pure_d (first_burst w ts (\<lambda>s e. reaches th ''tokens'' (window_count s e)) 0 [0..<length ts])) (\<lambda>b.
             case b of None \<Rightarrow> ret_d []
             | Some (s, e) \<Rightarrow> upsert_detection E now
                 \<lparr>fn_rule = RULE_TOKEN_MINTING_ANOMALY, fn_subject = u, fn_bucket = hour_bucket E (ts ! e),
                  fn_severity = ''high'', fn_title = ''Multiple new tokens created for '' @ display_name byid u,
                  fn_user = JStr u, fn_ip = JNull,
                  fn_detail = [(''count_in_window'', JInt (window_count s e)), (''window_hours'', dget_null th ''window_hours'')],
                  fn_event = ts ! e\<rparr>))"

definition rule_token_minting_anomaly :: "det_env \<Rightarrow> int \<Rightarrow> (string \<times> dict) list \<Rightarrow> dict list det" where
  "rule_token_minting_anomaly E now byid =
     bind_d (read_d (\<lambda>s. thresholds s RULE_TOKEN_MINTING_ANOMALY)) (\<lambda>th.
     bind_d (pure_d (minus_span now (24 * us_of_hour))) (\<lambda>since.
     bind_d (query_d E (category_query since ''token_created'' 2000)) (\<lambda>events.
     bind_d (pure_d (group_times E ''user_id'' events [])) (\<lambda>by_user.
     bind_d (pure_d (threshold_span us_of_hour th ''window_hours'')) (\<lambda>w.
       each_d (token_minting_user E now byid th w) by_user)))))"

section \<open>Disabled users\<close>

definition DISABLED_USER_ACTIVITY_CATEGORIES :: "string list" where
  "DISABLED_USER_ACTIVITY_CATEGORIES = [''login_ok'', ''service_call'', ''token_created'']"

record activity =
  ac_count :: int
  ac_newest :: int
  ac_ip :: json

definition note_activity :: "string \<Rightarrow> int \<Rightarrow> json \<Rightarrow> (string \<times> activity) list \<Rightarrow> (string \<times> activity) list" where
  "note_activity u t ip d =
     (let a = (case dget d u of None \<Rightarrow> \<lparr>ac_count = 0, ac_newest = t, ac_ip = ip\<rparr> | Some a \<Rightarrow> a);
          a = a\<lparr>ac_count := ac_count a + 1\<rparr>
      in dset d u (if ac_newest a < t then a\<lparr>ac_newest := t, ac_ip := ip\<rparr> else a))"

fun gather_activity :: "det_env \<Rightarrow> string list \<Rightarrow> dict list \<Rightarrow> (string \<times> activity) list \<Rightarrow> (string \<times> activity) list res" where
  "gather_activity E disabled [] d = Inr d"
| "gather_activity E disabled (ev # evs) d =
     (case dget_null ev ''user_id'' of
        JStr u \<Rightarrow>
          if u \<notin> set disabled then gather_activity E disabled evs d
          else bind_res (ev_time E ev) (\<lambda>t. gather_activity E disabled evs
                 (case t of None \<Rightarrow> d | Some t \<Rightarrow> note_activity u t (dget_null ev ''ip'') d))
      | _ \<Rightarrow> gather_activity E disabled evs d)"

definition disabled_category :: "det_env \<Rightarrow> int \<Rightarrow> (string \<times> dict) list \<Rightarrow> int \<Rightarrow> string list \<Rightarrow> string \<Rightarrow> dict list det" where
  "disabled_category E now byid since disabled cat =
     bind_d (query_d E (category_query since cat 5000)) (\<lambda>events.
     bind_d (pure_d (gather_activity E disabled events [])) (\<lambda>per_user.
       each_d (\<lambda>(u, a). upsert_detection E now
         \<lparr>fn_rule = RULE_DISABLED_USER_ACTIVITY, fn_subject = u @ '':'' @ cat, fn_bucket = hour_bucket E now,
          fn_severity = ''high'', fn_title = ''Activity attempt by disabled account '' @ display_name byid u,
          fn_user = JStr u, fn_ip = ac_ip a,
          fn_detail = [(''category'', JStr cat), (''event_count'', JInt (ac_count a)), (''ip'', ac_ip a)],
          fn_event = ac_newest a\<rparr>) per_user))"

definition disabled_ids :: "dict list \<Rightarrow> string list res" where
  "disabled_ids users =
     foldr (\<lambda>u r. bind_res r (\<lambda>is. if dget_null u ''is_active'' \<noteq> JBool False then Inr is
       else bind_res (user_id_of u) (\<lambda>i. Inr (i # is)))) users (Inr [])"

definition rule_disabled_user_activity :: "det_env \<Rightarrow> int \<Rightarrow> dict list \<Rightarrow> (string \<times> dict) list \<Rightarrow> dict list det" where
  "rule_disabled_user_activity E now users byid =
     bind_d (pure_d (disabled_ids users)) (\<lambda>disabled.
       if disabled = [] then ret_d []
       else bind_d (pure_d (minus_span now (24 * us_of_hour))) (\<lambda>since.
              each_d (disabled_category E now byid since disabled) DISABLED_USER_ACTIVITY_CATEGORIES))"

section \<open>Rejected callbacks and broken chains\<close>

text \<open>
  At most one finding per (key, hour): \<open>mk\<close> is the key and the finding of a record whose time is known.
\<close>

fun once_per_hour ::
    "det_env \<Rightarrow> int \<Rightarrow> (dict \<Rightarrow> (string \<times> (int \<Rightarrow> det_finding)) res) \<Rightarrow> (string \<times> string) list \<Rightarrow> dict list \<Rightarrow> dict list det" where
  "once_per_hour E now mk emitted [] = ret_d []"
| "once_per_hour E now mk emitted (ev # evs) =
     bind_d (pure_d (mk ev)) (\<lambda>(key, f).
     bind_d (pure_d (ev_time E ev)) (\<lambda>t.
       case t of
         None \<Rightarrow> once_per_hour E now mk emitted evs
       | Some t \<Rightarrow>
           (let k = (key, hour_bucket E t) in
            if k \<in> set emitted then once_per_hour E now mk emitted evs
            else bind_d (upsert_detection E now (f t)) (\<lambda>xs.
                 bind_d (once_per_hour E now mk (k # emitted) evs) (\<lambda>ys. ret_d (xs @ ys))))))"

text \<open>A caller id and the name of a source are texts or absent.\<close>

definition text_or :: "json \<Rightarrow> string \<Rightarrow> string" where
  "text_or v t = (case v of JStr s \<Rightarrow> if s = [] then t else s | _ \<Rightarrow> t)"

definition probe_finding :: "det_env \<Rightarrow> (string \<times> dict) list \<Rightarrow> dict \<Rightarrow> (string \<times> (int \<Rightarrow> det_finding)) res" where
  "probe_finding E byid ev =
     bind_res (detail_of ev) (\<lambda>d.
       let who = dget_null d ''caller_user_id''; caller = text_or who ''no_user_context'';
           name = (case who of JStr i \<Rightarrow> (case dget byid i of None \<Rightarrow> caller
                                          | Some u \<Rightarrow> name_text (dget_default u ''name'' (JStr caller)))
                   | _ \<Rightarrow> caller)
       in Inr (caller, \<lambda>t.
            \<lparr>fn_rule = RULE_PROBE_AUTH_REJECTED, fn_subject = caller, fn_bucket = hour_bucket E t, fn_severity = ''high'',
             fn_title = ''Probe callback rejected for '' @ name, fn_user = who, fn_ip = JNull,
             fn_detail = [(''service'', dget_null d ''service''), (''caller_user_id'', who), (''reason'', dget_null d ''reason'')],
             fn_event = t\<rparr>))"

definition rule_probe_auth_rejected :: "det_env \<Rightarrow> int \<Rightarrow> (string \<times> dict) list \<Rightarrow> dict list det" where
  "rule_probe_auth_rejected E now byid =
     bind_d (pure_d (minus_span now (24 * us_of_hour))) (\<lambda>since.
     bind_d (query_d E (category_query since ''probe_auth_rejected'' 5000)) (\<lambda>events.
       once_per_hour E now (probe_finding E byid) [] events))"

definition chain_break_finding :: "det_env \<Rightarrow> dict \<Rightarrow> (string \<times> (int \<Rightarrow> det_finding)) res" where
  "chain_break_finding E ev =
     bind_res (detail_of ev) (\<lambda>d.
       let source = text_or (dget_null d ''source'') ''unknown''
       in Inr (source, \<lambda>t.
            \<lparr>fn_rule = RULE_EXTERNAL_AUDIT_CHAIN_BREAK, fn_subject = source, fn_bucket = hour_bucket E t,
             fn_severity = ''high'', fn_title = ''External audit chain from '' @ source @ '' broken'',
             fn_user = dget_null ev ''user_id'', fn_ip = JNull,
             fn_detail = [(''source'', JStr source), (''reason'', dget_null d ''reason''),
               (''accepted_before_break'', dget_null d ''accepted_before_break''), (''head_seq'', dget_null d ''head_seq'')],
             fn_event = t\<rparr>))"

definition rule_external_audit_chain_break :: "det_env \<Rightarrow> int \<Rightarrow> dict list det" where
  "rule_external_audit_chain_break E now =
     bind_d (pure_d (minus_span now (24 * us_of_hour))) (\<lambda>since.
     bind_d (query_d E (category_query since ''external_audit_chain_break'' 5000)) (\<lambda>events.
       once_per_hour E now (chain_break_finding E) [] events))"

end
