(* ===== verification/DetectionPass.thy ===== *)
theory DetectionPass
  imports DetectionRules
begin

text \<open>
  The rules of \<open>DetectionEngine\<close> that keep a baseline per user in the store (logins from new networks,
  off-hours activity, privilege escalation), and the pass that runs all eleven. A baseline is changed
  in place, so what a rule wrote before an exception stays. A user is flagged against the baseline as
  it was before the pass.
\<close>

section \<open>Baselines\<close>

definition on_baseline :: "string \<Rightarrow> (dict, 'a) act \<Rightarrow> 'a det" where
  "on_baseline u m s =
     (let st = dt_store s in
      case bind_res (item (sd st) ''user_baselines'') (as_table AttributeError) of
        Inl e \<Rightarrow> (s, Inl e)
      | Inr tab \<Rightarrow>
          (case as_table AttributeError (dget_default tab u (JObj [])) of
             Inl e \<Rightarrow> (s, Inl e)
           | Inr b \<Rightarrow>
               (case m b of
                  (b', r) \<Rightarrow> (s\<lparr>dt_store := st\<lparr>sd := dset (sd st) ''user_baselines'' (JObj (dset tab u (JObj b')))\<rparr>\<rparr>, r))))"

definition save_d :: "unit det" where
  "save_d = modify_d (\<lambda>s. s\<lparr>dt_store := schedule_save (dt_store s)\<rparr>)"

text \<open>\<open>parse_datetime(raw) if raw else None\<close>.\<close>

definition parse_field :: "det_env \<Rightarrow> dict \<Rightarrow> string \<Rightarrow> moment option res" where
  "parse_field E b k =
     (let raw = dget_null b k in
      if \<not> truthy raw then Inr None else (case raw of JStr t \<Rightarrow> Inr (de_parse E t) | _ \<Rightarrow> Inl TypeError))"

section \<open>Logins from new networks\<close>

definition NEW_IP_LOGIN_MAX_TRACKED_DAYS :: nat where "NEW_IP_LOGIN_MAX_TRACKED_DAYS = 90"

text \<open>The legacy flat list is taken over once, its prefixes trusted.\<close>

definition prefix_baseline :: "string \<Rightarrow> (dict, dict) act" where
  "prefix_baseline now_iso b =
     (case dget_null b ''prefix_baseline'' of
        JNull \<Rightarrow>
          (let old = dget_null b ''seen_prefixes''; b = ddel b ''seen_prefixes'' in
           case iterate old of
             Inl e \<Rightarrow> (b, Inl e)
           | Inr xs \<Rightarrow>
               if list_ex (\<lambda>x. as_str x = None) xs then (b, Inl TypeError)
               else (let pb = foldl (\<lambda>d x. dset d (the (as_str x))
                        (JObj [(''days'', JArr []), (''last_seen'', JStr now_iso), (''legacy_trusted'', JBool True)])) [] xs
                     in (dset b ''prefix_baseline'' (JObj pb), Inr pb)))
      | JObj pb \<Rightarrow> (b, Inr pb)
      | _ \<Rightarrow> (b, Inl AttributeError))"

fun expire_prefixes :: "det_env \<Rightarrow> int \<Rightarrow> int \<Rightarrow> string list \<Rightarrow> (dict, unit) act" where
  "expire_prefixes E now expiry [] pb = (pb, Inr ())"
| "expire_prefixes E now expiry (k # ks) pb =
     (case bind_res (as_table AttributeError (dget_null pb k)) (\<lambda>e.
             case or_else (dget_null e ''last_seen'') (JStr []) of
               JStr t \<Rightarrow> (case de_parse E t of
                            None \<Rightarrow> Inr True | Some (Aware x) \<Rightarrow> Inr (expiry < now - x) | Some (Naive x) \<Rightarrow> Inl TypeError)
             | _ \<Rightarrow> Inl TypeError) of
        Inl e \<Rightarrow> (pb, Inl e)
      | Inr old \<Rightarrow> expire_prefixes E now expiry ks (if old then ddel pb k else pb))"

definition days_seen :: "dict \<Rightarrow> int res" where
  "days_seen e =
     bind_res (iterate (dget_null e ''days'')) (\<lambda>xs.
       if list_all hashable xs then Inr (int (length (remdups xs))) else Inl TypeError)"

fun trusted_prefixes :: "rat \<Rightarrow> dict \<Rightarrow> string list res" where
  "trusted_prefixes required [] = Inr []"
| "trusted_prefixes required (p # pb) =
     bind_res (as_table AttributeError (snd p)) (\<lambda>e.
     bind_res (if truthy (dget_null e ''legacy_trusted'') then Inr True
               else bind_res (days_seen e) (\<lambda>n. Inr (required \<le> of_int n))) (\<lambda>ok.
     bind_res (trusted_prefixes required pb) (\<lambda>ps. Inr (if ok then fst p # ps else ps))))"

text \<open>\<open>_is_private_ip\<close> and \<open>_network_prefix\<close>; an address with a colon is of version 6.\<close>

definition is_private_ip :: "det_env \<Rightarrow> string \<Rightarrow> bool" where
  "is_private_ip E ip = (case de_private E ip of None \<Rightarrow> True | Some b \<Rightarrow> b)"

definition network_prefix :: "det_env \<Rightarrow> dict \<Rightarrow> string \<Rightarrow> string option" where
  "network_prefix E th ip =
     (if de_private E ip = None then None
      else case as_pyint (dget_null th (if CHR '':'' \<in> set ip then ''ipv6_prefix'' else ''ipv4_prefix'')) of
             None \<Rightarrow> None | Some n \<Rightarrow> de_network E ip n)"

definition utc_date :: "det_env \<Rightarrow> int \<Rightarrow> string" where
  "utc_date E t = take 10 (de_iso E t)"

text \<open>A sighting of a net on a day.\<close>

definition sight :: "det_env \<Rightarrow> int \<Rightarrow> string \<Rightarrow> (dict, unit) act" where
  "sight E t net pb =
     (case as_table AttributeError (dget_default pb net (JObj [(''days'', JArr []), (''last_seen'', JNull)])) of
        Inl e \<Rightarrow> (pb, Inl e)
      | Inr e \<Rightarrow>
          (let e = dsetdefault e ''days'' (JArr []); day = JStr (utc_date E t) in
           case dget_null e ''days'' of
             JArr ds \<Rightarrow>
               (let e = (if day \<in> set ds then e
                         else dset e ''days'' (JArr (keep_newest NEW_IP_LOGIN_MAX_TRACKED_DAYS (ds @ [day]))))
                in case or_else (dget_null e ''last_seen'') (JStr []) of
                     JStr l \<Rightarrow>
                       (dset pb net (JObj (if l < de_iso E t then dset e ''last_seen'' (JStr (de_iso E t)) else e)), Inr ())
                   | _ \<Rightarrow> (dset pb net (JObj e), Inl TypeError))
           | _ \<Rightarrow> (dset pb net (JObj e), Inl TypeError)))"

record login_scan =
  ls_base :: dict
  ls_prefixes :: dict
  ls_first :: "moment option"
  ls_flagged :: "(string \<times> (int \<times> string)) list"

text \<open>\<open>first_seen is None or ts < first_seen\<close>.\<close>

definition earlier :: "int \<Rightarrow> moment option \<Rightarrow> bool res" where
  "earlier t m = (case m of None \<Rightarrow> Inr True | Some x \<Rightarrow> moment_less (Aware t) x)"

definition not_after :: "int \<Rightarrow> moment option \<Rightarrow> bool res" where
  "not_after t m = (case m of None \<Rightarrow> Inr False | Some x \<Rightarrow> bind_res (moment_less x (Aware t)) (\<lambda>b. Inr (\<not> b)))"

definition is_mature :: "int \<Rightarrow> dict \<Rightarrow> moment option \<Rightarrow> bool res" where
  "is_mature now th m =
     (case m of None \<Rightarrow> Inr False
      | Some x \<Rightarrow> bind_res (moment_minus (Aware now) x) (\<lambda>d. reaches th ''learning_days'' (d div us_day)))"

definition flag_prefix :: "string \<Rightarrow> int \<Rightarrow> string \<Rightarrow> (string \<times> (int \<times> string)) list \<Rightarrow> (string \<times> (int \<times> string)) list" where
  "flag_prefix net t ip fl =
     (case dget fl net of
        None \<Rightarrow> dset fl net (t, ip)
      | Some p \<Rightarrow> if fst p < t then dset fl net (t, ip) else fl)"

definition scan_login ::
    "det_env \<Rightarrow> int \<Rightarrow> dict \<Rightarrow> moment option \<Rightarrow> string list \<Rightarrow> dict \<Rightarrow> (login_scan, unit) act" where
  "scan_login E now th cp trusted ev =
     bind_d (pure_d (ev_time E ev)) (\<lambda>t. case t of None \<Rightarrow> ret_d () | Some t \<Rightarrow>
     bind_d (pure_d (not_after t cp)) (\<lambda>old. if old then ret_d () else
     bind_d (\<lambda>s. pure_d (earlier t (ls_first s)) s) (\<lambda>first.
     bind_d (modify_d (\<lambda>s. if first then s\<lparr>ls_first := Some (Aware t),
         ls_base := dset (ls_base s) ''first_login_seen_at'' (JStr (de_iso E t))\<rparr> else s)) (\<lambda>_.
     case text_field ev ''ip'' of None \<Rightarrow> ret_d () | Some ip \<Rightarrow>
     if is_private_ip E ip then ret_d ()
     else case network_prefix E th ip of None \<Rightarrow> ret_d () | Some net \<Rightarrow>
     bind_d (\<lambda>s. pure_d (is_mature now th (ls_first s)) s) (\<lambda>mature.
     bind_d (modify_d (\<lambda>s. if cp \<noteq> None \<and> mature \<and> net \<notin> set trusted
         then s\<lparr>ls_flagged := flag_prefix net t ip (ls_flagged s)\<rparr> else s)) (\<lambda>_.
     \<lambda>s. (case sight E t net (ls_prefixes s) of (pb, r) \<Rightarrow> (s\<lparr>ls_prefixes := pb\<rparr>, r))))))))"

fun scan_logins ::
    "det_env \<Rightarrow> int \<Rightarrow> dict \<Rightarrow> moment option \<Rightarrow> string list \<Rightarrow> dict list \<Rightarrow> (login_scan, unit) act" where
  "scan_logins E now th cp trusted [] = ret_d ()"
| "scan_logins E now th cp trusted (ev # evs) =
     bind_d (scan_login E now th cp trusted ev) (\<lambda>_. scan_logins E now th cp trusted evs)"

text \<open>One user's logins against the baseline: the flagged prefixes and the prefixes known afterwards.\<close>

definition learn_logins ::
    "det_env \<Rightarrow> int \<Rightarrow> dict \<Rightarrow> int \<Rightarrow> dict list \<Rightarrow> (dict, (string \<times> (int \<times> string)) list \<times> dict) act" where
  "learn_logins E now th expiry evs b =
     bind_d (prefix_baseline (de_iso E now)) (\<lambda>pb b.
       bind_d (pure_d (parse_field E b ''new_ip_checkpoint'')) (\<lambda>cp b.
         (case expire_prefixes E now expiry (map fst pb) pb of
            (pb, Inl e) \<Rightarrow> (dset b ''prefix_baseline'' (JObj pb), Inl e)
          | (pb, Inr _) \<Rightarrow>
              (let b = dset b ''prefix_baseline'' (JObj pb) in
               bind_d (pure_d (bind_res (threshold_num th ''baseline_days_required'') (\<lambda>n. trusted_prefixes n pb))) (\<lambda>trusted.
               bind_d (pure_d (parse_field E b ''first_login_seen_at'')) (\<lambda>first b.
                 (case scan_logins E now th cp trusted (sort_key ts_text evs)
                         \<lparr>ls_base = b, ls_prefixes = pb, ls_first = first, ls_flagged = []\<rparr> of
                    (s, r) \<Rightarrow>
                      (let b = dset (ls_base s) ''prefix_baseline'' (JObj (ls_prefixes s)) in
                       case r of
                         Inl e \<Rightarrow> (b, Inl e)
                       | Inr _ \<Rightarrow> (dset b ''new_ip_checkpoint'' (JStr (de_iso E now)), Inr (ls_flagged s, ls_prefixes s)))))) b))) b) b"

definition flag_login ::
    "det_env \<Rightarrow> int \<Rightarrow> dict \<Rightarrow> (string \<times> dict) list \<Rightarrow> string \<Rightarrow> dict \<Rightarrow> string \<times> (int \<times> string) \<Rightarrow> dict list det" where
  "flag_login E now th byid u pb p =
     (case p of (net, t, ip) \<Rightarrow>
        bind_d (pure_d (bind_res (as_table AttributeError (dget_default pb net (JObj []))) days_seen)) (\<lambda>n.
        upsert_detection E now
          \<lparr>fn_rule = RULE_NEW_IP_LOGIN, fn_subject = u @ '':'' @ net, fn_bucket = hour_bucket E t,
           fn_severity = ''medium'', fn_title = ''Login from a new network for '' @ display_name byid u, fn_user = JStr u,
           fn_ip = JStr ip,
           fn_detail = [(''ip'', JStr ip), (''prefix'', JStr net), (''distinct_days_seen'', JInt n),
             (''baseline_days_required'', dget_null th ''baseline_days_required'')],
           fn_event = t\<rparr>))"

definition new_ip_user ::
    "det_env \<Rightarrow> int \<Rightarrow> dict \<Rightarrow> int \<Rightarrow> (string \<times> dict) list \<Rightarrow> string \<times> dict list \<Rightarrow> dict list det" where
  "new_ip_user E now th expiry byid p =
     (case p of (u, evs) \<Rightarrow>
        bind_d (on_baseline u (learn_logins E now th expiry evs)) (\<lambda>(flagged, pb).
        bind_d save_d (\<lambda>_. each_d (flag_login E now th byid u pb) flagged)))"

definition rule_new_ip_login :: "det_env \<Rightarrow> int \<Rightarrow> (string \<times> dict) list \<Rightarrow> dict list det" where
  "rule_new_ip_login E now byid =
     bind_d (read_d (\<lambda>s. thresholds s RULE_NEW_IP_LOGIN)) (\<lambda>th.
     bind_d (pure_d (minus_span now (30 * us_day))) (\<lambda>since.
     bind_d (query_d E (category_query since ''login_ok'' 10000\<lparr>aq_until := Some (now, 0)\<rparr>)) (\<lambda>events.
     bind_d (pure_d (threshold_span us_day th ''prefix_expiry_days'')) (\<lambda>expiry.
       each_d (new_ip_user E now th expiry byid) (group_events events [])))))"

section \<open>Off-hours activity\<close>

text \<open>\<open>ANALYSIS_INTERVAL\<close> of \<open>__init__.py\<close>.\<close>

definition ANALYSIS_INTERVAL :: int where "ANALYSIS_INTERVAL = 5 * us_minute"

definition in_quiet_window :: "rat \<Rightarrow> rat \<Rightarrow> rat \<Rightarrow> bool" where
  "in_quiet_window hour qs qe =
     (if qs = qe then False
      else if qs < qe then qs \<le> hour \<and> hour < qe
      else qs \<le> hour \<or> hour < qe)"

fun count_hours :: "det_env \<Rightarrow> dict list \<Rightarrow> (json list \<times> int list, unit) act" where
  "count_hours E [] s = (s, Inr ())"
| "count_hours E (ev # evs) s =
     (case ev_time E ev of
        Inl e \<Rightarrow> (s, Inl e)
      | Inr None \<Rightarrow> count_hours E evs s
      | Inr (Some t) \<Rightarrow>
          (let h = de_hour E t; (hist, now_counts) = s in
           if length hist \<le> h \<or> length now_counts \<le> h then (s, Inl IndexError)
           else case as_pyint (hist ! h) of
                  None \<Rightarrow> (s, Inl TypeError)
                | Some n \<Rightarrow> count_hours E evs (hist[h := JInt (n + 1)], now_counts[h := now_counts ! h + 1])))"

definition note_learning :: "dict list \<Rightarrow> (dict, unit) act" where
  "note_learning direct b =
     (if truthy (dget_null b ''learning_started_at'') \<or> direct = [] then (b, Inr ())
      else (let ts = filter (\<lambda>t. t \<noteq> []) (map ts_text direct)
            in if ts = [] then (b, Inl ValueError) else (dset b ''learning_started_at'' (JStr (Min (set ts))), Inr ())))"

definition count_calls :: "det_env \<Rightarrow> int \<Rightarrow> dict list \<Rightarrow> (dict, int list) act" where
  "count_calls E now direct =
     bind_d (note_learning direct) (\<lambda>_ b.
       case as_list TypeError (dget_null b ''hour_histogram'') of
         Inl e \<Rightarrow> (b, Inl e)
       | Inr hist \<Rightarrow>
           (case count_hours E direct (hist, replicate 24 0) of
              ((hist, counts), r) \<Rightarrow>
                (let b = dset b ''hour_histogram'' (JArr hist) in
                 case r of
                   Inl e \<Rightarrow> (b, Inl e)
                 | Inr _ \<Rightarrow> (dset b ''hour_histogram_updated_through'' (JStr (de_iso E now)), Inr counts))))"

fun sum_counts :: "json list \<Rightarrow> int res" where
  "sum_counts [] = Inr 0"
| "sum_counts (x # xs) =
     (case as_pyint x of None \<Rightarrow> Inl TypeError | Some n \<Rightarrow> bind_res (sum_counts xs) (\<lambda>m. Inr (n + m)))"

text \<open>Whether the learning period has passed, and the histogram with its sum; not mature gives nothing.\<close>

definition mature_hours :: "det_env \<Rightarrow> int \<Rightarrow> dict \<Rightarrow> dict \<Rightarrow> (json list \<times> int) option res" where
  "mature_hours E now th b =
     bind_res (parse_field E b ''learning_started_at'') (\<lambda>m.
     bind_res (is_mature now th m) (\<lambda>mature.
       if \<not> mature then Inr None
       else bind_res (as_list TypeError (dget_null b ''hour_histogram'')) (\<lambda>hist.
            bind_res (sum_counts hist) (\<lambda>tot. Inr (if tot = 0 then None else Some (hist, tot))))))"

definition off_hours_hour ::
    "det_env \<Rightarrow> int \<Rightarrow> dict \<Rightarrow> (string \<times> dict) list \<Rightarrow> string \<Rightarrow> rat \<Rightarrow> json list \<Rightarrow> int \<Rightarrow> nat \<times> int \<Rightarrow> dict list det" where
  "off_hours_hour E now th byid u burst hist tot p =
     (case p of (hour, n_now) \<Rightarrow>
        if of_int n_now < burst then ret_d []
        else bind_d (pure_d (threshold_num th ''quiet_start_hour'')) (\<lambda>qs.
             bind_d (pure_d (threshold_num th ''quiet_end_hour'')) (\<lambda>qe.
             if \<not> in_quiet_window (of_nat hour) qs qe then ret_d []
             else bind_d (pure_d (if hour < length hist then as_num (hist ! hour) else Inl IndexError)) (\<lambda>n.
                  let ratio = n / of_int tot in
                  bind_d (pure_d (threshold_num th ''ratio_threshold'')) (\<lambda>limit.
                  if limit \<le> ratio then ret_d []
                  else upsert_detection E now
                    \<lparr>fn_rule = RULE_OFF_HOURS_ANOMALY, fn_subject = u @ '':'' @ nat_text hour, fn_bucket = hour_bucket E now,
                     fn_severity = ''medium'', fn_title = ''Off-hours activity burst for '' @ display_name byid u,
                     fn_user = JStr u, fn_ip = JNull,
                     fn_detail = [(''hour'', JInt (int hour)), (''count_this_pass'', JInt n_now),
                       (''burst_threshold_effective'', round_json 1 burst), (''historical_ratio'', round_json 4 ratio)],
                     fn_event = now\<rparr>)))))"

definition off_hours_user :: "det_env \<Rightarrow> int \<Rightarrow> dict \<Rightarrow> (string \<times> dict) list \<Rightarrow> dict \<Rightarrow> dict list det" where
  "off_hours_user E now th byid user =
     bind_d (pure_d (user_id_of user)) (\<lambda>u.
     bind_d (on_baseline u (\<lambda>b.
       let b = dsetdefault b ''hour_histogram'' (JArr (replicate 24 (JInt 0)))
       in (b, parse_field E b ''hour_histogram_updated_through''))) (\<lambda>cp.
     bind_d (pure_d (case cp of None \<Rightarrow> minus_span now (30 * us_day)
                     | Some (Aware x) \<Rightarrow> Inr x | Some (Naive x) \<Rightarrow> Inl TypeError)) (\<lambda>since.
     bind_d (query_d E (category_query since ''service_call'' 5000\<lparr>aq_until := Some (now, 0), aq_user := Some u\<rparr>)) (\<lambda>events.
     bind_d (on_baseline u (count_calls E now (filter (\<lambda>e. dget_null e ''context_parent_id'' = JNull) events))) (\<lambda>counts.
     bind_d save_d (\<lambda>_.
     if cp = None then ret_d []
     else bind_d (on_baseline u (\<lambda>b. (b, mature_hours E now th b))) (\<lambda>m.
       case m of None \<Rightarrow> ret_d []
       | Some (hist, tot) \<Rightarrow>
           bind_d (pure_d (threshold_num th ''burst_threshold'')) (\<lambda>n.
             each_d (off_hours_hour E now th byid u (n * max 1 (of_int (now - since) / of_int ANALYSIS_INTERVAL)) hist tot)
               (enumerate 0 counts)))))))))"

definition rule_off_hours_anomaly :: "det_env \<Rightarrow> int \<Rightarrow> dict list \<Rightarrow> (string \<times> dict) list \<Rightarrow> dict list det" where
  "rule_off_hours_anomaly E now users byid =
     bind_d (read_d (\<lambda>s. thresholds s RULE_OFF_HOURS_ANOMALY)) (\<lambda>th.
       each_d (off_hours_user E now th byid) users)"

section \<open>Privilege escalation\<close>

definition ADMIN_GROUP_ID :: string where "ADMIN_GROUP_ID = ''system-admin''"

text \<open>\<open>set(x)\<close> of groups.\<close>

definition as_set :: "json list res \<Rightarrow> json list res" where
  "as_set r = bind_res r (\<lambda>xs. if list_all hashable xs then Inr (remdups xs) else Inl TypeError)"

definition sort_groups :: "json list \<Rightarrow> json list res" where
  "sort_groups xs =
     (if list_ex (\<lambda>x. as_str x = None) xs then Inl TypeError else Inr (map JStr (sort (map (\<lambda>x. the (as_str x)) xs))))"

fun actor_matches :: "string \<Rightarrow> dict list \<Rightarrow> dict list res" where
  "actor_matches u [] = Inr []"
| "actor_matches u (e # es) =
     bind_res (detail_of e) (\<lambda>d. bind_res (actor_matches u es) (\<lambda>ms.
       Inr (if dget_null d ''user_id'' = JStr u \<or> dget_null d ''target_user_id'' = JStr u then e # ms else ms)))"

definition find_privilege_escalation_actor :: "det_env \<Rightarrow> string \<Rightarrow> int \<Rightarrow> json det" where
  "find_privilege_escalation_actor E u now =
     bind_d (pure_d (minus_span now (15 * us_minute))) (\<lambda>since.
     bind_d (query_d E (category_query since ''user_updated'' 200)) (\<lambda>events.
     bind_d (pure_d (actor_matches u events)) (\<lambda>ms.
       ret_d (if ms = [] then JNull else dget_null (last (sort_key ts_text ms)) ''user_id''))))"

definition escalation_user :: "det_env \<Rightarrow> int \<Rightarrow> dict \<Rightarrow> dict list det" where
  "escalation_user E now user =
     bind_d (pure_d (user_id_of user)) (\<lambda>u.
     bind_d (pure_d (as_set (iterate (dget_null user ''groups'')))) (\<lambda>current.
     bind_d (on_baseline u (\<lambda>b. (b,
       if dget_null b ''groups_snapshot'' = JNull then Inr None
       else bind_res (as_set (elements (dget_null b ''groups_snapshot''))) (\<lambda>xs. Inr (Some xs))))) (\<lambda>previous.
     bind_d (if previous \<noteq> None \<and> JStr ADMIN_GROUP_ID \<in> set current \<and> JStr ADMIN_GROUP_ID \<notin> set (the previous)
             then bind_d (find_privilege_escalation_actor E u now) (\<lambda>actor.
               upsert_detection E now
                 \<lparr>fn_rule = RULE_PRIVILEGE_ESCALATION, fn_subject = u, fn_bucket = hour_bucket E now, fn_severity = ''high'',
                  fn_title = name_text (dget_default user ''name'' (JStr u)) @ '' was granted admin privileges'',
                  fn_user = JStr u, fn_ip = JNull,
                  fn_detail = [(''gained_group'', JStr ADMIN_GROUP_ID), (''actor_user_id'', actor)], fn_event = now\<rparr>)
             else ret_d []) (\<lambda>found.
     bind_d (if previous \<noteq> None \<and> set (the previous) = set current then ret_d ()
             else bind_d (on_baseline u (\<lambda>b.
                    case sort_groups current of
                      Inl e \<Rightarrow> (b, Inl e) | Inr gs \<Rightarrow> (dset b ''groups_snapshot'' (JArr gs), Inr ()))) (\<lambda>_. save_d)) (\<lambda>_.
       ret_d found)))))"

definition rule_privilege_escalation :: "det_env \<Rightarrow> int \<Rightarrow> dict list \<Rightarrow> dict list det" where
  "rule_privilege_escalation E now users = each_d (escalation_user E now) users"

section \<open>The pass\<close>

definition detection_rules :: "det_env \<Rightarrow> int \<Rightarrow> dict list \<Rightarrow> (string \<times> dict) list \<Rightarrow> dict list det list" where
  "detection_rules E now users byid =
     [rule_brute_force_ip E now,
      rule_success_after_failures E now byid,
      rule_new_ip_login E now byid,
      rule_off_hours_anomaly E now users byid,
      rule_dormant_revival E now users,
      rule_privilege_escalation E now users,
      rule_mass_entity_burst E now byid,
      rule_token_minting_anomaly E now byid,
      rule_disabled_user_activity E now users byid,
      rule_probe_auth_rejected E now byid,
      rule_external_audit_chain_break E now]"

text \<open>A rule that raises is logged; its rows stay in the store but not in the answer.\<close>

fun run_rules :: "dict list det list \<Rightarrow> det_state \<Rightarrow> det_state \<times> dict list" where
  "run_rules [] s = (s, [])"
| "run_rules (r # rs) s =
     (case r s of
        (s', x) \<Rightarrow> (case run_rules rs s' of
           (s'', ys) \<Rightarrow> (s'', (case x of Inl e \<Rightarrow> [] | Inr xs \<Rightarrow> xs) @ ys)))"

text \<open>Retention that raises is logged too; a table it had pruned before is taken as not pruned.\<close>

definition retention_sweep :: "det_env \<Rightarrow> int \<Rightarrow> det_state \<Rightarrow> det_state" where
  "retention_sweep E now s =
     (case async_prune_evidence (de_parse E) now (dt_store s) of
        Inl e \<Rightarrow> s | Inr (st, _) \<Rightarrow> s\<lparr>dt_store := st\<rparr>)"

definition run_pass :: "det_env \<Rightarrow> int \<Rightarrow> dict list \<Rightarrow> dict list det" where
  "run_pass E now users =
     bind_d (pure_d (users_by_id users)) (\<lambda>byid s.
       case run_rules (detection_rules E now users byid) s of
         (s, touched) \<Rightarrow>
           bind_d (store_d (async_note_detection_pass_completed (de_iso E now))) (\<lambda>_. ret_d touched)
             (retention_sweep E now s))"

end
