(* ===== verification/DetectionProps.thy ===== *)
theory DetectionProps
  imports DetectionPass StoreProps
begin

text \<open>
  What no detection rule does, whatever its answer or exception: \<open>progress\<close> relates the store data
  before and after. Rules touch the tables of detections and of baselines only, keep every row with
  what an analyst decided on it, and keep the shape of the data. It composes along \<^const>\<open>bind_d\<close> and
  \<^const>\<open>each_d\<close> (\<open>safe_intros\<close>), so that each rule is safe by its text.
\<close>

named_theorems safe_intros \<open>computations that keep decided rows\<close>

section \<open>The invariant of the table\<close>

definition drow :: "dict \<Rightarrow> string \<Rightarrow> dict option" where
  "drow d i = Option.bind (Option.bind (dget d ''detections'') as_obj) (\<lambda>t. Option.bind (dget t i) as_obj)"

text \<open>A row as the engine writes it, or an older build did (no list of triggers).\<close>

definition triggers_ok :: "json option \<Rightarrow> bool" where
  "triggers_ok v = (case v of None \<Rightarrow> True | Some (JArr xs) \<Rightarrow> length xs \<le> MAX_TRIGGER_EVENTS_TRACKED | _ \<Rightarrow> False)"

definition drow_ok :: "string \<Rightarrow> dict \<Rightarrow> bool" where
  "drow_ok i r \<longleftrightarrow> dget r ''id'' = Some (JStr i) \<and> triggers_ok (dget r ''trigger_event_ts'')
     \<and> as_pyint (dget_default r ''recurrence_count'' (JInt 1)) \<noteq> None
     \<and> as_str (or_else (dget_null r ''last_seen'') (JStr [])) \<noteq> None"

definition det_ok :: "dict \<Rightarrow> bool" where
  "det_ok d \<longleftrightarrow> store_shaped d \<and> (\<forall>i r. drow d i = Some r \<longrightarrow> drow_ok i r)"

definition KEPT_KEYS :: "string list" where
  "KEPT_KEYS = [''id'', ''rule_id'', ''severity'', ''user_id'', ''ip'', ''ts'', ''status'', ''status_by'', ''status_at'',
     ''previous_status'', ''title'']"

definition same_decision :: "dict \<Rightarrow> dict \<Rightarrow> bool" where
  "same_decision r r' \<longleftrightarrow> (\<forall>k \<in> set KEPT_KEYS. dget r' k = dget r k)"

definition progress :: "dict \<Rightarrow> dict \<Rightarrow> bool" where
  "progress d d' \<longleftrightarrow> (det_ok d \<longrightarrow> det_ok d'
     \<and> (\<forall>k. k \<noteq> ''detections'' \<and> k \<noteq> ''user_baselines'' \<longrightarrow> dget d' k = dget d k)
     \<and> (\<forall>i r. drow d i = Some r \<longrightarrow> (\<exists>r'. drow d' i = Some r' \<and> same_decision r r')))"

lemma progress_refl [simp]: "progress d d"
  by (simp add: progress_def same_decision_def)

lemma progressD:
  assumes "progress d d'" "det_ok d"
  shows "det_ok d'" "k \<noteq> ''detections'' \<Longrightarrow> k \<noteq> ''user_baselines'' \<Longrightarrow> dget d' k = dget d k"
    "drow d i = Some r \<Longrightarrow> \<exists>r'. drow d' i = Some r' \<and> same_decision r r'"
proof -
  note c = mp [OF assms(1) [unfolded progress_def] assms(2)]
  show "det_ok d'" by (rule conjunct1 [OF c])
  show "dget d' k = dget d k" if "k \<noteq> ''detections''" "k \<noteq> ''user_baselines''"
    by (rule mp [OF spec [OF conjunct1 [OF conjunct2 [OF c]]] conjI [OF that]])
  show "\<exists>r'. drow d' i = Some r' \<and> same_decision r r'" if "drow d i = Some r"
    by (rule mp [OF spec [OF spec [OF conjunct2 [OF conjunct2 [OF c]]]] that])
qed

lemma progressI:
  assumes "det_ok d \<Longrightarrow> det_ok d'"
    "\<And>k. det_ok d \<Longrightarrow> k \<noteq> ''detections'' \<Longrightarrow> k \<noteq> ''user_baselines'' \<Longrightarrow> dget d' k = dget d k"
    "\<And>i r. det_ok d \<Longrightarrow> drow d i = Some r \<Longrightarrow> \<exists>r'. drow d' i = Some r' \<and> same_decision r r'"
  shows "progress d d'"
  unfolding progress_def by (intro impI conjI allI; (elim conjE)?; rule assms; assumption)

lemma progress_trans:
  assumes "progress a b" "progress b c"
  shows "progress a c"
proof (rule progressI)
  assume a: "det_ok a"
  note b = progressD(1) [OF assms(1) a]
  show "det_ok c" by (rule progressD(1) [OF assms(2) b])
  show "dget c k = dget a k" if "k \<noteq> ''detections''" "k \<noteq> ''user_baselines''" for k
    using progressD(2) [OF assms(1) a that] progressD(2) [OF assms(2) b that] by (rule trans [rotated])
  show "\<exists>r'. drow c i = Some r' \<and> same_decision r r'" if "drow a i = Some r" for i r
    using progressD(3) [OF assms(1) a that] progressD(3) [OF assms(2) b] unfolding same_decision_def by metis
qed

lemma det_table:
  assumes "store_shaped d"
  obtains t where "dget d ''detections'' = Some (JObj t)" "rows_ok is_obj t"
    "\<And>i. drow d i = Option.bind (dget t i) as_obj"
  by (rule shaped_row_table [OF assms row_names(2)]) (auto simp: drow_def)

lemma progress_baselines:
  assumes "distinct_keys tab"
  shows "progress d (dset d ''user_baselines'' (JObj tab))"
proof -
  have "store_shaped d \<Longrightarrow> store_shaped (dset d ''user_baselines'' (JObj tab))"
    by (rule shaped_dset) (use assms in \<open>auto simp: field_ok_def ROW_TABLES_def PLAIN_TABLES_def is_obj_def\<close>)
  moreover have "drow (dset d ''user_baselines'' (JObj tab)) i = drow d i" for i by (simp add: drow_def dict_simps)
  ultimately show ?thesis by (auto simp: progress_def det_ok_def dict_simps same_decision_def)
qed

text \<open>One row put in place of nothing, or of a row with the same decision.\<close>

lemma progress_row:
  assumes t: "dget d ''detections'' = Some (JObj t)"
    and r: "distinct_keys r" "drow_ok i r" "\<And>r0. drow d i = Some r0 \<Longrightarrow> same_decision r0 r"
  shows "progress d (dset d ''detections'' (JObj (dset t i (JObj r))))"
proof (rule progressI)
  assume ok: "det_ok d"
  then have sh: "store_shaped d" by (simp add: det_ok_def)
  have rows: "rows_ok is_obj t"
    using det_table [OF sh] t by (metis json.inject(6) option.inject)
  have d: "drow (dset d ''detections'' (JObj (dset t i (JObj r)))) j = (if j = i then Some r else drow d j)" for j
    using t by (simp add: drow_def dict_simps)
  have "rows_ok is_obj (dset t i (JObj r))"
    using rows r(1) set_dset_subset [of i "JObj r" t] by (auto simp: rows_ok_def list_all_iff is_obj_def)
  then have "store_shaped (dset d ''detections'' (JObj (dset t i (JObj r))))"
    using sh by (intro shaped_dset) (auto simp: field_ok_def ROW_TABLES_def table_of_def)
  then show "det_ok (dset d ''detections'' (JObj (dset t i (JObj r))))"
    using ok r(2) by (auto simp: det_ok_def d)
  show "dget (dset d ''detections'' (JObj (dset t i (JObj r)))) k = dget d k"
    if "k \<noteq> ''detections''" "k \<noteq> ''user_baselines''" for k
    using that by (simp add: dict_simps)
  show "\<exists>r'. drow (dset d ''detections'' (JObj (dset t i (JObj r)))) j = Some r' \<and> same_decision r0 r'"
    if "drow d j = Some r0" for j r0
    using that r(3) by (cases "j = i") (auto simp: d same_decision_def)
qed

section \<open>Safe computations\<close>

definition safe :: "'a det \<Rightarrow> bool" where
  "safe m \<longleftrightarrow> (\<forall>s. progress (sd (dt_store s)) (sd (dt_store (fst (m s)))))"

lemma safeD: "safe m \<Longrightarrow> progress (sd (dt_store s)) (sd (dt_store (fst (m s))))"
  by (simp add: safe_def)

lemma safe_basic [safe_intros]: "safe (ret_d x)" "safe (pure_d r)" "safe (read_d f)" "safe save_d" "safe (query_d E q)"
  by (simp_all add: safe_def ret_d_def pure_d_def read_d_def save_d_def modify_d_def schedule_save_def query_d_def
      split: prod.splits)

lemma safe_bind [safe_intros]:
  assumes "safe m" "\<And>x. safe (f x)"
  shows "safe (bind_d m f)"
  unfolding safe_def
proof
  fix s
  obtain s1 r where m: "m s = (s1, r)" by fastforce
  have 1: "progress (sd (dt_store s)) (sd (dt_store s1))" using safeD [OF assms(1), of s] m by simp
  show "progress (sd (dt_store s)) (sd (dt_store (fst (bind_d m f s))))"
  proof (cases r)
    case (Inr x)
    then show ?thesis using progress_trans [OF 1 safeD [OF assms(2)]] m by (simp add: bind_d_def)
  qed (use 1 m in \<open>simp add: bind_d_def\<close>)
qed

lemma safe_each [safe_intros]: "(\<And>x. safe (f x)) \<Longrightarrow> safe (each_d f xs)"
  by (induction xs) (auto intro!: safe_intros)

lemma safe_cases [safe_intros]:
  "(b \<Longrightarrow> safe m) \<Longrightarrow> (\<not> b \<Longrightarrow> safe n) \<Longrightarrow> safe (if b then m else n)"
  "safe m0 \<Longrightarrow> (\<And>x. safe (mo x)) \<Longrightarrow> safe (case o' of None \<Rightarrow> m0 | Some x \<Rightarrow> mo x)"
  "(\<And>a b. safe (mp a b)) \<Longrightarrow> safe (case p of (a, b) \<Rightarrow> mp a b)"
  by (auto split: option.splits prod.splits)

lemma safe_on_baseline [safe_intros]: "safe (on_baseline u m)"
  unfolding safe_def
proof
  fix s :: det_state
  let ?d = "sd (dt_store s)"
  show "progress ?d (sd (dt_store (fst (on_baseline u m s))))"
  proof (cases "\<exists>tab b. dget ?d ''user_baselines'' = Some (JObj tab) \<and> dget_default tab u (JObj []) = JObj b")
    case True
    then obtain tab b where t: "dget ?d ''user_baselines'' = Some (JObj tab)" "dget_default tab u (JObj []) = JObj b" by blast
    obtain b' r where m: "m b = (b', r)" by fastforce
    have f: "sd (dt_store (fst (on_baseline u m s))) = dset ?d ''user_baselines'' (JObj (dset tab u (JObj b')))"
      using t m by (simp add: on_baseline_def Let_def item_def)
    show ?thesis
    proof (cases "store_shaped ?d")
      case True
      obtain tab' where "dget ?d ''user_baselines'' = Some (JObj tab')" "distinct_keys tab'"
        by (rule shaped_plain_table [OF True plain_names(2)])
      then show ?thesis unfolding f using t(1) by (intro progress_baselines) simp
    qed (simp add: progress_def det_ok_def)
  next
    case False
    have "sd (dt_store (fst (on_baseline u m s))) = ?d"
    proof (cases "bind_res (item ?d ''user_baselines'') (as_table AttributeError)")
      case (Inr tab)
      then have "dget ?d ''user_baselines'' = Some (JObj tab)" by (auto simp: bind_res_Inr item_Inr as_table_Inr)
      with False have "\<nexists>b. dget_default tab u (JObj []) = JObj b" by blast
      then have "\<exists>e. as_table AttributeError (dget_default tab u (JObj [])) = Inl e"
        by (cases "dget_default tab u (JObj [])") auto
      then show ?thesis using Inr by (auto simp: on_baseline_def Let_def)
    qed (simp add: on_baseline_def Let_def)
    then show ?thesis by simp
  qed
qed

section \<open>Writing a row\<close>

lemma dsetdefault_distinct: "distinct_keys d \<Longrightarrow> distinct_keys (dsetdefault d k v)"
  by simp

definition TRIGGER_KEYS :: "string list" where
  "TRIGGER_KEYS = [''trigger_event_ts'', ''recurrence_count'', ''last_seen'', ''detail'']"

definition trigger_value_ok :: "string \<Rightarrow> json \<Rightarrow> bool" where
  "trigger_value_ok k v \<longleftrightarrow>
     (if k = ''trigger_event_ts'' then triggers_ok (Some v)
      else if k = ''recurrence_count'' then as_pyint v \<noteq> None
      else if k = ''last_seen'' then as_str v \<noteq> None
      else True)"

definition still_ok :: "string \<Rightarrow> dict \<Rightarrow> dict \<Rightarrow> bool" where
  "still_ok i r q \<longleftrightarrow> distinct_keys q \<and> drow_ok i q \<and> same_decision r q"

lemma as_str_or: "as_str v \<noteq> None \<Longrightarrow> as_str (or_else v (JStr [])) \<noteq> None"
  by (simp add: or_else_def)

lemma still_ok_dset:
  assumes "still_ok i r q" "k \<in> set TRIGGER_KEYS" "trigger_value_ok k v"
  shows "still_ok i r (dset q k v)"
proof -
  have "dget (dset q k v) j = dget q j" if "j \<in> set KEPT_KEYS" for j
    using that assms(2) by (auto simp: TRIGGER_KEYS_def KEPT_KEYS_def dict_simps)
  then have j: "\<forall>j \<in> set KEPT_KEYS. dget (dset q k v) j = dget q j" by blast
  then have s: "same_decision r (dset q k v)" using assms(1) by (simp add: same_decision_def still_ok_def)
  have i: "dget (dset q k v) ''id'' = Some (JStr i)"
    using assms(1) j by (simp add: drow_ok_def still_ok_def KEPT_KEYS_def)
  have "k = ''trigger_event_ts'' \<or> k = ''recurrence_count'' \<or> k = ''last_seen'' \<or> k = ''detail''"
    using assms(2) by (simp add: TRIGGER_KEYS_def)
  then have "drow_ok i (dset q k v)"
    using assms(1,3) i as_str_or [of v]
    by (elim disjE) (simp_all add: drow_ok_def still_ok_def trigger_value_ok_def dict_simps)
  then show ?thesis using assms(1) s by (simp add: still_ok_def)
qed

lemma retrigger_kept:
  assumes "distinct_keys r" "drow_ok i r"
  shows "\<exists>r'. retrigger e det r = (r', Inr ()) \<and> still_ok i r r'"
proof -
  let ?T = "''trigger_event_ts''"
  have 0: "still_ok i r r" using assms by (simp add: still_ok_def same_decision_def)
  define r1 where "r1 = dsetdefault r ?T (JArr [or_else (dget_null r ''last_seen'') (dget_null r ''ts'')])"
  have 1: "still_ok i r r1" using still_ok_dset [OF 0, of ?T] 0
    by (simp add: r1_def dsetdefault_def TRIGGER_KEYS_def trigger_value_ok_def triggers_ok_def MAX_TRIGGER_EVENTS_TRACKED_def)
  have "dget r1 ?T \<noteq> None" unfolding r1_def dget_dsetdefault by simp
  then obtain ys where ys: "dget_null r1 ?T = JArr ys"
    using 1 by (auto simp: still_ok_def drow_ok_def triggers_ok_def dget_default_def split: json.splits)
  obtain n where n: "as_pyint (dget_default r1 ''recurrence_count'' (JInt 1)) = Some n"
    using 1 by (auto simp: still_ok_def drow_ok_def)
  obtain l where l: "or_else (dget_null r1 ''last_seen'') (JStr []) = JStr l"
    using 1 by (cases "or_else (dget_null r1 ''last_seen'') (JStr [])") (auto simp: still_ok_def drow_ok_def)
  show ?thesis
  proof (cases "JStr e \<in> set ys")
    case True
    then show ?thesis using 1 ys by (simp add: retrigger_def r1_def [symmetric] Let_def tracks_def)
  next
    case False
    let ?r2 = "dset r1 ?T (JArr (keep_newest MAX_TRIGGER_EVENTS_TRACKED (ys @ [JStr e])))"
    let ?r3 = "dset ?r2 ''recurrence_count'' (JInt (n + 1))"
    let ?r4 = "if l < e then dset ?r3 ''last_seen'' (JStr e) else ?r3"
    have "still_ok i r ?r2" by (rule still_ok_dset [OF 1]) (simp_all add: TRIGGER_KEYS_def trigger_value_ok_def triggers_ok_def)
    then have 3: "still_ok i r ?r3" by (rule still_ok_dset) (simp_all add: TRIGGER_KEYS_def trigger_value_ok_def)
    then have "still_ok i r ?r4"
      using still_ok_dset [OF 3, of "''last_seen''" "JStr e"] by (simp add: TRIGGER_KEYS_def trigger_value_ok_def)
    then have "still_ok i r (dset ?r4 ''detail'' (JObj det))"
      by (rule still_ok_dset) (simp_all add: TRIGGER_KEYS_def trigger_value_ok_def)
    then show ?thesis using False ys n l
      by (simp add: retrigger_def r1_def [symmetric] Let_def tracks_def dict_simps)
  qed
qed

lemma progress_if_ok: "(det_ok d \<Longrightarrow> progress d d') \<Longrightarrow> progress d d'"
  by (auto simp: progress_def)

lemma same_decision_refl [simp]: "same_decision r r"
  by (simp add: same_decision_def)

lemma new_row_ok: "distinct_keys (new_row E now did f)" "drow_ok did (new_row E now did f)"
  by (simp_all add: new_row_def drow_ok_def triggers_ok_def dget_default_def or_else_def truthy.simps MAX_TRIGGER_EVENTS_TRACKED_def)

text \<open>What the table operations make of the data.\<close>

lemma existing_rowD:
  assumes "existing_row did st = Inr o'" "dget (sd st) ''detections'' = Some (JObj t)"
  shows "case o' of None \<Rightarrow> entry t did = None \<and> drow (sd st) did = None | Some r \<Rightarrow> entry t did = Some (JObj r) \<and> drow (sd st) did = Some r"
  using assms by (auto simp: existing_row_def item_def drow_def entry_def as_table_Inr bind_res_Inr
      split: option.splits json.splits)

lemma put_row_eq:
  assumes "dget (sd st) ''detections'' = Some (JObj t)"
  shows "put_row did r st = Inr (st\<lparr>sd := dset (sd st) ''detections'' (JObj (dset t did (JObj r)))\<rparr>)"
  using assms by (simp add: put_row_def on_table_def item_def)

lemma upsert_row_eq:
  assumes "dget (sd st) ''detections'' = Some (JObj t)" "entry t did = None \<or> same"
  shows "async_upsert_detection same did r st
    = Inr (schedule_save (st\<lparr>sd := dset (sd st) ''detections'' (JObj (dset t did (JObj r)))\<rparr>))"
  using assms by (auto simp: async_upsert_detection_def then_save_def on_table_def item_def upsert_detection_in_def
      split: option.splits)

lemma put_progress:
  assumes "det_ok (sd st)" "dget (sd st) ''detections'' = Some (JObj t)" "still_ok did r r'" "entry t did = Some (JObj r)"
  shows "progress (sd st) (dset (sd st) ''detections'' (JObj (dset t did (JObj r'))))"
proof (rule progress_row [OF assms(2)])
  show "distinct_keys r'" "drow_ok did r'" using assms(3) by (simp_all add: still_ok_def)
  have "drow (sd st) did = Some r" using assms(2,4) by (simp add: drow_def entry_def split: option.splits json.splits)
  then show "same_decision r0 r'" if "drow (sd st) did = Some r0" for r0 using that assms(3) by (simp add: still_ok_def)
qed

lemma upsert_spec:
  assumes ok: "det_ok (sd (dt_store s))"
  shows "\<exists>s' r. upsert_detection E now f s = (s', Inr [r]) \<and> drow (sd (dt_store s')) (finding_id E f) = Some r
     \<and> dt_log s' = dt_log s \<and> dt_reads s' = dt_reads s \<and> progress (sd (dt_store s)) (sd (dt_store s'))"
proof -
  let ?st = "dt_store s" and ?did = "finding_id E f" and ?e = "de_iso E (fn_event f)"
  obtain t where t: "dget (sd ?st) ''detections'' = Some (JObj t)" "rows_ok is_obj t"
    using det_table ok unfolding det_ok_def by metis
  have "\<exists>o'. existing_row ?did ?st = Inr o'"
  proof (cases "entry t ?did")
    case (Some v)
    then have "is_obj v" using t(2) by (auto simp: rows_ok_def list_all_iff entry_def dest!: map_of_SomeD split: option.splits json.splits)
    then show ?thesis using Some t(1) by (cases v) (simp_all add: existing_row_def item_def is_obj_def)
  qed (use t(1) in \<open>simp add: existing_row_def item_def\<close>)
  then obtain o' where ex: "existing_row ?did ?st = Inr o'" by blast
  note e = existing_rowD [OF ex t(1)]
  show ?thesis
  proof (cases o')
    case None
    have "progress (sd ?st) (dset (sd ?st) ''detections'' (JObj (dset t ?did (JObj (new_row E now ?did f)))))"
      using e None by (intro progress_row [OF t(1)] new_row_ok) simp
    then show ?thesis using None ex e upsert_row_eq [OF t(1), of ?did False]
      by (simp add: upsert_detection_def Let_def bind_d_def read_d_def store_d_def ret_d_def schedule_save_def
          drow_def dict_simps)
  next
    case (Some r)
    have en: "entry t ?did = Some (JObj r)" "drow (sd ?st) ?did = Some r" using e Some by simp_all
    have "distinct_keys r" using t(2) en(1) by (auto simp: rows_ok_def list_all_iff is_obj_def entry_def dest!: map_of_SomeD
        split: option.splits json.splits)
    then obtain r' where r': "retrigger ?e (fn_detail f) r = (r', Inr ())" "still_ok ?did r r'"
      using retrigger_kept ok en(2) unfolding det_ok_def by metis
    let ?t1 = "dset t ?did (JObj r')" let ?st1 = "?st\<lparr>sd := dset (sd ?st) ''detections'' (JObj ?t1)\<rparr>"
    have p1: "progress (sd ?st) (sd ?st1)" using put_progress [OF ok t(1) r'(2) en(1)] by simp
    have t1: "dget (sd ?st1) ''detections'' = Some (JObj ?t1)" "entry ?t1 ?did = Some (JObj r')"
      by (simp_all add: dict_simps entry_def)
    have s1: "still_ok ?did r' r'" using r'(2) by (simp add: still_ok_def)
    have p2: "progress (sd ?st1) (dset (sd ?st1) ''detections'' (JObj (dset ?t1 ?did (JObj r'))))"
      by (rule put_progress [OF progressD(1) [OF p1 ok] t1(1) s1 t1(2)])
    have i: "detection_row_id r' = Inr ?did" using r'(2) by (simp add: still_ok_def drow_ok_def detection_row_id_def item_def)
    show ?thesis
      using Some ex r'(1) progress_trans [OF p1 p2] put_row_eq [OF t(1)] i upsert_row_eq [OF t1(1), of ?did True]
      by (simp add: upsert_detection_def Let_def bind_d_def read_d_def store_d_def pure_d_def ret_d_def schedule_save_def
          drow_def dict_simps)
  qed
qed

lemma safe_upsert [safe_intros]: "safe (upsert_detection E now f)"
  unfolding safe_def
proof (rule allI, rule progress_if_ok)
  fix s :: det_state
  assume "det_ok (sd (dt_store s))"
  from upsert_spec [OF this, of E now f] show "progress (sd (dt_store s)) (sd (dt_store (fst (upsert_detection E now f s))))"
    by (elim exE conjE) simp
qed

section \<open>Every rule is safe\<close>

lemma safe_once [safe_intros]: "safe (once_per_hour E now mk emitted evs)"
  by (induction evs arbitrary: emitted) (auto intro!: safe_intros simp: Let_def)

lemma safe_brute_force_ip [safe_intros]: "safe (rule_brute_force_ip E now)"
  unfolding rule_brute_force_ip_def brute_force_ip_def Let_def
  by (intro safe_intros)

lemma safe_success_after_failures [safe_intros]: "safe (rule_success_after_failures E now byid)"
  unfolding rule_success_after_failures_def success_event_def Let_def
  by (intro safe_intros)

lemma safe_dormant_revival [safe_intros]: "safe (rule_dormant_revival E now users)"
  unfolding rule_dormant_revival_def dormant_user_def Let_def
  by (intro safe_intros)

lemma safe_mass_entity_burst [safe_intros]: "safe (rule_mass_entity_burst E now byid)"
  unfolding rule_mass_entity_burst_def mass_entity_user_def Let_def
  by (intro safe_intros)

lemma safe_token_minting_anomaly [safe_intros]: "safe (rule_token_minting_anomaly E now byid)"
  unfolding rule_token_minting_anomaly_def token_minting_user_def Let_def
  by (intro safe_intros)

lemma safe_disabled_user_activity [safe_intros]: "safe (rule_disabled_user_activity E now users byid)"
  unfolding rule_disabled_user_activity_def disabled_category_def Let_def
  by (intro safe_intros)

lemma safe_probe_auth_rejected [safe_intros]: "safe (rule_probe_auth_rejected E now byid)"
  unfolding rule_probe_auth_rejected_def Let_def
  by (intro safe_intros)

lemma safe_external_audit_chain_break [safe_intros]: "safe (rule_external_audit_chain_break E now)"
  unfolding rule_external_audit_chain_break_def Let_def
  by (intro safe_intros)

lemma safe_new_ip_login [safe_intros]: "safe (rule_new_ip_login E now byid)"
  unfolding rule_new_ip_login_def new_ip_user_def flag_login_def Let_def
  by (intro safe_intros)

lemma safe_off_hours_anomaly [safe_intros]: "safe (rule_off_hours_anomaly E now users byid)"
  unfolding rule_off_hours_anomaly_def off_hours_user_def off_hours_hour_def Let_def
  by (intro safe_intros)

lemma safe_privilege_escalation [safe_intros]: "safe (rule_privilege_escalation E now users)"
  unfolding rule_privilege_escalation_def escalation_user_def find_privilege_escalation_actor_def Let_def
  by (intro safe_intros)

lemma safe_rules: "m \<in> set (detection_rules E now users byid) \<Longrightarrow> safe m"
  by (auto simp: detection_rules_def intro: safe_intros)

lemma safe_run_rules:
  assumes "\<forall>m \<in> set ms. safe m"
  shows "progress (sd (dt_store s)) (sd (dt_store (fst (run_rules ms s))))"
  using assms
proof (induction ms arbitrary: s)
  case (Cons m ms)
  obtain s1 x where m: "m s = (s1, x)" by fastforce
  have "progress (sd (dt_store s)) (sd (dt_store s1))" using safeD [of m s] Cons.prems m by simp
  moreover have "progress (sd (dt_store s1)) (sd (dt_store (fst (run_rules ms s1))))"
    using Cons.IH Cons.prems by simp
  ultimately show ?case using m by (auto split: prod.splits elim: progress_trans)
qed simp

end
