(* ===== verification/DetectionTheorems.thy ===== *)
theory DetectionTheorems
  imports DetectionProps AuditTheorems
begin

text \<open>
  What the detection engine guarantees. The sliding window finds exactly what a count over every
  window finds; the brute force rule, from the records the audit log accepted to the rows in the
  store, flags exactly the addresses with enough failures in one window; a pass always completes and
  keeps what analysts decided.
\<close>

declare dumps_with.simps [simp del]

declare wf_json.simps(3) [simp del]

section \<open>The sliding window\<close>

text \<open>How many of the times up to the \<open>e\<close>-th lie within the window that ends there.\<close>

definition up_to :: "int \<Rightarrow> int list \<Rightarrow> nat \<Rightarrow> nat" where
  "up_to w ts e = length (filter (\<lambda>t. ts ! e - t \<le> w) (take (Suc e) ts))"

definition ending_at :: "int \<Rightarrow> int \<Rightarrow> int list \<Rightarrow> nat" where
  "ending_at w a ts = length (filter (\<lambda>t. a - w \<le> t \<and> t \<le> a) ts)"

lemma advance_spec:
  assumes "e < length ts" "0 \<le> w" "start \<le> e"
  shows "\<exists>s. advance w ts (ts ! e) start = Inr s \<and> start \<le> s \<and> s \<le> e \<and> ts ! e - ts ! s \<le> w
     \<and> (\<forall>i. start \<le> i \<and> i < s \<longrightarrow> w < ts ! e - ts ! i)"
  using assms(3)
proof (induction "e - start" arbitrary: start)
  case 0
  then have "start = e" by simp
  then show ?case using assms(1,2) by (subst advance.simps) auto
next
  case (Suc d)
  show ?case
  proof (cases "w < ts ! e - ts ! start")
    case True
    from Suc.hyps(2) have "d = e - Suc start" "Suc start \<le> e" by simp_all
    from Suc.hyps(1) [OF this] obtain s where s: "advance w ts (ts ! e) (Suc start) = Inr s" "Suc start \<le> s" "s \<le> e"
      "ts ! e - ts ! s \<le> w" "\<forall>i. Suc start \<le> i \<and> i < s \<longrightarrow> w < ts ! e - ts ! i" by blast
    have "w < ts ! e - ts ! i" if "start \<le> i" "i < s" for i
      using that True s(5) by (cases "i = start") auto
    then show ?thesis using s True Suc.prems assms(1) by (subst advance.simps) (auto intro!: exI [of _ s])
  qed (use Suc.prems assms(1) in \<open>subst advance.simps, auto\<close>)
qed

lemma up_to_window:
  assumes "sorted ts" "e < length ts" "s \<le> e" "ts ! e - ts ! s \<le> w" "\<forall>i < s. w < ts ! e - ts ! i"
  shows "int (up_to w ts e) = window_count s e"
proof -
  have "take (Suc e) ts = take s ts @ slice s e ts"
    using assms(3) append_take_drop_id [of s "take (Suc e) ts"] by (simp add: slice_def min_def)
  moreover have "filter (\<lambda>t. ts ! e - t \<le> w) (take s ts) = []"
  proof -
    have "\<not> ts ! e - t \<le> w" if "t \<in> set (take s ts)" for t
    proof -
      from that obtain i where "i < s" "t = ts ! i" by (auto simp: in_set_conv_nth)
      then show ?thesis using assms(5) by auto
    qed
    then show ?thesis by (simp add: filter_empty_conv)
  qed
  moreover have "filter (\<lambda>t. ts ! e - t \<le> w) (slice s e ts) = slice s e ts"
  proof (rule filter_True, rule ballI)
    fix t assume "t \<in> set (slice s e ts)"
    then obtain i where "s \<le> i" "i < length ts" "t = ts ! i"
      by (auto simp: slice_def in_set_conv_nth) (metis add.commute less_diff_conv le_add1 less_imp_le_nat min_less_iff_conj)
    then have "ts ! s \<le> t" using assms(1) by (simp add: sorted_nth_mono)
    then show "ts ! e - t \<le> w" using assms(4) by linarith
  qed
  ultimately have "filter (\<lambda>t. ts ! e - t \<le> w) (take (Suc e) ts) = slice s e ts" by simp
  then show ?thesis using assms(2,3) by (simp add: up_to_def slice_def window_count_def)
qed

lemma first_burst_spec:
  assumes "sorted ts" "0 \<le> w" "\<And>s e. hit s e = Inr (P (window_count s e))"
    "start \<le> k" "\<forall>i < start. \<forall>e. k \<le> e \<and> e < length ts \<longrightarrow> w < ts ! e - ts ! i"
  shows "\<exists>b. first_burst w ts hit start [k..<length ts] = Inr b
     \<and> map_option snd b = find (\<lambda>e. P (int (up_to w ts e))) [k..<length ts]
     \<and> (\<forall>s e. b = Some (s, e) \<longrightarrow> window_count s e = int (up_to w ts e))"
  using assms(4,5)
proof (induction "length ts - k" arbitrary: k start)
  case (Suc d)
  then have k: "k < length ts" by simp
  then have l: "[k..<length ts] = k # [Suc k..<length ts]" by (simp add: upt_conv_Cons)
  obtain s where s: "advance w ts (ts ! k) start = Inr s" "start \<le> s" "s \<le> k" "ts ! k - ts ! s \<le> w"
      "\<forall>i. start \<le> i \<and> i < s \<longrightarrow> w < ts ! k - ts ! i"
    using advance_spec [OF k assms(2) Suc.prems(1)] by blast
  have far: "\<forall>i < s. w < ts ! k - ts ! i" using s(5) Suc.prems(2) k by (metis leI order_refl)
  note c = up_to_window [OF assms(1) k s(3,4) far]
  show ?case
  proof (cases "P (window_count s k)")
    case True
    then show ?thesis using l s(1) c assms(3) by simp
  next
    case False
    have "w < ts ! e - ts ! i" if "i < s" "Suc k \<le> e" "e < length ts" for i e
      using far that assms(1) k sorted_nth_mono [of ts k e] by (smt (verit) Suc_leD)
    then have "\<exists>b. first_burst w ts hit s [Suc k..<length ts] = Inr b
       \<and> map_option snd b = find (\<lambda>e. P (int (up_to w ts e))) [Suc k..<length ts]
       \<and> (\<forall>s e. b = Some (s, e) \<longrightarrow> window_count s e = int (up_to w ts e))"
      using Suc.hyps(2) s(3) by (intro Suc.hyps(1)) auto
    then show ?thesis using l s(1) c False assms(3) by simp
  qed
qed (auto simp: not_less)

lemma sorted_below: "sorted ts \<Longrightarrow> filter (\<lambda>t. t \<le> a) ts = take (length (filter (\<lambda>t. t \<le> a) ts)) (ts :: int list)"
proof (induction ts)
  case (Cons x ts)
  show ?case
  proof (cases "x \<le> a")
    case False
    then have "filter (\<lambda>t. t \<le> a) ts = []" using Cons.prems by (auto simp: filter_empty_conv)
    then show ?thesis using False by simp
  qed (use Cons in simp)
qed simp

lemma filter_take_le: "length (filter P (take k xs)) \<le> length (filter P xs)"
proof -
  have "filter P xs = filter P (take k xs) @ filter P (drop k xs)" by (simp flip: filter_append)
  then show ?thesis by simp
qed

lemma up_to_le:
  assumes "sorted ts" "e < length ts"
  shows "up_to w ts e \<le> ending_at w (ts ! e) ts"
proof -
  have "t \<le> ts ! e" if "t \<in> set (take (Suc e) ts)" for t
  proof -
    from that obtain i where "i \<le> e" "t = ts ! i" by (auto simp: in_set_conv_nth less_Suc_eq_le)
    then show ?thesis using assms by (simp add: sorted_nth_mono)
  qed
  then have "filter (\<lambda>t. ts ! e - t \<le> w) (take (Suc e) ts) = filter (\<lambda>t. ts ! e - w \<le> t \<and> t \<le> ts ! e) (take (Suc e) ts)"
    by (intro filter_cong) auto
  then show ?thesis
    using filter_take_le [of _ "Suc e" ts] by (simp add: up_to_def ending_at_def)
qed

lemma up_to_ending_at:
  fixes n :: rat
  assumes "sorted ts" "0 \<le> w"
  shows "(\<exists>e < length ts. n \<le> of_nat (up_to w ts e)) \<longleftrightarrow> (\<exists>a \<in> set ts. n \<le> of_nat (ending_at w a ts))"
proof
  assume "\<exists>e < length ts. n \<le> of_nat (up_to w ts e)"
  then obtain e where e: "e < length ts" "n \<le> of_nat (up_to w ts e)" by blast
  have le: "up_to w ts e \<le> ending_at w (ts ! e) ts" by (rule up_to_le [OF assms(1) e(1)])
  have "(of_nat (up_to w ts e) :: rat) \<le> of_nat (ending_at w (ts ! e) ts)" using le by simp
  with e(2) have "n \<le> of_nat (ending_at w (ts ! e) ts)" by (rule order_trans)
  then show "\<exists>a \<in> set ts. n \<le> of_nat (ending_at w a ts)"
    using e(1) by (intro bexI [of _ "ts ! e"]) simp_all
next
  assume "\<exists>a \<in> set ts. n \<le> of_nat (ending_at w a ts)"
  then obtain a where a: "a \<in> set ts" "n \<le> of_nat (ending_at w a ts)" by blast
  let ?b = "filter (\<lambda>t. t \<le> a) ts"
  have b: "?b \<noteq> []" using a(1) by (auto simp: filter_empty_conv)
  let ?e = "length ?b - 1"
  have le: "length ?b \<le> length ts" by (rule length_filter_le)
  then have e: "?e < length ts" "Suc ?e = length ?b" using b by (cases ?b; simp)+
  have t: "take (Suc ?e) ts = ?b" using sorted_below [OF assms(1), of a] e(2) by simp
  have "ts ! ?e = a"
  proof (rule antisym)
    have "ts ! ?e \<in> set (take (Suc ?e) ts)" using e(1) by (simp only: take_Suc_conv_app_nth) simp
    then show "ts ! ?e \<le> a" unfolding t by simp
    have "a \<in> set (take (Suc ?e) ts)" unfolding t using a(1) by simp
    then obtain i where "i \<le> ?e" "ts ! i = a" by (auto simp: in_set_conv_nth less_Suc_eq_le)
    then show "a \<le> ts ! ?e" using assms(1) e(1) sorted_nth_mono [of ts i ?e] by simp
  qed
  moreover have "filter (\<lambda>t. a - t \<le> w) ?b = filter (\<lambda>t. a - w \<le> t \<and> t \<le> a) ts"
    by (auto simp: filter_filter intro!: filter_cong)
  ultimately have "up_to w ts ?e = ending_at w a ts" unfolding up_to_def t by (simp add: ending_at_def)
  then show "\<exists>e < length ts. n \<le> of_nat (up_to w ts e)" using a(2) e(1) by (intro exI [of _ ?e]) simp
qed

lemma ending_at_sort: "ending_at w a (sort ts) = ending_at w a ts"
  by (simp add: ending_at_def filter_sort)

text \<open>
  C38. The window scan ends and is exact: for sorted times and a window that is not negative, the inner loop
  stops at the end of the window at the latest, so the scan never leaves the list, and what it finds is the
  first time at which the count of the window that ends there satisfies the trigger.
\<close>

theorem scan_is_exact:
  assumes "sorted ts" "0 \<le> w"
  shows "\<exists>b. first_burst w ts (\<lambda>s e. Inr (P (window_count s e))) 0 [0..<length ts] = Inr b
     \<and> map_option snd b = find (\<lambda>e. P (int (up_to w ts e))) [0..<length ts]
     \<and> (\<forall>e < length ts. \<exists>s \<le> e. advance w ts (ts ! e) 0 = Inr s)"
proof -
  have "\<exists>s \<le> e. advance w ts (ts ! e) 0 = Inr s" if "e < length ts" for e
    using advance_spec [OF that assms(2), of 0] by auto
  then show ?thesis
    using first_burst_spec [of ts w "\<lambda>s e. Inr (P (window_count s e))" P 0 0] assms by auto
qed

theorem scan_is_exact_witness:
  "\<exists>b. first_burst 10 [0, 5, 30, 33, 36] (\<lambda>s e. Inr (3 \<le> window_count s e)) 0 [0..<length [0, 5, 30, 33, 36::int]] = Inr b
     \<and> map_option snd b = find (\<lambda>e. 3 \<le> int (up_to 10 [0, 5, 30, 33, 36] e)) [0..<length [0, 5, 30, 33, 36::int]]
     \<and> (\<forall>e < length [0, 5, 30, 33, 36::int]. \<exists>s \<le> e. advance 10 [0, 5, 30, 33, 36] ([0, 5, 30, 33, 36] ! e) 0 = Inr s)"
  by (rule scan_is_exact) simp_all

section \<open>Records of one address\<close>

definition or_nil :: "'a list option \<Rightarrow> 'a list" where
  "or_nil x = (case x of None \<Rightarrow> [] | Some xs \<Rightarrow> xs)"

definition event_times :: "(dict \<Rightarrow> int) \<Rightarrow> string \<Rightarrow> string \<Rightarrow> dict list \<Rightarrow> int list" where
  "event_times T k i evs = map T (filter (\<lambda>ev. text_field ev k = Some i) evs)"

definition no_empty :: "('k \<times> 'v list) list \<Rightarrow> bool" where
  "no_empty d \<longleftrightarrow> list_all (\<lambda>p. snd p \<noteq> []) d"

lemma push_spec:
  assumes "distinct_keys d" "no_empty d"
  shows "distinct_keys (push k v d)" "no_empty (push k v d)"
    "or_nil (dget (push k v d) j) = or_nil (dget d j) @ (if j = k then [v] else [])"
proof -
  show "distinct_keys (push k v d)" using assms(1) by (simp add: push_def)
  have "\<forall>p \<in> set (push k v d). snd p \<noteq> []"
    using assms(2) set_dset_subset [of k "case dget d k of None \<Rightarrow> [v] | Some vs \<Rightarrow> vs @ [v]" d]
    by (auto simp: push_def no_empty_def list_all_iff split: option.splits)
  then show "no_empty (push k v d)" by (simp add: no_empty_def list_all_iff)
  show "or_nil (dget (push k v d) j) = or_nil (dget d j) @ (if j = k then [v] else [])"
    by (simp add: push_def or_nil_def dict_simps split: option.splits)
qed

lemma group_times_spec:
  assumes "\<forall>ev \<in> set evs. ev_time E ev = Inr (Some (T ev))" "distinct_keys d" "no_empty d"
  shows "\<exists>d'. group_times E k evs d = Inr d' \<and> distinct_keys d' \<and> no_empty d'
     \<and> (\<forall>i. or_nil (dget d' i) = or_nil (dget d i) @ event_times T k i evs)"
  using assms
proof (induction evs arbitrary: d)
  case (Cons ev evs)
  show ?case
  proof (cases "text_field ev k")
    case None
    then show ?thesis using Cons by (simp add: event_times_def)
  next
    case (Some i)
    note p = push_spec [OF Cons.prems(2,3), of i "T ev"]
    from Cons.IH [OF _ p(1,2)] Cons.prems(1) obtain d' where "group_times E k evs (push i (T ev) d) = Inr d'"
      "distinct_keys d'" "no_empty d'" "\<forall>j. or_nil (dget d' j) = or_nil (dget (push i (T ev) d) j) @ event_times T k j evs" by auto
    then show ?thesis using Some Cons.prems(1) p(3) by (simp add: event_times_def)
  qed
qed (simp add: event_times_def)

lemma grouped:
  assumes "distinct_keys d" "no_empty d"
  shows "(i, ts) \<in> set d \<longleftrightarrow> ts \<noteq> [] \<and> or_nil (dget d i) = ts"
proof
  assume "(i, ts) \<in> set d"
  then show "ts \<noteq> [] \<and> or_nil (dget d i) = ts" using assms by (auto simp: no_empty_def list_all_iff or_nil_def)
next
  assume "ts \<noteq> [] \<and> or_nil (dget d i) = ts"
  then have "dget d i = Some ts" by (auto simp: or_nil_def split: option.splits)
  then show "(i, ts) \<in> set d" by (rule map_of_SomeD)
qed

section \<open>Rows of a rule\<close>

lemma set_map_filter: "y \<in> set (List.map_filter g xs) \<longleftrightarrow> (\<exists>x \<in> set xs. g x = Some y)"
  by (induction xs) (auto simp: List.map_filter_def split: option.splits)

lemma each_upserts:
  assumes "\<forall>x \<in> set xs. g x = (case fd x of None \<Rightarrow> ret_d [] | Some f \<Rightarrow> upsert_detection E now f)"
    "det_ok (sd (dt_store s))"
  shows "\<exists>s' rows. each_d g xs s = (s', Inr rows)
     \<and> map (\<lambda>r. dget r ''id'') rows = map (\<lambda>f. Some (JStr (finding_id E f))) (List.map_filter fd xs)
     \<and> (\<forall>f \<in> set (List.map_filter fd xs). drow (sd (dt_store s')) (finding_id E f) \<noteq> None)
     \<and> progress (sd (dt_store s)) (sd (dt_store s'))"
  using assms
proof (induction xs arbitrary: s)
  case Nil
  then show ?case by (simp add: ret_d_def List.map_filter_def)
next
  case (Cons x xs)
  show ?case
  proof (cases "fd x")
    case None
    then have "each_d g (x # xs) s = bind_d (each_d g xs) (\<lambda>zs. ret_d zs) s"
      using Cons.prems(1) by (simp add: bind_d_def ret_d_def split: prod.split sum.split)
    then show ?thesis using Cons.IH [OF _ Cons.prems(2)] Cons.prems(1) None
      by (auto simp: bind_d_def ret_d_def List.map_filter_def)
  next
    case (Some f)
    obtain s1 r where u: "upsert_detection E now f s = (s1, Inr [r])" "drow (sd (dt_store s1)) (finding_id E f) = Some r"
      "progress (sd (dt_store s)) (sd (dt_store s1))" using upsert_spec [OF Cons.prems(2)] by blast
    have ok: "det_ok (sd (dt_store s1))" by (rule progressD(1) [OF u(3) Cons.prems(2)])
    obtain s' rows where i: "each_d g xs s1 = (s', Inr rows)"
      "map (\<lambda>r. dget r ''id'') rows = map (\<lambda>f. Some (JStr (finding_id E f))) (List.map_filter fd xs)"
      "\<forall>f \<in> set (List.map_filter fd xs). drow (sd (dt_store s')) (finding_id E f) \<noteq> None"
      "progress (sd (dt_store s1)) (sd (dt_store s'))" using Cons.IH [OF _ ok] Cons.prems(1) by auto
    have "dget r ''id'' = Some (JStr (finding_id E f))" using ok u(2) by (simp add: det_ok_def drow_ok_def)
    moreover have "drow (sd (dt_store s')) (finding_id E f) \<noteq> None" using progressD(3) [OF i(4) ok u(2)] by auto
    moreover have "each_d g (x # xs) s = (s', Inr (r # rows))"
      using Some Cons.prems(1) u(1) i(1) by (simp add: bind_d_def ret_d_def)
    ultimately show ?thesis using i progress_trans [OF u(3) i(4)] Some by (simp add: List.map_filter_def)
  qed
qed

section \<open>Brute force\<close>

definition brute_force_flag :: "det_env \<Rightarrow> dict \<Rightarrow> rat \<Rightarrow> int \<Rightarrow> string \<times> int list \<Rightarrow> det_finding option" where
  "brute_force_flag E th n w p =
     (let ts = sort (snd p)
      in case first_burst w ts (\<lambda>s e. Inr (n \<le> of_int (window_count s e))) 0 [0..<length ts] of
           Inr (Some (s, e)) \<Rightarrow> Some (brute_force_finding E th (fst p) ts s e) | _ \<Rightarrow> None)"

lemma brute_force_ip_flag:
  assumes "threshold_num th ''failures'' = Inr n" "0 \<le> w"
  shows "brute_force_ip E now th w p
    = (case brute_force_flag E th n w p of None \<Rightarrow> ret_d [] | Some f \<Rightarrow> upsert_detection E now f)"
    "brute_force_flag E th n w p \<noteq> None \<longleftrightarrow> (\<exists>a \<in> set (snd p). n \<le> of_nat (ending_at w a (snd p)))"
    "brute_force_flag E th n w p = Some f \<Longrightarrow> fn_rule f = RULE_BRUTE_FORCE_IP \<and> fn_subject f = fst p
       \<and> fn_event f \<in> set (snd p) \<and> fn_bucket f = hour_bucket E (fn_event f)
       \<and> n \<le> of_nat (ending_at w (fn_event f) (snd p))"
proof -
  let ?ts = "sort (snd p)" and ?hit = "\<lambda>s e. (Inr (n \<le> of_int (window_count s e)) :: bool res)"
  have h: "(\<lambda>s e. reaches th ''failures'' (window_count s e)) = ?hit" using assms(1) by (simp add: reaches_def)
  obtain b where b: "first_burst w ?ts ?hit 0 [0..<length ?ts] = Inr b"
    "map_option snd b = find (\<lambda>e. n \<le> of_int (int (up_to w ?ts e))) [0..<length ?ts]"
    using first_burst_spec [of ?ts w ?hit "\<lambda>c. n \<le> of_int c" 0 0] assms(2) by auto
  show "brute_force_ip E now th w p
    = (case brute_force_flag E th n w p of None \<Rightarrow> ret_d [] | Some f \<Rightarrow> upsert_detection E now f)"
    using b(1) by (cases p; cases b) (auto simp: brute_force_ip_def brute_force_flag_def Let_def h fun_eq_iff bind_d_def pure_d_def)
  have nf: "brute_force_flag E th n w p = map_option (\<lambda>(s, e). brute_force_finding E th (fst p) ?ts s e) b"
    using b(1) by (cases b) (auto simp: brute_force_flag_def Let_def)
  have "b \<noteq> None \<longleftrightarrow> find (\<lambda>e. n \<le> of_nat (up_to w ?ts e)) [0..<length ?ts] \<noteq> None"
  proof -
    have "map_option snd b = find (\<lambda>e. n \<le> of_nat (up_to w ?ts e)) [0..<length ?ts]" using b(2) by (simp only: of_int_of_nat_eq)
    then show ?thesis by (metis option.map_disc_iff)
  qed
  also have "\<dots> \<longleftrightarrow> (\<exists>e < length ?ts. n \<le> of_nat (up_to w ?ts e))" by (auto simp: find_None_iff)
  also have "\<dots> \<longleftrightarrow> (\<exists>a \<in> set ?ts. n \<le> of_nat (ending_at w a ?ts))" using assms(2) by (intro up_to_ending_at) simp_all
  finally show "brute_force_flag E th n w p \<noteq> None \<longleftrightarrow> (\<exists>a \<in> set (snd p). n \<le> of_nat (ending_at w a (snd p)))"
    unfolding nf by (simp add: ending_at_sort)
  show "fn_rule f = RULE_BRUTE_FORCE_IP \<and> fn_subject f = fst p
       \<and> fn_event f \<in> set (snd p) \<and> fn_bucket f = hour_bucket E (fn_event f)
       \<and> n \<le> of_nat (ending_at w (fn_event f) (snd p))" if f: "brute_force_flag E th n w p = Some f"
  proof -
    from f nf obtain s e where se: "b = Some (s, e)" "f = brute_force_finding E th (fst p) ?ts s e" by auto
    then have fnd: "find (\<lambda>e. n \<le> of_nat (up_to w ?ts e)) [0..<length ?ts] = Some e" using b(2) by simp
    then have e: "e < length ?ts" "n \<le> of_nat (up_to w ?ts e)" by (auto simp: find_Some_iff)
    have "(of_nat (up_to w ?ts e) :: rat) \<le> of_nat (ending_at w (?ts ! e) ?ts)"
      using up_to_le [OF _ e(1)] by simp
    then have "n \<le> of_nat (ending_at w (?ts ! e) (snd p))" using e(2) unfolding ending_at_sort by (rule order_trans [rotated])
    moreover have "?ts ! e \<in> set (snd p)" using e(1) nth_mem [of e ?ts] by simp
    ultimately show ?thesis using se(2) by (simp add: brute_force_finding_def)
  qed
qed

section \<open>From the log to the rows\<close>

definition body_time :: "(string \<Rightarrow> moment option) \<Rightarrow> dict \<Rightarrow> int" where
  "body_time parse b = (case rec_time parse b of Inr (Some (Aware t)) \<Rightarrow> t | _ \<Rightarrow> 0)"

text \<open>The times of the failed logins of one address in the window of the query.\<close>

definition fail_times :: "det_env \<Rightarrow> int \<Rightarrow> int \<Rightarrow> string \<Rightarrow> dict list \<Rightarrow> int list" where
  "fail_times E since until ip bs =
     event_times (body_time (de_parse E)) ''ip'' ip
       (filter (in_answer (de_parse E) (category_query since ''login_fail'' 10000) since until) bs)"

lemma text_field_stored: "wf_dict r \<Longrightarrow> text_field (stored r) k = text_field r k"
proof -
  assume w: "wf_dict r"
  have c: "(case canon True v of JStr t \<Rightarrow> if t = [] then None else Some t | _ \<Rightarrow> None)
    = (case v of JStr t \<Rightarrow> if t = [] then None else Some t | _ \<Rightarrow> None)" for v by (cases v) auto
  show ?thesis using w c by (cases "dget r k") (simp_all add: text_field_def dget_default_def dget_stored)
qed

lemma aware_case: "(case x of Inr (Some (Aware t)) \<Rightarrow> P t | _ \<Rightarrow> False) \<longleftrightarrow> (\<exists>t. x = Inr (Some (Aware t)) \<and> P t)"
proof (cases x)
  case (Inr y)
  then show ?thesis
  proof (cases y)
    case (Some z)
    then show ?thesis using Inr by (cases z) simp_all
  qed simp
qed simp

lemma answer_event:
  assumes "x = r \<or> x = stored r" "wf_dict r" "in_answer (de_parse E) q since until r" "de_parse E [] = None"
  shows "ev_time E x = Inr (Some (body_time (de_parse E) r)) \<and> text_field x k = text_field r k"
proof -
  obtain m where "rec_time (de_parse E) r = Inr (Some (Aware m))"
    using assms(3) unfolding in_answer_def aware_case by blast
  then obtain t where t: "dget r ''ts'' = Some (JStr t)" "de_parse E t = Some (Aware m)"
    using assms(4) by (auto simp: rec_time_def split: option.splits json.splits)
  then have "t \<noteq> []" using assms(4) by auto
  moreover have "dget x ''ts'' = Some (JStr t)" using assms(1,2) t(1) by (auto simp: dget_stored)
  ultimately have "ev_time E x = Inr (Some m)" using t(2) by (simp add: ev_time_def Let_def dget_default_def)
  moreover have "body_time (de_parse E) r = m" using t by (simp add: body_time_def rec_time_def)
  ultimately show ?thesis using assms(1,2) text_field_stored by auto
qed

lemma event_times_rel:
  assumes "list_all2 (\<lambda>x r. x = r \<or> x = stored r) xs rs"
    "\<forall>r \<in> set rs. wf_dict r \<and> in_answer (de_parse E) q since until r" "de_parse E [] = None"
  shows "(\<forall>x \<in> set xs. ev_time E x = Inr (Some (the (projr (ev_time E x)))))
     \<and> event_times (\<lambda>x. the (projr (ev_time E x))) k i xs = event_times (body_time (de_parse E)) k i rs"
  using assms(1,2)
proof (induction rule: list_all2_induct)
  case (Cons x xs r rs)
  then have "ev_time E x = Inr (Some (body_time (de_parse E) r)) \<and> text_field x k = text_field r k"
    using assms(3) by (intro answer_event [where q = q and since = since and until = until]) simp_all
  then show ?case using Cons by (simp add: event_times_def)
qed (simp add: event_times_def)

lemma event_times_unseal:
  "event_times (body_time parse) ''ip'' i (filter (in_answer parse q since until) (rev (map unseal rs)))
     = event_times (body_time parse) ''ip'' i (filter (in_answer parse q since until) (rev rs))"
proof -
  have "text_field (unseal r) ''ip'' = text_field r ''ip''" for r by (simp add: text_field_def dget_default_def get_unseal)
  moreover have "body_time parse (unseal r) = body_time parse r" for r by (simp add: body_time_def rec_time_def get_unseal)
  ultimately show ?thesis
    by (simp add: event_times_def rev_map filter_map comp_def unseal_query)
qed

lemma ending_at_rev: "ending_at w a (rev ts) = ending_at w a ts"
  by (simp add: ending_at_def rev_filter [symmetric])

lemma fail_times_rev: "fail_times E since until ip (rev bs) = rev (fail_times E since until ip bs)"
  by (simp add: fail_times_def event_times_def rev_filter [symmetric] rev_map)

lemma filter_drop_le: "length (filter P (drop k xs)) \<le> length (filter P xs)"
proof -
  have "filter P xs = filter P (take k xs) @ filter P (drop k xs)" by (simp flip: filter_append)
  then show ?thesis by simp
qed

text \<open>The failed logins that the rule's query brings, grouped by address.\<close>

lemma brute_force_events:
  assumes "reachable (de_hash E) cfg (dt_log s)" "hexdigest_like (de_hash E)"
    "\<forall>b \<in> set (sy_accepted (dt_log s)). utc_stamped (de_parse E) b" "de_parse E [] = None"
    "length (filter (in_answer (de_parse E) (category_query since ''login_fail'' 10000) since (de_clock E (dt_reads s)))
       (sy_accepted (dt_log s))) \<le> 10000"
  shows "\<exists>ex segs gone s1 out d. holds (d_files (sy_disk (dt_log s))) segs
     \<and> sy_accepted (dt_log s) = map unseal (ex @ seg_records segs) @ waiting (dt_log s) \<and> gone \<le> length ex
     \<and> query_d E (category_query since ''login_fail'' 10000) s = (s1, Inr out) \<and> dt_store s1 = dt_store s
     \<and> group_times E ''ip'' out [] = Inr d \<and> distinct_keys d \<and> no_empty d
     \<and> (\<forall>ip. or_nil (dget d ip)
          = rev (fail_times E since (de_clock E (dt_reads s)) ip (drop gone (sy_accepted (dt_log s)))))"
proof -
  let ?q = "category_query since ''login_fail'' 10000" and ?now = "de_clock E (dt_reads s)" and ?l = "dt_log s"
  let ?P = "in_answer (de_parse E) ?q since ?now"
  have q: "query_window ?now ?q = Inr ((since, 0), ?now)" "(0::int) \<le> 0" "0 < aq_limit ?q"
    by (simp_all add: query_window_def category_query_def)
  obtain ex segs gone rs out where r: "holds (d_files (sy_disk ?l)) segs"
      "sy_accepted ?l = map unseal (ex @ seg_records segs) @ waiting ?l" "gone \<le> length ex"
      "snd (async_query (de_hash E) (de_parse E) ?now ?q ?l) = Inr out" "map unseal rs = drop gone (sy_accepted ?l)"
      "list_all wf_dict rs" "list_all2 (\<lambda>x r. x = r \<or> x = stored r) out (take (nat (aq_limit ?q)) (filter ?P (rev rs)))"
    using query_reachable [OF assms(1-3) q] by blast
  have "length (filter ?P (rev rs)) = length (filter ?P (map unseal rs))"
    by (simp add: rev_filter [symmetric] filter_map comp_def unseal_query)
  also have "\<dots> \<le> 10000" unfolding r(5) using filter_drop_le assms(5) by (rule order_trans)
  finally have all: "list_all2 (\<lambda>x r. x = r \<or> x = stored r) out (filter ?P (rev rs))"
    using r(7) by (simp add: category_query_def)
  have w: "\<forall>r \<in> set (filter ?P (rev rs)). wf_dict r \<and> ?P r" using r(6) by (auto simp: list_all_iff)
  note t = event_times_rel [OF all w assms(4)]
  obtain l where "async_query (de_hash E) (de_parse E) ?now ?q ?l = (l, Inr out)"
    using r(4) by (metis prod.collapse)
  then obtain s1 where s1: "query_d E ?q s = (s1, Inr out)" "dt_store s1 = dt_store s"
    by (simp add: query_d_def)
  obtain d where d: "group_times E ''ip'' out [] = Inr d" "distinct_keys d" "no_empty d"
      "\<forall>i. or_nil (dget d i) = or_nil (dget [] i) @ event_times (\<lambda>x. the (projr (ev_time E x))) ''ip'' i out"
    using group_times_spec [of out E "\<lambda>x. the (projr (ev_time E x))" "[]" "''ip''"] t by (auto simp: no_empty_def)
  have "or_nil (dget d ip) = rev (fail_times E since ?now ip (drop gone (sy_accepted ?l)))" for ip
  proof -
    have "or_nil (dget d ip) = event_times (body_time (de_parse E)) ''ip'' ip (filter ?P (rev rs))"
      using d(4) t by (simp add: or_nil_def)
    also have "\<dots> = fail_times E since ?now ip (rev (map unseal rs))" by (simp only: fail_times_def event_times_unseal)
    finally show ?thesis by (simp only: r(5) fail_times_rev)
  qed
  with r(1-3) s1 d(1-3) show ?thesis by blast
qed

text \<open>
  C36. The brute force rule is exact, from the log to the store: of the failed logins of the last seven
  days that the audit log accepted (but for what retention has expired), an address is flagged exactly if
  some window of the configured length holds at least the configured number of its failures, and each
  flagged address has its row in the store.
\<close>

theorem brute_force_exact:
  assumes "reachable (de_hash E) cfg (dt_log s)" "hexdigest_like (de_hash E)"
    "\<forall>b \<in> set (sy_accepted (dt_log s)). utc_stamped (de_parse E) b" "de_parse E [] = None"
    "length (filter (in_answer (de_parse E) (category_query (now - 7 * us_day) ''login_fail'' 10000) (now - 7 * us_day)
       (de_clock E (dt_reads s))) (sy_accepted (dt_log s))) \<le> 10000"
    "min_moment \<le> now - 7 * us_day" "det_ok (sd (dt_store s))"
    "thresholds (dt_store s) RULE_BRUTE_FORCE_IP = Inr th" "threshold_num th ''failures'' = Inr n"
    "threshold_span us_minute th ''window_minutes'' = Inr w" "0 \<le> w"
  shows "\<exists>ex segs gone s' rows flagged. holds (d_files (sy_disk (dt_log s))) segs
     \<and> sy_accepted (dt_log s) = map unseal (ex @ seg_records segs) @ waiting (dt_log s) \<and> gone \<le> length ex
     \<and> rule_brute_force_ip E now s = (s', Inr rows)
     \<and> map (\<lambda>r. dget r ''id'') rows
         = map (\<lambda>(ip, t). Some (JStr (make_detection_id E RULE_BRUTE_FORCE_IP ip (hour_bucket E t)))) flagged
     \<and> (\<forall>(ip, t) \<in> set flagged.
          drow (sd (dt_store s')) (make_detection_id E RULE_BRUTE_FORCE_IP ip (hour_bucket E t)) \<noteq> None)
     \<and> (\<forall>ip. let F = fail_times E (now - 7 * us_day) (de_clock E (dt_reads s)) ip (drop gone (sy_accepted (dt_log s)))
          in (\<exists>t. (ip, t) \<in> set flagged) \<longleftrightarrow> (\<exists>a \<in> set F. n \<le> of_nat (ending_at w a F)))"
proof -
  let ?since = "now - 7 * us_day" and ?flag = "brute_force_flag E th n w"
  let ?F = "\<lambda>gone ip. fail_times E ?since (de_clock E (dt_reads s)) ip (drop gone (sy_accepted (dt_log s)))"
  obtain ex segs gone s1 out d where e: "holds (d_files (sy_disk (dt_log s))) segs"
      "sy_accepted (dt_log s) = map unseal (ex @ seg_records segs) @ waiting (dt_log s)" "gone \<le> length ex"
      "query_d E (category_query ?since ''login_fail'' 10000) s = (s1, Inr out)" "dt_store s1 = dt_store s"
      "group_times E ''ip'' out [] = Inr d" "distinct_keys d" "no_empty d" "\<forall>ip. or_nil (dget d ip) = rev (?F gone ip)"
    using brute_force_events [OF assms(1-5)] by blast
  note bf = brute_force_ip_flag [OF assms(9,11)]
  obtain s' rows where u: "each_d (brute_force_ip E now th w) d s1 = (s', Inr rows)"
      "map (\<lambda>r. dget r ''id'') rows = map (\<lambda>f. Some (JStr (finding_id E f))) (List.map_filter ?flag d)"
      "\<forall>f \<in> set (List.map_filter ?flag d). drow (sd (dt_store s')) (finding_id E f) \<noteq> None"
    using each_upserts [where xs = d and g = "brute_force_ip E now th w" and fd = ?flag and E = E and now = now and s = s1] bf(1) assms(7) e(5) by auto
  let ?fl = "map (\<lambda>f. (fn_subject f, fn_event f)) (List.map_filter ?flag d)"
  have run: "rule_brute_force_ip E now s = (s', Inr rows)"
    using assms(6,8,10) e(4,6) u(1)
    by (simp add: rule_brute_force_ip_def bind_d_def read_d_def pure_d_def minus_span_def)
  have f: "\<exists>p \<in> set d. ?flag p = Some f" if "f \<in> set (List.map_filter ?flag d)" for f
    using that by (simp only: set_map_filter)
  have i: "finding_id E f = make_detection_id E RULE_BRUTE_FORCE_IP (fn_subject f) (hour_bucket E (fn_event f))"
    if "f \<in> set (List.map_filter ?flag d)" for f
    using f [OF that] bf(3) by (auto simp: finding_id_def)
  have exact: "(\<exists>t. (ip, t) \<in> set ?fl) \<longleftrightarrow> (\<exists>a \<in> set (?F gone ip). n \<le> of_nat (ending_at w a (?F gone ip)))" for ip
  proof -
    have "(\<exists>t. (ip, t) \<in> set ?fl) \<longleftrightarrow> (\<exists>ts. (ip, ts) \<in> set d \<and> ?flag (ip, ts) \<noteq> None)"
    proof
      assume "\<exists>t. (ip, t) \<in> set ?fl"
      then obtain f0 where f0: "f0 \<in> set (List.map_filter ?flag d)" "fn_subject f0 = ip" by auto
      then obtain p where p: "p \<in> set d" "?flag p = Some f0" using f by blast
      then have "p = (ip, snd p)" using bf(3) [OF p(2)] f0(2) by (metis prod.collapse)
      then show "\<exists>ts. (ip, ts) \<in> set d \<and> ?flag (ip, ts) \<noteq> None" using p by (metis option.distinct(1))
    next
      assume "\<exists>ts. (ip, ts) \<in> set d \<and> ?flag (ip, ts) \<noteq> None"
      then obtain ts f0 where p: "(ip, ts) \<in> set d" "?flag (ip, ts) = Some f0" by auto
      then have "f0 \<in> set (List.map_filter ?flag d)" by (auto simp: set_map_filter)
      moreover have "fn_subject f0 = ip" using bf(3) [OF p(2)] by simp
      ultimately show "\<exists>t. (ip, t) \<in> set ?fl" by (intro exI [of _ "fn_event f0"]) (auto simp: image_iff)
    qed
    also have "\<dots> \<longleftrightarrow> (\<exists>a \<in> set (or_nil (dget d ip)). n \<le> of_nat (ending_at w a (or_nil (dget d ip))))"
      unfolding grouped [OF e(7,8)] bf(2) by auto
    finally show ?thesis using e(9) by (simp add: ending_at_rev)
  qed
  have ids: "map (\<lambda>r. dget r ''id'') rows
      = map (\<lambda>(ip, t). Some (JStr (make_detection_id E RULE_BRUTE_FORCE_IP ip (hour_bucket E t)))) ?fl"
    unfolding u(2) by (simp add: i)
  have there: "\<forall>(ip, t) \<in> set ?fl. drow (sd (dt_store s')) (make_detection_id E RULE_BRUTE_FORCE_IP ip (hour_bucket E t)) \<noteq> None"
    using u(3) i by simp
  show ?thesis unfolding Let_def
    by (rule exI [of _ ex], rule exI [of _ segs], rule exI [of _ gone], rule exI [of _ s'], rule exI [of _ rows],
        rule exI [of _ ?fl]) (intro conjI e(1-3) run ids there allI exact)
qed

section \<open>A pass\<close>

lemma users_by_id_list: "\<exists>byid. users_by_id (list_users stamp now A h) = Inr byid"
proof -
  have "\<exists>byid. foldl (\<lambda>r u. bind_res r (\<lambda>d. bind_res (item u ''id'') (\<lambda>v.
       case v of JStr i \<Rightarrow> Inr (dset d i u) | _ \<Rightarrow> Inl TypeError))) (Inr d)
      (map (\<lambda>u. build_user_record stamp now (api_mfa A h (au_id u) \<noteq> []) u) us) = Inr byid" for d us
    by (induction us arbitrary: d) (simp_all add: build_user_record_def item_def Let_def)
  then show ?thesis by (simp add: users_by_id_def list_users_def)
qed

lemma dget_filter:
  "distinct_keys t \<Longrightarrow> dget (filter P t) i = (case dget t i of None \<Rightarrow> None | Some v \<Rightarrow> if P (i, v) then Some v else None)"
proof (induction t)
  case (Cons p t)
  have "dget t (fst p) = None" using Cons.prems by (simp add: map_of_eq_None_iff)
  then show ?case using Cons by (cases p) (auto split: option.splits)
qed simp

lemma sweep_rows:
  assumes "det_ok (sd (dt_store s))"
  shows "det_ok (sd (dt_store (retention_sweep E now s)))"
    "drow (sd (dt_store s)) i = Some r \<Longrightarrow> drow (sd (dt_store (retention_sweep E now s))) i = Some r
       \<or> (drow (sd (dt_store (retention_sweep E now s))) i = None \<and> dget_null r ''status'' = JStr ''resolved'')"
proof -
  let ?d = "sd (dt_store s)" and ?d' = "sd (dt_store (retention_sweep E now s))"
  have sh: "store_shaped ?d" using assms by (simp add: det_ok_def)
  obtain t where t: "dget ?d ''detections'' = Some (JObj t)" "rows_ok is_obj t" "\<And>i. drow ?d i = Option.bind (dget t i) as_obj"
    using det_table [OF sh] by blast
  have "det_ok ?d' \<and> (\<forall>i r. drow ?d i = Some r \<longrightarrow> drow ?d' i = Some r
       \<or> (drow ?d' i = None \<and> dget_null r ''status'' = JStr ''resolved''))"
  proof (cases "async_prune_evidence (de_parse E) now (dt_store s)")
    case (Inl e)
    then show ?thesis using assms by (simp add: retention_sweep_def)
  next
    case (Inr p)
    then obtain st removed where p: "async_prune_evidence (de_parse E) now (dt_store s) = Inr (st, removed)" by (cases p) simp
    obtain cutoff where c: "dget (sd st) ''detections'' = map_option (prune_field (de_parse E) cutoff ''detections'') (dget ?d ''detections'')"
        "store_shaped (sd st)"
      using prune_evidence_eq [OF sh p] by metis
    let ?g = "gone [''resolved''] (de_parse E) cutoff [''last_seen'', ''ts'']"
    let ?t = "filter (\<lambda>p. \<not> ?g p) t"
    have d': "?d' = sd st" using p by (simp add: retention_sweep_def)
    have "dget ?d' ''detections'' = Some (JObj ?t)" using c(1) t(1) d' by (simp add: prune_field_def prune_rule_def)
    then have r': "drow ?d' i = Option.bind (dget ?t i) as_obj" for i by (simp add: drow_def)
    have f: "dget ?t i = (case dget t i of None \<Rightarrow> None | Some v \<Rightarrow> if ?g (i, v) then None else Some v)" for i
      using dget_filter [of t "\<lambda>p. \<not> ?g p" i] t(2) by (simp add: rows_ok_def split: option.splits)
    have rows: "drow ?d' i = (case drow ?d i of None \<Rightarrow> None | Some r \<Rightarrow> if ?g (i, JObj r) then None else Some r)" for i
      by (simp add: r' t(3) f split: option.split json.split) (auto elim: as_obj.elims)
    have "det_ok ?d'" using assms c(2) unfolding det_ok_def d' [symmetric]
      by (auto simp: rows split: option.splits if_splits)
    moreover have "drow ?d' i = Some r \<or> (drow ?d' i = None \<and> dget_null r ''status'' = JStr ''resolved'')"
      if "drow ?d i = Some r" for i r
      using that by (auto simp: rows gone_def)
    ultimately show ?thesis by blast
  qed
  then show "det_ok ?d'" "drow ?d i = Some r \<Longrightarrow> drow ?d' i = Some r
       \<or> (drow ?d' i = None \<and> dget_null r ''status'' = JStr ''resolved'')" by blast+
qed

lemma note_pass_spec:
  assumes "det_ok (sd st)"
  shows "\<exists>st'. async_note_detection_pass_completed at_iso st = Inr st' \<and> det_ok (sd st') \<and> (\<forall>i. drow (sd st') i = drow (sd st) i)
     \<and> (\<exists>m. dget (sd st') ''detections_meta'' = Some (JObj m) \<and> dget m ''last_pass_completed_at'' = Some (JStr at_iso))"
proof -
  have sh: "store_shaped (sd st)" using assms by (simp add: det_ok_def)
  obtain st' where st': "exec (Note_pass at_iso) st = Inr st'" "store_shaped (sd st')"
    by (rule exec_step [OF sh, of "Note_pass at_iso"]) simp
  obtain m where m: "dget (sd st) ''detections_meta'' = Some (JObj m)"
    by (rule shaped_plain_table [OF sh, of "''detections_meta''"]) (simp_all add: PLAIN_TABLES_def)
  have e: "sd st' = dset (sd st) ''detections_meta'' (JObj (dset m ''last_pass_completed_at'' (JStr at_iso)))"
    using st'(1) m by (auto simp: async_note_detection_pass_completed_def then_save_def on_table_def item_def
        schedule_save_def)
  have "drow (sd st') i = drow (sd st) i" for i by (simp add: drow_def e dict_simps)
  then show ?thesis using st' assms by (auto simp: det_ok_def e dict_simps)
qed

text \<open>
  C37. No rule can sink a pass or undo a decision: on data of the declared shape a pass over the users always
  completes and stamps its time, whatever its rules raise, and every detection row keeps its identity and what
  an analyst decided on it, unless it was resolved and retention removed it.
\<close>

theorem pass_keeps_decisions:
  assumes "det_ok (sd (dt_store s))"
  shows "\<exists>s' touched. run_pass E now (list_users stamp now A h) s = (s', Inr touched) \<and> det_ok (sd (dt_store s'))
     \<and> (\<exists>m. dget (sd (dt_store s')) ''detections_meta'' = Some (JObj m)
          \<and> dget m ''last_pass_completed_at'' = Some (JStr (de_iso E now)))
     \<and> (\<forall>i r. drow (sd (dt_store s)) i = Some r \<longrightarrow>
          (drow (sd (dt_store s')) i = None \<and> dget_null r ''status'' = JStr ''resolved'')
          \<or> (\<exists>r'. drow (sd (dt_store s')) i = Some r' \<and> same_decision r r'))"
proof -
  let ?us = "list_users stamp now A h"
  obtain byid where b: "users_by_id ?us = Inr byid" using users_by_id_list [of stamp now A h] by blast
  obtain s1 touched where r: "run_rules (detection_rules E now ?us byid) s = (s1, touched)" by fastforce
  have p: "progress (sd (dt_store s)) (sd (dt_store s1))"
    using safe_run_rules [of "detection_rules E now ?us byid" s] safe_rules r by (metis fst_conv)
  have ok1: "det_ok (sd (dt_store s1))" by (rule progressD(1) [OF p assms])
  let ?s2 = "retention_sweep E now s1"
  obtain st' where st': "async_note_detection_pass_completed (de_iso E now) (dt_store ?s2) = Inr st'" "det_ok (sd st')"
      "\<forall>i. drow (sd st') i = drow (sd (dt_store ?s2)) i"
      "\<exists>m. dget (sd st') ''detections_meta'' = Some (JObj m) \<and> dget m ''last_pass_completed_at'' = Some (JStr (de_iso E now))"
    using note_pass_spec [OF sweep_rows(1) [OF ok1]] by blast
  have run: "run_pass E now ?us s = (?s2\<lparr>dt_store := st'\<rparr>, Inr touched)"
    using b r st'(1) by (simp add: run_pass_def bind_d_def pure_d_def store_d_def ret_d_def)
  have "(drow (sd st') i = None \<and> dget_null q ''status'' = JStr ''resolved'') \<or> (\<exists>r'. drow (sd st') i = Some r' \<and> same_decision q r')"
    if q: "drow (sd (dt_store s)) i = Some q" for i q
  proof -
    obtain q1 where q1: "drow (sd (dt_store s1)) i = Some q1" "same_decision q q1" using progressD(3) [OF p assms q] by blast
    then have "dget_null q1 ''status'' = dget_null q ''status''" by (simp add: same_decision_def KEPT_KEYS_def dget_default_def)
    then show ?thesis using sweep_rows(2) [OF ok1 q1(1)] q1(2) st'(3) by metis
  qed
  then show ?thesis using run st'(2,4) by (intro exI [of _ "?s2\<lparr>dt_store := st'\<rparr>"] exI [of _ touched]) simp
qed

section \<open>A concrete setting for the witnesses\<close>

definition w_env :: det_env where
  "w_env = \<lparr>de_hash = w_hash, de_parse = w_parse, de_iso = (\<lambda>_. w_ts), de_clock = (\<lambda>_. 20514 * us_day), de_hour = (\<lambda>_. 0),
     de_private = (\<lambda>_. Some False), de_network = (\<lambda>ip n. Some ip)\<rparr>"

definition w_fail :: audit_event where
  "w_fail = (plain_event ''login_fail'')\<lparr>ev_ip := Some ''203.0.113.9''\<rparr>"

fun w_attempts :: "nat \<Rightarrow> asys" where
  "w_attempts 0 = fresh_sys"
| "w_attempts (Suc n) = log_event w_ts w_fail (w_attempts n)"

definition w_attacked :: det_state where
  "w_attacked = \<lparr>dt_log = w_attempts 5, dt_store = new_store, dt_reads = 0\<rparr>"

lemma w_attempts_reachable: "reachable w_hash w_cfg (w_attempts n)"
proof (induction n)
  case 0
  show ?case by (simp add: reachable.start)
next
  case (Suc n)
  show ?case unfolding w_attempts.simps
    by (rule reachable.step [OF Suc audit_step.log [OF w_dated]]) (simp add: event_ok_def w_fail_def plain_event_def)
qed

lemma new_store_det_ok: "det_ok (sd new_store)"
proof -
  have "drow default_store_data i = None" for i by (simp add: drow_def default_store_data_def)
  then show ?thesis by (simp add: det_ok_def new_store_def default_shaped)
qed

definition w_user :: auth_user where
  "w_user = \<lparr>au_id = ''u1'', au_name = JStr ''Eve'', au_owner = False, au_admin = False, au_active = True, au_local = False,
     au_system = False, au_groups = [''system-users''], au_tokens = [], au_credentials = []\<rparr>"

definition w_auth :: "auth_user list auth_api" where
  "w_auth = \<lparr>api_users = id, api_mfa = (\<lambda>_ _. []), api_remove_token = (\<lambda>_ h. h),
     api_create_user = (\<lambda>_ _ _ _. Inl ValueError), api_update_user = (\<lambda>_ _ _. Inl ValueError),
     api_deactivate_user = (\<lambda>_ _. Inl ValueError), api_remove_user = (\<lambda>i. filter (\<lambda>u. au_id u \<noteq> i)),
     api_change_password = (\<lambda>_ _ _. Inl ValueError)\<rparr>"

theorem pass_keeps_decisions_witness:
  "\<exists>s' touched. run_pass w_env (20514 * us_day) (list_users (\<lambda>_. w_ts) (20514 * us_day) w_auth [w_user]) w_attacked = (s', Inr touched)
     \<and> det_ok (sd (dt_store s'))
     \<and> (\<exists>m. dget (sd (dt_store s')) ''detections_meta'' = Some (JObj m)
          \<and> dget m ''last_pass_completed_at'' = Some (JStr (de_iso w_env (20514 * us_day))))"
proof -
  have "det_ok (sd (dt_store w_attacked))" by (simp add: w_attacked_def new_store_det_ok)
  from pass_keeps_decisions [OF this, of w_env "20514 * us_day" "\<lambda>_. w_ts" w_auth "[w_user]"] show ?thesis by blast
qed

lemma w_attempts_buffer:
  "n \<le> 20000 \<Longrightarrow> buffer (sy_log (w_attempts n)) = replicate n (log_record w_ts w_fail)
     \<and> sy_accepted (w_attempts n) = replicate n (log_record w_ts w_fail)"
proof (induction n)
  case 0
  show ?case by (simp add: fresh_sys_def new_log_def)
next
  case (Suc n)
  then have "\<not> BUFFER_MAX_RECORDS \<le> length (buffer (sy_log (w_attempts n)))" by (simp add: BUFFER_MAX_RECORDS_def)
  moreover have r: "replicate (Suc n) b = replicate n b @ [b]" for b :: dict by (simp add: replicate_append_same)
  ultimately show ?case using Suc unfolding w_attempts.simps r by (simp add: log_event_def Let_def async_log_room)
qed

lemma w_stamp: "utc_stamped w_parse (log_record w_ts w_fail)"
  by code_simp

lemma w_accepted: "\<forall>b \<in> set (sy_accepted (dt_log w_attacked)). utc_stamped (de_parse w_env) b"
  using w_attempts_buffer [of 5] w_stamp by (simp add: w_attacked_def w_env_def)

lemma w_few: "length (filter (in_answer (de_parse w_env) (category_query (20514 * us_day - 7 * us_day) ''login_fail'' 10000)
    (20514 * us_day - 7 * us_day) (de_clock w_env (dt_reads w_attacked))) (sy_accepted (dt_log w_attacked))) \<le> 10000"
proof -
  have "length (sy_accepted (dt_log w_attacked)) \<le> 10000" using w_attempts_buffer [of 5] by (simp add: w_attacked_def)
  with length_filter_le show ?thesis by (rule order_trans)
qed

definition w_th :: dict where "w_th = [(''failures'', JInt 5), (''window_minutes'', JInt 15)]"

lemma w_thresholds:
  "thresholds (dt_store w_attacked) RULE_BRUTE_FORCE_IP = Inr w_th" "threshold_num w_th ''failures'' = Inr 5"
  "threshold_span us_minute w_th ''window_minutes'' = Inr (15 * us_minute)"
proof -
  have "thresholds new_store RULE_BRUTE_FORCE_IP = Inr w_th" by code_simp
  then show "thresholds (dt_store w_attacked) RULE_BRUTE_FORCE_IP = Inr w_th" by (simp add: w_attacked_def)
qed code_simp+

lemma w_premises: "reachable (de_hash w_env) w_cfg (dt_log w_attacked)" "hexdigest_like (de_hash w_env)"
    "de_parse w_env [] = None" "det_ok (sd (dt_store w_attacked))"
  using w_attempts_reachable [of 5] w_hash_like new_store_det_ok
  by (simp_all add: w_env_def w_attacked_def w_parse_def w_ts_def)

theorem brute_force_exact_witness:
  "\<exists>ex segs gone s' rows flagged. holds (d_files (sy_disk (dt_log w_attacked))) segs
     \<and> sy_accepted (dt_log w_attacked) = map unseal (ex @ seg_records segs) @ waiting (dt_log w_attacked) \<and> gone \<le> length ex
     \<and> rule_brute_force_ip w_env (20514 * us_day) w_attacked = (s', Inr rows)
     \<and> map (\<lambda>r. dget r ''id'') rows
         = map (\<lambda>(ip, t). Some (JStr (make_detection_id w_env RULE_BRUTE_FORCE_IP ip (hour_bucket w_env t)))) flagged"
proof -
  have "min_moment \<le> 20514 * us_day - 7 * us_day" "(0::int) \<le> 15 * us_minute" by (simp_all add: min_moment_def)
  from brute_force_exact [OF w_premises(1,2) w_accepted w_premises(3) w_few this(1) w_premises(4) w_thresholds this(2)]
  show ?thesis by blast
qed

end
