(* ===== verification/Risk.thy ===== *)
theory Risk
  imports DetectionProps
begin

text \<open>
  \<open>risk.py\<close>: the score of a user as a sum of named factors, each capped, and the posture score of the
  installation. Points are exact rationals, \<open>round\<close> is to even. \<open>parse_datetime\<close>, the power
  \<open>0.5 ** x\<close> and \<open>is_global\<close> of \<open>ipaddress\<close> are arguments. A field that arithmetic cannot take
  raises.
\<close>

section \<open>Scores\<close>

definition band_for_score :: "int \<Rightarrow> string" where
  "band_for_score s = (if 79 < s then ''critical'' else if 59 < s then ''high'' else if 29 < s then ''moderate'' else ''low'')"

definition grade_for_score :: "int \<Rightarrow> string" where
  "grade_for_score s =
     (if 90 \<le> s then ''A'' else if 80 \<le> s then ''B'' else if 70 \<le> s then ''C'' else if 60 \<le> s then ''D'' else ''F'')"

record risk_env =
  rk_parse :: "string \<Rightarrow> moment option"
  rk_half :: "rat \<Rightarrow> rat"
  rk_global :: "string \<Rightarrow> bool option"

record factor =
  fc_name :: string
  fc_points :: rat
  fc_detail :: string
  fc_applied :: rat

definition mk_factor :: "string \<Rightarrow> rat \<Rightarrow> string \<Rightarrow> factor" where
  "mk_factor n p d = \<lparr>fc_name = n, fc_points = p, fc_detail = d, fc_applied = 0\<rparr>"

fun sum_res :: "('a \<Rightarrow> rat res) \<Rightarrow> 'a list \<Rightarrow> rat res" where
  "sum_res f [] = Inr 0"
| "sum_res f (x # xs) = bind_res (f x) (\<lambda>a. bind_res (sum_res f xs) (\<lambda>b. Inr (a + b)))"

text \<open>A detection's time: falsy gives none, a time without a zone cannot be taken from \<open>now\<close>.\<close>

definition stamp_of :: "risk_env \<Rightarrow> json \<Rightarrow> int option res" where
  "stamp_of E v =
     (case v of
        JStr t \<Rightarrow> (case rk_parse E t of None \<Rightarrow> Inr None | Some (Aware x) \<Rightarrow> Inr (Some x) | Some (Naive x) \<Rightarrow> Inl TypeError)
      | _ \<Rightarrow> Inl TypeError)"

definition decayed_points :: "risk_env \<Rightarrow> json \<Rightarrow> int \<Rightarrow> rat \<Rightarrow> rat \<Rightarrow> rat res" where
  "decayed_points E ts now base half_life =
     (if \<not> truthy ts then Inr 0
      else bind_res (stamp_of E ts) (\<lambda>t. case t of
        None \<Rightarrow> Inr 0
      | Some x \<Rightarrow>
          (let days = max ((now - x) div us_day) 0; points = base * rk_half E (of_int days / half_life)
           in Inr (if 1 \<le> points then points else 0))))"

definition is_public_ip :: "risk_env \<Rightarrow> json \<Rightarrow> bool" where
  "is_public_ip E v = (case v of JStr ip \<Rightarrow> ip \<noteq> [] \<and> rk_global E ip = Some True | _ \<Rightarrow> False)"

section \<open>Factors\<close>

definition of_rule :: "string \<Rightarrow> dict list \<Rightarrow> dict list" where
  "of_rule rule ds = filter (\<lambda>d. dget_null d ''rule_id'' = JStr rule) ds"

definition how_many :: "'a list \<Rightarrow> string" where
  "how_many xs = nat_text (length xs)"

text \<open>A sum of points over the detections of a rule, capped, and dropped below one.\<close>

definition capped_factor :: "string \<Rightarrow> (dict \<Rightarrow> rat res) \<Rightarrow> rat \<Rightarrow> string \<Rightarrow> dict list \<Rightarrow> factor list res" where
  "capped_factor name pts cap detail ms =
     (if ms = [] then Inr []
      else bind_res (sum_res pts ms) (\<lambda>sum.
        let t = min sum cap in Inr (if 1 \<le> t then [mk_factor name (round_to 1 t) (how_many ms @ detail)] else [])))"

definition success_after_failures_factor :: "risk_env \<Rightarrow> int \<Rightarrow> dict list \<Rightarrow> factor list res" where
  "success_after_failures_factor E now ds =
     capped_factor ''success_after_failed_logins'' (\<lambda>d. decayed_points E (dget_null d ''ts'') now 12 (7/2)) 18
       '' success-after-failed-login detection(s)'' (of_rule RULE_SUCCESS_AFTER_FAILURES ds)"

definition login_ip :: "dict \<Rightarrow> json res" where
  "login_ip d =
     (let ip = dget_null d ''ip'' in
      if truthy ip then Inr ip else bind_res (detail_of d) (\<lambda>x. Inr (dget_null x ''ip'')))"

definition new_ip_login_factor :: "risk_env \<Rightarrow> int \<Rightarrow> dict list \<Rightarrow> factor list res" where
  "new_ip_login_factor E now ds =
     capped_factor ''new_ip_login''
       (\<lambda>d. bind_res (login_ip d) (\<lambda>ip. decayed_points E (dget_null d ''ts'') now (if is_public_ip E ip then 12 else 8) 7)) 16
       '' new-network login(s)'' (of_rule RULE_NEW_IP_LOGIN ds)"

definition off_hours_factor :: "risk_env \<Rightarrow> int \<Rightarrow> dict list \<Rightarrow> factor list res" where
  "off_hours_factor E now ds =
     capped_factor ''off_hours_activity'' (\<lambda>d. decayed_points E (dget_null d ''ts'') now 6 (7/2)) 10
       '' off-hours burst(s)'' (of_rule RULE_OFF_HOURS_ANOMALY ds)"

definition rule_cap :: "soc_store \<Rightarrow> string \<Rightarrow> rat res" where
  "rule_cap st rule = bind_res (thresholds st rule) (\<lambda>th. threshold_num th ''risk_cap_points'')"

text \<open>Points without decay are not rounded.\<close>

definition privilege_escalation_factor :: "risk_env \<Rightarrow> soc_store \<Rightarrow> int \<Rightarrow> dict list \<Rightarrow> factor list res" where
  "privilege_escalation_factor E st now ds =
     (let ms = of_rule RULE_PRIVILEGE_ESCALATION ds in
      if ms = [] then Inr []
      else bind_res (sum_res (\<lambda>d. bind_res (stamp_of E (dget_default d ''ts'' (JStr []))) (\<lambda>t.
               Inr (case t of None \<Rightarrow> 0 | Some x \<Rightarrow> if (now - x) div us_day \<le> 30 then 8 else 0))) ms) (\<lambda>sum.
           bind_res (rule_cap st RULE_PRIVILEGE_ESCALATION) (\<lambda>cap.
             let t = min sum cap in
             Inr (if 1 \<le> t then [mk_factor ''privilege_escalation'' t
                    (how_many ms @ '' privilege escalation event(s) logged - always logged, not proof of compromise; legitimate promotions look identical'')]
                  else []))))"

definition token_minting_factor :: "risk_env \<Rightarrow> int \<Rightarrow> dict list \<Rightarrow> factor list res" where
  "token_minting_factor E now ds =
     capped_factor ''token_minting_anomaly'' (\<lambda>d. decayed_points E (dget_null d ''ts'') now 5 (7/2)) 10
       '' token-minting burst(s)'' (of_rule RULE_TOKEN_MINTING_ANOMALY ds)"

definition disabled_user_activity_factor :: "risk_env \<Rightarrow> soc_store \<Rightarrow> int \<Rightarrow> dict list \<Rightarrow> factor list res" where
  "disabled_user_activity_factor E st now ds =
     (let ms = of_rule RULE_DISABLED_USER_ACTIVITY ds in
      if ms = [] then Inr []
      else bind_res (sum_res (\<lambda>d. if dget_null d ''status'' = JStr ''open'' then Inr 20
               else decayed_points E (dget_null d ''ts'') now 20 7) ms) (\<lambda>sum.
           bind_res (rule_cap st RULE_DISABLED_USER_ACTIVITY) (\<lambda>cap.
             let t = min sum cap in
             Inr (if 1 \<le> t then [mk_factor ''disabled_user_activity'' (round_to 1 t)
                    (how_many ms @ '' activity attempt(s) by this disabled account'')] else []))))"

definition severity_points :: "(string \<times> rat) list \<Rightarrow> dict \<Rightarrow> rat" where
  "severity_points tab d =
     (case dget_null d ''severity'' of JStr s \<Rightarrow> (case map_of tab s of Some p \<Rightarrow> p | None \<Rightarrow> 0) | _ \<Rightarrow> 0)"

definition GENERIC_OPEN_DETECTION_SEVERITY_POINTS :: "(string \<times> rat) list" where
  "GENERIC_OPEN_DETECTION_SEVERITY_POINTS = [(''critical'', 25), (''high'', 15), (''medium'', 8), (''low'', 3)]"

definition open_of :: "dict list \<Rightarrow> dict list" where
  "open_of ds = filter (\<lambda>d. dget_null d ''status'' = JStr ''open'') ds"

definition generic_open_detections_factor :: "dict list \<Rightarrow> factor list" where
  "generic_open_detections_factor ds =
     (let t = min (sum_list (map (severity_points GENERIC_OPEN_DETECTION_SEVERITY_POINTS) (open_of ds))) 30
      in if open_of ds \<noteq> [] \<and> 1 \<le> t
         then [mk_factor ''open_detections'' t (how_many (open_of ds) @ '' open detection(s) across all rules'')] else [])"

section \<open>A user's risk\<close>

text \<open>\<open>user.get(k) or 0\<close>; counts are ints.\<close>

definition count_or_zero :: "dict \<Rightarrow> string \<Rightarrow> int res" where
  "count_or_zero u k =
     (let v = dget_null u k in
      if \<not> truthy v then Inr 0 else case as_pyint v of None \<Rightarrow> Inl TypeError | Some n \<Rightarrow> Inr n)"

definition opt_count :: "dict \<Rightarrow> string \<Rightarrow> int option res" where
  "opt_count u k =
     (let v = dget_null u k in
      if v = JNull then Inr None else case as_pyint v of None \<Rightarrow> Inl TypeError | Some n \<Rightarrow> Inr (Some n))"

definition mfa_factor :: "dict \<Rightarrow> factor list" where
  "mfa_factor u =
     (if truthy (dget_null u ''mfa_enabled'') then []
      else if truthy (dget_null u ''is_admin'')
           then [mk_factor ''admin_without_mfa'' 25 ''Administrator account has no MFA module enabled'']
           else [mk_factor ''non_admin_without_mfa'' 8 ''Account has no MFA module enabled''])"

definition never_logged_in_factor :: "dict \<Rightarrow> factor list res" where
  "never_logged_in_factor u =
     bind_res (count_or_zero u ''credentials_count'') (\<lambda>creds.
     bind_res (count_or_zero u ''refresh_token_count'') (\<lambda>tokens.
       if truthy (dget_null u ''is_active'') \<and> 1 \<le> creds \<and> tokens = 0
       then bind_res (opt_count u ''credential_age_days'') (\<lambda>age. Inr (case age of
              Some n \<Rightarrow> if 14 \<le> n then [mk_factor ''never_logged_in'' 10
                          (''Enabled '' @ int_text n @ ''d-old account has never logged in'')] else []
            | None \<Rightarrow> [mk_factor ''never_logged_in'' 10
                ''Enabled account with a credential has never logged in (unknown age, never logged in)'']))
       else Inr []))"

definition stale_factor :: "risk_env \<Rightarrow> int \<Rightarrow> dict \<Rightarrow> factor list res" where
  "stale_factor E now u =
     (let seen = dget_null u ''last_login_at'' in
      if truthy (dget_null u ''is_active'') \<and> truthy seen
      then bind_res (stamp_of E seen) (\<lambda>t. Inr (case t of
             None \<Rightarrow> []
           | Some x \<Rightarrow>
               (let d = (now - x) div us_day in
                if 180 < d then [mk_factor ''stale_account'' 12 (''No login in '' @ int_text d @ ''d'')]
                else if 90 < d then [mk_factor ''stale_account'' 8 (''No login in '' @ int_text d @ ''d'')]
                else [])))
      else Inr [])"

definition token_load_factor :: "dict \<Rightarrow> factor list res" where
  "token_load_factor u =
     bind_res (count_or_zero u ''llat_count'') (\<lambda>n.
       if n = 0 then Inr []
       else bind_res (opt_count u ''llat_oldest_days'') (\<lambda>oldest.
         let old = (case oldest of None \<Rightarrow> False | Some d \<Rightarrow> 365 < d) in
         Inr [mk_factor ''long_lived_token_load'' (min (of_int n * 3 + (if old then 4 else 0)) 12)
           (int_text n @ '' long-lived access token(s)'' @ (if old then '', oldest '' @ int_text (the oldest) @ ''d'' else []))]))"

definition risk_factors :: "risk_env \<Rightarrow> soc_store \<Rightarrow> int \<Rightarrow> dict \<Rightarrow> dict list \<Rightarrow> factor list res" where
  "risk_factors E st now u ds =
     (let act = filter (\<lambda>d. dget_null d ''status'' \<noteq> JStr ''resolved'') ds in
      bind_res (never_logged_in_factor u) (\<lambda>f1. bind_res (stale_factor E now u) (\<lambda>f2.
      bind_res (token_load_factor u) (\<lambda>f3. bind_res (success_after_failures_factor E now act) (\<lambda>f4.
      bind_res (new_ip_login_factor E now act) (\<lambda>f5. bind_res (off_hours_factor E now act) (\<lambda>f6.
      bind_res (privilege_escalation_factor E st now act) (\<lambda>f7. bind_res (token_minting_factor E now act) (\<lambda>f8.
      bind_res (disabled_user_activity_factor E st now act) (\<lambda>f9.
        Inr (mfa_factor u @ f1 @ f2 @ f3 @ f4 @ f5 @ f6 @ f7 @ f8 @ f9 @ generic_open_detections_factor act)))))))))))"

definition clamp_score :: "rat \<Rightarrow> int" where
  "clamp_score raw = round_even (min (max raw 0) 100)"

text \<open>\<open>max\<close> with a key: the index of the first of the largest.\<close>

fun first_max :: "rat list \<Rightarrow> nat" where
  "first_max [] = 0"
| "first_max [x] = 0"
| "first_max (x # xs) = (let i = first_max xs in if x < xs ! i then Suc i else 0)"

definition reconcile_applied_points :: "rat \<Rightarrow> int \<Rightarrow> factor list \<Rightarrow> factor list" where
  "reconcile_applied_points raw score fs =
     (if fs = [] then []
      else if raw \<le> 0 then map (\<lambda>f. f\<lparr>fc_applied := 0\<rparr>) fs
      else
        (let fs = map (\<lambda>f. f\<lparr>fc_applied := round_to 1 (fc_points f * (of_int score / raw))\<rparr>) fs;
             residue = round_to 1 (of_int score - sum_list (map fc_applied fs))
         in if residue = 0 then fs
            else (let i = first_max (map fc_applied fs)
                  in fs[i := (fs ! i)\<lparr>fc_applied := round_to 1 (fc_applied (fs ! i) + residue)\<rparr>])))"

record user_risk =
  ur_score :: int
  ur_band :: string
  ur_factors :: "factor list"

definition compute_user_risk :: "risk_env \<Rightarrow> soc_store \<Rightarrow> int \<Rightarrow> dict \<Rightarrow> dict list \<Rightarrow> user_risk res" where
  "compute_user_risk E st now u ds =
     bind_res (risk_factors E st now u ds) (\<lambda>fs.
       let fs = sort_key (\<lambda>f. - fc_points f) fs; raw = sum_list (map fc_points fs); score = clamp_score raw
       in Inr \<lparr>ur_score = score, ur_band = band_for_score score, ur_factors = reconcile_applied_points raw score fs\<rparr>)"

fun group_detections :: "json list \<Rightarrow> (string \<times> dict list) list \<Rightarrow> (string \<times> dict list) list res" where
  "group_detections [] g = Inr g"
| "group_detections (v # vs) g =
     bind_res (as_table AttributeError v) (\<lambda>d.
       group_detections vs (case text_field d ''user_id'' of None \<Rightarrow> g | Some i \<Rightarrow> push i d g))"

fun risk_results ::
    "risk_env \<Rightarrow> soc_store \<Rightarrow> int \<Rightarrow> (string \<times> dict list) list \<Rightarrow> dict list \<Rightarrow> (string \<times> user_risk) list \<Rightarrow> (string \<times> user_risk) list res" where
  "risk_results E st now g [] acc = Inr acc"
| "risk_results E st now g (u # us) acc =
     bind_res (user_id_of u) (\<lambda>i.
     bind_res (compute_user_risk E st now u (case dget g i of None \<Rightarrow> [] | Some ds \<Rightarrow> ds)) (\<lambda>r.
       risk_results E st now g us (dset acc i r)))"

definition recompute_all :: "risk_env \<Rightarrow> int \<Rightarrow> dict list \<Rightarrow> soc_store \<Rightarrow> (string \<times> user_risk) list res" where
  "recompute_all E now users st =
     bind_res (item (sd st) ''detections'') (\<lambda>v. bind_res (as_table AttributeError v) (\<lambda>t.
     bind_res (group_detections (map snd t) []) (\<lambda>g. risk_results E st now g users [])))"

section \<open>Posture\<close>

fun weighted :: "(string \<times> user_risk) list \<Rightarrow> dict list \<Rightarrow> (rat \<times> rat) res" where
  "weighted rs [] = Inr (0, 0)"
| "weighted rs (u # us) =
     bind_res (user_id_of u) (\<lambda>i. bind_res (weighted rs us) (\<lambda>(t, w).
       let m = (if truthy (dget_null u ''is_admin'') then 2 else 1); sc = (case dget rs i of None \<Rightarrow> 0 | Some r \<Rightarrow> of_int (ur_score r))
       in Inr (t + sc * m, w + m)))"

definition compute_p_user :: "dict list \<Rightarrow> (string \<times> user_risk) list \<Rightarrow> rat res" where
  "compute_p_user users rs =
     (if users = [] then Inr 0
      else bind_res (weighted rs users) (\<lambda>(t, w). Inr (if w = 0 then 0 else t / w)))"

text \<open>\<open>data.get(k, {}).values()\<close>, whose entries are dicts.\<close>

definition table_rows :: "dict \<Rightarrow> string \<Rightarrow> dict list res" where
  "table_rows d k =
     bind_res (as_table AttributeError (dget_default d k (JObj []))) (\<lambda>t.
       if list_ex (\<lambda>p. as_obj (snd p) = None) t then Inl AttributeError else Inr (map (\<lambda>p. the (as_obj (snd p))) t))"

definition vuln_points :: "dict \<Rightarrow> rat res" where
  "vuln_points f =
     (if dget_null f ''status'' = JStr ''dismissed'' then Inr 0
      else if dget_null f ''cvss'' = JNull then Inr 1
      else bind_res (as_num (dget_null f ''cvss'')) (\<lambda>c.
             Inr (if 9 \<le> c then 25 else if 7 \<le> c then 10 else if 4 \<le> c then 4 else 1)))"

definition compute_p_vuln :: "dict \<Rightarrow> rat res" where
  "compute_p_vuln d = bind_res (table_rows d ''vuln_findings'') (\<lambda>fs. bind_res (sum_res vuln_points fs) (\<lambda>t. Inr (min t 100)))"

definition MISCONFIG_SEVERITY_POINTS :: "(string \<times> rat) list" where
  "MISCONFIG_SEVERITY_POINTS = [(''critical'', 25), (''high'', 12), (''medium'', 5), (''low'', 2), (''info'', 0)]"

definition compute_p_misconfig :: "dict \<Rightarrow> rat res" where
  "compute_p_misconfig d =
     bind_res (table_rows d ''misconfig_findings'') (\<lambda>fs.
       Inr (min (sum_list (map (severity_points MISCONFIG_SEVERITY_POINTS)
         (filter (\<lambda>f. dget_null f ''status'' = JStr ''new'' \<or> dget_null f ''status'' = JStr ''confirmed'') fs))) 100))"

definition compute_p_integration :: "dict \<Rightarrow> rat res" where
  "compute_p_integration d =
     bind_res (table_rows d ''integration_health'') (\<lambda>es.
     bind_res (sum_res (\<lambda>e. bind_res (as_num (dget_default e ''error_count_24h'' (JInt 0))) (\<lambda>n. Inr (if 10 \<le> n then 1 else 0))) es) (\<lambda>high.
     bind_res (sum_res (\<lambda>e. as_num (dget_default e ''unavailable_ratio'' (JInt 0))) es) (\<lambda>ratios.
       let broken = of_nat (length (filter (\<lambda>e. dget_null e ''state'' = JStr ''setup_error'') es));
           mean = (if es = [] then 0 else ratios / of_nat (length es))
       in Inr (min 100 (of_int (round_even (20 * broken + 8 * high + 50 * mean)))))))"

definition DETECTION_SEVERITY_POSTURE_POINTS :: "(string \<times> rat) list" where
  "DETECTION_SEVERITY_POSTURE_POINTS = [(''critical'', 30), (''high'', 15), (''medium'', 6), (''low'', 2), (''info'', 0)]"

definition compute_p_detection :: "dict \<Rightarrow> rat res" where
  "compute_p_detection d =
     bind_res (table_rows d ''detections'') (\<lambda>ds.
       Inr (min (sum_list (map (severity_points DETECTION_SEVERITY_POSTURE_POINTS) (open_of ds))) 100))"

definition posture_score :: "rat \<Rightarrow> rat \<Rightarrow> rat \<Rightarrow> rat \<Rightarrow> rat \<Rightarrow> int" where
  "posture_score u v m i d =
     min (max (100 - round_even (35/100 * u + 25/100 * v + 20/100 * m + 10/100 * i + 10/100 * d)) 0) 100"

definition POSTURE_TERMS :: "string list" where
  "POSTURE_TERMS = [''p_user'', ''p_vuln'', ''p_misconfig'', ''p_integration'', ''p_detection'']"

text \<open>The terms for which there is evidence.\<close>

definition ready_terms :: "dict \<Rightarrow> string list res" where
  "ready_terms d =
     bind_res (as_table AttributeError (dget_default d ''detections_meta'' (JObj []))) (\<lambda>meta.
       Inr (map fst (filter snd
         [(''p_user'', True), (''p_vuln'', truthy (dget_null d ''vuln_findings'')),
          (''p_misconfig'', truthy (dget_null d ''misconfig_findings'')),
          (''p_integration'', truthy (dget_null d ''integration_health'')),
          (''p_detection'', truthy (dget_null meta ''last_pass_completed_at''))])))"

fun mark_terms :: "string \<Rightarrow> string list \<Rightarrow> soc_store \<Rightarrow> soc_store res" where
  "mark_terms at_iso [] s = Inr s"
| "mark_terms at_iso (t # ts) s = bind_res (async_mark_posture_term_computed t at_iso s) (mark_terms at_iso ts)"

definition update_posture_terms :: "string \<Rightarrow> soc_store \<Rightarrow> (soc_store \<times> (string \<times> json) list) res" where
  "update_posture_terms at_iso s =
     bind_res (ready_terms (sd s)) (\<lambda>ts. bind_res (mark_terms at_iso ts s) (\<lambda>s.
     bind_res (as_table AttributeError (dget_default (sd s) ''posture_terms'' (JObj []))) (\<lambda>m.
       Inr (s, map (\<lambda>t. (t, dget_null m t)) POSTURE_TERMS))))"

text \<open>At most one snapshot per calendar day.\<close>

definition maybe_append_posture_snapshot :: "string \<Rightarrow> int \<Rightarrow> string \<Rightarrow> soc_store \<Rightarrow> soc_store res" where
  "maybe_append_posture_snapshot today score grade s =
     bind_res (item (sd s) ''posture_history'') (\<lambda>v. bind_res (as_list AttributeError v) (\<lambda>h.
     bind_res (if h = [] then Inr False
               else bind_res (as_table AttributeError (last h)) (\<lambda>d. Inr (dget_null d ''date'' = JStr today))) (\<lambda>same.
       if same then Inr s
       else async_append_posture_snapshot (JObj [(''date'', JStr today), (''score'', JInt score), (''grade'', JStr grade)])
              POSTURE_MAX_DAYS s)))"

record posture =
  po_score :: int
  po_grade :: string
  po_missing :: "string list"
  po_terms :: "(string \<times> json) list"
  po_breakdown :: "rat list"

definition compute_posture :: "risk_env \<Rightarrow> int \<Rightarrow> string \<Rightarrow> string \<Rightarrow> dict list \<Rightarrow> soc_store \<Rightarrow> (soc_store \<times> posture) res" where
  "compute_posture E now now_iso today users s =
     bind_res (recompute_all E now users s) (\<lambda>rs.
     bind_res (compute_p_user users rs) (\<lambda>u. bind_res (compute_p_vuln (sd s)) (\<lambda>v.
     bind_res (compute_p_misconfig (sd s)) (\<lambda>m. bind_res (compute_p_integration (sd s)) (\<lambda>i.
     bind_res (compute_p_detection (sd s)) (\<lambda>d.
       let score = posture_score u v m i d; grade = grade_for_score score
       in bind_res (update_posture_terms now_iso s) (\<lambda>(s, terms).
          bind_res (maybe_append_posture_snapshot today score grade s) (\<lambda>s.
            Inr (s, \<lparr>po_score = score, po_grade = grade, po_missing = filter (\<lambda>t. dget terms t = Some JNull) POSTURE_TERMS,
                     po_terms = terms, po_breakdown = [round_to 1 u, v, m, i, d]\<rparr>)))))))))"

end
