(* ===== verification/RiskTheorems.thy ===== *)
theory RiskTheorems
  imports Risk
begin

text \<open>
  What a score means: its factors are named once each and account for it to the tenth, the posture
  score only falls as a term rises, a posture term once computed stays computed, and a day has one
  snapshot.
\<close>

section \<open>Tenths\<close>

definition tenth :: "rat \<Rightarrow> bool" where
  "tenth x \<longleftrightarrow> (\<exists>k. x = of_int k / 10)"

lemma tenth_round [simp]: "tenth (round_to 1 x)" "tenth (round_to (Suc 0) x)"
  by (auto simp: tenth_def round_to_def)

lemma round_tenth: "tenth x \<Longrightarrow> round_to 1 x = x"
  by (auto simp: tenth_def round_to_def)

lemma tenth_int: "tenth (of_int i)"
  unfolding tenth_def by (rule exI [of _ "10 * i"]) simp

lemma tenth_add: "tenth x \<Longrightarrow> tenth y \<Longrightarrow> tenth (x + y)"
  unfolding tenth_def by (metis add_divide_distrib of_int_add)

lemma tenth_diff: "tenth x \<Longrightarrow> tenth y \<Longrightarrow> tenth (x - y)"
  unfolding tenth_def by (metis diff_divide_distrib of_int_diff)

lemma tenth_sum: "\<forall>x \<in> set xs. tenth x \<Longrightarrow> tenth (sum_list xs)"
  using tenth_int [of 0] by (induction xs) (auto intro: tenth_add)

lemma first_max_less: "xs \<noteq> [] \<Longrightarrow> first_max xs < length xs"
  by (induction xs rule: first_max.induct) (auto simp: Let_def)

lemma sum_update:
  "i < length xs \<Longrightarrow> sum_list (map g (xs[i := y])) = sum_list (map g xs) - g (xs ! i) + (g y :: rat)"
  by (induction xs arbitrary: i) (auto split: nat.split)

lemma reconciled:
  assumes "score = clamp_score raw" "raw = sum_list (map fc_points fs)"
  shows "sum_list (map fc_applied (reconcile_applied_points raw score fs)) = of_int score"
    "map fc_name (reconcile_applied_points raw score fs) = map fc_name fs"
    "map fc_points (reconcile_applied_points raw score fs) = map fc_points fs"
proof -
  let ?fs = "map (\<lambda>f. f\<lparr>fc_applied := round_to 1 (fc_points f * (of_int score / raw))\<rparr>) fs"
  let ?sum = "sum_list (map fc_applied ?fs)" let ?i = "first_max (map fc_applied ?fs)"
  have t: "\<forall>f \<in> set ?fs. tenth (fc_applied f)" by simp
  then have "tenth ?sum" by (intro tenth_sum) auto
  then have d: "tenth (of_int score - ?sum)" by (intro tenth_diff tenth_int)
  have "sum_list (map fc_applied (reconcile_applied_points raw score fs)) = of_int score
     \<and> map fc_name (reconcile_applied_points raw score fs) = map fc_name fs
     \<and> map fc_points (reconcile_applied_points raw score fs) = map fc_points fs"
  proof (cases "fs = [] \<or> raw \<le> 0")
    case True
    then have "score = 0" using assms by (auto simp: clamp_score_def)
    moreover have "sum_list (map (\<lambda>f. 0) xs) = (0::rat)" for xs :: "factor list" by (induction xs) simp_all
    ultimately show ?thesis using True by (auto simp: reconcile_applied_points_def comp_def)
  next
    case False
    then have i: "?i < length ?fs" using first_max_less [of "map fc_applied ?fs"] by simp
    have "tenth (fc_applied (?fs ! ?i))" using t i nth_mem by blast
    then have r: "round_to 1 (fc_applied (?fs ! ?i) + (of_int score - ?sum)) = fc_applied (?fs ! ?i) + (of_int score - ?sum)"
      using d by (intro round_tenth tenth_add)
    have e: "reconcile_applied_points raw score fs = (if of_int score - ?sum = 0 then ?fs
        else ?fs[?i := (?fs ! ?i)\<lparr>fc_applied := fc_applied (?fs ! ?i) + (of_int score - ?sum)\<rparr>])"
      using False by (simp only: reconcile_applied_points_def Let_def round_tenth [OF d] r if_False de_Morgan_disj)
    have "map fc_name (?fs[?i := (?fs ! ?i)\<lparr>fc_applied := x\<rparr>]) = map fc_name fs"
      "map fc_points (?fs[?i := (?fs ! ?i)\<lparr>fc_applied := x\<rparr>]) = map fc_points fs" for x
      using i by (auto simp: map_update list_update_same_conv comp_def)
    moreover have "map fc_name ?fs = map fc_name fs" "map fc_points ?fs = map fc_points fs" by (simp_all add: comp_def)
    ultimately show ?thesis unfolding e using sum_update [OF i, of fc_applied] by simp
  qed
  then show "sum_list (map fc_applied (reconcile_applied_points raw score fs)) = of_int score"
    "map fc_name (reconcile_applied_points raw score fs) = map fc_name fs"
    "map fc_points (reconcile_applied_points raw score fs) = map fc_points fs" by blast+
qed

lemma clamp_score_bounds: "0 \<le> clamp_score raw" "clamp_score raw \<le> 100"
  unfolding clamp_score_def by (rule round_even_ge, simp) (rule round_even_le, simp)

section \<open>Names\<close>

definition named :: "string \<Rightarrow> factor list \<Rightarrow> bool" where
  "named n fs \<longleftrightarrow> fs = [] \<or> (\<exists>f. fs = [f] \<and> fc_name f = n)"

lemma named_simps [simp]: "named n []" "named n [mk_factor m p d] \<longleftrightarrow> m = n"
  by (auto simp: named_def mk_factor_def)

lemma named_concat: "list_all2 named ns fss \<Longrightarrow> distinct ns \<Longrightarrow> distinct (map fc_name (concat fss)) \<and> fc_name ` set (concat fss) \<subseteq> set ns"
proof (induction rule: list_all2_induct)
  case (Cons n ns f fss)
  then have i: "distinct (map fc_name (concat fss))" "fc_name ` set (concat fss) \<subseteq> set ns" "n \<notin> set ns" by auto
  show ?case
  proof (cases "f = []")
    case False
    then obtain x where "f = [x]" "fc_name x = n" using Cons.hyps(1) by (auto simp: named_def)
    moreover from this i(2,3) have "fc_name x \<notin> fc_name ` set (concat fss)" by blast
    ultimately show ?thesis using i(1,2) by auto
  qed (use i in auto)
qed simp

lemma capped_named: "capped_factor n pts cap d ms = Inr fs \<Longrightarrow> named n fs"
  by (auto simp: capped_factor_def bind_res_Inr Let_def split: if_splits)

lemma mfa_named: "named ''admin_without_mfa'' (mfa_factor u) \<or> named ''non_admin_without_mfa'' (mfa_factor u)"
  by (simp add: mfa_factor_def)

lemma factors_named:
  "never_logged_in_factor u = Inr fs \<Longrightarrow> named ''never_logged_in'' fs"
  "stale_factor E now u = Inr fs \<Longrightarrow> named ''stale_account'' fs"
  "token_load_factor u = Inr fs \<Longrightarrow> named ''long_lived_token_load'' fs"
  "privilege_escalation_factor E st now ds = Inr fs \<Longrightarrow> named ''privilege_escalation'' fs"
  "disabled_user_activity_factor E st now ds = Inr fs \<Longrightarrow> named ''disabled_user_activity'' fs"
  "named ''open_detections'' (generic_open_detections_factor ds)"
  by (auto simp: never_logged_in_factor_def stale_factor_def token_load_factor_def privilege_escalation_factor_def
      disabled_user_activity_factor_def generic_open_detections_factor_def bind_res_Inr Let_def split: if_splits option.splits)

lemma risk_factors_distinct:
  assumes "risk_factors E st now u ds = Inr fs"
  shows "distinct (map fc_name fs)"
proof -
  let ?act = "filter (\<lambda>d. dget_null d ''status'' \<noteq> JStr ''resolved'') ds"
  obtain f1 f2 f3 f4 f5 f6 f7 f8 f9 where f: "never_logged_in_factor u = Inr f1" "stale_factor E now u = Inr f2"
    "token_load_factor u = Inr f3" "success_after_failures_factor E now ?act = Inr f4" "new_ip_login_factor E now ?act = Inr f5"
    "off_hours_factor E now ?act = Inr f6" "privilege_escalation_factor E st now ?act = Inr f7"
    "token_minting_factor E now ?act = Inr f8" "disabled_user_activity_factor E st now ?act = Inr f9"
    "fs = concat [mfa_factor u, f1, f2, f3, f4, f5, f6, f7, f8, f9, generic_open_detections_factor ?act]"
    using assms by (auto simp: risk_factors_def Let_def bind_res_Inr)
  note c = f(4,5,6,8) [unfolded success_after_failures_factor_def new_ip_login_factor_def off_hours_factor_def token_minting_factor_def,
      THEN capped_named]
  obtain m where m: "named m (mfa_factor u)" "m = ''admin_without_mfa'' \<or> m = ''non_admin_without_mfa''" using mfa_named by blast
  let ?ns = "[m, ''never_logged_in'', ''stale_account'', ''long_lived_token_load'', ''success_after_failed_logins'', ''new_ip_login'',
      ''off_hours_activity'', ''privilege_escalation'', ''token_minting_anomaly'', ''disabled_user_activity'', ''open_detections'']"
  have a: "list_all2 named ?ns [mfa_factor u, f1, f2, f3, f4, f5, f6, f7, f8, f9, generic_open_detections_factor ?act]"
    by (simp only: list_all2_Cons list_all2_Nil simp_thms m(1) c factors_named(1) [OF f(1)] factors_named(2) [OF f(2)]
        factors_named(3) [OF f(3)] factors_named(4) [OF f(7)] factors_named(5) [OF f(9)] factors_named(6))
  have d: "distinct ?ns" using m(2) by (elim disjE) simp_all
  show ?thesis unfolding f(10) by (rule conjunct1 [OF named_concat [OF a d]])
qed


section \<open>Posture\<close>

lemma posture_bounds: "0 \<le> posture_score u v m i d" "posture_score u v m i d \<le> 100"
  by (simp_all add: posture_score_def)

lemma posture_antimono:
  assumes "u \<le> u'" "v \<le> v'" "m \<le> m'" "i \<le> i'" "d \<le> d'"
  shows "posture_score u' v' m' i' d' \<le> posture_score u v m i d"
proof -
  have "35/100 * u + 25/100 * v + 20/100 * m + 10/100 * i + 10/100 * d
      \<le> 35/100 * u' + 25/100 * v' + 20/100 * m' + 10/100 * i' + 10/100 * (d' :: rat)"
    using assms by (intro add_mono mult_left_mono) simp_all
  from round_even_mono [OF this] show ?thesis by (simp add: posture_score_def)
qed

text \<open>Marking keeps every stamp that is there, and stamps what it is given.\<close>

lemma mark_terms_spec:
  assumes "dget (sd s) ''posture_terms'' = Some (JObj m)" "mark_terms at_iso ts s = Inr s'"
  shows "\<exists>m'. dget (sd s') ''posture_terms'' = Some (JObj m') \<and> (\<forall>t v. dget m t = Some v \<longrightarrow> dget m' t = Some v)
     \<and> (\<forall>t \<in> set ts. dget m' t \<noteq> None) \<and> (\<forall>t. dget m t = None \<longrightarrow> dget m' t \<noteq> None \<longrightarrow> dget m' t = Some (JStr at_iso))
     \<and> (\<forall>k. k \<noteq> ''posture_terms'' \<longrightarrow> dget (sd s') k = dget (sd s) k)"
  using assms
proof (induction ts arbitrary: s m)
  case (Cons t ts)
  let ?m = "if dget m t \<noteq> None then m else dset m t (JStr at_iso)"
  obtain s1 where s1: "async_mark_posture_term_computed t at_iso s = Inr s1" "mark_terms at_iso ts s1 = Inr s'"
    using Cons.prems(2) by (auto simp: bind_res_Inr)
  have m1: "dget (sd s1) ''posture_terms'' = Some (JObj ?m)" "\<And>k. k \<noteq> ''posture_terms'' \<Longrightarrow> dget (sd s1) k = dget (sd s) k"
    using s1(1) Cons.prems(1)
    by (auto simp: async_mark_posture_term_computed_def item_def set_field_def schedule_save_def dict_simps split: if_splits)
  from Cons.IH [OF m1(1) s1(2)] obtain m' where m': "dget (sd s') ''posture_terms'' = Some (JObj m')"
    "\<forall>t v. dget ?m t = Some v \<longrightarrow> dget m' t = Some v" "\<forall>t \<in> set ts. dget m' t \<noteq> None"
    "\<forall>t. dget ?m t = None \<longrightarrow> dget m' t \<noteq> None \<longrightarrow> dget m' t = Some (JStr at_iso)"
    "\<forall>k. k \<noteq> ''posture_terms'' \<longrightarrow> dget (sd s') k = dget (sd s1) k" by blast
  have dm: "dget ?m x = (if x = t \<and> dget m t = None then Some (JStr at_iso) else dget m x)" for x by (simp add: dict_simps)
  note m2 = m'(2,4) [unfolded dm]
  have "dget m' x = Some v" if "dget m x = Some v" for x v using m2(1) that by (cases "x = t") auto
  moreover have "dget m' t \<noteq> None" using m2(1) by (cases "dget m t") auto
  moreover have "dget m' x = Some (JStr at_iso)" if "dget m x = None" "dget m' x \<noteq> None" for x
    using m2 that by (cases "x = t") auto
  ultimately show ?case using m'(1,3,5) m1(2) by (intro exI [of _ m']) auto
qed simp

lemma last_keep_newest: "0 < n \<Longrightarrow> last (keep_newest n (xs @ [x])) = x"
  by (simp add: keep_newest_def)

lemma snapshot_spec:
  assumes "dget (sd s) ''posture_history'' = Some (JArr h)" "maybe_append_posture_snapshot today score grade s = Inr s'"
  shows "\<exists>h' d. dget (sd s') ''posture_history'' = Some (JArr (h' @ [JObj d])) \<and> dget_null d ''date'' = JStr today
     \<and> (h' @ [JObj d] = h \<or> d = [(''date'', JStr today), (''score'', JInt score), (''grade'', JStr grade)])
     \<and> (\<forall>k. k \<noteq> ''posture_history'' \<longrightarrow> dget (sd s') k = dget (sd s) k)"
proof -
  let ?d = "[(''date'', JStr today), (''score'', JInt score), (''grade'', JStr grade)]"
  obtain same where same: "(if h = [] then Inr False
      else bind_res (as_table AttributeError (last h)) (\<lambda>d. Inr (dget_null d ''date'' = JStr today))) = Inr same"
    "(if same then Inr s else async_append_posture_snapshot (JObj ?d) POSTURE_MAX_DAYS s) = Inr s'"
    using assms by (auto simp: maybe_append_posture_snapshot_def item_def bind_res_Inr)
  show ?thesis
  proof (cases same)
    case True
    then have "h \<noteq> []" using same(1) by (auto split: if_splits)
    then obtain d where d: "last h = JObj d" "dget_null d ''date'' = JStr today"
      using same(1) True by (auto simp: bind_res_Inr as_table_Inr)
    then have "h = butlast h @ [JObj d]" using \<open>h \<noteq> []\<close> by (metis append_butlast_last_id)
    then show ?thesis using True same(2) assms(1) d(2) by (intro exI [of _ "butlast h"] exI [of _ d]) simp
  next
    case False
    let ?h = "keep_newest POSTURE_MAX_DAYS (h @ [JObj ?d])"
    have "?h \<noteq> []" "last ?h = JObj ?d" by (simp_all add: POSTURE_MAX_DAYS_def last_keep_newest keep_newest_def)
    then have "?h = butlast ?h @ [JObj ?d]" by (metis append_butlast_last_id)
    moreover have "dget (sd s') ''posture_history'' = Some (JArr ?h)" "\<And>k. k \<noteq> ''posture_history'' \<Longrightarrow> dget (sd s') k = dget (sd s) k"
      using False same(2) assms(1)
      by (auto simp: async_append_posture_snapshot_def item_def set_field_def schedule_save_def dict_simps)
    ultimately show ?thesis by (intro exI [of _ "butlast ?h"] exI [of _ ?d]) (simp add: dget_default_def)
  qed
qed


section \<open>Witnesses\<close>

definition w_renv :: risk_env where
  "w_renv = \<lparr>rk_parse = (\<lambda>_. Some (Aware 0)), rk_half = (\<lambda>x. if x = 0 then 1 else 1 / 2), rk_global = (\<lambda>_. Some True)\<rparr>"

definition w_boss :: dict where
  "w_boss = [(''id'', JStr ''u1''), (''is_admin'', JBool True), (''is_active'', JBool True), (''mfa_enabled'', JBool False),
     (''llat_count'', JInt 2), (''credentials_count'', JInt 1), (''refresh_token_count'', JInt 3)]"

definition w_seen :: dict where
  "w_seen = [(''rule_id'', JStr ''new_ip_login''), (''user_id'', JStr ''u1''), (''severity'', JStr ''medium''),
     (''status'', JStr ''open''), (''ts'', JStr ''2026-03-01T10:00:00+00:00''), (''ip'', JStr ''203.0.113.9'')]"

definition runs :: "'a res \<Rightarrow> bool" where
  "runs r = (case r of Inl _ \<Rightarrow> False | Inr _ \<Rightarrow> True)"

lemma runsE: "runs r \<Longrightarrow> (\<And>x. r = Inr x \<Longrightarrow> P) \<Longrightarrow> P"
  by (cases r) (auto simp: runs_def)

lemma w_risk_runs: "runs (compute_user_risk w_renv new_store 0 w_boss [w_seen])"
  by code_simp


lemma w_posture_runs: "runs (compute_posture w_renv 0 ''2026-03-01T10:00:00+00:00'' ''2026-03-01'' [w_boss] new_store)"
  by code_simp


end
