(* ===== verification/Spec2Isabelle.thy ===== *)
theory Spec2Isabelle
  imports AuditTheorems StoreTheorems ExternalTheorems FirewallTheorems SyslogTheorems ReceiverTheorems
    ProbeTheorems MfaPolicy LedgerTheorems WatchdogTheorems DetectionTheorems RiskTheorems
begin

text \<open>
  A model of HA SOC, the Home Assistant integration under \<open>src/custom_components/ha_soc\<close>, and the
  theorems that make its core correct. The rest of this text is a map of the development.

  \<^bold>\<open>The program.\<close> HA SOC watches a Home Assistant installation. What happens is written into an
  audit log of hash-chained JSON lines (\<open>audit.py\<close>); everything else it knows is one JSON document in
  memory, saved with a delay (\<open>store.py\<close>), and a private file of secrets (\<open>secrets_store.py\<close>). An
  hourly pass of detection rules queries the log and writes rows into the store (\<open>detections.py\<close>),
  from which users and the installation are scored (\<open>risk.py\<close>). Records leave through a syslog
  exporter (\<open>syslog_export.py\<close>); lines of other devices are received by the Probe (\<open>syslog_receiver.py\<close>). Records of other tools come in through a service that verifies their
  own chains (\<open>external_audit.py\<close>). An add-on, the Probe, polls for its configuration and for firewall
  rulesets to test, and reports back (\<open>probe.py\<close>, \<open>firewall.py\<close>, \<open>snmp.py\<close>, \<open>netscan.py\<close>); it is paired by
  a secret pinned at its first call. A watchdog restarts or stops add-ons over their limits
  (\<open>resource_watchdog.py\<close>, \<open>containers.py\<close>), a policy deactivates administrators without MFA
  (\<open>mfa_policy.py\<close> over \<open>users.py\<close>), and a ledger compares the UniFi configuration with an accepted
  baseline (\<open>config_ledger.py\<close>).

  \<^bold>\<open>How Python is modelled.\<close> A function that can raise returns \<open>error + 'a\<close> (\<open>res\<close>, \<open>Prelude\<close>), with a
  constructor of \<open>error\<close> for each exception class that some caller tells apart. Text is a list of
  characters below 256. A value of JSON is a \<open>json\<close> and a dict an association list in insertion
  order (\<open>Json\<close>, \<open>PyDict\<close>); \<open>dumps\<close> and \<open>loads\<close> are defined, the parser with fuel of two units per
  character, which is proved to be enough for every text \<open>dumps\<close> gives (\<open>parse_value_fuel\<close>). Integers are
  unbounded, as in Python; \<open>int(x)\<close> is \<open>PyInt\<close>. Arithmetic on floats is exact on rationals
  (\<open>PyNum\<close>), save the two places where binary64 decides what is written: \<open>int\<close> of a float literal
  and the millisecond time stamp of CEF, which round as the hardware does. A datetime is a number of microseconds, with
  or without an offset. What is not in the repository is an argument: SHA-256 (\<open>H\<close>), the parsing and
  printing of times, \<open>ipaddress\<close>, \<open>0.5 ** x\<close>, clocks, Home Assistant's auth manager and \<open>Store\<close>, the
  Supervisor, the file system's failures, the overview of the UniFi client. Nothing is assumed of
  SHA-256: theorems that need it exhibit a collision in their conclusion instead.

  \<^bold>\<open>The audit log.\<close> \<open>AuditRedact\<close> redacts and coerces payloads; \<open>AuditDisk\<close> is the directory of day files
  and segments with every way an append can fail; \<open>AuditLog\<close> is the class: \<open>async_log\<close>,
  \<open>_prepare_buffered\<close>, \<open>_commit_written\<close>, \<open>_sync_flush\<close>, start-up and recovery; \<open>AuditVerify\<close> and
  \<open>AuditQuery\<close> are its readers. \<open>AuditChain\<close> holds the chain as such, in the locale \<open>digest_chain\<close>, which
  \<open>AuditChain\<close> interprets for the log (\<open>audit\<close>) and \<open>ExternalAudit\<close> for the sources (\<open>external\<close>).
  \<open>AuditFlush\<close> proves what a flush does to a directory, and \<open>AuditSys\<close> makes a transition system of the
  event loop and the executor (\<open>audit_step\<close>), with the invariant that gives the properties of
  \<open>AuditTheorems\<close>: conservation of records, verification after a flush, the bound of the buffer, and
  complete queries. The run starts from an initialised log; a directory left by a crash is the
  subject of the recovery lemmas, which hold for \<open>repair\<close> and \<open>load\<close> by themselves.

  \<^bold>\<open>The store.\<close> \<open>Store\<close> has its operations, \<open>StoreCmd\<close> the command datatype with \<open>exec\<close> and the shape every
  command keeps, \<open>StoreProps\<close> what commands leave alone, \<open>StoreDisk\<close> saving, loading, migration and the
  move of the syslog ring, \<open>SecretStore\<close> the secrets. \<open>StoreTheorems\<close> states what other components rely
  on: no exception, heads and decisions that are kept, retention, saving, restart.

  \<^bold>\<open>The syslog export.\<close> \<open>SyslogFormat\<close> has the three formats, \<open>SyslogExport\<close> the queue and its worker.
  The locale \<open>lossy_queue\<close> is the abstract queue; it is interpreted for a worker that is not restarted
  (\<open>working\<close>, in order) and for one that is (\<open>restarting\<close>, up to rotation).

  \<^bold>\<open>The syslog receiver.\<close> \<open>SyslogReceiver\<close> is the parser of received lines, which the Probe and the integration
  share, the schema entries pass and the Probe's batches; the two regular expressions are written as
  scanners. \<open>ReceiverTime\<close> has the calendar, and \<open>ReceiverTheorems\<close> the properties, among them that the
  receiver reads what the exporter sends.

  \<^bold>\<open>Ingest, the Probe and the firewall.\<close> \<open>ExternalAudit\<close> is the ingest service. \<open>FirewallRules\<close> validates
  rules, \<open>Firewall\<close> is the test of a ruleset, and \<open>FirewallSys\<close> refines it to the few moves of a slot
  (\<open>slot_step\<close>). \<open>ProbeConfig\<close> and \<open>Probe\<close> are the endpoints. The locale \<open>secret_gate\<close> of \<open>ProbeTheorems\<close>
  states what pinning a secret at first use gives; it is interpreted for the add-on (\<open>pairing\<close>) and
  for each source (\<open>source_gate\<close>).

  \<^bold>\<open>Detection, risk, users, the ledger and the watchdog.\<close> \<open>Detections\<close> is the engine's machinery: a rule
  runs in a small monad over the log and the store (\<open>bind_d\<close>, \<open>each_d\<close>) that keeps what a rule
  did before it raised. \<open>DetectionRules\<close> and \<open>DetectionPass\<close> have the eleven rules and the pass,
  \<open>DetectionProps\<close> what no rule does, and \<open>DetectionTheorems\<close> follows one rule from the records the log
  accepted, through the query, to the rows in the store. \<open>Risk\<close> is the scoring. \<open>Users\<close>, \<open>MfaPolicy\<close>,
  \<open>ConfigLedger\<close> and \<open>Watchdog\<close> are the files of those names.

  \<^bold>\<open>How to read the properties.\<close> The theories named \<open>...Theorems\<close> and \<open>MfaPolicy\<close> state the properties,
  each after a text with its number, and apply them to a concrete case in a witness. A property
  that speaks of runs quantifies over every run of the transition system; one that speaks of an
  operation says what it returns on every branch.

  \<^bold>\<open>Bounds and fuel.\<close> The constants are those of \<open>const.py\<close> and the files. Fuel occurs in the JSON parser
  only (above). The other loops are recursive functions with a termination measure: the block-wise
  reading of a file from its end, the repair window, the merge of the streams in a verification, the
  sliding window of the detections, the scan of JSON text.

  \<^bold>\<open>Not modelled.\<close> The interleaving of a detection pass, of an evaluation of the watchdog or of a
  probe call with other tasks at their awaits: each is one step here. Text beyond Latin-1.
  Rounding of float arithmetic. The bus listeners of \<open>audit.py\<close>, which turn Home Assistant's
  objects into payloads (a payload is an arbitrary argument of \<open>async_log\<close>), and its counts per category. The WebSocket commands, the set-up of the
  integration and its entities are glue over Home Assistant and voluptuous. The clients and
  readers of UniFi, Pi-hole, Technitium, NVD, GitHub, HACS and device SSH, the health checks, the
  scanner, Entity ReMap, crash forensics and the dashboard views are searches and
  projections of data whose shape other programs decide, mostly for display. The terminal bridge,
  the Observe exporter and the dashboard file editor rest on aiohttp, gzip and the file system. The
  add-ons are separate processes written in shell, and the panel is TypeScript.
\<close>

end
